(* ===== verification/Vt_Prelude.thy ===== *)
theory Vt_Prelude
  imports Main "HOL-Library.Word" "HOL-Library.AList"
begin

text \<open>
  The prelude: results with errors and panics, the sequencing of operations over an explicit
  state, the frame and invariant interfaces, and the generic lemmas the components share.

  A Rust function that returns a \<open>Result\<close> or may panic is a value of type \<open>outcome\<close>:
  \<open>Ok x\<close>, \<open>Err e\<close>, or \<open>Panic m\<close> for the panics of the standard library (a string sliced inside a
  character, an overflowing \<open>Instant\<close>).  An operation with effects is a function from the state
  to its outcome and the state it leaves, also when it fails: an early return keeps the writes
  made before it.
\<close>

named_theorems io_simps \<open>how the sequencing combinators evaluate\<close>
named_theorems frame_intros \<open>operations stay within a frame relation\<close>

section \<open>Words and byte strings\<close>

type_synonym u8 = "8 word"
type_synonym u32 = "32 word"
type_synonym i32 = "32 word"
type_synonym u64 = "64 word"
type_synonym bytes = "u8 list"

section \<open>Outcomes\<close>

text \<open>
  \<open>Msg\<close> is an \<open>anyhow\<close> error (or an \<open>AgentError::Other\<close>) by its displayed message;
  \<open>AgentFailure\<close> is \<open>AgentError::Failure\<close>, which carries none.
\<close>

datatype error = Msg string | AgentFailure

datatype 'a outcome = Ok 'a | Err error | Panic string

fun is_ok :: "'a outcome \<Rightarrow> bool" where
  "is_ok (Ok _) = True"
| "is_ok _ = False"

lemma is_ok_iff: "is_ok r \<longleftrightarrow> (\<exists>x. r = Ok x)"
  by (cases r) auto

definition oc_bind :: "'a outcome \<Rightarrow> ('a \<Rightarrow> 'b outcome) \<Rightarrow> 'b outcome" where
  "oc_bind r f = (case r of Ok x \<Rightarrow> f x | Err e \<Rightarrow> Err e | Panic m \<Rightarrow> Panic m)"

lemma oc_bind_simps [simp, io_simps]:
  "oc_bind (Ok x) f = f x"
  "oc_bind (Err e) f = Err e"
  "oc_bind (Panic m) f = Panic m"
  by (simp_all add: oc_bind_def)

lemma oc_bind_eq_Ok: "oc_bind r f = Ok y \<longleftrightarrow> (\<exists>x. r = Ok x \<and> f x = Ok y)"
  by (cases r) simp_all

text \<open>\<open>ensure!\<close>: the error when the condition fails.\<close>

definition ensure :: "bool \<Rightarrow> error \<Rightarrow> unit outcome" where
  "ensure b e = (if b then Ok () else Err e)"

lemma ensure_simps [simp, io_simps]: "ensure True e = Ok ()" "ensure False e = Err e"
  by (simp_all add: ensure_def)

text \<open>The results of library calls, \<open>Inl\<close> with the displayed error, as outcomes.\<close>

definition of_sum :: "(string \<Rightarrow> error) \<Rightarrow> string + 'a \<Rightarrow> 'a outcome" where
  "of_sum f r = (case r of Inl m \<Rightarrow> Err (f m) | Inr x \<Rightarrow> Ok x)"

lemma of_sum_simps [simp, io_simps]:
  "of_sum f (Inl m) = Err (f m)"
  "of_sum f (Inr x) = Ok x"
  by (simp_all add: of_sum_def)

lemma of_sum_eq_Ok [simp]: "of_sum f r = Ok x \<longleftrightarrow> r = Inr x"
  by (cases r) simp_all

lemma of_sum_no_panic [simp]: "of_sum f r \<noteq> Panic m"
  by (cases r) simp_all

section \<open>Sequencing over a state\<close>

type_synonym ('s, 'a) io = "'s \<Rightarrow> 'a outcome \<times> 's"

definition io_ret :: "'a \<Rightarrow> ('s, 'a) io" where
  "io_ret x = (\<lambda>s. (Ok x, s))"

definition io_fail :: "error \<Rightarrow> ('s, 'a) io" where
  "io_fail e = (\<lambda>s. (Err e, s))"

definition io_of :: "'a outcome \<Rightarrow> ('s, 'a) io" where
  "io_of r = (\<lambda>s. (r, s))"

definition io_get :: "('s \<Rightarrow> 'a) \<Rightarrow> ('s, 'a) io" where
  "io_get f = (\<lambda>s. (Ok (f s), s))"

definition io_upd :: "('s \<Rightarrow> 's) \<Rightarrow> ('s, unit) io" where
  "io_upd f = (\<lambda>s. (Ok (), f s))"

definition io_bind :: "('s, 'a) io \<Rightarrow> ('a \<Rightarrow> ('s, 'b) io) \<Rightarrow> ('s, 'b) io" where
  "io_bind m f = (\<lambda>s. case m s of
      (Ok x, t) \<Rightarrow> f x t
    | (Err e, t) \<Rightarrow> (Err e, t)
    | (Panic p, t) \<Rightarrow> (Panic p, t))"

definition io_seq :: "('s, 'a) io \<Rightarrow> ('s, 'b) io \<Rightarrow> ('s, 'b) io" where
  "io_seq m n = io_bind m (\<lambda>_. n)"

text \<open>
  \<open>io_attempt\<close> turns an error into a value, for \<open>unwrap_or_default\<close>, \<open>.ok()\<close>, \<open>let _ =\<close> and
  \<open>match\<close> on a result; a panic is not caught.  \<open>io_context\<close> is \<open>anyhow\<close>'s \<open>context\<close>: the message
  displayed is the outermost one.
\<close>

definition io_attempt :: "('s, 'a) io \<Rightarrow> ('s, error + 'a) io" where
  "io_attempt m = (\<lambda>s. case m s of
      (Ok x, t) \<Rightarrow> (Ok (Inr x), t)
    | (Err e, t) \<Rightarrow> (Ok (Inl e), t)
    | (Panic p, t) \<Rightarrow> (Panic p, t))"

definition io_or :: "'a \<Rightarrow> ('s, 'a) io \<Rightarrow> ('s, 'a) io" where
  "io_or d m = (\<lambda>s. case m s of
      (Ok x, t) \<Rightarrow> (Ok x, t)
    | (Err e, t) \<Rightarrow> (Ok d, t)
    | (Panic p, t) \<Rightarrow> (Panic p, t))"

definition io_map_err :: "(error \<Rightarrow> error) \<Rightarrow> ('s, 'a) io \<Rightarrow> ('s, 'a) io" where
  "io_map_err h m = (\<lambda>s. case m s of
      (Ok x, t) \<Rightarrow> (Ok x, t)
    | (Err e, t) \<Rightarrow> (Err (h e), t)
    | (Panic p, t) \<Rightarrow> (Panic p, t))"

definition io_context :: "string \<Rightarrow> ('s, 'a) io \<Rightarrow> ('s, 'a) io" where
  "io_context msg m = io_map_err (\<lambda>_. Msg msg) m"

definition io_when :: "bool \<Rightarrow> ('s, unit) io \<Rightarrow> ('s, unit) io" where
  "io_when b m = (if b then m else io_ret ())"

lemma io_prim_simps [simp, io_simps]:
  "io_ret x s = (Ok x, s)"
  "io_fail e s = (Err e, s)"
  "io_of r s = (r, s)"
  "io_get f s = (Ok (f s), s)"
  "io_upd h s = (Ok (), h s)"
  by (simp_all add: io_ret_def io_fail_def io_of_def io_get_def io_upd_def)

lemma io_bind_eval [io_simps]:
  "m s = (Ok x, t) \<Longrightarrow> io_bind m f s = f x t"
  "m s = (Err e, t) \<Longrightarrow> io_bind m f s = (Err e, t)"
  "m s = (Panic p, t) \<Longrightarrow> io_bind m f s = (Panic p, t)"
  by (simp_all add: io_bind_def)

lemma io_bind_prim [simp, io_simps]:
  "io_bind (io_ret x) f s = f x s"
  "io_bind (io_fail e) f s = (Err e, s)"
  "io_bind (io_get g) f s = f (g s) s"
  "io_bind (io_upd h) f' s = f' () (h s)"
  "io_bind (io_of (Ok x)) f s = f x s"
  "io_bind (io_of (Err e)) f s = (Err e, s)"
  "io_bind (io_of (Panic p)) f s = (Panic p, s)"
  by (simp_all add: io_bind_def)

lemma io_seq_eval [simp, io_simps]: "io_seq m n s = io_bind m (\<lambda>_. n) s"
  by (simp add: io_seq_def)

lemma io_when_simps [simp, io_simps]: "io_when True m = m" "io_when False m = io_ret ()"
  by (simp_all add: io_when_def)

lemma io_bind_assoc: "io_bind (io_bind m f) g = io_bind m (\<lambda>x. io_bind (f x) g)"
  by (rule ext) (simp add: io_bind_def split: prod.splits outcome.splits)

lemma io_bind_ret: "io_bind (io_ret x) f = f x"
  by (rule ext) simp

lemma io_bind_eq_Ok:
  "io_bind m f s = (Ok y, u) \<longleftrightarrow> (\<exists>x t. m s = (Ok x, t) \<and> f x t = (Ok y, u))"
  by (auto simp: io_bind_def split: prod.splits outcome.splits)

lemma io_bind_OkE:
  assumes "io_bind m f s = (Ok y, u)"
  obtains x t where "m s = (Ok x, t)" and "f x t = (Ok y, u)"
  using assms by (auto simp: io_bind_eq_Ok)

lemma io_attempt_eval [io_simps]:
  "m s = (Ok x, t) \<Longrightarrow> io_attempt m s = (Ok (Inr x), t)"
  "m s = (Err e, t) \<Longrightarrow> io_attempt m s = (Ok (Inl e), t)"
  "m s = (Panic p, t) \<Longrightarrow> io_attempt m s = (Panic p, t)"
  by (simp_all add: io_attempt_def)

lemma io_or_eval [io_simps]:
  "m s = (Ok x, t) \<Longrightarrow> io_or d m s = (Ok x, t)"
  "m s = (Err e, t) \<Longrightarrow> io_or d m s = (Ok d, t)"
  "m s = (Panic p, t) \<Longrightarrow> io_or d m s = (Panic p, t)"
  by (simp_all add: io_or_def)

lemma io_map_err_eval [io_simps]:
  "m s = (Ok x, t) \<Longrightarrow> io_map_err h m s = (Ok x, t)"
  "m s = (Err e, t) \<Longrightarrow> io_map_err h m s = (Err (h e), t)"
  "m s = (Panic p, t) \<Longrightarrow> io_map_err h m s = (Panic p, t)"
  by (simp_all add: io_map_err_def)

lemma io_context_eval [io_simps]:
  "m s = (Ok x, t) \<Longrightarrow> io_context msg m s = (Ok x, t)"
  "m s = (Err e, t) \<Longrightarrow> io_context msg m s = (Err (Msg msg), t)"
  "m s = (Panic p, t) \<Longrightarrow> io_context msg m s = (Panic p, t)"
  by (simp_all add: io_context_def io_map_err_def)

lemma io_map_err_eq_Ok [simp]: "io_map_err h m s = (Ok x, t) \<longleftrightarrow> m s = (Ok x, t)"
  by (auto simp: io_map_err_def split: prod.splits outcome.splits)

lemma io_context_eq_Ok [simp]: "io_context msg m s = (Ok x, t) \<longleftrightarrow> m s = (Ok x, t)"
  by (simp add: io_context_def)

lemma io_attempt_eq_Ok:
  "io_attempt m s = (Ok r, t) \<longleftrightarrow>
     (case r of Inr x \<Rightarrow> m s = (Ok x, t) | Inl e \<Rightarrow> m s = (Err e, t))"
  by (auto simp: io_attempt_def split: prod.splits outcome.splits sum.splits)

text \<open>A loop over a list that stops at the first error, and one that collects results.\<close>

fun io_mapM :: "('a \<Rightarrow> ('s, 'b) io) \<Rightarrow> 'a list \<Rightarrow> ('s, 'b list) io" where
  "io_mapM f [] = io_ret []"
| "io_mapM f (x # xs) = io_bind (f x) (\<lambda>y. io_bind (io_mapM f xs) (\<lambda>ys. io_ret (y # ys)))"

fun oc_mapM :: "('a \<Rightarrow> 'b outcome) \<Rightarrow> 'a list \<Rightarrow> 'b list outcome" where
  "oc_mapM f [] = Ok []"
| "oc_mapM f (x # xs) = oc_bind (f x) (\<lambda>y. oc_bind (oc_mapM f xs) (\<lambda>ys. Ok (y # ys)))"

lemma oc_mapM_Ok_length: "oc_mapM f xs = Ok ys \<Longrightarrow> length ys = length xs"
  by (induction xs arbitrary: ys) (auto simp: oc_bind_eq_Ok)

lemma oc_mapM_all2: "oc_mapM f xs = Ok ys \<longleftrightarrow> list_all2 (\<lambda>x y. f x = Ok y) xs ys"
proof (induction xs arbitrary: ys)
  case Nil
  then show ?case by auto
next
  case (Cons x xs)
  then show ?case by (cases ys) (auto simp: oc_bind_eq_Ok)
qed

lemma oc_mapM_total: "(\<And>x. x \<in> set xs \<Longrightarrow> f x = Ok (g x)) \<Longrightarrow> oc_mapM f xs = Ok (map g xs)"
  by (induction xs) simp_all

section \<open>Frames: what an operation leaves unchanged\<close>

text \<open>
  A frame is a reflexive and transitive relation between the state before and the state after
  (the files are the same, the agent's keys are the same, time does not decrease).  The locale
  proves once that sequencing stays within a frame; each component interprets it.
\<close>

definition within :: "('s \<Rightarrow> 's \<Rightarrow> bool) \<Rightarrow> ('s, 'a) io \<Rightarrow> bool" where
  "within R m \<longleftrightarrow> (\<forall>s. R s (snd (m s)))"

lemma withinD: "within R m \<Longrightarrow> m s = (r, t) \<Longrightarrow> R s t"
  by (metis within_def snd_conv)

lemma withinI: "(\<And>s r t. m s = (r, t) \<Longrightarrow> R s t) \<Longrightarrow> within R m"
  by (metis within_def prod.collapse)

locale frame_rel =
  fixes R :: "'s \<Rightarrow> 's \<Rightarrow> bool"
  assumes frame_refl: "R s s"
    and frame_trans: "R s t \<Longrightarrow> R t u \<Longrightarrow> R s u"
begin

lemma ret: "within R (io_ret x)"
  by (simp add: within_def frame_refl)

lemma fail: "within R (io_fail e)"
  by (simp add: within_def frame_refl)

lemma of_outcome: "within R (io_of r)"
  by (simp add: within_def frame_refl)

lemma get: "within R (io_get f)"
  by (simp add: within_def frame_refl)

lemma upd: "(\<And>s. R s (h s)) \<Longrightarrow> within R (io_upd h)"
  by (simp add: within_def)

lemma bind: "within R m \<Longrightarrow> (\<And>x. within R (f x)) \<Longrightarrow> within R (io_bind m f)"
  by (rule withinI)
    (auto simp: io_bind_def frame_refl split: prod.splits outcome.splits
      dest: withinD intro: frame_trans)

lemma seq: "within R m \<Longrightarrow> within R n \<Longrightarrow> within R (io_seq m n)"
  by (simp add: io_seq_def bind)

lemma attempt: "within R m \<Longrightarrow> within R (io_attempt m)"
  by (rule withinI) (auto simp: io_attempt_def split: prod.splits outcome.splits dest: withinD)

lemma or_default: "within R m \<Longrightarrow> within R (io_or d m)"
  by (rule withinI) (auto simp: io_or_def split: prod.splits outcome.splits dest: withinD)

lemma map_err: "within R m \<Longrightarrow> within R (io_map_err h m)"
  by (rule withinI) (auto simp: io_map_err_def split: prod.splits outcome.splits dest: withinD)

lemma context_err: "within R m \<Longrightarrow> within R (io_context msg m)"
  by (simp add: io_context_def map_err)

lemma when_cond: "within R m \<Longrightarrow> within R (io_when b m)"
  by (simp add: io_when_def ret)

lemma mapM: "(\<And>x. within R (f x)) \<Longrightarrow> within R (io_mapM f xs)"
  by (induction xs) (simp_all add: ret bind)

lemma if_cond: "within R m \<Longrightarrow> within R n \<Longrightarrow> within R (if b then m else n)"
  by simp

lemma opt_case: "within R m \<Longrightarrow> (\<And>x. within R (f x)) \<Longrightarrow> within R (case_option m f v)"
  by (cases v) simp_all

lemma sum_case: "(\<And>x. within R (f x)) \<Longrightarrow> (\<And>x. within R (g x)) \<Longrightarrow> within R (case_sum f g v)"
  by (cases v) simp_all

lemma pair_case: "(\<And>x y. within R (f x y)) \<Longrightarrow> within R (case_prod f v)"
  by (cases v) simp

lemma let_in: "(\<And>x. within R (f x)) \<Longrightarrow> within R (Let v f)"
  by simp

lemmas all = ret fail of_outcome get bind seq attempt or_default map_err context_err when_cond mapM
  if_cond opt_case sum_case pair_case let_in

end

section \<open>Transition systems and invariants\<close>

locale transition_system =
  fixes start :: "'s \<Rightarrow> bool"
    and step :: "'s \<Rightarrow> 'l \<Rightarrow> 's"
    and inv :: "'s \<Rightarrow> bool"
  assumes start_inv: "start s \<Longrightarrow> inv s"
    and step_inv: "inv s \<Longrightarrow> inv (step s l)"
begin

lemma run_inv: "inv s \<Longrightarrow> inv (foldl step s ls)"
  by (induction ls arbitrary: s) (simp_all add: step_inv)

lemma reachable_inv: "start s \<Longrightarrow> inv (foldl step s ls)"
  by (simp add: run_inv start_inv)

end

section \<open>Codecs\<close>

locale codec =
  fixes enc :: "'a \<Rightarrow> 'b"
    and dec :: "'b \<Rightarrow> 'c"
    and good :: "'a \<Rightarrow> bool"
    and repr :: "'a \<Rightarrow> 'c"
  assumes dec_enc: "good x \<Longrightarrow> dec (enc x) = repr x"
    and repr_inj: "good x \<Longrightarrow> good y \<Longrightarrow> repr x = repr y \<Longrightarrow> x = y"
begin

lemma enc_inj: "good x \<Longrightarrow> good y \<Longrightarrow> enc x = enc y \<Longrightarrow> x = y"
  by (metis repr_inj dec_enc)

lemma inj_on_good: "inj_on enc (Collect good)"
  by (rule inj_onI) (auto intro: enc_inj)

end

section \<open>Lists\<close>

lemma dropWhile_length_le: "length (dropWhile P xs) \<le> length xs"
  by (induction xs) auto

lemma takeWhile_append_stop:
  "\<forall>x \<in> set xs. P x \<Longrightarrow> \<not> P y \<Longrightarrow> takeWhile P (xs @ y # ys) = xs"
  by (induction xs) auto

lemma dropWhile_append_stop:
  "\<forall>x \<in> set xs. P x \<Longrightarrow> \<not> P y \<Longrightarrow> dropWhile P (xs @ y # ys) = y # ys"
  by (induction xs) auto

end
