(* ===== verification/Vt_Strings.thy ===== *)
theory Vt_Strings
  imports Vt_Prelude
begin

text \<open>
  Rust's \<open>String\<close> and \<open>str\<close>, as far as the program uses them.  A string is the list of its UTF-8
  bytes, one \<open>char\<close> per byte, so that \<open>length\<close> is Rust's \<open>len\<close> and an index is a byte index.
  Slicing inside a character panics, as in Rust; operations on characters first split the bytes
  with \<open>utf8_chars\<close>.
\<close>

section \<open>Bytes and characters\<close>

definition byte_of :: "char \<Rightarrow> u8" where
  "byte_of c = word_of_nat (of_char c)"

definition char_of_byte :: "u8 \<Rightarrow> char" where
  "char_of_byte b = char_of (unat b)"

lemma unat_byte_of [simp]: "unat (byte_of c) = of_char c"
  by (simp add: byte_of_def unat_of_nat take_bit_nat_eq_self_iff)

lemma char_of_byte_of [simp]: "char_of_byte (byte_of c) = c"
  by (simp add: char_of_byte_def)

lemma byte_of_char_of [simp]: "byte_of (char_of_byte b) = b"
proof -
  have "unat b < 256"
    using unsigned_less [of b] by simp
  then have "of_char (char_of (unat b) :: char) = unat b"
    by simp
  then show ?thesis
    by (simp add: byte_of_def char_of_byte_def)
qed

definition as_bytes :: "string \<Rightarrow> bytes" where
  "as_bytes s = map byte_of s"

definition of_bytes :: "bytes \<Rightarrow> string" where
  "of_bytes bs = map char_of_byte bs"

lemma of_bytes_as_bytes [simp]: "of_bytes (as_bytes s) = s"
  by (simp add: of_bytes_def as_bytes_def o_def)

lemma as_bytes_of_bytes [simp]: "as_bytes (of_bytes bs) = bs"
  by (simp add: of_bytes_def as_bytes_def o_def)

lemma length_as_bytes [simp]: "length (as_bytes s) = length s"
  by (simp add: as_bytes_def)

lemma as_bytes_append [simp]: "as_bytes (s @ t) = as_bytes s @ as_bytes t"
  by (simp add: as_bytes_def)

lemma as_bytes_inject [simp]: "as_bytes s = as_bytes t \<longleftrightarrow> s = t"
  by (metis of_bytes_as_bytes)

section \<open>UTF-8\<close>

definition tail_byte :: "u8 \<Rightarrow> bool" where
  "tail_byte b \<longleftrightarrow> 0x80 \<le> b \<and> b \<le> 0xBF"

text \<open>
  The well-formed byte sequences of the Unicode standard (no overlong forms, no surrogates): the
  first byte gives the length of the character, and the second is restricted for some of them.
\<close>

definition utf8_len :: "u8 \<Rightarrow> nat" where
  "utf8_len a =
     (if a \<le> 0x7F then 1
      else if 0xC2 \<le> a \<and> a \<le> 0xDF then 2
      else if 0xE0 \<le> a \<and> a \<le> 0xEF then 3
      else if 0xF0 \<le> a \<and> a \<le> 0xF4 then 4
      else 0)"

definition tails_ok :: "u8 \<Rightarrow> bytes \<Rightarrow> bool" where
  "tails_ok a cs \<longleftrightarrow> list_all tail_byte cs \<and>
     (case cs of
        [] \<Rightarrow> True
      | b # _ \<Rightarrow>
          (a = 0xE0 \<longrightarrow> 0xA0 \<le> b) \<and> (a = 0xED \<longrightarrow> b \<le> 0x9F) \<and>
          (a = 0xF0 \<longrightarrow> 0x90 \<le> b) \<and> (a = 0xF4 \<longrightarrow> b \<le> 0x8F))"

function utf8_valid :: "bytes \<Rightarrow> bool" where
  "utf8_valid [] = True"
| "utf8_valid (a # bs) =
     (utf8_len a \<noteq> 0 \<and> utf8_len a \<le> Suc (length bs)
      \<and> tails_ok a (take (utf8_len a - 1) bs)
      \<and> utf8_valid (drop (utf8_len a - 1) bs))"
  by pat_completeness auto
termination
  by (relation "measure length") auto

lemma utf8_len_ascii: "a \<le> 0x7F \<Longrightarrow> utf8_len a = 1"
  by (simp add: utf8_len_def)

lemma utf8_len_tail: "tail_byte a \<Longrightarrow> utf8_len a = 0"
proof -
  assume "tail_byte a"
  then have "128 \<le> unat a" "unat a \<le> 191"
    by (simp_all add: tail_byte_def word_le_nat_alt)
  then show "utf8_len a = 0"
    by (simp add: utf8_len_def word_le_nat_alt)
qed

lemma utf8_valid_head_not_tail: "utf8_valid (a # bs) \<Longrightarrow> \<not> tail_byte a"
  using utf8_len_tail by auto

lemma utf8_valid_ascii_Cons: "a \<le> 0x7F \<Longrightarrow> utf8_valid (a # bs) = utf8_valid bs"
  by (simp add: utf8_len_ascii tails_ok_def)

definition rust_str :: "string \<Rightarrow> bool" where
  "rust_str s \<longleftrightarrow> utf8_valid (as_bytes s)"

text \<open>\<open>String::from_utf8\<close> and \<open>std::str::from_utf8\<close>.\<close>

definition from_utf8 :: "bytes \<Rightarrow> string option" where
  "from_utf8 bs = (if utf8_valid bs then Some (of_bytes bs) else None)"

lemma from_utf8_as_bytes: "rust_str s \<Longrightarrow> from_utf8 (as_bytes s) = Some s"
  by (simp add: from_utf8_def rust_str_def)

lemma from_utf8_rust_str: "from_utf8 bs = Some s \<Longrightarrow> rust_str s \<and> as_bytes s = bs"
  by (auto simp: from_utf8_def rust_str_def split: if_splits)

text \<open>
  The message of \<open>FromUtf8Error\<close>: where the valid prefix ends, and how many bytes of the next
  sequence were read before it went wrong (nothing more to read is its own message).
\<close>

fun tail_scan :: "u8 \<Rightarrow> nat \<Rightarrow> bytes \<Rightarrow> nat \<Rightarrow> nat option option" where
  "tail_scan a 0 bs k = None"
| "tail_scan a (Suc n) [] k = Some None"
| "tail_scan a (Suc n) (b # bs) k =
     (if tail_byte b \<and> (k = 1 \<longrightarrow> tails_ok a [b]) then tail_scan a n bs (Suc k) else Some (Some k))"

function utf8_error :: "nat \<Rightarrow> bytes \<Rightarrow> (nat \<times> nat option) option" where
  "utf8_error i [] = None"
| "utf8_error i (a # bs) =
     (if utf8_len a = 0 then Some (i, Some 1)
      else case tail_scan a (utf8_len a - 1) bs 1 of
        Some e \<Rightarrow> Some (i, e)
      | None \<Rightarrow> utf8_error (i + utf8_len a) (drop (utf8_len a - 1) bs))"
  by pat_completeness auto
termination
  by (relation "measure (\<lambda>(i, bs). length bs)") auto

text \<open>\<open>from_utf8_lossy\<close>: each malformed part becomes the replacement character U+FFFD.\<close>

definition replacement_char :: bytes where
  "replacement_char = [0xEF, 0xBF, 0xBD]"

function lossy_bytes :: "bytes \<Rightarrow> bytes" where
  "lossy_bytes bs =
     (case utf8_error 0 bs of
        None \<Rightarrow> bs
      | Some (i, None) \<Rightarrow> take i bs @ replacement_char
      | Some (i, Some n) \<Rightarrow>
          if bs = [] then [] else take i bs @ replacement_char @ lossy_bytes (drop (max 1 (i + n)) bs))"
  by pat_completeness auto
termination
  by (relation "measure length") auto

declare lossy_bytes.simps [simp del]

definition from_utf8_lossy :: "bytes \<Rightarrow> string" where
  "from_utf8_lossy bs = of_bytes (lossy_bytes bs)"

definition ascii_char :: "char \<Rightarrow> bool" where
  "ascii_char c \<longleftrightarrow> byte_of c \<le> 0x7F"

lemma ascii_rust_str: "list_all ascii_char s \<Longrightarrow> rust_str s"
  by (induction s)
    (simp_all add: rust_str_def as_bytes_def ascii_char_def utf8_valid_ascii_Cons
      del: utf8_valid.simps(2))

lemma utf8_valid_append: "utf8_valid xs \<Longrightarrow> utf8_valid ys \<Longrightarrow> utf8_valid (xs @ ys)"
  by (induction xs rule: utf8_valid.induct) simp_all

lemma rust_str_append: "rust_str s \<Longrightarrow> rust_str t \<Longrightarrow> rust_str (s @ t)"
  by (simp add: rust_str_def utf8_valid_append)

text \<open>A continuation byte never starts a character.\<close>

definition is_cont :: "char \<Rightarrow> bool" where
  "is_cont c \<longleftrightarrow> tail_byte (byte_of c)"

lemma ascii_not_cont: "ascii_char c \<Longrightarrow> \<not> is_cont c"
proof -
  assume "ascii_char c"
  then have "byte_of c \<le> 0x7F" by (simp add: ascii_char_def)
  then have "\<not> 0x80 \<le> byte_of c" by unat_arith
  then show ?thesis by (simp add: is_cont_def tail_byte_def)
qed

text \<open>The characters of a string, each as its bytes.\<close>

function utf8_chars :: "string \<Rightarrow> string list" where
  "utf8_chars [] = []"
| "utf8_chars (c # cs) = (c # takeWhile is_cont cs) # utf8_chars (dropWhile is_cont cs)"
  by pat_completeness auto
termination
  by (relation "measure length") (auto simp: dropWhile_length_le less_Suc_eq_le)

lemma concat_utf8_chars [simp]: "concat (utf8_chars s) = s"
  by (induction s rule: utf8_chars.induct) simp_all

lemma utf8_chars_nonempty: "c \<in> set (utf8_chars s) \<Longrightarrow> c \<noteq> []"
  by (induction s rule: utf8_chars.induct) auto

lemma utf8_chars_ascii: "list_all ascii_char s \<Longrightarrow> utf8_chars s = map (\<lambda>c. [c]) s"
proof (induction s rule: utf8_chars.induct)
  case 1
  then show ?case by simp
next
  case (2 c cs)
  then have stop: "takeWhile is_cont cs = []" "dropWhile is_cont cs = cs"
    by (cases cs; simp add: ascii_not_cont)+
  with 2 show ?case by simp
qed

lemma length_utf8_chars: "length (utf8_chars s) \<le> length s"
proof (induction s rule: utf8_chars.induct)
  case 1
  then show ?case by simp
next
  case (2 c cs)
  then show ?case using dropWhile_length_le [of is_cont cs] by simp
qed

text \<open>The two readings of validity agree: an error is reported exactly on invalid bytes.\<close>

lemma tail_scan_later: "1 < k \<Longrightarrow>
    tail_scan a n bs k = None \<longleftrightarrow> n \<le> length bs \<and> list_all tail_byte (take n bs)"
proof (induction n arbitrary: bs k)
  case 0
  then show ?case by simp
next
  case (Suc n)
  then show ?case by (cases bs) auto
qed

lemma tail_scan_None:
  "tail_scan a n bs 1 = None \<longleftrightarrow> n \<le> length bs \<and> tails_ok a (take n bs)"
proof (cases n)
  case 0
  then show ?thesis by (simp add: tails_ok_def)
next
  case (Suc m)
  then show ?thesis by (cases bs) (auto simp: tail_scan_later tails_ok_def)
qed

lemma utf8_error_None: "utf8_error i bs = None \<longleftrightarrow> utf8_valid bs"
proof (induction i bs rule: utf8_error.induct)
  case (1 i)
  then show ?case by simp
next
  case (2 i a bs)
  show ?case
  proof (cases "utf8_len a = 0")
    case True
    then show ?thesis by simp
  next
    case False
    then have le: "utf8_len a - 1 \<le> length bs \<longleftrightarrow> utf8_len a \<le> Suc (length bs)" by auto
    show ?thesis
    proof (cases "tail_scan a (utf8_len a - 1) bs 1")
      case None
      with 2 False le show ?thesis using tail_scan_None [of a "utf8_len a - 1" bs] by simp
    next
      case (Some e)
      with False le show ?thesis using tail_scan_None [of a "utf8_len a - 1" bs] by auto
    qed
  qed
qed

section \<open>Slices\<close>

definition is_char_boundary :: "string \<Rightarrow> nat \<Rightarrow> bool" where
  "is_char_boundary s n \<longleftrightarrow>
     n = 0 \<or> n = length s \<or> (n < length s \<and> \<not> is_cont (s ! n))"

definition slice_to :: "string \<Rightarrow> nat \<Rightarrow> string outcome" where
  "slice_to s n = (if is_char_boundary s n then Ok (take n s) else Panic ''slice index'')"

definition slice_from :: "string \<Rightarrow> nat \<Rightarrow> string outcome" where
  "slice_from s n = (if is_char_boundary s n then Ok (drop n s) else Panic ''slice index'')"

text \<open>A valid string can be cut after an ASCII character.\<close>

lemma boundary_after_ascii:
  assumes "rust_str (c # cs)" and "ascii_char c"
  shows "is_char_boundary (c # cs) 1"
proof (cases cs)
  case Nil
  then show ?thesis by (simp add: is_char_boundary_def)
next
  case (Cons d ds)
  with assms have "utf8_valid (byte_of d # as_bytes ds)"
    by (simp add: rust_str_def as_bytes_def ascii_char_def utf8_valid_ascii_Cons
        del: utf8_valid.simps(2))
  then have "\<not> tail_byte (byte_of d)"
    by (rule utf8_valid_head_not_tail)
  with Cons show ?thesis
    by (simp add: is_char_boundary_def is_cont_def)
qed

section \<open>Searching and replacing\<close>

definition starts_with :: "string \<Rightarrow> string \<Rightarrow> bool" where
  "starts_with s p \<longleftrightarrow> take (length p) s = p"

lemma starts_with_append [simp]: "starts_with (p @ s) p"
  by (simp add: starts_with_def)

lemma starts_with_iff: "starts_with s p \<longleftrightarrow> (\<exists>t. s = p @ t)"
  by (metis append_eq_conv_conj append_take_drop_id starts_with_def)

fun contains :: "string \<Rightarrow> string \<Rightarrow> bool" where
  "contains [] p = (p = [])"
| "contains (c # cs) p = (starts_with (c # cs) p \<or> contains cs p)"

lemma contains_iff: "contains s p \<longleftrightarrow> (\<exists>u v. s = u @ p @ v)"
proof (induction s)
  case Nil
  then show ?case by auto
next
  case (Cons c cs)
  have "(\<exists>u v. c # cs = u @ p @ v) \<longleftrightarrow> starts_with (c # cs) p \<or> (\<exists>u v. cs = u @ p @ v)"
    by (auto simp: starts_with_iff Cons_eq_append_conv)
  with Cons show ?case by simp
qed

function str_replace_ne :: "string \<Rightarrow> string \<Rightarrow> string \<Rightarrow> string" where
  "str_replace_ne p r [] = []"
| "str_replace_ne p r (c # cs) =
     (if p \<noteq> [] \<and> starts_with (c # cs) p
      then r @ str_replace_ne p r (drop (length p) (c # cs))
      else c # str_replace_ne p r cs)"
  by pat_completeness auto
termination
  by (relation "measure (\<lambda>(p, r, s). length s)") (auto simp: neq_Nil_conv)

text \<open>\<open>str::replace\<close>; an empty pattern matches at every character boundary.\<close>

definition str_replace :: "string \<Rightarrow> string \<Rightarrow> string \<Rightarrow> string" where
  "str_replace s p r =
     (if p = [] then r @ concat (map (\<lambda>c. c @ r) (utf8_chars s)) else str_replace_ne p r s)"

lemma str_replace_absent: "p \<noteq> [] \<Longrightarrow> \<not> contains s p \<Longrightarrow> str_replace s p r = s"
proof -
  have "\<not> contains s p \<Longrightarrow> str_replace_ne p r s = s"
    by (induction s) auto
  then show "p \<noteq> [] \<Longrightarrow> \<not> contains s p \<Longrightarrow> str_replace s p r = s"
    by (simp add: str_replace_def)
qed

text \<open>\<open>split(c)\<close> on an ASCII character: always at least one piece.\<close>

fun split_on :: "char \<Rightarrow> string \<Rightarrow> string list" where
  "split_on d [] = [[]]"
| "split_on d (c # cs) =
     (if c = d then [] # split_on d cs
      else (case split_on d cs of [] \<Rightarrow> [[c]] | p # ps \<Rightarrow> (c # p) # ps))"

lemma split_on_nonempty [simp]: "split_on d s \<noteq> []"
  by (induction s) (auto split: list.splits)

fun join :: "string \<Rightarrow> string list \<Rightarrow> string" where
  "join sep [] = []"
| "join sep [x] = x"
| "join sep (x # y # xs) = x @ sep @ join sep (y # xs)"

lemma join_split_on: "join [d] (split_on d s) = s"
proof (induction s)
  case Nil
  then show ?case by simp
next
  case (Cons c cs)
  obtain p ps where "split_on d cs = p # ps"
    by (metis neq_Nil_conv split_on_nonempty)
  with Cons show ?case by (cases ps) auto
qed

lemma split_on_pieces: "p \<in> set (split_on d s) \<Longrightarrow> d \<notin> set p"
  by (induction s arbitrary: p) (auto split: if_splits list.splits)

lemma split_on_no_sep: "d \<notin> set s \<Longrightarrow> split_on d s = [s]"
  by (induction s) auto

lemma split_on_append: "d \<notin> set s \<Longrightarrow> split_on d (s @ d # t) = s # split_on d t"
  by (induction s) auto

text \<open>\<open>str::lines\<close>: the line feed, and a carriage return right before it, are dropped.\<close>

definition strip_cr :: "string \<Rightarrow> string" where
  "strip_cr l = (if l \<noteq> [] \<and> last l = CHR 0x0D then butlast l else l)"

definition str_lines :: "string \<Rightarrow> string list" where
  "str_lines s =
     (let ps = split_on (CHR 0x0A) s in
      map strip_cr (butlast ps) @ (if last ps = [] then [] else [last ps]))"

section \<open>White space, case, control characters\<close>

text \<open>The White\_Space characters of Unicode, by their bytes.\<close>

definition white_chars :: "nat list list" where
  "white_chars =
     [[9], [10], [11], [12], [13], [32], [0xC2, 0x85], [0xC2, 0xA0], [0xE1, 0x9A, 0x80],
      [0xE2, 0x80, 0x80], [0xE2, 0x80, 0x81], [0xE2, 0x80, 0x82], [0xE2, 0x80, 0x83],
      [0xE2, 0x80, 0x84], [0xE2, 0x80, 0x85], [0xE2, 0x80, 0x86], [0xE2, 0x80, 0x87],
      [0xE2, 0x80, 0x88], [0xE2, 0x80, 0x89], [0xE2, 0x80, 0x8A], [0xE2, 0x80, 0xA8],
      [0xE2, 0x80, 0xA9], [0xE2, 0x80, 0xAF], [0xE2, 0x81, 0x9F], [0xE3, 0x80, 0x80]]"

definition is_white :: "string \<Rightarrow> bool" where
  "is_white c \<longleftrightarrow> map of_char c \<in> set white_chars"

definition trim :: "string \<Rightarrow> string" where
  "trim s = concat (rev (dropWhile is_white (rev (dropWhile is_white (utf8_chars s)))))"

text \<open>\<open>char::is_control\<close>: the general category Cc, U+0000 to U+001F and U+007F to U+009F.\<close>

definition is_control :: "string \<Rightarrow> bool" where
  "is_control c =
     (case map of_char c of
        [a] \<Rightarrow> a < (32 :: nat) \<or> a = 127
      | [a, b] \<Rightarrow> a = 0xC2 \<and> 0x80 \<le> b \<and> b \<le> 0x9F
      | _ \<Rightarrow> False)"

text \<open>
  Lower case of the ASCII letters.  The words the program compares with after \<open>to_lowercase\<close>
  are ASCII and none contains \<open>k\<close>, the only ASCII letter that is the whole lower case of
  another character (the Kelvin sign), so on those comparisons it agrees with Rust's.
\<close>

definition lower_char :: "char \<Rightarrow> char" where
  "lower_char c =
     (let n = of_char c :: nat in if 65 \<le> n \<and> n \<le> 90 then char_of (n + 32) else c)"

definition lower_ascii :: "string \<Rightarrow> string" where
  "lower_ascii s = map lower_char s"

section \<open>Numbers\<close>

definition digit_char :: "nat \<Rightarrow> char" where
  "digit_char n = char_of (48 + n)"

fun show_nat :: "nat \<Rightarrow> string" where
  "show_nat n = (if n < 10 then [digit_char n] else show_nat (n div 10) @ [digit_char (n mod 10)])"

declare show_nat.simps [simp del]

definition utf8_error_text :: "bytes \<Rightarrow> string" where
  "utf8_error_text bs =
     (case utf8_error 0 bs of
        None \<Rightarrow> []
      | Some (i, None) \<Rightarrow> ''incomplete utf-8 byte sequence from index '' @ show_nat i
      | Some (i, Some n) \<Rightarrow>
          ''invalid utf-8 sequence of '' @ show_nat n @ '' bytes from index '' @ show_nat i)"

definition digit_val :: "char \<Rightarrow> nat option" where
  "digit_val c = (let n = of_char c in if 48 \<le> n \<and> n \<le> (57::nat) then Some (n - 48) else None)"

fun parse_digits :: "nat \<Rightarrow> string \<Rightarrow> nat option" where
  "parse_digits acc [] = Some acc"
| "parse_digits acc (c # cs) =
     (case digit_val c of None \<Rightarrow> None | Some d \<Rightarrow> parse_digits (10 * acc + d) cs)"

text \<open>
  \<open>str::parse\<close> for an unsigned type with the given largest value: an optional \<open>+\<close>, then at least
  one digit, and no overflow.
\<close>

definition parse_uint :: "nat \<Rightarrow> string \<Rightarrow> nat option" where
  "parse_uint limit s =
     (let ds = (case s of [] \<Rightarrow> [] | c # cs \<Rightarrow> if c = CHR ''+'' then cs else s) in
      if ds = [] then None
      else case parse_digits 0 ds of
        None \<Rightarrow> None
      | Some n \<Rightarrow> if n \<le> limit then Some n else None)"

abbreviation u8_max :: nat where "u8_max \<equiv> 2 ^ 8 - 1"
abbreviation u32_max :: nat where "u32_max \<equiv> 2 ^ 32 - 1"
abbreviation usize_max :: nat where "usize_max \<equiv> 2 ^ 64 - 1"

lemma of_char_digit: "d < 10 \<Longrightarrow> of_char (digit_char d) = 48 + d"
  by (simp add: digit_char_def)

lemma digit_val_digit_char [simp]: "d < 10 \<Longrightarrow> digit_val (digit_char d) = Some d"
  by (simp add: digit_val_def of_char_digit)

lemma parse_digits_append:
  "parse_digits acc (s @ [c]) =
     (case parse_digits acc s of
        None \<Rightarrow> None
      | Some n \<Rightarrow> map_option (\<lambda>d. 10 * n + d) (digit_val c))"
  by (induction s arbitrary: acc) (auto split: option.splits)

lemma parse_digits_show: "parse_digits 0 (show_nat n) = Some n"
proof (induction n rule: show_nat.induct)
  case (1 n)
  show ?case
  proof (cases "n < 10")
    case True
    then show ?thesis by (simp add: show_nat.simps)
  next
    case False
    with 1 have "parse_digits 0 (show_nat (n div 10)) = Some (n div 10)" by simp
    with False show ?thesis
      by (subst show_nat.simps) (simp add: parse_digits_append)
  qed
qed

lemma show_nat_nonempty [simp]: "show_nat n \<noteq> []"
  by (subst show_nat.simps) simp

lemma digit_not_plus: "d < 10 \<Longrightarrow> digit_char d \<noteq> CHR ''+''"
proof
  assume "d < 10" and eq: "digit_char d = CHR ''+''"
  then have "48 + d = (of_char (CHR ''+'') :: nat)"
    using of_char_digit [of d] by metis
  then show False by simp
qed

lemma show_nat_no_plus: "hd (show_nat n) \<noteq> CHR ''+''"
proof (induction n rule: show_nat.induct)
  case (1 n)
  show ?case
  proof (cases "n < 10")
    case True
    then show ?thesis by (subst show_nat.simps) (simp add: digit_not_plus)
  next
    case False
    with 1 show ?thesis by (subst show_nat.simps) simp
  qed
qed

lemma parse_show_nat: "n \<le> limit \<Longrightarrow> parse_uint limit (show_nat n) = Some n"
proof -
  assume "n \<le> limit"
  obtain c cs where s: "show_nat n = c # cs"
    by (metis neq_Nil_conv show_nat_nonempty)
  with show_nat_no_plus [of n] have "c \<noteq> CHR ''+''" by simp
  with s \<open>n \<le> limit\<close> parse_digits_show [of n] show ?thesis
    by (simp add: parse_uint_def)
qed

text \<open>Decimal numbers are a codec, for each unsigned type.\<close>

interpretation decimal: codec show_nat "parse_uint limit" "\<lambda>n. n \<le> limit" Some for limit
  by unfold_locales (simp_all add: parse_show_nat)

end
