(* ===== verification/Vt_World.thy ===== *)
theory Vt_World
  imports Vt_Strings
begin

text \<open>
  What the program runs on.  \<open>crates\<close> holds the third-party libraries, whose code is not in the
  repository, as functions; \<open>device\<close> the YubiKey as the \<open>yubikey\<close> crate shows it; \<open>world\<close> the
  mutable surroundings (files, entropy, clock, terminal, process table, device history).  The laws
  the program relies on are named predicates (\<open>aead_ok\<close>, \<open>base64_ok\<close>, ...), hypotheses of the
  theorems that need them.

  The records of \<open>core.rs\<close>, \<open>ssh_agent.rs\<close>, \<open>yk_backend.rs\<close> and \<open>cli.rs\<close> that are serialised
  come first, since the serialisers of \<open>serde\<close> are among the crates.
\<close>

section \<open>The serialised data\<close>

datatype secret_type = RAW | TOTP | UNKNOWN

record encrypt_item =
  ei_plaintext :: string
  ei_t :: secret_type

record decrypt_req =
  dr_host :: string
  dr_command :: string
  dr_items :: "string list"
  dr_descriptions :: "string list"

record auth_req =
  ar_host :: string
  ar_reason :: string

record auth_res =
  as_approved :: bool

record crypto_res_item =
  cr_result :: string
  cr_err_message :: string

record ssh_key_entry =
  ke_fingerprint :: string
  ke_algorithm :: string
  ke_comment :: string
  ke_key_data :: string

record ecies_ciphertext =
  ec_ephemeral_pubkey :: bytes
  ec_nonce :: bytes
  ec_ciphertext :: bytes

record vt_yubi_config =
  cfg_yubikey_serial :: u32
  cfg_piv_public_key_der :: bytes

record secret_entry =
  se_description :: string
  se_vt :: string
  se_secret_type :: string
  se_created_at :: string

text \<open>A line of the audit log (\<open>audit.rs\<close>); absent fields are not written.\<close>

record audit_event =
  ae_time :: string
  ae_op :: string
  ae_peer_pid :: "i32 option"
  ae_caller :: string
  ae_host :: "string option"
  ae_command :: "string option"
  ae_items :: "nat option"
  ae_descriptions :: "string list"
  ae_reason :: "string option"
  ae_key :: "string option"
  ae_fingerprint :: "string option"
  ae_result :: string

section \<open>The third-party libraries\<close>

text \<open>
  The types of the \<open>ssh-key\<close> crate the program matches on.  A key pair carries its private and
  public bytes; \<open>OtherKey\<close> stands for the algorithms the program has no case for (its algorithm
  name and its bytes), \<open>EncryptedKey\<close> for a key still under its passphrase.
\<close>

datatype ecdsa_curve = NistP256 | NistP384 | NistP521

datatype keypair =
    Ecdsa ecdsa_curve bytes bytes
  | OtherKey string bytes
  | EncryptedKey bytes

record private_key =
  pk_key_data :: keypair
  pk_comment :: string

record 'a serde =
  ser :: "'a \<Rightarrow> string + bytes"
  de :: "bytes \<Rightarrow> string + 'a"

record crates =
  gcm_seal :: "bytes \<Rightarrow> bytes \<Rightarrow> bytes \<Rightarrow> string + bytes"
  gcm_open :: "bytes \<Rightarrow> bytes \<Rightarrow> bytes \<Rightarrow> string + bytes"
  sha256 :: "bytes \<Rightarrow> bytes"
  b64url_encode :: "bytes \<Rightarrow> string"
  b64url_decode :: "bytes \<Rightarrow> string + bytes"
  b64std_decode :: "bytes \<Rightarrow> string + bytes"
  totp_secret :: "string \<Rightarrow> string + bytes"
  totp_code :: "bytes \<Rightarrow> nat \<Rightarrow> string + string"
  js_encrypt_items :: "encrypt_item list serde"
  js_decrypt_req :: "decrypt_req serde"
  js_auth_req :: "auth_req serde"
  js_auth_res :: "auth_res serde"
  js_results :: "crypto_res_item list serde"
  js_ssh_keys :: "ssh_key_entry list serde"
  js_ecies :: "ecies_ciphertext serde"
  js_secrets :: "secret_entry list serde"
  js_audit :: "audit_event \<Rightarrow> string + string"
  toml_config :: "vt_yubi_config serde"
  openssh_parse :: "bytes \<Rightarrow> string + private_key"
  openssh_print :: "private_key \<Rightarrow> string + string"
  openssh_decrypt :: "private_key \<Rightarrow> bytes \<Rightarrow> string + private_key"
  private_key_new :: "keypair \<Rightarrow> string \<Rightarrow> string + private_key"
  public_key_data :: "private_key \<Rightarrow> bytes"
  public_openssh :: "private_key \<Rightarrow> string + string"
  key_algorithm :: "private_key \<Rightarrow> string"
  fingerprint_sha256 :: "bytes \<Rightarrow> string"
  ecdsa_sign :: "ecdsa_curve \<Rightarrow> bytes \<Rightarrow> bytes \<Rightarrow> string + (bytes \<times> bytes)"
  signature_error :: "string \<Rightarrow> bytes \<Rightarrow> string option"
  eph_keygen :: "nat \<Rightarrow> bytes \<times> nat"
  p256_public :: "bytes \<Rightarrow> bytes"
  p256_dh :: "bytes \<Rightarrow> bytes \<Rightarrow> bytes"
  spki_to_der :: "bytes \<Rightarrow> string + bytes"
  spki_of_der :: "bytes \<Rightarrow> string + bytes"
  p256_of_spki :: "bytes \<Rightarrow> string + bytes"

text \<open>
  The documented laws.  AES-GCM opens what it sealed under the same key and nonce, and the sealed
  text carries a 16-byte tag; base64 decodes its own encoding and encodes in ASCII; SHA-256 has 32 bytes;
  a serialiser's output parses back.
\<close>

definition aead_ok :: "crates \<Rightarrow> bool" where
  "aead_ok c \<longleftrightarrow> (\<forall>k n p ct. gcm_seal c k n p = Inr ct \<longrightarrow>
     gcm_open c k n ct = Inr p \<and> length ct = length p + 16)"

definition base64_ok :: "crates \<Rightarrow> bool" where
  "base64_ok c \<longleftrightarrow> (\<forall>bs. b64url_decode c (as_bytes (b64url_encode c bs)) = Inr bs
     \<and> list_all ascii_char (b64url_encode c bs))"

definition sha256_ok :: "crates \<Rightarrow> bool" where
  "sha256_ok c \<longleftrightarrow> (\<forall>bs. length (sha256 c bs) = 32)"

definition serde_ok :: "'a serde \<Rightarrow> bool" where
  "serde_ok j \<longleftrightarrow> (\<forall>x bs. ser j x = Inr bs \<longrightarrow> de j bs = Inr x)"

text \<open>JSON escapes control characters, so an event is one line.\<close>

definition json_line_ok :: "crates \<Rightarrow> bool" where
  "json_line_ok c \<longleftrightarrow> (\<forall>e l. js_audit c e = Inr l \<longrightarrow> CHR 0x0A \<notin> set l)"

lemma aead_openI: "aead_ok c \<Longrightarrow> gcm_seal c k n p = Inr ct \<Longrightarrow> gcm_open c k n ct = Inr p"
  by (auto simp: aead_ok_def)

lemma aead_length: "aead_ok c \<Longrightarrow> gcm_seal c k n p = Inr ct \<Longrightarrow> length ct = length p + 16"
  by (auto simp: aead_ok_def)

lemma serde_okD: "serde_ok j \<Longrightarrow> ser j x = Inr bs \<Longrightarrow> de j bs = Inr x"
  by (auto simp: serde_ok_def)

section \<open>The device and the world\<close>

text \<open>
  Every call to the device consumes a tick, and what it answers is a function of the tick: whether
  the key is plugged in, whether the PIN is accepted, whether the user touches it in time.  An
  ECDH on slot 9d answers only after a touch (\<open>TouchPolicy::Always\<close>), so a successful
  \<open>YkEcdh\<close> event is a touch.  \<open>dev_delay\<close> is how long the call takes, the wait for the user
  included: the monotonic clock moves on by it.
\<close>

record device =
  dev_open_err :: "nat \<Rightarrow> string option"
  dev_serial :: u32
  dev_pin_err :: "nat \<Rightarrow> bytes \<Rightarrow> string option"
  dev_ecdh :: "nat \<Rightarrow> bytes \<Rightarrow> string + bytes"
  dev_mgm_err :: "nat \<Rightarrow> string option"
  dev_generate :: "nat \<Rightarrow> string + bytes"
  dev_delay :: "nat \<Rightarrow> nat"

datatype yk_event =
    YkOpen bool
  | YkPin bool
  | YkEcdh bool
  | YkMgm bool
  | YkGenerate bool
  | YkSign bool

text \<open>
  How a write to a file can fail: the file cannot be opened, and stays as it is; or it is opened and then takes
  only so many bytes (a full disk, a quota, an I/O error).
\<close>

datatype write_fault = NotOpened string | CutOff nat string

fun fault_text :: "write_fault \<Rightarrow> string" where
  "fault_text (NotOpened e) = e"
| "fault_text (CutOff n e) = e"

record world =
  home :: "string option"
  files :: "string \<rightharpoonup> bytes"
  dirs :: "string set"
  read_err :: "string \<Rightarrow> string option"
  write_err :: "string \<Rightarrow> write_fault option"
  mkdir_err :: "string \<Rightarrow> string option"
  osrng :: "nat \<Rightarrow> u8"
  rng_pos :: nat
  instant :: nat
  unix_time :: nat
  today :: string
  timestamp :: string
  stdout :: "string list"
  typed :: "(string + string) list"
  dev :: device
  dev_tick :: nat
  yk_log :: "yk_event list"
  notified :: "string list"
  proc_stat :: "int \<Rightarrow> string option"
  proc_exe :: "int \<Rightarrow> string option"
  env_vars :: "(string \<times> string) list"
  stdin_tty :: bool
  stdin_data :: "string + string"
  tty_line :: "string option"
  pbcopy_err :: "string option"
  clipboard :: "string option"
  fork_err :: "string option"
  exec_err :: "string \<Rightarrow> string option"
  logged :: "string list"
  host_name :: string
  local_time :: string

type_synonym 'a wio = "(world, 'a) io"

section \<open>Primitive operations\<close>

definition path_join :: "string \<Rightarrow> string \<Rightarrow> string" where
  "path_join d n = d @ ''/'' @ n"

definition home_dir :: "string wio" where
  "home_dir = (\<lambda>w. case home w of
     None \<Rightarrow> (Err (Msg ''Cannot determine home dir''), w)
   | Some h \<Rightarrow> (Ok h, w))"

definition fs_exists :: "string \<Rightarrow> bool wio" where
  "fs_exists p = io_get (\<lambda>w. files w p \<noteq> None \<or> p \<in> dirs w)"

definition fs_read :: "string \<Rightarrow> bytes wio" where
  "fs_read p = (\<lambda>w. case read_err w p of
     Some e \<Rightarrow> (Err (Msg e), w)
   | None \<Rightarrow> (case files w p of
       None \<Rightarrow> (Err (Msg ''No such file or directory (os error 2)''), w)
     | Some bs \<Rightarrow> (Ok bs, w)))"

definition fs_read_to_string :: "string \<Rightarrow> string wio" where
  "fs_read_to_string p = io_bind (fs_read p) (\<lambda>bs. case from_utf8 bs of
     None \<Rightarrow> io_fail (Msg ''stream did not contain valid UTF-8'')
   | Some s \<Rightarrow> io_ret s)"

text \<open>
  \<open>std::fs::write\<close> opens the file for writing, which creates it or empties it, and then writes: when the writing
  is cut off, the old contents are gone.  An append is one small write: it is done as a whole or not at all.
\<close>

definition fs_write :: "string \<Rightarrow> bytes \<Rightarrow> unit wio" where
  "fs_write p bs = (\<lambda>w. case write_err w p of
     Some (NotOpened e) \<Rightarrow> (Err (Msg e), w)
   | Some (CutOff n e) \<Rightarrow>
       (if length bs \<le> n then Ok () else Err (Msg e), w\<lparr>files := (files w)(p \<mapsto> take n bs)\<rparr>)
   | None \<Rightarrow> (Ok (), w\<lparr>files := (files w)(p \<mapsto> bs)\<rparr>))"

definition fs_append :: "string \<Rightarrow> bytes \<Rightarrow> unit wio" where
  "fs_append p bs = (\<lambda>w. case write_err w p of
     Some e \<Rightarrow> (Err (Msg (fault_text e)), w)
   | None \<Rightarrow> (Ok (), w\<lparr>files := (files w)(p \<mapsto>
       (case files w p of None \<Rightarrow> [] | Some old \<Rightarrow> old) @ bs)\<rparr>))"

definition create_dir_all :: "string \<Rightarrow> unit wio" where
  "create_dir_all p = (\<lambda>w. case mkdir_err w p of
     Some e \<Rightarrow> (Err (Msg e), w)
   | None \<Rightarrow> (Ok (), w\<lparr>dirs := insert p (dirs w)\<rparr>))"

text \<open>\<open>remove_file\<close>: a missing file and a directory are errors.\<close>

definition fs_remove :: "string \<Rightarrow> unit wio" where
  "fs_remove p = (\<lambda>w. case write_err w p of
     Some e \<Rightarrow> (Err (Msg (fault_text e)), w)
   | None \<Rightarrow> if files w p = None then (Err (Msg ''No such file or directory (os error 2)''), w)
       else (Ok (), w\<lparr>files := (files w)(p := None)\<rparr>))"

text \<open>The operating system's random bytes: a stream read once, front to back.\<close>

definition fill_bytes :: "nat \<Rightarrow> bytes wio" where
  "fill_bytes n = (\<lambda>w.
     (Ok (map (osrng w) [rng_pos w ..< rng_pos w + n]), w\<lparr>rng_pos := rng_pos w + n\<rparr>))"

text \<open>The pieces of text written to standard output; \<open>println\<close> ends its piece with a newline.\<close>

definition print_str :: "string \<Rightarrow> unit wio" where
  "print_str s = io_upd (\<lambda>w. w\<lparr>stdout := stdout w @ [s]\<rparr>)"

definition println :: "string \<Rightarrow> unit wio" where
  "println s = print_str (s @ [CHR 0x0A])"

text \<open>
  A line of the program's own log at the level it logs by default.  Only the lines that show the
  bodies of requests and responses are kept.
\<close>

definition log_info :: "string \<Rightarrow> unit wio" where
  "log_info s = io_upd (\<lambda>w. w\<lparr>logged := logged w @ [s]\<rparr>)"

lemma log_info_eval [simp, io_simps]: "log_info s w = (Ok (), w\<lparr>logged := logged w @ [s]\<rparr>)"
  by (simp add: log_info_def)

text \<open>
  Standard input: reading it to the end, or one line with its newline.  What is not UTF-8 is an
  error.
\<close>

definition utf8_or_fail :: "string \<Rightarrow> string outcome" where
  "utf8_or_fail s = (case from_utf8 (as_bytes s) of
     None \<Rightarrow> Err (Msg ''stream did not contain valid UTF-8'')
   | Some t \<Rightarrow> Ok t)"

definition read_stdin :: "string wio" where
  "read_stdin = (\<lambda>w. case stdin_data w of
     Inl e \<Rightarrow> (Err (Msg e), w)
   | Inr s \<Rightarrow> (utf8_or_fail s, w\<lparr>stdin_data := Inr []\<rparr>))"

definition read_stdin_line :: "string wio" where
  "read_stdin_line = (\<lambda>w. case stdin_data w of
     Inl e \<Rightarrow> (Err (Msg e), w)
   | Inr s \<Rightarrow>
       let n = length (takeWhile (\<lambda>x. x \<noteq> CHR 0x0A) s) + 1 in
       (utf8_or_fail (take n s), w\<lparr>stdin_data := Inr (drop n s)\<rparr>))"

text \<open>What is typed at a password prompt (\<open>Inl\<close> when the prompt cannot be read).\<close>

definition prompt_password :: "string \<Rightarrow> string wio" where
  "prompt_password p = (\<lambda>w. case typed w of
     [] \<Rightarrow> (Err (Msg ''unexpected end of file''), w)
   | Inl e # ts \<Rightarrow> (Err (Msg e), w\<lparr>typed := ts\<rparr>)
   | Inr s # ts \<Rightarrow> (Ok s, w\<lparr>typed := ts\<rparr>))"

text \<open>\<open>EphemeralSecret::random\<close> draws from the same stream, as much as it needs.\<close>

definition ephemeral_secret :: "crates \<Rightarrow> bytes wio" where
  "ephemeral_secret c = (\<lambda>w.
     let (k, pos) = eph_keygen c (rng_pos w) in (Ok k, w\<lparr>rng_pos := pos\<rparr>))"

definition notify_touch :: "string \<Rightarrow> unit wio" where
  "notify_touch reason = io_upd (\<lambda>w. w\<lparr>notified := notified w @ [reason]\<rparr>)"

text \<open>A call to the device: it takes a tick and is recorded.\<close>

definition dev_call :: "(bool \<Rightarrow> yk_event) \<Rightarrow> (device \<Rightarrow> nat \<Rightarrow> string + 'a) \<Rightarrow> 'a wio" where
  "dev_call ev f = (\<lambda>w.
     let r = f (dev w) (dev_tick w);
         w' = w\<lparr>dev_tick := Suc (dev_tick w), instant := instant w + dev_delay (dev w) (dev_tick w),
                yk_log := yk_log w @ [ev (case r of Inl _ \<Rightarrow> False | Inr _ \<Rightarrow> True)]\<rparr>
     in (of_sum Msg r, w'))"

definition opt_sum :: "string option \<Rightarrow> string + unit" where
  "opt_sum e = (case e of None \<Rightarrow> Inr () | Some m \<Rightarrow> Inl m)"

lemma opt_sum_simps [simp]: "opt_sum None = Inr ()" "opt_sum (Some m) = Inl m"
  by (simp_all add: opt_sum_def)

definition yk_open :: "unit wio" where
  "yk_open = dev_call YkOpen (\<lambda>d t. opt_sum (dev_open_err d t))"

definition yk_verify_pin :: "bytes \<Rightarrow> unit wio" where
  "yk_verify_pin pin = dev_call YkPin (\<lambda>d t. opt_sum (dev_pin_err d t pin))"

definition yk_ecdh :: "bytes \<Rightarrow> bytes wio" where
  "yk_ecdh pub = dev_call YkEcdh (\<lambda>d t. dev_ecdh d t pub)"

definition yk_authenticate :: "unit wio" where
  "yk_authenticate = dev_call YkMgm (\<lambda>d t. opt_sum (dev_mgm_err d t))"

definition yk_generate :: "bytes wio" where
  "yk_generate = dev_call YkGenerate (\<lambda>d t. dev_generate d t)"

lemmas fs_defs = fs_exists_def fs_read_def fs_write_def fs_append_def create_dir_all_def
  home_dir_def fs_read_to_string_def

lemmas yk_prim_defs = yk_open_def yk_verify_pin_def yk_ecdh_def yk_authenticate_def yk_generate_def

lemma fill_bytes_eval [simp, io_simps]:
  "fill_bytes n w =
     (Ok (map (osrng w) [rng_pos w ..< rng_pos w + n]), w\<lparr>rng_pos := rng_pos w + n\<rparr>)"
  by (simp add: fill_bytes_def)

lemma println_eval [simp, io_simps]:
  "print_str s w = (Ok (), w\<lparr>stdout := stdout w @ [s]\<rparr>)"
  "println s w = (Ok (), w\<lparr>stdout := stdout w @ [s @ [CHR 0x0A]]\<rparr>)"
  by (simp_all add: println_def print_str_def)

lemma dev_call_eval [io_simps]:
  "f (dev w) (dev_tick w) = Inr x \<Longrightarrow> dev_call ev f w =
     (Ok x, w\<lparr>dev_tick := Suc (dev_tick w), instant := instant w + dev_delay (dev w) (dev_tick w),
            yk_log := yk_log w @ [ev True]\<rparr>)"
  "f (dev w) (dev_tick w) = Inl m \<Longrightarrow> dev_call ev f w =
     (Err (Msg m), w\<lparr>dev_tick := Suc (dev_tick w), instant := instant w + dev_delay (dev w) (dev_tick w),
            yk_log := yk_log w @ [ev False]\<rparr>)"
  by (simp_all add: dev_call_def)

section \<open>Frames of the world\<close>

text \<open>The surroundings the program cannot change: they only serve as oracles.\<close>

definition same_env :: "world \<Rightarrow> world \<Rightarrow> bool" where
  "same_env w v \<longleftrightarrow> home v = home w \<and> read_err v = read_err w \<and> write_err v = write_err w
     \<and> mkdir_err v = mkdir_err w \<and> osrng v = osrng w \<and> dev v = dev w
     \<and> proc_stat v = proc_stat w \<and> proc_exe v = proc_exe w
     \<and> unix_time v = unix_time w
     \<and> today v = today w \<and> timestamp v = timestamp w"

definition same_files :: "world \<Rightarrow> world \<Rightarrow> bool" where
  "same_files w v \<longleftrightarrow> files v = files w"

text \<open>The device was not used, and no time was spent waiting for it.\<close>

definition same_device :: "world \<Rightarrow> world \<Rightarrow> bool" where
  "same_device w v \<longleftrightarrow> dev_tick v = dev_tick w \<and> yk_log v = yk_log w \<and> instant v = instant w"

interpretation env: frame_rel same_env
  by unfold_locales (auto simp: same_env_def)

interpretation fil: frame_rel same_files
  by unfold_locales (auto simp: same_files_def)

interpretation nodev: frame_rel same_device
  by unfold_locales (auto simp: same_device_def)

lemmas env_frame [frame_intros] = env.all
lemmas fil_frame [frame_intros] = fil.all
lemmas nodev_frame [frame_intros] = nodev.all

lemma same_env_prims [frame_intros]:
  "within same_env home_dir"
  "within same_env (fs_exists p)"
  "within same_env (fs_read p)"
  "within same_env (fs_write p bs)"
  "within same_env (fs_append p bs)"
  "within same_env (create_dir_all p)"
  "within same_env (fill_bytes n)"
  "within same_env (println s)"
  "within same_env (ephemeral_secret c)"
  "within same_env (notify_touch s)"
  "within same_env (prompt_password q)"
  "within same_env (dev_call ev f)"
  "within same_env (fs_remove p)"
  "within same_env (print_str s)"
  "within same_env read_stdin"
  "within same_env read_stdin_line"
  "within same_env (log_info s)"
  by (auto simp: within_def same_env_def fs_defs fs_remove_def read_stdin_def read_stdin_line_def Let_def prompt_password_def ephemeral_secret_def notify_touch_def dev_call_def Let_def
      split: option.splits write_fault.splits list.splits sum.splits prod.splits)

lemma same_env_read_to_string [frame_intros]: "within same_env (fs_read_to_string p)"
  unfolding fs_read_to_string_def
  by (intro env_frame same_env_prims)

lemma same_files_prims [frame_intros]:
  "within same_files home_dir"
  "within same_files (fs_exists p)"
  "within same_files (fs_read p)"
  "within same_files (create_dir_all p)"
  "within same_files (fill_bytes n)"
  "within same_files (println s)"
  "within same_files (ephemeral_secret c)"
  "within same_files (notify_touch s)"
  "within same_files (prompt_password q)"
  "within same_files (dev_call ev f)"
  "within same_files (print_str s)"
  "within same_files read_stdin"
  "within same_files read_stdin_line"
  "within same_files (log_info s)"
  by (auto simp: within_def same_files_def fs_defs read_stdin_def read_stdin_line_def prompt_password_def ephemeral_secret_def notify_touch_def dev_call_def Let_def
      split: option.splits list.splits sum.splits prod.splits)

lemma same_files_read_to_string [frame_intros]: "within same_files (fs_read_to_string p)"
  unfolding fs_read_to_string_def
  by (intro fil_frame same_files_prims)

lemma same_device_prims [frame_intros]:
  "within same_device home_dir"
  "within same_device (fs_exists p)"
  "within same_device (fs_read p)"
  "within same_device (fs_write p bs)"
  "within same_device (fs_append p bs)"
  "within same_device (create_dir_all p)"
  "within same_device (fill_bytes n)"
  "within same_device (println s)"
  "within same_device (ephemeral_secret c)"
  "within same_device (notify_touch s)"
  "within same_device (prompt_password q)"
  "within same_device (fs_remove p)"
  "within same_device (print_str s)"
  "within same_device read_stdin"
  "within same_device read_stdin_line"
  "within same_device (log_info s)"
  by (auto simp: within_def same_device_def fs_defs fs_remove_def read_stdin_def read_stdin_line_def Let_def prompt_password_def ephemeral_secret_def notify_touch_def
      split: option.splits write_fault.splits list.splits sum.splits prod.splits)

section \<open>Writing a file\<close>

text \<open>Only part of the file could be written; what it held before is gone.\<close>

definition cut_off :: "string \<Rightarrow> world \<Rightarrow> world \<Rightarrow> bool" where
  "cut_off p w v \<longleftrightarrow> (\<exists>n e bs. write_err w p = Some (CutOff n e) \<and> n < length bs \<and>
     files v = (files w)(p \<mapsto> take n bs))"

text \<open>Every way a write can end.\<close>

lemma fs_write_cases:
  assumes "fs_write p bs w = (r, v)"
  obtains (whole) "r = Ok ()" and "v = w\<lparr>files := (files w)(p \<mapsto> bs)\<rparr>"
    | (unopened) e where "r = Err (Msg e)" and "v = w" and "write_err w p = Some (NotOpened e)"
    | (cut) n e where "r = Err (Msg e)" and "v = w\<lparr>files := (files w)(p \<mapsto> take n bs)\<rparr>"
        and "write_err w p = Some (CutOff n e)" and "n < length bs"
  using assms by (auto simp: fs_write_def split: option.splits write_fault.splits if_splits)

lemma fs_write_eq_Ok:
  "fs_write p bs w = (Ok (), v) \<longleftrightarrow> v = w\<lparr>files := (files w)(p \<mapsto> bs)\<rparr> \<and>
     (case write_err w p of None \<Rightarrow> True | Some (NotOpened e) \<Rightarrow> False | Some (CutOff n e) \<Rightarrow> length bs \<le> n)"
  by (auto simp: fs_write_def split: option.splits write_fault.splits if_splits)

end
