(* ===== verification/Vt_Security.thy ===== *)
theory Vt_Security
  imports Vt_World
begin

text \<open>
  \<open>src/security.rs\<close>: the AES-256-GCM box all secrets travel and rest in, random keys and nonces,
  and the derivation of the transport key from \<open>VT_AUTH\<close>.  (The two functions of that file that
  read the YubiKey are in \<open>Vt_Backend\<close>.)
\<close>

section \<open>The box\<close>

datatype aes_gcm_crypto = AesGcmCrypto (cipher_key: bytes)

definition aes_new :: "bytes \<Rightarrow> aes_gcm_crypto outcome" where
  "aes_new key =
     oc_bind (ensure (length key = 32) (Msg ''Invalid key length, expected 32 bytes''))
       (\<lambda>_. Ok (AesGcmCrypto key))"

definition generate_key :: "bytes wio" where
  "generate_key = fill_bytes 32"

definition generate_nonce :: "bytes wio" where
  "generate_nonce = fill_bytes 12"

definition aes_encrypt :: "crates \<Rightarrow> aes_gcm_crypto \<Rightarrow> bytes \<Rightarrow> bytes wio" where
  "aes_encrypt c self plaintext =
     io_bind generate_nonce (\<lambda>nonce.
     io_bind (io_of (of_sum (\<lambda>e. Msg (''Encryption error: '' @ e))
               (gcm_seal c (cipher_key self) nonce plaintext))) (\<lambda>ciphertext.
     io_ret (nonce @ ciphertext)))"

definition aes_decrypt :: "crates \<Rightarrow> aes_gcm_crypto \<Rightarrow> bytes \<Rightarrow> bytes outcome" where
  "aes_decrypt c self data =
     oc_bind (ensure (12 \<le> length data) (Msg ''Data too short, missing nonce'')) (\<lambda>_.
     of_sum (\<lambda>e. Msg (''Decryption error: '' @ e))
       (gcm_open c (cipher_key self) (take 12 data) (drop 12 data)))"

text \<open>\<open>VT_AUTH\<close> is the base64 of a token; the transport key is its double SHA-256.\<close>

definition decode_auth_cipher_from_b64 :: "crates \<Rightarrow> string \<Rightarrow> bytes outcome" where
  "decode_auth_cipher_from_b64 c b64_token =
     oc_bind (of_sum Msg (b64url_decode c (as_bytes b64_token))) (\<lambda>token_bytes.
     Ok (take 32 (sha256 c (sha256 c token_bytes))))"

lemma aes_new_32: "length k = 32 \<Longrightarrow> aes_new k = Ok (AesGcmCrypto k)"
  by (simp add: aes_new_def)

lemma aes_new_eq_Ok: "aes_new k = Ok a \<longleftrightarrow> length k = 32 \<and> a = AesGcmCrypto k"
  by (auto simp: aes_new_def ensure_def)

lemma aes_encrypt_eq_Ok:
  "aes_encrypt c a p w = (Ok ct, v) \<longleftrightarrow>
     (\<exists>body. gcm_seal c (cipher_key a) (map (osrng w) [rng_pos w ..< rng_pos w + 12]) p = Inr body
        \<and> ct = map (osrng w) [rng_pos w ..< rng_pos w + 12] @ body
        \<and> v = w\<lparr>rng_pos := rng_pos w + 12\<rparr>)"
  unfolding aes_encrypt_def generate_nonce_def
  by (auto simp: io_bind_eq_Ok)

lemma aes_encrypt_state: "snd (aes_encrypt c a p w) = w\<lparr>rng_pos := rng_pos w + 12\<rparr>"
  unfolding aes_encrypt_def generate_nonce_def
  by (cases "gcm_seal c (cipher_key a) (map (osrng w) [rng_pos w ..< rng_pos w + 12]) p")
    (simp_all add: io_bind_def)

lemma aes_encrypt_no_panic: "fst (aes_encrypt c a p w) \<noteq> Panic m"
  unfolding aes_encrypt_def generate_nonce_def
  by (cases "gcm_seal c (cipher_key a) (map (osrng w) [rng_pos w ..< rng_pos w + 12]) p")
    (simp_all add: io_bind_def)

lemma aes_decrypt_no_panic: "aes_decrypt c a d \<noteq> Panic m"
  by (auto simp: aes_decrypt_def ensure_def)

lemma aes_decrypt_encrypt:
  assumes "aead_ok c" and "aes_encrypt c a p w = (Ok ct, v)"
  shows "aes_decrypt c a ct = Ok p"
proof -
  let ?n = "map (osrng w) [rng_pos w ..< rng_pos w + 12]"
  from assms(2) obtain body where
    body: "gcm_seal c (cipher_key a) ?n p = Inr body" and ct: "ct = ?n @ body"
    by (auto simp: aes_encrypt_eq_Ok)
  have "take 12 ct = ?n" "drop 12 ct = body" "12 \<le> length ct"
    by (simp_all add: ct)
  with aead_openI [OF assms(1) body] show ?thesis
    by (simp add: aes_decrypt_def)
qed

lemma aes_frames [frame_intros]:
  "within same_env (aes_encrypt c a p)"
  "within same_files (aes_encrypt c a p)"
  "within same_device (aes_encrypt c a p)"
  by (simp_all add: within_def aes_encrypt_state same_env_def same_files_def same_device_def)

section \<open>The box as an interface\<close>

text \<open>
  The components that store or transport serialised values in a box need one law of it: what was
  sealed opens to the same bytes.  From it, a sealed serialised value is read back.
\<close>

locale sealed_box =
  fixes seal :: "'k \<Rightarrow> bytes \<Rightarrow> ('s, bytes) io"
    and unseal :: "'k \<Rightarrow> bytes \<Rightarrow> bytes outcome"
    and lawful :: bool
  assumes unseal_seal: "lawful \<Longrightarrow> seal k p s = (Ok ct, t) \<Longrightarrow> unseal k ct = Ok p"
begin

lemma sealed_value:
  assumes "lawful" and "serde_ok j"
    and "io_bind (io_of (of_sum f (ser j x))) (seal k) s = (Ok ct, t)"
  shows "oc_bind (unseal k ct) (\<lambda>bs. of_sum g (de j bs)) = Ok x"
proof -
  from assms(3) obtain bs where "ser j x = Inr bs" and "seal k bs s = (Ok ct, t)"
    by (auto simp: io_bind_eq_Ok)
  with assms(1,2) show ?thesis
    by (simp add: unseal_seal serde_okD)
qed

lemma sealed_inj:
  assumes "lawful" and "seal k p s = (Ok ct, t)" and "seal k q u = (Ok ct, v)"
  shows "p = q"
  using assms unseal_seal by (metis outcome.inject(1))

end

interpretation aes: sealed_box "aes_encrypt c" "aes_decrypt c" "aead_ok c" for c
  by unfold_locales (rule aes_decrypt_encrypt)

end
