(* ===== verification/Vt_Json.thy ===== *)
theory Vt_Json
  imports Vt_World
begin

text \<open>
  The shape of an audit event as JSON, which the attributes of \<open>AuditEvent\<close> (\<open>audit.rs\<close>) fix, and the compact text of
  such an object, written and read as RFC 8259 says.
\<close>

section \<open>Values\<close>

datatype json = JNum int | JStr string | JStrs "string list"

type_synonym json_object = "(string \<times> json) list"

definition field_if :: "bool \<Rightarrow> string \<Rightarrow> json \<Rightarrow> json_object" where
  "field_if b name v = (if b then [(name, v)] else [])"

definition field_some :: "('a \<Rightarrow> json) \<Rightarrow> string \<Rightarrow> 'a option \<Rightarrow> json_object" where
  "field_some f name x = (case x of None \<Rightarrow> [] | Some v \<Rightarrow> [(name, f v)])"

text \<open>The fields in the order of the declaration; an absent value, an empty caller and an empty list are left out.\<close>

definition event_json :: "audit_event \<Rightarrow> json_object" where
  "event_json e =
     [(''time'', JStr (ae_time e)), (''op'', JStr (ae_op e))] @
     field_some (\<lambda>p. JNum (sint p)) ''peer_pid'' (ae_peer_pid e) @
     field_if (ae_caller e \<noteq> []) ''caller'' (JStr (ae_caller e)) @
     field_some JStr ''host'' (ae_host e) @
     field_some JStr ''command'' (ae_command e) @
     field_some (\<lambda>n. JNum (int n)) ''items'' (ae_items e) @
     field_if (ae_descriptions e \<noteq> []) ''descriptions'' (JStrs (ae_descriptions e)) @
     field_some JStr ''reason'' (ae_reason e) @
     field_some JStr ''key'' (ae_key e) @
     field_some JStr ''fingerprint'' (ae_fingerprint e) @
     [(''result'', JStr (ae_result e))]"

text \<open>The event that an object stands for.\<close>

fun as_str :: "json \<Rightarrow> string option" where
  "as_str (JStr s) = Some s" | "as_str _ = None"

fun as_num :: "json \<Rightarrow> int option" where
  "as_num (JNum n) = Some n" | "as_num _ = None"

fun as_strs :: "json \<Rightarrow> string list option" where
  "as_strs (JStrs l) = Some l" | "as_strs _ = None"

definition get_str :: "json_object \<Rightarrow> string \<Rightarrow> string option" where
  "get_str ms k = Option.bind (map_of ms k) as_str"

definition json_event :: "json_object \<Rightarrow> audit_event option" where
  "json_event ms =
     Option.bind (get_str ms ''time'') (\<lambda>t. Option.bind (get_str ms ''op'') (\<lambda>op. map_option (\<lambda>res.
       \<lparr>ae_time = t, ae_op = op,
        ae_peer_pid = map_option word_of_int (Option.bind (map_of ms ''peer_pid'') as_num),
        ae_caller = (case get_str ms ''caller'' of None \<Rightarrow> [] | Some s \<Rightarrow> s),
        ae_host = get_str ms ''host'', ae_command = get_str ms ''command'',
        ae_items = map_option nat (Option.bind (map_of ms ''items'') as_num),
        ae_descriptions = (case Option.bind (map_of ms ''descriptions'') as_strs of None \<Rightarrow> [] | Some l \<Rightarrow> l),
        ae_reason = get_str ms ''reason'', ae_key = get_str ms ''key'',
        ae_fingerprint = get_str ms ''fingerprint'', ae_result = res\<rparr>) (get_str ms ''result'')))"

lemma map_of_fields:
  "map_of (field_if b k v) j = (if b \<and> j = k then Some v else None)"
  "map_of (field_some f k x) j = (if j = k then map_option f x else None)"
  by (simp_all add: field_if_def field_some_def split: option.split)

text \<open>Leaving fields out loses nothing.\<close>

lemma json_event_json [simp]: "json_event (event_json e) = Some e"
proof -
  have f: "map_of (event_json e) ''time'' = Some (JStr (ae_time e))" "map_of (event_json e) ''op'' = Some (JStr (ae_op e))"
    "map_of (event_json e) ''peer_pid'' = map_option (\<lambda>p. JNum (sint p)) (ae_peer_pid e)"
    "map_of (event_json e) ''caller'' = (if ae_caller e \<noteq> [] then Some (JStr (ae_caller e)) else None)"
    "map_of (event_json e) ''host'' = map_option JStr (ae_host e)"
    "map_of (event_json e) ''command'' = map_option JStr (ae_command e)"
    "map_of (event_json e) ''items'' = map_option (\<lambda>n. JNum (int n)) (ae_items e)"
    "map_of (event_json e) ''descriptions'' = (if ae_descriptions e \<noteq> [] then Some (JStrs (ae_descriptions e)) else None)"
    "map_of (event_json e) ''reason'' = map_option JStr (ae_reason e)"
    "map_of (event_json e) ''key'' = map_option JStr (ae_key e)"
    "map_of (event_json e) ''fingerprint'' = map_option JStr (ae_fingerprint e)"
    "map_of (event_json e) ''result'' = Some (JStr (ae_result e))"
    by (simp_all add: event_json_def map_add_def map_of_fields split: option.split)
  have "Option.bind (map_option JStr x) as_str = x" "Option.bind (map_option (\<lambda>p. JNum (sint p)) y) as_num = map_option sint y"
    "Option.bind (map_option (\<lambda>n. JNum (int n)) z) as_num = map_option int z"
    for x and y :: "i32 option" and z
    by (cases x, simp_all) (cases y, simp_all, cases z, simp_all)
  then show ?thesis
    by (simp add: json_event_def get_str_def f option.map_comp o_def option.map_ident)
qed

text \<open>
  What is relied on: an event has a text, which is one line, and the reader reads the object back.
\<close>

definition audit_json_ok :: "crates \<Rightarrow> (string \<Rightarrow> json_object option) \<Rightarrow> bool" where
  "audit_json_ok c rd \<longleftrightarrow> (\<forall>e. \<exists>l. js_audit c e = Inr l \<and> CHR 0x0A \<notin> set l \<and> rd l = Some (event_json e))"

section \<open>Texts\<close>

definition hex_char :: "nat \<Rightarrow> char" where
  "hex_char n = char_of (if n < 10 then 48 + n else 87 + n)"

definition hex_val :: "char \<Rightarrow> nat" where
  "hex_val h = (let n = of_char h in if n < 58 then n - 48 else n - 87)"

text \<open>The two-character escapes, and \<open>\u00xx\<close> for the other control characters.\<close>

definition escapes :: "(char \<times> char) list" where
  "escapes = [(CHR 0x22, CHR 0x22), (CHR 0x5C, CHR 0x5C), (CHR 0x08, CHR ''b''), (CHR 0x0C, CHR ''f''),
     (CHR 0x0A, CHR ''n''), (CHR 0x0D, CHR ''r''), (CHR 0x09, CHR ''t'')]"

definition json_char :: "char \<Rightarrow> string" where
  "json_char ch =
     (case map_of escapes ch of
        Some e \<Rightarrow> [CHR 0x5C, e]
      | None \<Rightarrow>
          if of_char ch < (32 :: nat)
          then [CHR 0x5C, CHR ''u'', CHR ''0'', CHR ''0'', hex_char (of_char ch div 16), hex_char (of_char ch mod 16)]
          else [ch])"

definition json_string :: "string \<Rightarrow> string" where
  "json_string s = CHR 0x22 # concat (map json_char s) @ [CHR 0x22]"

definition json_int :: "int \<Rightarrow> string" where
  "json_int i = (if i < 0 then CHR ''-'' # show_nat (nat (- i)) else show_nat (nat i))"

fun json_value :: "json \<Rightarrow> string" where
  "json_value (JNum i) = json_int i"
| "json_value (JStr s) = json_string s"
| "json_value (JStrs l) = ''['' @ join '','' (map json_string l) @ '']''"

definition json_member :: "string \<times> json \<Rightarrow> string" where
  "json_member m = json_string (fst m) @ '':'' @ json_value (snd m)"

definition json_text :: "json_object \<Rightarrow> string" where
  "json_text ms = ''{'' @ join '','' (map json_member ms) @ ''}''"

section \<open>Reading\<close>

fun read_chars :: "string \<Rightarrow> (string \<times> string) option" where
  "read_chars [] = None"
| "read_chars (ch # cs) =
     (if ch = CHR 0x22 then Some ([], cs)
      else if ch = CHR 0x5C then
        (case cs of
           [] \<Rightarrow> None
         | e # r \<Rightarrow>
             if e = CHR ''u'' then
               (case r of
                  _ # _ # h # l # r' \<Rightarrow> map_option (\<lambda>(s, u). (char_of (16 * hex_val h + hex_val l) # s, u)) (read_chars r')
                | _ \<Rightarrow> None)
             else (case map_of (map prod.swap escapes) e of
                 None \<Rightarrow> None
               | Some d \<Rightarrow> map_option (\<lambda>(s, u). (d # s, u)) (read_chars r)))
      else map_option (\<lambda>(s, u). (ch # s, u)) (read_chars cs))"

declare read_chars.simps(2) [simp del]

datatype token = TOpen | TClose | TOpenL | TCloseL | TColon | TComma | TStr string | TNum int

definition punctuation :: "(char \<times> token) list" where
  "punctuation = [(CHR ''{'', TOpen), (CHR ''}'', TClose), (CHR ''['', TOpenL), (CHR '']'', TCloseL),
     (CHR '':'', TColon), (CHR '','', TComma)]"

definition is_digit :: "char \<Rightarrow> bool" where
  "is_digit ch \<longleftrightarrow> digit_val ch \<noteq> None"

lemma read_chars_length: "read_chars cs = Some (s, r) \<Longrightarrow> length r < length cs"
proof (induction cs arbitrary: s r rule: read_chars.induct)
  case (2 ch cs)
  then show ?case
    by (fastforce simp: read_chars.simps(2) split: if_splits list.splits option.splits)
qed simp

function tokens :: "string \<Rightarrow> token list option" where
  "tokens [] = Some []"
| "tokens (ch # cs) =
     (if ch = CHR 0x22 then
        (case read_chars cs of None \<Rightarrow> None | Some (s, r) \<Rightarrow> map_option (Cons (TStr s)) (tokens r))
      else if ch = CHR ''-'' then
        (case parse_digits 0 (takeWhile is_digit cs) of
           None \<Rightarrow> None | Some n \<Rightarrow> map_option (Cons (TNum (- int n))) (tokens (dropWhile is_digit cs)))
      else if is_digit ch then
        (case parse_digits 0 (ch # takeWhile is_digit cs) of
           None \<Rightarrow> None | Some n \<Rightarrow> map_option (Cons (TNum (int n))) (tokens (dropWhile is_digit cs)))
      else (case map_of punctuation ch of
          None \<Rightarrow> None
        | Some t \<Rightarrow> map_option (Cons t) (tokens cs)))"
  by pat_completeness auto
termination
  by (relation "measure length") (auto dest: read_chars_length simp: le_imp_less_Suc length_dropWhile_le)

fun read_strs :: "token list \<Rightarrow> (string list \<times> token list) option" where
  "read_strs (TCloseL # r) = Some ([], r)"
| "read_strs (TStr s # TCloseL # r) = Some ([s], r)"
| "read_strs (TStr s # TComma # r) = map_option (\<lambda>(l, u). (s # l, u)) (read_strs r)"
| "read_strs _ = None"

fun read_value :: "token list \<Rightarrow> (json \<times> token list) option" where
  "read_value (TStr s # r) = Some (JStr s, r)"
| "read_value (TNum n # r) = Some (JNum n, r)"
| "read_value (TOpenL # r) = map_option (\<lambda>(l, u). (JStrs l, u)) (read_strs r)"
| "read_value _ = None"

lemma read_strs_length: "read_strs ts = Some (l, r) \<Longrightarrow> length r < length ts"
  by (induction ts arbitrary: l r rule: read_strs.induct) (auto simp: less_SucI)

lemma read_value_length: "read_value ts = Some (v, r) \<Longrightarrow> length r < length ts"
  by (cases ts rule: read_value.cases) (auto dest: read_strs_length)

text \<open>The members up to the closing brace; nothing follows it.\<close>

function read_members :: "token list \<Rightarrow> json_object option" where
  "read_members ts =
     (case ts of
        TStr k # TColon # r \<Rightarrow>
          (case read_value r of
             Some (v, TComma # u) \<Rightarrow> map_option (Cons (k, v)) (read_members u)
           | Some (v, [TClose]) \<Rightarrow> Some [(k, v)]
           | _ \<Rightarrow> None)
      | [TClose] \<Rightarrow> Some []
      | _ \<Rightarrow> None)"
  by pat_completeness auto
termination
  by (relation "measure length") (auto dest: read_value_length)

declare read_members.simps [simp del]

definition json_read :: "string \<Rightarrow> json_object option" where
  "json_read s = (case tokens s of Some (TOpen # r) \<Rightarrow> read_members r | _ \<Rightarrow> None)"

section \<open>What is written is read back\<close>

lemma hex_round: "n < 16 \<Longrightarrow> hex_val (hex_char n) = n"
  by (simp add: hex_val_def hex_char_def Let_def)

lemma escapes_back:
  assumes "map_of escapes ch = Some e"
  shows "map_of (map prod.swap escapes) e = Some ch \<and> e \<noteq> CHR ''u'' \<and> e \<noteq> CHR 0x0A"
  using assms by (auto simp: escapes_def split: if_splits)

lemma unescaped: "map_of escapes ch = None \<Longrightarrow> ch \<noteq> CHR 0x22 \<and> ch \<noteq> CHR 0x5C \<and> ch \<noteq> CHR 0x0A"
  by (auto simp: escapes_def split: if_splits)

lemma control_hex: "(of_char ch :: nat) < 32 \<Longrightarrow>
    char_of (16 * hex_val (hex_char (of_char ch div 16)) + hex_val (hex_char (of_char ch mod 16))) = ch"
  by (simp add: hex_round)

lemma read_json_char: "read_chars (json_char ch @ cs) = map_option (\<lambda>(s, u). (ch # s, u)) (read_chars cs)"
proof (cases "map_of escapes ch")
  case None
  with unescaped [OF this] control_hex [of ch] show ?thesis
    by (auto simp: json_char_def read_chars.simps(2))
next
  case (Some e)
  with escapes_back [OF Some] show ?thesis
    by (simp add: json_char_def read_chars.simps(2))
qed

lemma read_json_string: "read_chars (concat (map json_char s) @ CHR 0x22 # cs) = Some (s, cs)"
  by (induction s) (simp_all add: read_json_char, simp add: read_chars.simps(2))

lemma tokens_string: "tokens (json_string s @ cs) = map_option (Cons (TStr s)) (tokens cs)"
  by (simp add: json_string_def read_json_string)

lemma show_digits: "list_all is_digit (show_nat n)"
proof (induction n rule: show_nat.induct)
  case (1 n)
  have "d < 10 \<Longrightarrow> is_digit (digit_char d)" for d by (simp add: is_digit_def)
  with 1 show ?case by (subst show_nat.simps) simp
qed

definition no_digit :: "string \<Rightarrow> bool" where
  "no_digit cs \<longleftrightarrow> cs = [] \<or> \<not> is_digit (hd cs)"

lemma digits_taken:
  assumes "list_all is_digit ds" and "no_digit cs"
  shows "takeWhile is_digit (ds @ cs) = ds" and "dropWhile is_digit (ds @ cs) = cs"
proof -
  have "takeWhile is_digit cs = []" "dropWhile is_digit cs = cs"
    using assms(2) by (cases cs; simp add: no_digit_def)+
  moreover have "\<forall>x \<in> set ds. is_digit x" using assms(1) by (simp add: list_all_iff)
  ultimately show "takeWhile is_digit (ds @ cs) = ds" "dropWhile is_digit (ds @ cs) = cs" by simp_all
qed

lemma minus_no_digit: "\<not> is_digit (CHR ''-'')" "\<not> is_digit (CHR 0x22)"
  by (simp_all add: is_digit_def digit_val_def)

lemma tokens_digits:
  assumes "no_digit cs"
  shows "tokens (show_nat n @ cs) = map_option (Cons (TNum (int n))) (tokens cs)"
proof -
  obtain d ds where s: "show_nat n = d # ds" by (metis neq_Nil_conv show_nat_nonempty)
  then have d: "is_digit d" "list_all is_digit ds" using show_digits [of n] by simp_all
  then have "d \<noteq> CHR ''-''" "d \<noteq> CHR 0x22" using minus_no_digit by auto
  moreover have "parse_digits 0 (d # ds) = Some n" using parse_digits_show [of n] s by simp
  ultimately show ?thesis using d digits_taken [OF d(2) assms] by (simp add: s del: parse_digits.simps)
qed

lemma tokens_int:
  assumes "no_digit cs"
  shows "tokens (json_int i @ cs) = map_option (Cons (TNum i)) (tokens cs)"
  using tokens_digits [OF assms] digits_taken [OF show_digits assms]
  by (simp add: json_int_def parse_digits_show)

lemma tokens_punctuation: "map_of punctuation ch = Some t \<Longrightarrow> tokens (ch # cs) = map_option (Cons t) (tokens cs)"
  by (auto simp: punctuation_def is_digit_def digit_val_def split: if_splits)

fun strs_tokens :: "string list \<Rightarrow> token list" where
  "strs_tokens [] = []"
| "strs_tokens [x] = [TStr x]"
| "strs_tokens (x # y # l) = TStr x # TComma # strs_tokens (y # l)"

fun value_tokens :: "json \<Rightarrow> token list" where
  "value_tokens (JNum i) = [TNum i]"
| "value_tokens (JStr s) = [TStr s]"
| "value_tokens (JStrs l) = TOpenL # strs_tokens l @ [TCloseL]"

fun member_tokens :: "json_object \<Rightarrow> token list" where
  "member_tokens [] = []"
| "member_tokens [(k, v)] = TStr k # TColon # value_tokens v"
| "member_tokens ((k, v) # m # ms) = TStr k # TColon # value_tokens v @ TComma # member_tokens (m # ms)"

lemma punctuation_tokens [simp]:
  "tokens (CHR ''{'' # cs) = map_option (Cons TOpen) (tokens cs)"
  "tokens (CHR ''}'' # cs) = map_option (Cons TClose) (tokens cs)"
  "tokens (CHR ''['' # cs) = map_option (Cons TOpenL) (tokens cs)"
  "tokens (CHR '']'' # cs) = map_option (Cons TCloseL) (tokens cs)"
  "tokens (CHR '':'' # cs) = map_option (Cons TColon) (tokens cs)"
  "tokens (CHR '','' # cs) = map_option (Cons TComma) (tokens cs)"
  by (rule tokens_punctuation, simp add: punctuation_def)+

declare tokens.simps(2) [simp del]

lemma tokens_strs: "tokens (join '','' (map json_string l) @ cs) = map_option ((@) (strs_tokens l)) (tokens cs)"
  by (cases "tokens cs"; induction l rule: strs_tokens.induct) (simp_all add: tokens_string)

lemma tokens_value: "no_digit cs \<Longrightarrow> tokens (json_value v @ cs) = map_option ((@) (value_tokens v)) (tokens cs)"
  by (cases v; cases "tokens cs") (simp_all add: tokens_int tokens_string tokens_strs)

lemma comma_no_digit [simp]: "no_digit (CHR '','' # cs)" "no_digit (CHR ''}'' # cs)"
  by (simp_all add: no_digit_def is_digit_def digit_val_def)

lemma tokens_members:
  "no_digit cs \<Longrightarrow> tokens (join '','' (map json_member ms) @ cs) = map_option ((@) (member_tokens ms)) (tokens cs)"
  by (cases "tokens cs"; induction ms rule: member_tokens.induct)
    (simp_all add: json_member_def tokens_string tokens_value)

lemma read_strs_back: "read_strs (strs_tokens l @ TCloseL # r) = Some (l, r)"
  by (induction l rule: strs_tokens.induct) simp_all

lemma read_value_back: "read_value (value_tokens v @ r) = Some (v, r)"
  by (cases v) (simp_all add: read_strs_back)

lemma read_members_back: "read_members (member_tokens ms @ [TClose]) = Some ms"
proof (induction ms rule: member_tokens.induct)
  case 1
  show ?case by (simp add: read_members.simps)
next
  case (2 k v)
  show ?case by (simp add: read_members.simps read_value_back)
next
  case (3 k v m ms)
  then show ?case by (subst read_members.simps) (simp add: read_value_back)
qed

lemma json_read_back: "json_read (json_text ms) = Some ms"
  by (simp add: json_read_def json_text_def tokens_members read_members_back)

interpretation json: codec json_text json_read "\<lambda>_. True" Some
  by unfold_locales (simp_all add: json_read_back)

section \<open>One line\<close>

lemma hex_not_newline: "n < 16 \<Longrightarrow> hex_char n \<noteq> CHR 0x0A"
proof
  assume "n < 16" and "hex_char n = CHR 0x0A"
  then have "(of_char (hex_char n) :: nat) = 10" by simp
  with \<open>n < 16\<close> show False by (simp add: hex_char_def split: if_splits)
qed

lemma json_char_line: "CHR 0x0A \<notin> set (json_char ch)"
proof -
  have "(of_char ch :: nat) < 32 \<Longrightarrow> hex_char (of_char ch div 16) \<noteq> CHR 0x0A" "hex_char (of_char ch mod 16) \<noteq> CHR 0x0A"
    by (rule hex_not_newline, simp)+
  then show ?thesis
    using escapes_back unescaped [of ch] by (auto simp: json_char_def split: option.split)
qed

lemma json_string_line: "CHR 0x0A \<notin> set (json_string s)"
  using json_char_line by (auto simp: json_string_def)

lemma json_int_line: "CHR 0x0A \<notin> set (json_int i)"
proof -
  have "\<not> is_digit (CHR 0x0A)" by (simp add: is_digit_def digit_val_def)
  then have "CHR 0x0A \<notin> set (show_nat n)" for n using show_digits [of n] by (auto simp: list_all_iff)
  then show ?thesis by (simp add: json_int_def)
qed

lemma join_line: "\<forall>s \<in> set l. CHR 0x0A \<notin> set s \<Longrightarrow> CHR 0x0A \<notin> set (join '','' l)"
  by (induction l rule: induct_list012) simp_all

lemma json_text_line: "CHR 0x0A \<notin> set (json_text ms)"
proof -
  have "CHR 0x0A \<notin> set (json_value v)" for v
    using json_string_line json_int_line by (cases v) (simp_all add: join_line)
  then have "CHR 0x0A \<notin> set (json_member m)" for m
    using json_string_line by (simp add: json_member_def)
  then show ?thesis by (simp add: json_text_def join_line)
qed

text \<open>For example:\<close>

lemma json_example:
  \<open>json_text (event_json \<lparr>ae_time = ''t'', ae_op = ''decrypt'', ae_peer_pid = Some 1234, ae_caller = ''zsh (PID 1234)'',
     ae_host = Some ''a"b'', ae_command = None, ae_items = Some 1, ae_descriptions = [''x'', [CHR 0x0A]], ae_reason = None,
     ae_key = None, ae_fingerprint = None, ae_result = ''approved''\<rparr>) =
   ''{"time":"t","op":"decrypt","peer_pid":1234,"caller":"zsh (PID 1234)","host":"a'' @ [CHR 0x5C] @
     ''"b","items":1,"descriptions":["x","'' @ [CHR 0x5C] @ ''n"],"result":"approved"}''\<close>
  by code_simp

lemma audit_json_line: "audit_json_ok c rd \<Longrightarrow> json_line_ok c"
  unfolding audit_json_ok_def json_line_ok_def by (metis sum.inject(2))

end
