(* ===== verification/Vt_Instance.thy ===== *)
theory Vt_Instance
  imports Vt_Json
begin

text \<open>
  A concrete instance of the libraries and of the surroundings, on which the laws of \<open>Vt_World\<close>
  hold.  It is not a model of AES, SHA-256 or P-256: it only shows that the named hypotheses can hold
  together, and gives the witnesses something to evaluate.
\<close>

section \<open>Libraries\<close>

text \<open>Sealing appends a 16-byte tag made of the key and the nonce.\<close>

definition demo_tag :: "bytes \<Rightarrow> bytes \<Rightarrow> bytes" where
  "demo_tag k n = take 16 (take 8 k @ take 8 n @ replicate 16 0)"

definition demo_seal :: "bytes \<Rightarrow> bytes \<Rightarrow> bytes \<Rightarrow> string + bytes" where
  "demo_seal k n p = Inr (p @ demo_tag k n)"

definition demo_open :: "bytes \<Rightarrow> bytes \<Rightarrow> bytes \<Rightarrow> string + bytes" where
  "demo_open k n ct =
     (let p = take (length ct - 16) ct in
      if 16 \<le> length ct \<and> drop (length ct - 16) ct = demo_tag k n then Inr p
      else Inl ''aead::Error'')"

text \<open>Two letters \<open>a\<close> to \<open>p\<close> for each byte.\<close>

definition demo_letter :: "nat \<Rightarrow> char" where
  "demo_letter n = char_of (97 + n)"

fun demo_b64 :: "bytes \<Rightarrow> string" where
  "demo_b64 [] = []"
| "demo_b64 (b # bs) = demo_letter (unat b div 16) # demo_letter (unat b mod 16) # demo_b64 bs"

fun demo_unb64 :: "bytes \<Rightarrow> string + bytes" where
  "demo_unb64 [] = Inr []"
| "demo_unb64 [x] = Inl ''Invalid input length: 1''"
| "demo_unb64 (x # y # r) =
     (case demo_unb64 r of Inl e \<Rightarrow> Inl e | Inr bs \<Rightarrow> Inr (word_of_nat (16 * (unat x - 97) + (unat y - 97)) # bs))"

text \<open>
  Serialisers: a byte list is written with a \<open>1\<close> before each byte and a \<open>0\<close> at its end, a list of
  byte lists likewise, and a record as the list of its fields.
\<close>

fun esc :: "bytes \<Rightarrow> bytes" where
  "esc [] = [0]"
| "esc (b # bs) = 1 # b # esc bs"

fun unesc :: "bytes \<Rightarrow> (bytes \<times> bytes) option" where
  "unesc [] = None"
| "unesc (t # r) =
     (if t = 0 then Some ([], r)
      else case r of [] \<Rightarrow> None
        | b # r' \<Rightarrow> (case unesc r' of None \<Rightarrow> None | Some (xs, s) \<Rightarrow> Some (b # xs, s)))"

lemma unesc_esc [simp]: "unesc (esc xs @ r) = Some (xs, r)"
  by (induction xs) simp_all

lemma unesc_length: "unesc bs = Some (xs, r) \<Longrightarrow> length r < length bs"
proof (induction bs arbitrary: xs r rule: unesc.induct)
  case 1
  then show ?case by simp
next
  case (2 t bs)
  then show ?case by (force split: if_splits list.splits option.splits)
qed

fun esc_list :: "bytes list \<Rightarrow> bytes" where
  "esc_list [] = [0]"
| "esc_list (x # xs) = 1 # esc x @ esc_list xs"

function unesc_list :: "bytes \<Rightarrow> bytes list option" where
  "unesc_list [] = None"
| "unesc_list (t # r) =
     (if t = 0 then Some []
      else case unesc r of None \<Rightarrow> None
        | Some (x, r') \<Rightarrow> map_option (Cons x) (unesc_list r'))"
  by pat_completeness auto
termination
  by (relation "measure length") (auto dest: unesc_length)

lemma unesc_esc_list [simp]: "unesc_list (esc_list xs) = Some xs"
  by (induction xs) simp_all

definition row_serde :: "('a \<Rightarrow> bytes list) \<Rightarrow> (bytes list \<Rightarrow> 'a option) \<Rightarrow> 'a serde" where
  "row_serde f g = \<lparr>
     ser = (\<lambda>x. Inr (esc_list (f x))),
     de = (\<lambda>bs. case Option.bind (unesc_list bs) g of
        None \<Rightarrow> Inl ''expected value'' | Some x \<Rightarrow> Inr x)\<rparr>"

fun all_some :: "'a option list \<Rightarrow> 'a list option" where
  "all_some [] = Some []"
| "all_some (x # xs) = Option.bind x (\<lambda>y. map_option (Cons y) (all_some xs))"

definition rows_serde :: "('a \<Rightarrow> bytes list) \<Rightarrow> (bytes list \<Rightarrow> 'a option) \<Rightarrow> 'a list serde" where
  "rows_serde f g = row_serde (map (\<lambda>x. esc_list (f x)))
     (\<lambda>rs. all_some (map (\<lambda>r. Option.bind (unesc_list r) g) rs))"

lemma row_serde_ok: "(\<And>x. g (f x) = Some x) \<Longrightarrow> serde_ok (row_serde f g)"
  by (simp add: serde_ok_def row_serde_def)

lemma rows_serde_ok: "(\<And>x. g (f x) = Some x) \<Longrightarrow> serde_ok (rows_serde f g)"
proof -
  assume "\<And>x. g (f x) = Some x"
  then have "all_some (map (\<lambda>r. Option.bind (unesc_list r) g) (map (\<lambda>x. esc_list (f x)) xs)) = Some xs"
    for xs by (induction xs) simp_all
  then show ?thesis unfolding rows_serde_def by (rule row_serde_ok)
qed

definition demo_results :: "crypto_res_item list serde" where
  "demo_results = rows_serde (\<lambda>r. [as_bytes (cr_result r), as_bytes (cr_err_message r)])
     (\<lambda>l. case l of [a, b] \<Rightarrow> Some \<lparr>cr_result = of_bytes a, cr_err_message = of_bytes b\<rparr> | _ \<Rightarrow> None)"

fun demo_type :: "secret_type \<Rightarrow> bytes" where
  "demo_type RAW = [0]" | "demo_type TOTP = [1]" | "demo_type UNKNOWN = [2]"

definition demo_encrypt_items :: "encrypt_item list serde" where
  "demo_encrypt_items = rows_serde (\<lambda>i. [as_bytes (ei_plaintext i), demo_type (ei_t i)])
     (\<lambda>l. case l of [a, b] \<Rightarrow> Some \<lparr>ei_plaintext = of_bytes a,
        ei_t = (if b = [0] then RAW else if b = [1] then TOTP else UNKNOWN)\<rparr> | _ \<Rightarrow> None)"

definition demo_ssh_keys :: "ssh_key_entry list serde" where
  "demo_ssh_keys = rows_serde
     (\<lambda>e. [as_bytes (ke_fingerprint e), as_bytes (ke_algorithm e), as_bytes (ke_comment e),
          as_bytes (ke_key_data e)])
     (\<lambda>l. case l of [a, b, d, e] \<Rightarrow> Some \<lparr>ke_fingerprint = of_bytes a, ke_algorithm = of_bytes b,
        ke_comment = of_bytes d, ke_key_data = of_bytes e\<rparr> | _ \<Rightarrow> None)"

text \<open>The index of secrets is a text file: its serialiser writes letters only.\<close>

definition text_serde :: "'a serde \<Rightarrow> 'a serde" where
  "text_serde j = \<lparr>
     ser = (\<lambda>x. case ser j x of Inl e \<Rightarrow> Inl e | Inr bs \<Rightarrow> Inr (as_bytes (demo_b64 bs))),
     de = (\<lambda>bs. case demo_unb64 bs of Inl e \<Rightarrow> Inl e | Inr d \<Rightarrow> de j d)\<rparr>"

definition demo_secrets :: "secret_entry list serde" where
  "demo_secrets = text_serde (rows_serde
     (\<lambda>e. [as_bytes (se_description e), as_bytes (se_vt e), as_bytes (se_secret_type e),
          as_bytes (se_created_at e)])
     (\<lambda>l. case l of [a, b, d, e] \<Rightarrow> Some \<lparr>se_description = of_bytes a, se_vt = of_bytes b,
        se_secret_type = of_bytes d, se_created_at = of_bytes e\<rparr> | _ \<Rightarrow> None))"

definition demo_ecies :: "ecies_ciphertext serde" where
  "demo_ecies = row_serde (\<lambda>x. [ec_ephemeral_pubkey x, ec_nonce x, ec_ciphertext x])
     (\<lambda>l. case l of [a, b, d] \<Rightarrow>
        Some \<lparr>ec_ephemeral_pubkey = a, ec_nonce = b, ec_ciphertext = d\<rparr> | _ \<Rightarrow> None)"

definition demo_config :: "vt_yubi_config serde" where
  "demo_config = row_serde
     (\<lambda>x. [as_bytes (show_nat (unat (cfg_yubikey_serial x))), cfg_piv_public_key_der x])
     (\<lambda>l. case l of [a, b] \<Rightarrow> map_option
        (\<lambda>n. \<lparr>cfg_yubikey_serial = word_of_nat n, cfg_piv_public_key_der = b\<rparr>)
        (parse_uint u32_max (of_bytes a)) | _ \<Rightarrow> None)"

definition demo_decrypt_req :: "decrypt_req serde" where
  "demo_decrypt_req = row_serde
     (\<lambda>x. [as_bytes (dr_host x), as_bytes (dr_command x),
          esc_list (map as_bytes (dr_items x)), esc_list (map as_bytes (dr_descriptions x))])
     (\<lambda>l. case l of [a, b, d, e] \<Rightarrow>
        Option.bind (unesc_list d) (\<lambda>its. Option.bind (unesc_list e) (\<lambda>ds.
        Some \<lparr>dr_host = of_bytes a, dr_command = of_bytes b, dr_items = map of_bytes its,
          dr_descriptions = map of_bytes ds\<rparr>)) | _ \<Rightarrow> None)"

definition demo_auth_req :: "auth_req serde" where
  "demo_auth_req = row_serde (\<lambda>x. [as_bytes (ar_host x), as_bytes (ar_reason x)])
     (\<lambda>l. case l of [a, b] \<Rightarrow> Some \<lparr>ar_host = of_bytes a, ar_reason = of_bytes b\<rparr> | _ \<Rightarrow> None)"

definition demo_auth_res :: "auth_res serde" where
  "demo_auth_res = row_serde (\<lambda>x. if as_approved x then [[]] else [])
     (\<lambda>l. Some \<lparr>as_approved = (l \<noteq> [])\<rparr>)"

lemma demo_type_value: "(if demo_type t = [0] then RAW else if demo_type t = [1] then TOTP else UNKNOWN) = t"
  by (cases t) simp_all

lemma demo_u32: "parse_uint u32_max (show_nat (unat (w :: u32))) = Some (unat w)"
proof -
  have "unat w < 2 ^ 32" using unsigned_less [of w] by simp
  then show ?thesis by (intro parse_show_nat) simp
qed

lemma demo_letter_value: "n < 16 \<Longrightarrow> unat (byte_of (demo_letter n)) = 97 + n"
  by (simp add: demo_letter_def)

lemma demo_letter_ascii: "n < 16 \<Longrightarrow> ascii_char (demo_letter n)"
  using demo_letter_value [of n] by (simp add: ascii_char_def word_le_nat_alt)

lemma nibbles: "unat (b :: u8) div 16 < 16" "unat b mod 16 < 16"
proof -
  have "unat b < 256" using unsigned_less [of b] by simp
  then show "unat b div 16 < 16" by (simp add: less_mult_imp_div_less)
qed simp

lemma demo_b64_inverse: "demo_unb64 (as_bytes (demo_b64 bs)) = Inr bs"
  by (induction bs) (simp_all add: as_bytes_def demo_letter_value nibbles del: unat_byte_of)

lemma demo_b64_ascii: "list_all ascii_char (demo_b64 bs)"
  by (induction bs) (simp_all add: demo_letter_ascii nibbles)

lemma text_serde_ok: "serde_ok j \<Longrightarrow> serde_ok (text_serde j)"
  by (auto simp: serde_ok_def text_serde_def demo_b64_inverse split: sum.splits)

lemma text_serde_utf8: "ser (text_serde j) x = Inr bs \<Longrightarrow> utf8_valid bs"
  using ascii_rust_str [OF demo_b64_ascii]
  by (auto simp: text_serde_def rust_str_def split: sum.splits)

lemma demo_serde_ok:
  "serde_ok demo_results" "serde_ok demo_encrypt_items" "serde_ok demo_ssh_keys"
  "serde_ok demo_secrets" "serde_ok demo_ecies" "serde_ok demo_config"
  "serde_ok demo_decrypt_req" "serde_ok demo_auth_req" "serde_ok demo_auth_res"
  unfolding demo_results_def demo_encrypt_items_def demo_ssh_keys_def demo_secrets_def
    demo_ecies_def demo_config_def demo_decrypt_req_def demo_auth_req_def demo_auth_res_def
  by (intro text_serde_ok rows_serde_ok row_serde_ok;
      simp add: demo_type_value demo_u32 demo_u32 [simplified] o_def del: One_nat_def)+

definition demo_sha :: "bytes \<Rightarrow> bytes" where
  "demo_sha bs = take 32 (bs @ replicate 32 0)"

definition demo_crates :: crates where
  "demo_crates = \<lparr>
     gcm_seal = demo_seal, gcm_open = demo_open, sha256 = demo_sha,
     b64url_encode = demo_b64, b64url_decode = demo_unb64, b64std_decode = demo_unb64,
     totp_secret = (\<lambda>s. Inr (as_bytes s)),
     totp_code = (\<lambda>bs now. Inr ''123456''),
     js_encrypt_items = demo_encrypt_items, js_decrypt_req = demo_decrypt_req,
     js_auth_req = demo_auth_req, js_auth_res = demo_auth_res, js_results = demo_results,
     js_ssh_keys = demo_ssh_keys, js_ecies = demo_ecies, js_secrets = demo_secrets,
     js_audit = (\<lambda>e. Inr (json_text (event_json e))),
     toml_config = demo_config,
     openssh_parse = (\<lambda>bs. Inr \<lparr>pk_key_data = Ecdsa NistP256 bs bs, pk_comment = ''demo''\<rparr>),
     openssh_print = (\<lambda>k. case pk_key_data k of
        Ecdsa NistP256 priv pub \<Rightarrow> Inr (of_bytes priv) | _ \<Rightarrow> Inl ''unsupported''),
     openssh_decrypt = (\<lambda>k p. Inl ''wrong passphrase''),
     private_key_new = (\<lambda>d cm. Inr \<lparr>pk_key_data = d, pk_comment = cm\<rparr>),
     public_key_data = (\<lambda>k. case pk_key_data k of
        Ecdsa cv priv pub \<Rightarrow> pub | OtherKey a b \<Rightarrow> b | EncryptedKey b \<Rightarrow> b),
     public_openssh = (\<lambda>k. Inr ''ssh-key''),
     key_algorithm = (\<lambda>k. ''ecdsa-sha2-nistp256''),
     fingerprint_sha256 = (\<lambda>bs. ''SHA256:'' @ of_bytes bs),
     ecdsa_sign = (\<lambda>cv k d. Inr ([1, 2], [128, 3])),
     signature_error = (\<lambda>a b. None),
     eph_keygen = (\<lambda>pos. ([word_of_nat pos], pos + 32)),
     p256_public = (\<lambda>k. k),
     p256_dh = (\<lambda>k pub. k @ pub),
     spki_to_der = (\<lambda>d. Inr d),
     spki_of_der = (\<lambda>d. Inr d),
     p256_of_spki = (\<lambda>d. Inr d)\<rparr>"

lemma demo_open_seal: "demo_seal k n p = Inr ct \<Longrightarrow> demo_open k n ct = Inr p \<and> length ct = length p + 16"
  by (auto simp: demo_seal_def demo_open_def demo_tag_def)

lemma demo_aead_ok: "aead_ok demo_crates"
  by (auto simp: aead_ok_def demo_crates_def dest: demo_open_seal)

lemma demo_base64_ok: "base64_ok demo_crates"
  by (simp add: base64_ok_def demo_crates_def demo_b64_inverse demo_b64_ascii)

lemma demo_audit_json_ok: "audit_json_ok demo_crates json_read"
  by (simp add: audit_json_ok_def demo_crates_def json_text_line json_read_back)

lemma demo_sha256_ok: "sha256_ok demo_crates"
  by (auto simp: sha256_ok_def demo_crates_def demo_sha_def)

section \<open>Surroundings\<close>

definition demo_device :: device where
  "demo_device = \<lparr>
     dev_open_err = (\<lambda>t. None), dev_serial = 7, dev_pin_err = (\<lambda>t p. None),
     dev_ecdh = (\<lambda>t e. Inr (e @ [42])), dev_mgm_err = (\<lambda>t. None),
     dev_generate = (\<lambda>t. Inr [42]), dev_delay = (\<lambda>t. 5)\<rparr>"

definition demo_world :: world where
  "demo_world = \<lparr>
     home = Some ''/h'', files = Map.empty, dirs = {},
     read_err = (\<lambda>p. None), write_err = (\<lambda>p. None), mkdir_err = (\<lambda>p. None),
     osrng = (\<lambda>n. word_of_nat n), rng_pos = 0, instant = 1000, unix_time = 1700000000,
     today = ''2026-04-24'', timestamp = ''2026-04-24T12:00:00+08:00'',
     stdout = [], typed = [], dev = demo_device, dev_tick = 0, yk_log = [], notified = [],
     proc_stat = (\<lambda>p. None), proc_exe = (\<lambda>p. None),
     env_vars = [], stdin_tty = True, stdin_data = Inr [], tty_line = None,
     pbcopy_err = None, clipboard = None, fork_err = None, exec_err = (\<lambda>p. None), logged = [], host_name = ''h'',
     local_time = ''2026-04-24 12:00:00''\<rparr>"

section \<open>Evaluation\<close>

lemma demo_crates_sel [simp]:
  "gcm_seal demo_crates = demo_seal" "gcm_open demo_crates = demo_open" "sha256 demo_crates = demo_sha"
  "b64url_encode demo_crates = demo_b64" "b64url_decode demo_crates = demo_unb64"
  "b64std_decode demo_crates = demo_unb64"
  "totp_secret demo_crates s = Inr (as_bytes s)" "totp_code demo_crates bs now = Inr ''123456''"
  "js_encrypt_items demo_crates = demo_encrypt_items" "js_decrypt_req demo_crates = demo_decrypt_req"
  "js_auth_req demo_crates = demo_auth_req" "js_auth_res demo_crates = demo_auth_res"
  "js_results demo_crates = demo_results" "js_ssh_keys demo_crates = demo_ssh_keys"
  "js_ecies demo_crates = demo_ecies" "js_secrets demo_crates = demo_secrets"
  "js_audit demo_crates ev = Inr (json_text (event_json ev))"
  "toml_config demo_crates = demo_config"
  "openssh_parse demo_crates bs = Inr \<lparr>pk_key_data = Ecdsa NistP256 bs bs, pk_comment = ''demo''\<rparr>"
  "private_key_new demo_crates d cm = Inr \<lparr>pk_key_data = d, pk_comment = cm\<rparr>"
  "public_openssh demo_crates k = Inr ''ssh-key''"
  "key_algorithm demo_crates k = ''ecdsa-sha2-nistp256''"
  "fingerprint_sha256 demo_crates bs = ''SHA256:'' @ of_bytes bs"
  "ecdsa_sign demo_crates cv priv msg = Inr ([1, 2], [128, 3])"
  "signature_error demo_crates al sg = None"
  "eph_keygen demo_crates pos = ([word_of_nat pos], pos + 32)"
  "p256_public demo_crates sk = sk" "p256_dh demo_crates sk pub = sk @ pub"
  "spki_to_der demo_crates der = Inr der" "spki_of_der demo_crates der = Inr der"
  "p256_of_spki demo_crates der = Inr der"
  by (simp_all add: demo_crates_def)

lemma demo_world_sel [simp]:
  "home demo_world = Some ''/h''" "files demo_world = Map.empty" "dirs demo_world = {}"
  "read_err demo_world p = None" "write_err demo_world p = None" "mkdir_err demo_world p = None"
  "osrng demo_world = word_of_nat" "rng_pos demo_world = 0" "instant demo_world = 1000"
  "unix_time demo_world = 1700000000" "stdout demo_world = []" "typed demo_world = []"
  "today demo_world = ''2026-04-24''" "timestamp demo_world = ''2026-04-24T12:00:00+08:00''"
  "dev demo_world = demo_device" "dev_tick demo_world = 0" "yk_log demo_world = []"
  "notified demo_world = []" "proc_stat demo_world pid = None" "proc_exe demo_world pid = None"
  "env_vars demo_world = []" "stdin_tty demo_world = True" "stdin_data demo_world = Inr []"
  "tty_line demo_world = None" "pbcopy_err demo_world = None" "clipboard demo_world = None"
  "fork_err demo_world = None" "exec_err demo_world p = None" "logged demo_world = []"
  "host_name demo_world = ''h''" "local_time demo_world = ''2026-04-24 12:00:00''"
  by (simp_all add: demo_world_def)

lemma demo_device_sel [simp]:
  "dev_open_err demo_device t = None" "dev_serial demo_device = 7" "dev_pin_err demo_device t pin = None"
  "dev_ecdh demo_device t e = Inr (e @ [42])" "dev_mgm_err demo_device t = None"
  "dev_generate demo_device t = Inr [42]" "dev_delay demo_device t = 5"
  by (simp_all add: demo_device_def)

lemma length_demo_sha [simp]: "length (demo_sha bs) = 32"
  by (auto simp: demo_sha_def)

lemma row_serde_ser [simp]: "ser (row_serde f g) x = Inr (esc_list (f x))"
  by (simp add: row_serde_def)

lemmas demo_serde_defs = demo_results_def demo_encrypt_items_def demo_ssh_keys_def
  demo_secrets_def demo_ecies_def demo_config_def demo_decrypt_req_def demo_auth_req_def
  demo_auth_res_def rows_serde_def

lemmas io_eval_defs = io_bind_def io_context_def io_map_err_def io_attempt_def io_or_def

end
