(* ===== verification/Vt_Backend.thy ===== *)
theory Vt_Backend
  imports Vt_Security Vt_Instance
begin

text \<open>
  \<open>src/yk_backend.rs\<close> (and the two functions of \<open>src/security.rs\<close> that use it): the files under
  \<open>~/.vt-yubi\<close>, ECIES to the PIV key in slot 9d, initialisation, the loading of the two master
  secrets, the presence check, and the encrypted store of SSH keys.  The open handle of the device is
  implicit: each operation names the device calls it makes, in order.
\<close>

section \<open>Paths and configuration\<close>

definition vt_yubi_dir :: "string wio" where
  "vt_yubi_dir = io_bind home_dir (\<lambda>h. io_ret (path_join h ''.vt-yubi''))"

definition config_path :: "string wio" where
  "config_path = io_bind vt_yubi_dir (\<lambda>d. io_ret (path_join d ''config.toml''))"

definition passphrase_path :: "string wio" where
  "passphrase_path = io_bind vt_yubi_dir (\<lambda>d. io_ret (path_join d ''passphrase.enc''))"

definition auth_token_path :: "string wio" where
  "auth_token_path = io_bind vt_yubi_dir (\<lambda>d. io_ret (path_join d ''auth_token.enc''))"

definition ssh_keys_path :: "string wio" where
  "ssh_keys_path = io_bind vt_yubi_dir (\<lambda>d. io_ret (path_join d ''ssh_keys.enc''))"

definition ensure_dir :: "unit wio" where
  "ensure_dir =
     io_bind vt_yubi_dir (\<lambda>dir.
     io_bind (fs_exists dir) (\<lambda>ex.
     if ex then io_ret ()
     else io_context ''Failed to create ~/.vt-yubi directory'' (create_dir_all dir)))"

definition load_config :: "crates \<Rightarrow> vt_yubi_config wio" where
  "load_config c =
     io_bind config_path (\<lambda>path.
     io_bind (io_context ''Failed to read ~/.vt-yubi/config.toml'' (fs_read_to_string path)) (\<lambda>data.
     io_context ''Failed to parse config.toml''
       (io_of (of_sum Msg (de (toml_config c) (as_bytes data))))))"

definition save_config :: "crates \<Rightarrow> vt_yubi_config \<Rightarrow> unit wio" where
  "save_config c config =
     io_seq ensure_dir (
     io_bind (io_of (of_sum Msg (ser (toml_config c) config))) (\<lambda>data.
     io_bind config_path (\<lambda>path.
     io_context ''Failed to write config.toml'' (fs_write path data))))"

section \<open>ECIES\<close>

definition aes_init :: "bytes \<Rightarrow> unit outcome" where
  "aes_init key = ensure (length key = 32) (Msg ''aes init: Invalid Length'')"

definition ecies_encrypt :: "crates \<Rightarrow> bytes \<Rightarrow> bytes \<Rightarrow> ecies_ciphertext wio" where
  "ecies_encrypt c recipient_pubkey plaintext =
     io_bind (ephemeral_secret c) (\<lambda>k.
     let aes_key = sha256 c (p256_dh c k recipient_pubkey) in
     io_seq (io_of (aes_init aes_key)) (
     io_bind (fill_bytes 12) (\<lambda>nonce.
     io_bind (io_of (of_sum (\<lambda>e. Msg (''ecies encrypt: '' @ e)) (gcm_seal c aes_key nonce plaintext)))
       (\<lambda>ciphertext.
     io_ret \<lparr>ec_ephemeral_pubkey = p256_public c k, ec_nonce = nonce, ec_ciphertext = ciphertext\<rparr>))))"

definition ecies_decrypt :: "crates \<Rightarrow> ecies_ciphertext \<Rightarrow> bytes wio" where
  "ecies_decrypt c enc =
     io_seq (notify_touch ''Touch YubiKey to decrypt'') (
     io_bind (io_context ''YubiKey ECDH failed (touch the key when it blinks)''
               (yk_ecdh (ec_ephemeral_pubkey enc))) (\<lambda>shared.
     let aes_key = sha256 c shared in
     io_seq (io_of (aes_init aes_key)) (
     io_of (of_sum (\<lambda>e. Msg (''ecies decrypt: '' @ e))
       (gcm_open c aes_key (ec_nonce enc) (ec_ciphertext enc))))))"

definition write_ecies_file :: "crates \<Rightarrow> string \<Rightarrow> ecies_ciphertext \<Rightarrow> unit wio" where
  "write_ecies_file c path ct =
     io_bind (io_of (of_sum Msg (ser (js_ecies c) ct))) (\<lambda>bs.
     io_context (''Failed to write '' @ path) (fs_write path bs))"

definition read_ecies_file :: "crates \<Rightarrow> string \<Rightarrow> ecies_ciphertext wio" where
  "read_ecies_file c path =
     io_bind (io_context (''Failed to read '' @ path) (fs_read path)) (\<lambda>bs.
     io_context ''Failed to parse ECIES ciphertext'' (io_of (of_sum Msg (de (js_ecies c) bs))))"

definition parse_piv_public_key :: "crates \<Rightarrow> bytes \<Rightarrow> bytes outcome" where
  "parse_piv_public_key c der =
     oc_bind (of_sum (\<lambda>_. Msg ''Failed to parse PIV public key DER'') (spki_of_der c der)) (\<lambda>spki.
     of_sum (\<lambda>_. Msg ''Failed to convert SPKI to P-256 public key'') (p256_of_spki c spki))"

section \<open>Initialisation\<close>

definition already_initialized :: "string \<Rightarrow> error" where
  "already_initialized dir = Msg (''Already initialized. Delete '' @ dir @ '' to re-initialize.'')"

text \<open>
  The part \<open>yubikey_init\<close> and \<open>yubikey_init_with_pubkey\<close> share, line for line: two fresh secrets,
  encrypted to the public key and written, then the configuration, which makes the directory count
  as initialised.
\<close>

definition write_fresh_secrets :: "crates \<Rightarrow> bytes \<Rightarrow> vt_yubi_config \<Rightarrow> string wio" where
  "write_fresh_secrets c public_key config =
     io_bind generate_key (\<lambda>passphrase.
     io_bind (ecies_encrypt c public_key passphrase) (\<lambda>enc_passphrase.
     io_bind passphrase_path (\<lambda>pp.
     io_seq (write_ecies_file c pp enc_passphrase) (
     io_bind generate_key (\<lambda>origin_auth_token.
     let auth_token = sha256 c (sha256 c origin_auth_token) in
     io_bind (ecies_encrypt c public_key auth_token) (\<lambda>enc_auth_token.
     io_bind auth_token_path (\<lambda>ap.
     io_seq (write_ecies_file c ap enc_auth_token) (
     io_seq (save_config c config) (
     io_ret (b64url_encode c origin_auth_token))))))))))"

definition yubikey_init :: "crates \<Rightarrow> string wio" where
  "yubikey_init c =
     io_bind vt_yubi_dir (\<lambda>dir.
     io_bind config_path (\<lambda>cp.
     io_bind (fs_exists cp) (\<lambda>ex.
     if ex then io_fail (already_initialized dir)
     else
       io_seq ensure_dir (
       io_seq (io_context ''Failed to open YubiKey. Is it plugged in?'' yk_open) (
       io_bind (io_get (\<lambda>w. dev_serial (dev w))) (\<lambda>serial.
       io_seq (io_context ''Management key auth failed. Was the default mgmt key changed?''
                 yk_authenticate) (
       io_bind (io_context ''PIV key generation failed'' yk_generate) (\<lambda>pubkey_info.
       io_bind (io_of (of_sum (\<lambda>_. Msg ''Failed to encode public key to DER'')
                 (spki_to_der c pubkey_info))) (\<lambda>pubkey_der.
       io_bind (io_of (parse_piv_public_key c pubkey_der)) (\<lambda>public_key.
       write_fresh_secrets c public_key
         \<lparr>cfg_yubikey_serial = serial, cfg_piv_public_key_der = pubkey_der\<rparr>))))))))))"

definition read_pubkey_as_der :: "crates \<Rightarrow> string \<Rightarrow> bytes wio" where
  "read_pubkey_as_der c path =
     io_bind (io_context (''Failed to read public key file: '' @ path) (fs_read path)) (\<lambda>bs.
     case from_utf8 bs of
       Some text \<Rightarrow>
         (if contains text ''-----BEGIN'' then
            (let b64 = join [] (filter (\<lambda>line. \<not> starts_with line ''-----'') (str_lines text)) in
             io_of (of_sum (\<lambda>_. Msg ''Failed to base64-decode PEM body'')
               (b64std_decode c (as_bytes b64))))
          else io_ret bs)
     | None \<Rightarrow> io_ret bs)"

definition roundtrip_text :: bytes where
  "roundtrip_text = as_bytes ''vt-yubi-init-roundtrip-check''"

definition roundtrip_failed :: string where
  "roundtrip_failed = ''Round-trip decrypt failed '' @ [CHR 0xE2, CHR 0x80, CHR 0x94] @
     '' the provided public key does not match the private key on this YubiKey''"

definition roundtrip_mismatch :: string where
  "roundtrip_mismatch =
     ''Round-trip plaintext mismatch (public key and YubiKey private key do not match)''"

definition yubikey_init_with_pubkey :: "crates \<Rightarrow> string \<Rightarrow> string wio" where
  "yubikey_init_with_pubkey c pubkey_path =
     io_bind vt_yubi_dir (\<lambda>dir.
     io_bind config_path (\<lambda>cp.
     io_bind (fs_exists cp) (\<lambda>ex.
     if ex then io_fail (already_initialized dir)
     else
       io_bind (read_pubkey_as_der c pubkey_path) (\<lambda>pubkey_der.
       io_bind (io_of (parse_piv_public_key c pubkey_der)) (\<lambda>public_key.
       io_seq (io_context ''Failed to open YubiKey. Is it plugged in?'' yk_open) (
       io_bind (io_context ''Failed to read PIN'' (prompt_password ''YubiKey PIN: '')) (\<lambda>pin.
       io_seq (io_context ''PIN verification failed'' (yk_verify_pin (as_bytes (trim pin)))) (
       io_bind (ecies_encrypt c public_key roundtrip_text) (\<lambda>test_ct.
       io_bind (io_context roundtrip_failed (ecies_decrypt c test_ct)) (\<lambda>test_decrypted.
       io_seq (io_of (ensure (test_decrypted = roundtrip_text) (Msg roundtrip_mismatch))) (
       io_seq ensure_dir (
       write_fresh_secrets c public_key
         \<lparr>cfg_yubikey_serial = 0, cfg_piv_public_key_der = pubkey_der\<rparr>))))))))))))"

section \<open>Opening the device, loading the secrets\<close>

text \<open>A serial that differs from the configured one is only logged.\<close>

definition open_and_verify_pin :: "crates \<Rightarrow> string wio" where
  "open_and_verify_pin c =
     io_bind (load_config c) (\<lambda>config.
     io_seq (io_context ''Failed to open YubiKey. Is it plugged in?'' yk_open) (
     io_bind (io_context ''Failed to read PIN'' (prompt_password ''YubiKey PIN: '')) (\<lambda>raw.
     let pin = trim raw in
     io_seq (io_context ''PIN verification failed'' (yk_verify_pin (as_bytes pin))) (
     io_ret pin))))"

definition open_with_pin :: "string \<Rightarrow> unit wio" where
  "open_with_pin pin =
     io_seq (io_context ''Failed to open YubiKey. Is it plugged in?'' yk_open)
       (io_context ''PIN verification failed'' (yk_verify_pin (as_bytes pin)))"

definition load_passphrase :: "crates \<Rightarrow> bytes wio" where
  "load_passphrase c =
     io_bind passphrase_path (\<lambda>p.
     io_bind (read_ecies_file c p) (\<lambda>enc.
     io_bind (io_context ''Failed to decrypt passphrase'' (ecies_decrypt c enc)) (\<lambda>plaintext.
     io_seq (io_of (ensure (length plaintext = 32) (Msg ''Passphrase must be exactly 32 bytes''))) (
     io_ret plaintext))))"

definition load_auth_token :: "crates \<Rightarrow> bytes wio" where
  "load_auth_token c =
     io_bind auth_token_path (\<lambda>p.
     io_bind (read_ecies_file c p) (\<lambda>enc.
     io_bind (io_context ''Failed to decrypt auth token'' (ecies_decrypt c enc)) (\<lambda>plaintext.
     io_seq (io_of (ensure (length plaintext = 32) (Msg ''Auth token must be exactly 32 bytes''))) (
     io_ret plaintext))))"

text \<open>\<open>security.rs\<close>: the ciphers built from the loaded secrets.\<close>

definition load_mac_cipher_from_yubikey :: "crates \<Rightarrow> aes_gcm_crypto wio" where
  "load_mac_cipher_from_yubikey c = io_bind (load_passphrase c) (\<lambda>p. io_of (aes_new p))"

definition load_ciphers_from_yubikey :: "crates \<Rightarrow> (aes_gcm_crypto \<times> aes_gcm_crypto) wio" where
  "load_ciphers_from_yubikey c =
     io_bind (load_auth_token c) (\<lambda>auth_token.
     io_bind (io_of (aes_new auth_token)) (\<lambda>auth_cipher.
     io_bind (load_passphrase c) (\<lambda>passphrase.
     io_bind (io_of (aes_new passphrase)) (\<lambda>passphrase_cipher.
     io_ret (auth_cipher, passphrase_cipher)))))"

section \<open>Presence\<close>

text \<open>A dummy ECDH on an open device, which the user must touch.\<close>

definition verify_presence :: "crates \<Rightarrow> string \<Rightarrow> bool wio" where
  "verify_presence c reason =
     io_seq (notify_touch reason) (
     io_bind (ephemeral_secret c) (\<lambda>k.
     io_bind (io_attempt (yk_ecdh (p256_public c k))) (\<lambda>r.
     io_ret (case r of Inr _ \<Rightarrow> True | Inl _ \<Rightarrow> False))))"

definition verify_presence_with_pin :: "crates \<Rightarrow> string \<Rightarrow> string \<Rightarrow> bool wio" where
  "verify_presence_with_pin c pin reason =
     io_seq (notify_touch reason) (
     io_seq (open_with_pin pin) (
     io_bind (ephemeral_secret c) (\<lambda>k.
     io_bind (io_attempt (yk_ecdh (p256_public c k))) (\<lambda>r.
     io_ret (case r of Inr _ \<Rightarrow> True | Inl _ \<Rightarrow> False)))))"

section \<open>Signing on the device\<close>

text \<open>Not called by the program; \<open>sign\<close> is what the device answers, by the tick, for an algorithm and a digest.\<close>

definition piv_sign :: "(nat \<Rightarrow> string \<Rightarrow> bytes \<Rightarrow> string + bytes) \<Rightarrow> bytes \<Rightarrow> string \<Rightarrow> bytes wio" where
  "piv_sign sign digest algorithm =
     io_context ''YubiKey signing failed (touch the key when it blinks)''
       (dev_call YkSign (\<lambda>_ tick. sign tick algorithm digest))"

section \<open>The store of SSH keys\<close>

definition load_ssh_keys_from_file :: "crates \<Rightarrow> aes_gcm_crypto \<Rightarrow> ssh_key_entry list wio" where
  "load_ssh_keys_from_file c cipher =
     io_bind ssh_keys_path (\<lambda>path.
     io_bind (fs_exists path) (\<lambda>ex.
     if \<not> ex then io_ret []
     else
       io_bind (io_context ''Failed to read ssh_keys.enc'' (fs_read path)) (\<lambda>encrypted.
       io_bind (io_of (aes_decrypt c cipher encrypted)) (\<lambda>decrypted.
       io_of (of_sum Msg (de (js_ssh_keys c) decrypted))))))"

definition save_ssh_keys_to_file ::
  "crates \<Rightarrow> aes_gcm_crypto \<Rightarrow> ssh_key_entry list \<Rightarrow> unit wio" where
  "save_ssh_keys_to_file c cipher entries =
     io_seq ensure_dir (
     io_bind (io_of (of_sum Msg (ser (js_ssh_keys c) entries))) (\<lambda>json.
     io_bind (aes_encrypt c cipher json) (\<lambda>encrypted.
     io_bind ssh_keys_path (\<lambda>path.
     io_context ''Failed to write ssh_keys.enc'' (fs_write path encrypted)))))"

section \<open>Re-encryption\<close>

definition reencrypt_passphrase :: "crates \<Rightarrow> bytes \<Rightarrow> unit wio" where
  "reencrypt_passphrase c passphrase =
     io_bind (load_config c) (\<lambda>config.
     io_bind (io_of (parse_piv_public_key c (cfg_piv_public_key_der config))) (\<lambda>public_key.
     io_bind (ecies_encrypt c public_key passphrase) (\<lambda>enc.
     io_bind passphrase_path (\<lambda>p. write_ecies_file c p enc))))"

definition reencrypt_auth_token :: "crates \<Rightarrow> bytes \<Rightarrow> unit wio" where
  "reencrypt_auth_token c auth_token =
     io_bind (load_config c) (\<lambda>config.
     io_bind (io_of (parse_piv_public_key c (cfg_piv_public_key_der config))) (\<lambda>public_key.
     io_bind (ecies_encrypt c public_key auth_token) (\<lambda>enc.
     io_bind auth_token_path (\<lambda>p. write_ecies_file c p enc))))"

lemmas path_defs = vt_yubi_dir_def config_path_def passphrase_path_def auth_token_path_def
  ssh_keys_path_def

section \<open>Frames\<close>

lemma same_env_paths [frame_intros]:
  "within same_env vt_yubi_dir"
  "within same_env config_path"
  "within same_env passphrase_path"
  "within same_env auth_token_path"
  "within same_env ssh_keys_path"
  unfolding path_defs by (intro frame_intros)+

lemma same_files_paths [frame_intros]:
  "within same_files vt_yubi_dir"
  "within same_files config_path"
  "within same_files passphrase_path"
  "within same_files auth_token_path"
  "within same_files ssh_keys_path"
  unfolding path_defs by (intro frame_intros)+

lemma same_env_yk [frame_intros]:
  "within same_env yk_open"
  "within same_env (yk_verify_pin p)"
  "within same_env (yk_ecdh e)"
  "within same_env yk_authenticate"
  "within same_env yk_generate"
  unfolding yk_prim_defs by (intro frame_intros)+

lemma same_files_yk [frame_intros]:
  "within same_files yk_open"
  "within same_files (yk_verify_pin p)"
  "within same_files (yk_ecdh e)"
  "within same_files yk_authenticate"
  "within same_files yk_generate"
  unfolding yk_prim_defs by (intro frame_intros)+

lemma same_files_ensure_dir [frame_intros]: "within same_files ensure_dir"
  unfolding ensure_dir_def by (auto intro!: frame_intros)

lemma same_env_ensure_dir [frame_intros]: "within same_env ensure_dir"
  unfolding ensure_dir_def by (auto intro!: frame_intros)

lemma same_env_ecies [frame_intros]:
  "within same_env (ecies_encrypt c pub p)"
  "within same_env (ecies_decrypt c ct)"
  "within same_env (read_ecies_file c path)"
  "within same_env (write_ecies_file c path ct)"
  unfolding ecies_encrypt_def ecies_decrypt_def read_ecies_file_def write_ecies_file_def Let_def
  by (intro frame_intros)+

lemma same_files_ecies [frame_intros]:
  "within same_files (ecies_encrypt c pub p)"
  "within same_files (ecies_decrypt c ct)"
  "within same_files (read_ecies_file c path)"
  unfolding ecies_encrypt_def ecies_decrypt_def read_ecies_file_def Let_def
  by (intro frame_intros)+

lemma same_env_config [frame_intros]:
  "within same_env (load_config c)"
  "within same_env (save_config c cfg)"
  unfolding load_config_def save_config_def by (intro frame_intros)+

lemma same_files_config [frame_intros]: "within same_files (load_config c)"
  unfolding load_config_def by (intro frame_intros)

lemma same_env_loads [frame_intros]:
  "within same_env (load_passphrase c)"
  "within same_env (load_auth_token c)"
  "within same_env (open_and_verify_pin c)"
  "within same_env (open_with_pin pin)"
  unfolding load_passphrase_def load_auth_token_def open_and_verify_pin_def open_with_pin_def Let_def
  by (intro frame_intros)+

lemma same_files_loads [frame_intros]:
  "within same_files (load_passphrase c)"
  "within same_files (load_auth_token c)"
  "within same_files (open_and_verify_pin c)"
  "within same_files (open_with_pin pin)"
  unfolding load_passphrase_def load_auth_token_def open_and_verify_pin_def open_with_pin_def Let_def
  by (intro frame_intros)+

lemma presence_frames [frame_intros]:
  "within same_env (verify_presence_with_pin c pin r)"
  "within same_files (verify_presence_with_pin c pin r)"
  "within same_env (verify_presence c r)"
  "within same_files (verify_presence c r)"
  unfolding verify_presence_with_pin_def verify_presence_def
  by (intro frame_intros)+

lemma ssh_store_env [frame_intros]:
  "within same_env (load_ssh_keys_from_file c a)"
  "within same_env (save_ssh_keys_to_file c a es)"
  unfolding load_ssh_keys_from_file_def save_ssh_keys_to_file_def
  by (auto intro!: frame_intros)

lemma same_device_paths [frame_intros]:
  "within same_device vt_yubi_dir"
  "within same_device ssh_keys_path"
  unfolding path_defs by (intro frame_intros)+

lemma same_device_ensure_dir [frame_intros]: "within same_device ensure_dir"
  unfolding ensure_dir_def by (auto intro!: frame_intros)

lemma ssh_store_device [frame_intros]:
  "within same_device (load_ssh_keys_from_file c a)"
  "within same_device (save_ssh_keys_to_file c a es)"
  unfolding load_ssh_keys_from_file_def save_ssh_keys_to_file_def
  by (auto intro!: frame_intros)

end
