(* ===== verification/Vt_Custody.thy ===== *)
theory Vt_Custody
  imports Vt_Backend
begin

text \<open>
  What the backend promises: a secret encrypted to the PIV key is recovered by the device that holds
  it, and only with a touch; initialisation stores two secrets the device recovers and prints the
  token that matches the stored one; presence is exactly open, PIN and touch; the store of SSH keys
  returns what was saved.
\<close>

section \<open>ECIES\<close>

text \<open>
  The device holds the private key of \<open>pub\<close>: where it answers, its shared secret is the one the
  ephemeral side computed.  \<open>touch_at d t\<close>: at tick \<open>t\<close> the user touches the key, so it answers.
\<close>

definition piv_matches :: "crates \<Rightarrow> device \<Rightarrow> bytes \<Rightarrow> bool" where
  "piv_matches c d pub \<longleftrightarrow>
     (\<forall>t k s. dev_ecdh d t (p256_public c k) = Inr s \<longrightarrow> s = p256_dh c k pub)"

definition touch_at :: "device \<Rightarrow> nat \<Rightarrow> bool" where
  "touch_at d t \<longleftrightarrow> (\<forall>e. \<exists>s. dev_ecdh d t e = Inr s)"

text \<open>\<open>ct\<close> is an ECIES ciphertext of \<open>p\<close> to \<open>pub\<close>.\<close>

definition ecies_of :: "crates \<Rightarrow> bytes \<Rightarrow> bytes \<Rightarrow> ecies_ciphertext \<Rightarrow> bool" where
  "ecies_of c pub p ct \<longleftrightarrow> (\<exists>k. ec_ephemeral_pubkey ct = p256_public c k
     \<and> length (sha256 c (p256_dh c k pub)) = 32
     \<and> gcm_open c (sha256 c (p256_dh c k pub)) (ec_nonce ct) (ec_ciphertext ct) = Inr p)"

lemma ecies_encrypt_sound:
  assumes "aead_ok c" and "ecies_encrypt c pub p w = (Ok ct, v)"
  shows "ecies_of c pub p ct"
  using assms
  by (auto simp: ecies_encrypt_def ephemeral_secret_def Let_def io_bind_eq_Ok io_seq_def aes_init_def
      ensure_def ecies_of_def split: prod.splits if_splits)
    (blast dest: aead_openI)

lemma ecies_decrypt_touched:
  assumes "ecies_of c pub p ct" and "piv_matches c (dev w) pub" and "touch_at (dev w) (dev_tick w)"
  shows "ecies_decrypt c ct w =
    (Ok p, w\<lparr>notified := notified w @ [''Touch YubiKey to decrypt''],
             dev_tick := Suc (dev_tick w), instant := instant w + dev_delay (dev w) (dev_tick w),
             yk_log := yk_log w @ [YkEcdh True]\<rparr>)"
proof -
  from assms(1) obtain k where k: "ec_ephemeral_pubkey ct = p256_public c k"
    "length (sha256 c (p256_dh c k pub)) = 32"
    "gcm_open c (sha256 c (p256_dh c k pub)) (ec_nonce ct) (ec_ciphertext ct) = Inr p"
    by (auto simp: ecies_of_def)
  from assms(3) obtain s where "dev_ecdh (dev w) (dev_tick w) (p256_public c k) = Inr s"
    by (auto simp: touch_at_def)
  with assms(2) have "dev_ecdh (dev w) (dev_tick w) (p256_public c k) = Inr (p256_dh c k pub)"
    by (auto simp: piv_matches_def)
  with k show ?thesis
    by (simp add: ecies_decrypt_def notify_touch_def yk_ecdh_def io_bind_def io_context_def
        io_map_err_def dev_call_def aes_init_def Let_def)
qed

text \<open>Without a touch there is no plaintext, whatever the ciphertext.\<close>

lemma ecies_decrypt_log:
  assumes "ecies_decrypt c ct w = (r, v)"
  shows "(is_ok r \<longrightarrow> yk_log v = yk_log w @ [YkEcdh True]) \<and>
    (\<exists>b. yk_log v = yk_log w @ [YkEcdh b])"
  using assms
  by (cases "dev_ecdh (dev w) (dev_tick w) (ec_ephemeral_pubkey ct)")
    (auto simp: ecies_decrypt_def notify_touch_def yk_ecdh_def io_bind_def io_context_def
      io_map_err_def dev_call_def aes_init_def ensure_def Let_def split: if_splits)

section \<open>Stored secrets\<close>

text \<open>The abstraction of a secret file: it holds \<open>p\<close> for the holder of \<open>pub\<close>'s private key.\<close>

definition stored :: "crates \<Rightarrow> (string \<rightharpoonup> bytes) \<Rightarrow> string \<Rightarrow> bytes \<Rightarrow> bytes \<Rightarrow> bool" where
  "stored c fs path pub p \<longleftrightarrow>
     (\<exists>bs ct. fs path = Some bs \<and> de (js_ecies c) bs = Inr ct \<and> ecies_of c pub p ct)"

lemma write_ecies_stored:
  assumes "serde_ok (js_ecies c)" and "ecies_of c pub p ct"
    and "write_ecies_file c path ct w = (Ok (), v)"
  shows "stored c (files v) path pub p \<and> (\<forall>q. q \<noteq> path \<longrightarrow> files v q = files w q)"
  using assms
  by (auto simp: write_ecies_file_def io_bind_eq_Ok fs_write_eq_Ok stored_def dest: serde_okD)

lemma stored_other: "files v q = files w q \<Longrightarrow> stored c (files v) q pub p = stored c (files w) q pub p"
  by (simp add: stored_def)

lemma read_stored:
  assumes "stored c (files w) path pub p" and "read_err w path = None"
  obtains ct where "read_ecies_file c path w = (Ok ct, w)" and "ecies_of c pub p ct"
proof -
  from assms(1) obtain bs ct where "files w path = Some bs" "de (js_ecies c) bs = Inr ct"
    and ct: "ecies_of c pub p ct"
    by (auto simp: stored_def)
  with assms(2) have "read_ecies_file c path w = (Ok ct, w)"
    by (simp add: read_ecies_file_def fs_read_def io_bind_def io_context_def io_map_err_def)
  with ct that show thesis by blast
qed

abbreviation vt_file :: "string \<Rightarrow> string \<Rightarrow> string" where
  "vt_file h n \<equiv> path_join (path_join h ''.vt-yubi'') n"

lemma paths_eval:
  assumes "home w = Some h"
  shows "vt_yubi_dir w = (Ok (path_join h ''.vt-yubi''), w)"
    and "passphrase_path w = (Ok (vt_file h ''passphrase.enc''), w)"
    and "auth_token_path w = (Ok (vt_file h ''auth_token.enc''), w)"
    and "config_path w = (Ok (vt_file h ''config.toml''), w)"
    and "ssh_keys_path w = (Ok (vt_file h ''ssh_keys.enc''), w)"
  using assms by (simp_all add: path_defs home_dir_def io_bind_def)

lemma paths_Ok:
  "vt_yubi_dir w = (Ok p, v) \<longleftrightarrow> (\<exists>h. home w = Some h \<and> p = path_join h ''.vt-yubi'' \<and> v = w)"
  "passphrase_path w = (Ok p, v) \<longleftrightarrow> (\<exists>h. home w = Some h \<and> p = vt_file h ''passphrase.enc'' \<and> v = w)"
  "auth_token_path w = (Ok p, v) \<longleftrightarrow> (\<exists>h. home w = Some h \<and> p = vt_file h ''auth_token.enc'' \<and> v = w)"
  "config_path w = (Ok p, v) \<longleftrightarrow> (\<exists>h. home w = Some h \<and> p = vt_file h ''config.toml'' \<and> v = w)"
  "ssh_keys_path w = (Ok p, v) \<longleftrightarrow> (\<exists>h. home w = Some h \<and> p = vt_file h ''ssh_keys.enc'' \<and> v = w)"
  by (auto simp: path_defs home_dir_def io_bind_eq_Ok split: option.splits)

lemma vt_file_inject [simp]: "vt_file h n = vt_file h m \<longleftrightarrow> n = m"
  by (simp add: path_join_def)

lemma load_passphrase_stored:
  assumes "home w = Some h" and "stored c (files w) (vt_file h ''passphrase.enc'') pub p"
    and "read_err w (vt_file h ''passphrase.enc'') = None" and "length p = 32"
    and "piv_matches c (dev w) pub" and "touch_at (dev w) (dev_tick w)"
  shows "\<exists>v. load_passphrase c w = (Ok p, v)"
proof -
  obtain ct where "read_ecies_file c (vt_file h ''passphrase.enc'') w = (Ok ct, w)"
    and "ecies_of c pub p ct"
    using assms(2,3) by (rule read_stored)
  with assms(1,4) ecies_decrypt_touched [OF _ assms(5,6)] show ?thesis
    by (simp add: load_passphrase_def paths_eval io_bind_def io_context_def io_map_err_def)
qed

lemma load_auth_token_stored:
  assumes "home w = Some h" and "stored c (files w) (vt_file h ''auth_token.enc'') pub p"
    and "read_err w (vt_file h ''auth_token.enc'') = None" and "length p = 32"
    and "piv_matches c (dev w) pub" and "touch_at (dev w) (dev_tick w)"
  shows "\<exists>v. load_auth_token c w = (Ok p, v)"
proof -
  obtain ct where "read_ecies_file c (vt_file h ''auth_token.enc'') w = (Ok ct, w)"
    and "ecies_of c pub p ct"
    using assms(2,3) by (rule read_stored)
  with assms(1,4) ecies_decrypt_touched [OF _ assms(5,6)] show ?thesis
    by (simp add: load_auth_token_def paths_eval io_bind_def io_context_def io_map_err_def)
qed

section \<open>Initialisation stores what it promises\<close>

lemma save_config_files:
  assumes "save_config c cfg w = (Ok (), v)" and "home w = Some h"
  shows "\<exists>data. ser (toml_config c) cfg = Inr data
    \<and> files v = (files w)(vt_file h ''config.toml'' \<mapsto> data)"
proof -
  from assms(1) obtain u data where u: "ensure_dir w = (Ok (), u)"
    and d: "ser (toml_config c) cfg = Inr data"
    and v: "io_bind config_path (\<lambda>path. io_context ''Failed to write config.toml'' (fs_write path data)) u
      = (Ok (), v)"
    by (auto simp: save_config_def io_bind_eq_Ok)
  have "files u = files w" "home u = home w"
    using withinD [OF same_files_ensure_dir u] withinD [OF same_env_ensure_dir u]
    by (simp_all add: same_files_def same_env_def)
  with v d assms(2) show ?thesis
    by (auto simp: io_bind_eq_Ok paths_Ok fs_write_eq_Ok)
qed

text \<open>
  What the two initialisations share: after it, the directory holds a 32-byte passphrase and the
  transport key derived from the token that was returned, both for the holder of the public key.
\<close>

lemma write_fresh_secrets_stored:
  assumes laws: "aead_ok c" "sha256_ok c" "base64_ok c" "serde_ok (js_ecies c)"
    and run: "write_fresh_secrets c pub cfg w = (Ok vt_auth, v)" and h: "home w = Some h"
  shows "(\<exists>p. length p = 32 \<and> stored c (files v) (vt_file h ''passphrase.enc'') pub p) \<and>
    (\<exists>tok. length tok = 32 \<and> decode_auth_cipher_from_b64 c vt_auth = Ok tok \<and>
       stored c (files v) (vt_file h ''auth_token.enc'') pub tok)"
proof -
  let ?pp = "vt_file h ''passphrase.enc''" and ?ap = "vt_file h ''auth_token.enc''"
  from run obtain p w1 e1 w2 pp w3 w4 origin w5 e2 w6 ap w7 w8 where
    p: "generate_key w = (Ok p, w1)" and e1: "ecies_encrypt c pub p w1 = (Ok e1, w2)"
    and pp: "passphrase_path w2 = (Ok pp, w3)" and wr1: "write_ecies_file c pp e1 w3 = (Ok (), w4)"
    and o: "generate_key w4 = (Ok origin, w5)"
    and e2: "ecies_encrypt c pub (sha256 c (sha256 c origin)) w5 = (Ok e2, w6)"
    and ap: "auth_token_path w6 = (Ok ap, w7)" and wr2: "write_ecies_file c ap e2 w7 = (Ok (), w8)"
    and cf: "save_config c cfg w8 = (Ok (), v)" and res: "vt_auth = b64url_encode c origin"
    unfolding write_fresh_secrets_def Let_def io_seq_def by (auto elim!: io_bind_OkE)
  have "same_env w w1" "same_env w4 w5"
    using p o by (auto simp: generate_key_def same_env_def)
  moreover have "same_env w1 w2" "same_env w5 w6"
    by (rule withinD [OF same_env_ecies(1) e1], rule withinD [OF same_env_ecies(1) e2])
  moreover have "same_env w2 w3" "same_env w6 w7"
    by (rule withinD [OF same_env_paths(3) pp], rule withinD [OF same_env_paths(4) ap])
  moreover have "same_env w3 w4" "same_env w7 w8"
    by (rule withinD [OF same_env_ecies(4) wr1], rule withinD [OF same_env_ecies(4) wr2])
  ultimately have env: "same_env w w2" "same_env w w6" "same_env w w8"
    by (blast intro: env.frame_trans)+
  then have homes: "home w2 = Some h" "home w6 = Some h" "home w8 = Some h"
    using h by (simp_all add: same_env_def)
  with pp ap have paths: "pp = ?pp" "w3 = w2" "ap = ?ap" "w7 = w6"
    by (auto simp: paths_Ok)
  have st1: "stored c (files w4) ?pp pub p"
    using write_ecies_stored [OF laws(4) ecies_encrypt_sound [OF laws(1) e1] wr1] paths by simp
  have "same_files w4 w6"
    using o withinD [OF same_files_ecies(1) e2] by (auto simp: generate_key_def same_files_def)
  with st1 have "stored c (files w6) ?pp pub p"
    by (simp add: same_files_def)
  moreover have wr: "stored c (files w8) ?ap pub (sha256 c (sha256 c origin))"
    "\<forall>q. q \<noteq> ?ap \<longrightarrow> files w8 q = files w6 q"
    using write_ecies_stored [OF laws(4) ecies_encrypt_sound [OF laws(1) e2] wr2] paths by auto
  ultimately have st: "stored c (files w8) ?pp pub p" "stored c (files w8) ?ap pub (sha256 c (sha256 c origin))"
    by (auto simp: stored_def)
  have keep: "files v q = files w8 q" if "q \<noteq> vt_file h ''config.toml''" for q
    using save_config_files [OF cf homes(3)] that by auto
  have "length p = 32"
    using p by (auto simp: generate_key_def)
  moreover have "length (sha256 c (sha256 c origin)) = 32"
    using laws(2) by (simp add: sha256_ok_def)
  ultimately show ?thesis
    using st keep laws(3) res
    by (auto simp: decode_auth_cipher_from_b64_def base64_ok_def stored_def)
qed

lemma yubikey_init_OkE:
  assumes "yubikey_init c w = (Ok vt_auth, v)"
  obtains u info der pub cfg where
    "dev_generate (dev w) (Suc (Suc (dev_tick w))) = Inr info" and "spki_to_der c info = Inr der"
    and "parse_piv_public_key c der = Ok pub" and "same_env w u" and "same_files w u"
    and "write_fresh_secrets c pub cfg u = (Ok vt_auth, v)" and "cfg_piv_public_key_der cfg = der"
proof -
  from assms obtain u1 u2 u3 info u4 der pub where
    u1: "ensure_dir w = (Ok (), u1)" and u2: "yk_open u1 = (Ok (), u2)"
    and u3: "yk_authenticate u2 = (Ok (), u3)" and g: "yk_generate u3 = (Ok info, u4)"
    and d: "spki_to_der c info = Inr der" "parse_piv_public_key c der = Ok pub"
    and f: "write_fresh_secrets c pub
      \<lparr>cfg_yubikey_serial = dev_serial (dev u2), cfg_piv_public_key_der = der\<rparr> u4 = (Ok vt_auth, v)"
    by (auto simp: yubikey_init_def io_bind_eq_Ok paths_Ok fs_exists_def split: if_splits)
  note frames = withinD [OF same_env_ensure_dir u1] withinD [OF same_env_yk(1) u2]
    withinD [OF same_env_yk(4) u3] withinD [OF same_env_yk(5) g]
  have "dev_tick u3 = Suc (Suc (dev_tick w))"
    using withinD [OF same_device_ensure_dir u1] u2 u3
    by (auto simp: same_device_def yk_prim_defs dev_call_def Let_def)
  moreover have "dev_generate (dev u3) (dev_tick u3) = Inr info"
    using g by (auto simp: yk_generate_def dev_call_def Let_def)
  ultimately have "dev_generate (dev w) (Suc (Suc (dev_tick w))) = Inr info"
    using frames by (simp add: same_env_def)
  moreover have "same_env w u4"
    using frames by (blast intro: env.frame_trans)
  moreover have "same_files w u4"
    using withinD [OF same_files_ensure_dir u1] withinD [OF same_files_yk(1) u2]
      withinD [OF same_files_yk(4) u3] withinD [OF same_files_yk(5) g]
    by (blast intro: fil.frame_trans)
  ultimately show thesis
    using that d f by simp
qed

text \<open>
  What the holder of the key sees of an initialised directory: a touch at any time yields a 32-byte
  passphrase, and a transport key that is the one \<open>VT_AUTH\<close> decodes to.
\<close>

definition recoverable :: "crates \<Rightarrow> string \<Rightarrow> world \<Rightarrow> bool" where
  "recoverable c vt_auth u \<longleftrightarrow>
     (\<exists>tok x. load_auth_token c u = (Ok tok, x) \<and> decode_auth_cipher_from_b64 c vt_auth = Ok tok)
     \<and> (\<exists>p x. load_passphrase c u = (Ok p, x) \<and> length p = 32)"

lemma recoverable_stored:
  assumes "home u = Some h" and "\<And>p. read_err u p = None"
    and "piv_matches c (dev u) pub" and "touch_at (dev u) (dev_tick u)"
    and "\<exists>p. length p = 32 \<and> stored c (files u) (vt_file h ''passphrase.enc'') pub p"
    and "\<exists>tok. length tok = 32 \<and> decode_auth_cipher_from_b64 c vt_auth = Ok tok \<and>
       stored c (files u) (vt_file h ''auth_token.enc'') pub tok"
  shows "recoverable c vt_auth u"
  using assms load_passphrase_stored load_auth_token_stored unfolding recoverable_def by metis

text \<open>
  C15. After \<open>yubikey_init\<close> has returned \<open>VT_AUTH\<close>, the holder of the generated PIV key recovers both
  master secrets from the files with a touch: a passphrase of 32 bytes, and the very transport key
  that a client derives from \<open>VT_AUTH\<close>, so the client and the server of this directory agree.
\<close>

theorem yubikey_init_recoverable:
  assumes "aead_ok c" and "sha256_ok c" and "base64_ok c" and "serde_ok (js_ecies c)"
    and "yubikey_init c w = (Ok vt_auth, v)" and "home w = Some h"
    and "home u = Some h" and "files u = files v" and "\<forall>p. read_err u p = None"
    and "\<forall>t info der pub. dev_generate (dev w) t = Inr info \<longrightarrow> spki_to_der c info = Inr der \<longrightarrow>
           parse_piv_public_key c der = Ok pub \<longrightarrow> piv_matches c (dev u) pub"
    and "touch_at (dev u) (dev_tick u)"
  shows "recoverable c vt_auth u"
proof -
  obtain s info der pub cfg where
    g: "dev_generate (dev w) (Suc (Suc (dev_tick w))) = Inr info" "spki_to_der c info = Inr der"
      "parse_piv_public_key c der = Ok pub" and s: "same_env w s"
    and f: "write_fresh_secrets c pub cfg s = (Ok vt_auth, v)"
    using assms(5) by (rule yubikey_init_OkE)
  have "home s = Some h" using s assms(6) by (simp add: same_env_def)
  note st = write_fresh_secrets_stored [OF assms(1-4) f this]
  have "piv_matches c (dev u) pub" using assms(10) g by blast
  with assms(7-9,11) st show ?thesis by (intro recoverable_stored) auto
qed

lemmas backend_eval = io_eval_defs path_defs fs_defs ensure_dir_def save_config_def aes_init_def
  ecies_encrypt_def write_ecies_file_def parse_piv_public_key_def write_fresh_secrets_def
  yubikey_init_def ephemeral_secret_def yk_prim_defs dev_call_def generate_key_def Let_def

lemma demo_init: "\<exists>a v. yubikey_init demo_crates demo_world = (Ok a, v)"
  by (simp add: backend_eval demo_seal_def demo_ecies_def demo_config_def)

lemma demo_piv_matches: "piv_matches demo_crates demo_device [42]" "touch_at demo_device t"
  by (simp_all add: piv_matches_def touch_at_def)

theorem yubikey_init_recoverable_witness:
  "\<exists>a v. yubikey_init demo_crates demo_world = (Ok a, v) \<and>
     recoverable demo_crates a (demo_world\<lparr>files := files v\<rparr>)"
proof -
  obtain a v where run: "yubikey_init demo_crates demo_world = (Ok a, v)"
    using demo_init by blast
  have "recoverable demo_crates a (demo_world\<lparr>files := files v\<rparr>)"
    by (rule yubikey_init_recoverable [OF demo_aead_ok demo_sha256_ok demo_base64_ok _ run, of "''/h''"])
      (auto simp: demo_serde_ok parse_piv_public_key_def demo_piv_matches)
  with run show ?thesis by blast
qed

section \<open>Initialisation is guarded\<close>

lemma same_device_config [frame_intros]:
  "within same_device config_path"
  "within same_device passphrase_path"
  "within same_device auth_token_path"
  unfolding path_defs by (intro frame_intros)+

lemma same_device_write_fresh [frame_intros]: "within same_device (write_fresh_secrets c pub cfg)"
  unfolding write_fresh_secrets_def ecies_encrypt_def write_ecies_file_def save_config_def
    generate_key_def Let_def
  by (intro frame_intros)

lemma read_pubkey_frames [frame_intros]:
  "within same_files (read_pubkey_as_der c path)"
  "within same_device (read_pubkey_as_der c path)"
  unfolding read_pubkey_as_der_def Let_def
  by (auto intro!: frame_intros split: option.split)

lemma same_device_ecies_encrypt [frame_intros]: "within same_device (ecies_encrypt c pub p)"
  unfolding ecies_encrypt_def Let_def by (intro frame_intros)

text \<open>
  On a directory that is already initialised, both initialisations fail with the message that
  says so and change nothing: no file is overwritten, no key is generated, no PIN is asked for.
\<close>

theorem init_refuses_initialized:
  assumes "home w = Some h"
    and "files w (vt_file h ''config.toml'') \<noteq> None \<or> vt_file h ''config.toml'' \<in> dirs w"
  shows "yubikey_init c w = (Err (already_initialized (path_join h ''.vt-yubi'')), w)
    \<and> yubikey_init_with_pubkey c path w = (Err (already_initialized (path_join h ''.vt-yubi'')), w)"
  using assms
  by (auto simp: yubikey_init_def yubikey_init_with_pubkey_def io_bind_def paths_eval fs_exists_def)

theorem init_refuses_initialized_witness:
  "yubikey_init demo_crates (demo_world\<lparr>files := [''/h/.vt-yubi/config.toml'' \<mapsto> []]\<rparr>)
     = (Err (already_initialized ''/h/.vt-yubi''), demo_world\<lparr>files := [''/h/.vt-yubi/config.toml'' \<mapsto> []]\<rparr>)"
  using init_refuses_initialized
    [of "demo_world\<lparr>files := [''/h/.vt-yubi/config.toml'' \<mapsto> []]\<rparr>" "''/h''" demo_crates "''x''"]
  by (simp add: path_join_def)

text \<open>The check that precedes any write: the device decrypted the test text.\<close>

definition pubkey_verified :: "crates \<Rightarrow> string \<Rightarrow> (bytes \<times> bytes) wio" where
  "pubkey_verified c pubkey_path =
     io_bind (read_pubkey_as_der c pubkey_path) (\<lambda>pubkey_der.
     io_bind (io_of (parse_piv_public_key c pubkey_der)) (\<lambda>public_key.
     io_seq (io_context ''Failed to open YubiKey. Is it plugged in?'' yk_open) (
     io_bind (io_context ''Failed to read PIN'' (prompt_password ''YubiKey PIN: '')) (\<lambda>pin.
     io_seq (io_context ''PIN verification failed'' (yk_verify_pin (as_bytes (trim pin)))) (
     io_bind (ecies_encrypt c public_key roundtrip_text) (\<lambda>test_ct.
     io_bind (io_context roundtrip_failed (ecies_decrypt c test_ct)) (\<lambda>test_decrypted.
     io_seq (io_of (ensure (test_decrypted = roundtrip_text) (Msg roundtrip_mismatch))) (
     io_ret (pubkey_der, public_key)))))))))"

lemma init_with_pubkey_split:
  "yubikey_init_with_pubkey c path =
     io_bind vt_yubi_dir (\<lambda>dir. io_bind config_path (\<lambda>cp. io_bind (fs_exists cp) (\<lambda>ex.
     if ex then io_fail (already_initialized dir)
     else io_bind (pubkey_verified c path) (\<lambda>(der, pub).
       io_seq ensure_dir (write_fresh_secrets c pub
         \<lparr>cfg_yubikey_serial = 0, cfg_piv_public_key_der = der\<rparr>)))))"
  unfolding yubikey_init_with_pubkey_def pubkey_verified_def io_seq_def
  by (simp add: io_bind_assoc io_bind_ret cong: if_cong)

lemma pubkey_verified_files: "within same_files (pubkey_verified c path)"
  unfolding pubkey_verified_def by (intro frame_intros)

lemma pubkey_verified_log:
  assumes "pubkey_verified c path w = (Ok (der, pub), v)"
  shows "yk_log v = yk_log w @ [YkOpen True, YkPin True, YkEcdh True]"
proof -
  from assms obtain u0 u1 pin u2 u3 ct u4 p u5 where
    u0: "read_pubkey_as_der c path w = (Ok der, u0)"
    and u1: "yk_open u0 = (Ok (), u1)" and u2: "prompt_password ''YubiKey PIN: '' u1 = (Ok pin, u2)"
    and u3: "yk_verify_pin (as_bytes (trim pin)) u2 = (Ok (), u3)"
    and u4: "ecies_encrypt c pub roundtrip_text u3 = (Ok ct, u4)"
    and u5: "ecies_decrypt c ct u4 = (Ok p, u5)" and "v = u5"
    by (auto simp: pubkey_verified_def io_bind_eq_Ok)
  have "yk_log u0 = yk_log w" "yk_log u2 = yk_log u1" "yk_log u4 = yk_log u3"
    using withinD [OF read_pubkey_frames(2) u0] withinD [OF same_device_prims(11) u2]
      withinD [OF same_device_ecies_encrypt u4]
    by (simp_all add: same_device_def)
  moreover have "yk_log u1 = yk_log u0 @ [YkOpen True]" "yk_log u3 = yk_log u2 @ [YkPin True]"
    using u1 u3 by (auto simp: yk_prim_defs dev_call_def Let_def split: sum.splits)
  moreover have "yk_log u5 = yk_log u4 @ [YkEcdh True]"
    using ecies_decrypt_log [OF u5] by simp
  ultimately show ?thesis using \<open>v = u5\<close> by simp
qed

text \<open>
  \<open>yubikey_init_with_pubkey\<close> touches no file before the device has proved that it holds the
  private key: if any file differs afterwards (whether the call succeeded or not), then the device was
  opened, the PIN accepted, and the test text decrypted by a touched ECDH, once each, in that order.
\<close>

theorem init_with_pubkey_verifies_first:
  assumes "yubikey_init_with_pubkey c path w = (r, v)" and "files v \<noteq> files w"
  shows "yk_log v = yk_log w @ [YkOpen True, YkPin True, YkEcdh True]"
proof -
  let ?rest = "\<lambda>(der, pub). io_seq ensure_dir (write_fresh_secrets c pub
    \<lparr>cfg_yubikey_serial = 0, cfg_piv_public_key_der = der\<rparr>)"
  have run: "io_bind (pubkey_verified c path) ?rest w = (r, v)"
    using assms
    by (auto simp: init_with_pubkey_split io_bind_def path_defs home_dir_def fs_exists_def
        split: option.splits if_splits prod.splits outcome.splits)
  obtain r0 u where pv: "pubkey_verified c path w = (r0, u)"
    by fastforce
  have fu: "files u = files w"
    using withinD [OF pubkey_verified_files pv] by (simp add: same_files_def)
  with run pv assms(2) obtain der pub where r0: "r0 = Ok (der, pub)"
    by (cases r0) (auto simp: io_bind_def)
  have "within same_device (?rest (der, pub))"
    by (auto intro!: frame_intros)
  moreover have "?rest (der, pub) u = (r, v)"
    using run pv r0 by (simp add: io_bind_def)
  ultimately have "yk_log v = yk_log u"
    by (auto simp: same_device_def dest: withinD)
  with pubkey_verified_log [of c path w der pub u] pv r0 show ?thesis by simp
qed

lemma init_with_pubkey_OkE:
  assumes "yubikey_init_with_pubkey c path w = (Ok vt_auth, v)"
  obtains u der pub cfg where "read_pubkey_as_der c path w = (Ok der, w)"
    and "parse_piv_public_key c der = Ok pub" and "home u = home w"
    and "write_fresh_secrets c pub cfg u = (Ok vt_auth, v)"
proof -
  from assms obtain u0 u1 u2 u3 u4 u5 u6 der pub pin ct p where
    u0: "read_pubkey_as_der c path w = (Ok der, u0)" and pub: "parse_piv_public_key c der = Ok pub"
    and u1: "yk_open u0 = (Ok (), u1)" and u2: "prompt_password ''YubiKey PIN: '' u1 = (Ok pin, u2)"
    and u3: "yk_verify_pin (as_bytes (trim pin)) u2 = (Ok (), u3)"
    and u4: "ecies_encrypt c pub roundtrip_text u3 = (Ok ct, u4)"
    and u5: "ecies_decrypt c ct u4 = (Ok p, u5)" and u6: "ensure_dir u5 = (Ok (), u6)"
    and f: "write_fresh_secrets c pub \<lparr>cfg_yubikey_serial = 0, cfg_piv_public_key_der = der\<rparr> u6
      = (Ok vt_auth, v)"
    by (auto simp: yubikey_init_with_pubkey_def io_bind_eq_Ok paths_Ok fs_exists_def split: if_splits)
  have w: "u0 = w"
    using u0 by (auto simp: read_pubkey_as_der_def io_bind_eq_Ok fs_read_def Let_def
        split: option.splits if_splits)
  have "same_env w u6"
    using withinD [OF same_env_yk(1) u1] withinD [OF same_env_prims(11) u2]
      withinD [OF same_env_yk(2) u3] withinD [OF same_env_ecies(1) u4]
      withinD [OF same_env_ecies(2) u5] withinD [OF same_env_ensure_dir u6]
    unfolding w by (blast intro: env.frame_trans)
  with that [OF _ pub _ f] u0 w show thesis by (simp add: same_env_def)
qed

text \<open>
  The same for an imported key: after a successful \<open>yubikey_init_with_pubkey\<close>, any device that
  holds the private key of the public key in the file (a backup YubiKey, say) recovers both master
  secrets with a touch, and \<open>VT_AUTH\<close> decodes to the stored transport key.
\<close>

theorem init_with_pubkey_recoverable:
  assumes "aead_ok c" and "sha256_ok c" and "base64_ok c" and "serde_ok (js_ecies c)"
    and "yubikey_init_with_pubkey c path w = (Ok vt_auth, v)" and "home w = Some h"
    and "home u = Some h" and "files u = files v" and "\<forall>p. read_err u p = None"
    and "\<forall>der pub. read_pubkey_as_der c path w = (Ok der, w) \<longrightarrow>
           parse_piv_public_key c der = Ok pub \<longrightarrow> piv_matches c (dev u) pub"
    and "touch_at (dev u) (dev_tick u)"
  shows "recoverable c vt_auth u"
proof -
  obtain s der pub cfg where d: "read_pubkey_as_der c path w = (Ok der, w)"
      "parse_piv_public_key c der = Ok pub" and s: "home s = home w"
    and f: "write_fresh_secrets c pub cfg s = (Ok vt_auth, v)"
    using assms(5) by (rule init_with_pubkey_OkE)
  note st = write_fresh_secrets_stored [OF assms(1-4) f]
  have "piv_matches c (dev u) pub" using assms(10) d by blast
  with assms(6-9,11) st s show ?thesis by (intro recoverable_stored) auto
qed

definition demo_pub_world :: world where
  "demo_pub_world = demo_world\<lparr>files := [''/pub'' \<mapsto> [42]], typed := [Inr ''1234'']\<rparr>"

lemmas pubkey_eval = backend_eval yubikey_init_with_pubkey_def read_pubkey_as_der_def
  ecies_decrypt_def notify_touch_def prompt_password_def demo_pub_world_def

lemma demo_open_sealed [simp]: "demo_open k n (p @ demo_tag k n) = Inr p"
  using demo_open_seal [of k n p "p @ demo_tag k n"] by (simp add: demo_seal_def)

lemma demo_pub_read: "read_pubkey_as_der demo_crates ''/pub'' demo_pub_world = (Ok [42], demo_pub_world)"
  by (simp add: pubkey_eval from_utf8_def utf8_len_def tails_ok_def of_bytes_def starts_with_def)

lemma demo_init_pub:
  "\<exists>a v. yubikey_init_with_pubkey demo_crates ''/pub'' demo_pub_world = (Ok a, v) \<and>
     files v ''/h/.vt-yubi/config.toml'' \<noteq> None"
  using demo_pub_read
  by (simp add: backend_eval yubikey_init_with_pubkey_def ecies_decrypt_def notify_touch_def
      prompt_password_def demo_pub_world_def demo_seal_def demo_ecies_def demo_config_def path_join_def)

theorem init_with_pubkey_verifies_first_witness:
  "\<exists>r v. yubikey_init_with_pubkey demo_crates ''/pub'' demo_pub_world = (r, v) \<and>
     yk_log v = [YkOpen True, YkPin True, YkEcdh True]"
proof -
  obtain a v where run: "yubikey_init_with_pubkey demo_crates ''/pub'' demo_pub_world = (Ok a, v)"
    and f: "files v ''/h/.vt-yubi/config.toml'' \<noteq> None"
    using demo_init_pub by blast
  have "files demo_pub_world ''/h/.vt-yubi/config.toml'' = None"
    by (simp add: demo_pub_world_def)
  with f have "files v \<noteq> files demo_pub_world" by metis
  from init_with_pubkey_verifies_first [OF run this] run show ?thesis
    by (auto simp: demo_pub_world_def)
qed

theorem init_with_pubkey_recoverable_witness:
  "\<exists>a v. yubikey_init_with_pubkey demo_crates ''/pub'' demo_pub_world = (Ok a, v) \<and>
     recoverable demo_crates a (demo_world\<lparr>files := files v\<rparr>)"
proof -
  obtain a v where run: "yubikey_init_with_pubkey demo_crates ''/pub'' demo_pub_world = (Ok a, v)"
    using demo_init_pub by blast
  have "recoverable demo_crates a (demo_world\<lparr>files := files v\<rparr>)"
    by (rule init_with_pubkey_recoverable
        [OF demo_aead_ok demo_sha256_ok demo_base64_ok _ run, of "''/h''"])
      (auto simp: demo_serde_ok demo_pub_read parse_piv_public_key_def demo_piv_matches,
        simp add: demo_pub_world_def)
  with run show ?thesis by blast
qed

section \<open>Presence\<close>

lemma presence_outcomes:
  assumes "verify_presence_with_pin c pin reason w = (r, v)"
  shows "(r = Ok True \<longleftrightarrow> yk_log v = yk_log w @ [YkOpen True, YkPin True, YkEcdh True]) \<and>
    (r = Ok False \<longleftrightarrow> yk_log v = yk_log w @ [YkOpen True, YkPin True, YkEcdh False]) \<and>
    (r = Err (Msg ''PIN verification failed'') \<longleftrightarrow> yk_log v = yk_log w @ [YkOpen True, YkPin False]) \<and>
    (r = Err (Msg ''Failed to open YubiKey. Is it plugged in?'') \<longleftrightarrow> yk_log v = yk_log w @ [YkOpen False]) \<and>
    (\<exists>evs. yk_log v = yk_log w @ evs \<and> evs \<in> {[YkOpen False], [YkOpen True, YkPin False],
       [YkOpen True, YkPin True, YkEcdh False], [YkOpen True, YkPin True, YkEcdh True]})"
proof -
  obtain k pos where k: "eph_keygen c (rng_pos w) = (k, pos)" by fastforce
  let ?t = "dev_tick w"
  show ?thesis
    using assms k
    by (cases "dev_open_err (dev w) ?t"; cases "dev_pin_err (dev w) (Suc ?t) (as_bytes pin)";
        cases "dev_ecdh (dev w) (Suc (Suc ?t)) (p256_public c k)")
      (auto simp: verify_presence_with_pin_def open_with_pin_def notify_touch_def yk_prim_defs
        dev_call_def ephemeral_secret_def io_bind_def io_context_def io_map_err_def io_attempt_def)
qed

text \<open>
  The presence check says yes exactly when the device was opened, accepted the PIN and performed
  the touched ECDH, in this order and nothing else; it says no exactly when only the ECDH failed (no
  touch); a device that cannot be opened or refuses the PIN is an error, and it never panics.
\<close>

theorem verify_presence_with_pin_outcomes:
  assumes "verify_presence_with_pin c pin reason w = (r, v)"
  shows "(r = Ok True \<longleftrightarrow> yk_log v = yk_log w @ [YkOpen True, YkPin True, YkEcdh True]) \<and>
    (r = Ok False \<longleftrightarrow> yk_log v = yk_log w @ [YkOpen True, YkPin True, YkEcdh False]) \<and>
    (r = Err (Msg ''PIN verification failed'') \<longleftrightarrow> yk_log v = yk_log w @ [YkOpen True, YkPin False]) \<and>
    (r = Err (Msg ''Failed to open YubiKey. Is it plugged in?'') \<longleftrightarrow> yk_log v = yk_log w @ [YkOpen False]) \<and>
    (\<exists>evs. yk_log v = yk_log w @ evs \<and> evs \<in> {[YkOpen False], [YkOpen True, YkPin False],
       [YkOpen True, YkPin True, YkEcdh False], [YkOpen True, YkPin True, YkEcdh True]})"
  by (rule presence_outcomes [OF assms])

theorem verify_presence_with_pin_outcomes_witness:
  "\<exists>r v. verify_presence_with_pin demo_crates ''1234'' ''sudo'' demo_world = (r, v) \<and> r = Ok True
     \<and> yk_log v = [YkOpen True, YkPin True, YkEcdh True]"
proof -
  obtain r v where run: "verify_presence_with_pin demo_crates ''1234'' ''sudo'' demo_world = (r, v)"
    by fastforce
  then have "r = Ok True"
    by (simp add: verify_presence_with_pin_def open_with_pin_def notify_touch_def yk_prim_defs
        dev_call_def ephemeral_secret_def io_eval_defs)
  with verify_presence_with_pin_outcomes [OF run] run show ?thesis by auto
qed

end
