(* ===== verification/Vt_Key_Store.thy ===== *)
theory Vt_Key_Store
  imports Vt_Custody
begin

text \<open>
  The encrypted store of SSH keys as an interface: what loading returns after saving.  The agent's
  handlers and the commands of \<open>ssh_cli.rs\<close> all change the store by loading the entries, changing the
  list and saving it; the locale proves once what such a change does, in the strict form (a failed load stops
  it) and in the agent's form (\<open>unwrap_or_default\<close>: a failed load counts as an empty store).  A save that fails
  keeps the store, unless the write was cut off after the file had been emptied.
\<close>

locale key_store =
  fixes load :: "'k \<Rightarrow> ('s, 'e list) io"
    and save :: "'k \<Rightarrow> 'e list \<Rightarrow> ('s, unit) io"
    and readable :: "'s \<Rightarrow> bool"
    and cut :: "'s \<Rightarrow> 's \<Rightarrow> bool"
    and lawful :: bool
  assumes load_pure: "load k s = (r, t) \<Longrightarrow> t = s"
    and load_after_save: "lawful \<Longrightarrow> readable s \<Longrightarrow> save k es s = (Ok (), t) \<Longrightarrow> load k t = (Ok es, t)"
    and failed_save: "save k es s = (Err e, t) \<Longrightarrow> cut s t \<or> fst (load k t) = fst (load k s)"
    and load_no_panic: "fst (load k s) \<noteq> Panic m"
begin

definition content :: "'k \<Rightarrow> 's \<Rightarrow> 'e list outcome" where
  "content k s = fst (load k s)"

lemma load_eval: "load k s = (content k s, s)"
  unfolding content_def by (metis load_pure prod.collapse)

lemma saved: "lawful \<Longrightarrow> readable s \<Longrightarrow> save k es s = (Ok (), t) \<Longrightarrow> content k t = Ok es"
  unfolding content_def by (simp add: load_after_save)

lemma kept: "save k es s = (Err e, t) \<Longrightarrow> \<not> cut s t \<Longrightarrow> content k t = content k s"
  unfolding content_def using failed_save by blast

lemma change_strict:
  assumes "lawful" and "readable s"
    and "io_bind (load k) (\<lambda>es. save k (f es)) s = (Ok (), t)"
  shows "\<exists>es. content k s = Ok es \<and> content k t = Ok (f es)"
proof -
  from assms(3) obtain es where "content k s = Ok es" and "save k (f es) s = (Ok (), t)"
    by (auto simp: io_bind_eq_Ok load_eval)
  with assms(1,2) show ?thesis by (auto intro: saved)
qed

lemma change_lenient:
  assumes "lawful" and "readable s"
    and "io_bind (io_or [] (load k)) (\<lambda>es. save k (f es)) s = (Ok (), t)"
  shows "content k t = Ok (f (case content k s of Ok es \<Rightarrow> es | _ \<Rightarrow> []))"
proof -
  have "content k s \<noteq> Panic m" for m
    by (simp add: content_def load_no_panic)
  with assms(3) have "save k (f (case content k s of Ok es \<Rightarrow> es | _ \<Rightarrow> [])) s = (Ok (), t)"
    by (cases "content k s") (auto simp: io_bind_eq_Ok io_or_def load_eval)
  with assms(1,2) show ?thesis by (rule saved)
qed

text \<open>The hazard of the lenient form: an unreadable store is replaced, not kept.\<close>

lemma change_lenient_loses:
  assumes "lawful" and "readable s" and "content k s = Err e"
    and "io_bind (io_or [] (load k)) (\<lambda>es. save k (f es)) s = (Ok (), t)"
  shows "content k t = Ok (f [])"
  using change_lenient [OF assms(1,2,4)] assms(3) by simp

end

text \<open>The file can be read: the home directory is known and reading it is not refused.\<close>

definition keys_readable :: "world \<Rightarrow> bool" where
  "keys_readable w \<longleftrightarrow> (\<exists>h. home w = Some h \<and> read_err w (vt_file h ''ssh_keys.enc'') = None)"

lemma load_ssh_keys_state: "load_ssh_keys_from_file c a w = (r, v) \<Longrightarrow> v = w"
  by (cases "aes_decrypt c a (the (files w (vt_file (the (home w)) ''ssh_keys.enc'')))")
    (auto simp: load_ssh_keys_from_file_def io_eval_defs paths_Ok path_defs home_dir_def fs_exists_def
      fs_read_def split: option.splits if_splits outcome.splits prod.splits)

lemma load_ssh_keys_eval:
  assumes "home w = Some h"
  shows "fst (load_ssh_keys_from_file c a w) =
    (if files w (vt_file h ''ssh_keys.enc'') = None \<and> vt_file h ''ssh_keys.enc'' \<notin> dirs w then Ok []
     else if read_err w (vt_file h ''ssh_keys.enc'') \<noteq> None
        \<or> files w (vt_file h ''ssh_keys.enc'') = None then Err (Msg ''Failed to read ssh_keys.enc'')
     else oc_bind (aes_decrypt c a (the (files w (vt_file h ''ssh_keys.enc''))))
            (\<lambda>d. of_sum Msg (de (js_ssh_keys c) d)))"
  using assms
  by (cases "aes_decrypt c a (the (files w (vt_file h ''ssh_keys.enc'')))")
    (auto simp: load_ssh_keys_from_file_def io_eval_defs paths_eval fs_exists_def fs_read_def
      split: option.splits)

text \<open>Making the directory does not make a file of it.\<close>

definition same_key_dir :: "world \<Rightarrow> world \<Rightarrow> bool" where
  "same_key_dir w v \<longleftrightarrow> home v = home w \<and>
     (\<forall>h. home w = Some h \<longrightarrow> (vt_file h ''ssh_keys.enc'' \<in> dirs v \<longleftrightarrow> vt_file h ''ssh_keys.enc'' \<in> dirs w))"

interpretation keydir: frame_rel same_key_dir
  by unfold_locales (auto simp: same_key_dir_def)

lemmas keydir_frame [frame_intros] = keydir.all

lemma same_key_dir_prims [frame_intros]:
  "within same_key_dir ensure_dir"
  "within same_key_dir ssh_keys_path"
  "within same_key_dir (aes_encrypt c a p)"
  "within same_key_dir (fs_write q bs)"
  by (auto simp: within_def same_key_dir_def path_defs ensure_dir_def fs_defs io_eval_defs
      aes_encrypt_state path_join_def split: option.splits write_fault.splits)

lemma same_key_dir_save: "within same_key_dir (save_ssh_keys_to_file c a es)"
  unfolding save_ssh_keys_to_file_def by (intro frame_intros)

lemma save_ssh_keys_OkE:
  assumes "save_ssh_keys_to_file c a es w = (Ok (), v)"
  obtains h json ct u u' where "home w = Some h" and "ser (js_ssh_keys c) es = Inr json"
    and "aes_encrypt c a json u = (Ok ct, u')"
    and "files v = (files w)(vt_file h ''ssh_keys.enc'' \<mapsto> ct)"
proof -
  from assms obtain u json ct u' h where u: "ensure_dir w = (Ok (), u)"
    and j: "ser (js_ssh_keys c) es = Inr json" and e: "aes_encrypt c a json u = (Ok ct, u')"
    and h: "home u' = Some h"
    and v: "v = u'\<lparr>files := (files u')(vt_file h ''ssh_keys.enc'' \<mapsto> ct)\<rparr>"
    by (auto simp: save_ssh_keys_to_file_def io_bind_eq_Ok paths_Ok fs_write_eq_Ok)
  have "home w = Some h"
    using withinD [OF same_env_ensure_dir u] withinD [OF aes_frames(1) e] h
    by (simp add: same_env_def)
  moreover have "files v = (files w)(vt_file h ''ssh_keys.enc'' \<mapsto> ct)"
    using withinD [OF same_files_ensure_dir u] withinD [OF aes_frames(2) e] v
    by (simp add: same_files_def)
  ultimately show thesis
    using that [OF _ j e] by blast
qed

text \<open>The write of the key file was cut off.\<close>

definition keys_cut :: "world \<Rightarrow> world \<Rightarrow> bool" where
  "keys_cut w v \<longleftrightarrow> (\<exists>h. home w = Some h \<and> cut_off (vt_file h ''ssh_keys.enc'') w v)"

text \<open>A write of the key file is done as a whole or not at all.\<close>

definition vault_whole :: "world \<Rightarrow> bool" where
  "vault_whole w \<longleftrightarrow> (\<forall>h n e. home w = Some h \<longrightarrow> write_err w (vt_file h ''ssh_keys.enc'') \<noteq> Some (CutOff n e))"

lemma whole_not_cut: "vault_whole w \<Longrightarrow> \<not> keys_cut w v"
  by (auto simp: vault_whole_def keys_cut_def cut_off_def)

lemma save_ssh_keys_files:
  assumes "save_ssh_keys_to_file c a es w = (r, v)" and "r \<noteq> Ok ()"
  shows "files v = files w \<or> keys_cut w v"
proof -
  obtain r1 u where u: "ensure_dir w = (r1, u)" by fastforce
  have fu: "files u = files w" "same_env w u"
    using withinD [OF same_files_ensure_dir u] withinD [OF same_env_ensure_dir u] by (simp_all add: same_files_def)
  show ?thesis
  proof (cases r1)
    case (Ok x)
    show ?thesis
    proof (cases "ser (js_ssh_keys c) es")
      case (Inl e)
      with assms(1) u Ok fu show ?thesis
        by (simp add: save_ssh_keys_to_file_def io_bind_def)
    next
      case (Inr json)
      obtain r2 u' where u': "aes_encrypt c a json u = (r2, u')" by fastforce
      have fu': "files u' = files w" "home u' = home w" "write_err u' = write_err w"
        using withinD [OF aes_frames(2) u'] withinD [OF aes_frames(1) u'] fu
        by (simp_all add: same_files_def same_env_def)
      show ?thesis
      proof (cases r2)
        case ct: (Ok ct)
        show ?thesis
        proof (cases "home w")
          case None
          with assms u Ok Inr u' fu' ct show ?thesis
            by (auto simp: save_ssh_keys_to_file_def io_eval_defs path_defs home_dir_def)
        next
          case (Some h)
          obtain x where x: "fs_write (vt_file h ''ssh_keys.enc'') ct u' = (x, v)" "x \<noteq> Ok ()"
            using assms u Ok Inr u' fu' ct Some
            by (cases "fs_write (vt_file h ''ssh_keys.enc'') ct u'")
              (auto simp: save_ssh_keys_to_file_def io_eval_defs paths_eval split: outcome.splits)
          from x(1) show ?thesis
            by (cases rule: fs_write_cases) (use x(2) fu' Some in \<open>auto simp: keys_cut_def cut_off_def\<close>)
        qed
      qed (use assms u Ok Inr u' fu' in \<open>auto simp: save_ssh_keys_to_file_def io_bind_def\<close>)
    qed
  qed (use assms(1) u fu in \<open>auto simp: save_ssh_keys_to_file_def io_bind_def\<close>)
qed

interpretation ssh_store: key_store
  "load_ssh_keys_from_file c" "save_ssh_keys_to_file c" keys_readable keys_cut
  "aead_ok c \<and> serde_ok (js_ssh_keys c)" for c
proof
  show "load_ssh_keys_from_file c k s = (r, t) \<Longrightarrow> t = s" for k s r t
    by (rule load_ssh_keys_state)
next
  fix k s es t
  assume laws: "aead_ok c \<and> serde_ok (js_ssh_keys c)" and rd: "keys_readable s"
    and run: "save_ssh_keys_to_file c k es s = (Ok (), t)"
  obtain h json ct u u' where h: "home s = Some h" and j: "ser (js_ssh_keys c) es = Inr json"
    and e: "aes_encrypt c k json u = (Ok ct, u')"
    and f: "files t = (files s)(vt_file h ''ssh_keys.enc'' \<mapsto> ct)"
    using run by (rule save_ssh_keys_OkE)
  have "same_env s t" by (rule withinD [OF ssh_store_env(2) run])
  then have ht: "home t = Some h" "read_err t (vt_file h ''ssh_keys.enc'') = None"
    using h rd by (auto simp: same_env_def keys_readable_def)
  have "fst (load_ssh_keys_from_file c k t) = Ok es"
    using aes.unseal_seal [OF _ e] laws j
    by (simp add: load_ssh_keys_eval [OF ht(1)] f ht(2) serde_okD)
  then show "load_ssh_keys_from_file c k t = (Ok es, t)"
    by (metis load_ssh_keys_state prod.collapse)
next
  fix k es s e t
  assume run: "save_ssh_keys_to_file c k es s = (Err e, t)"
  have same: "files t = files s \<or> keys_cut s t" "same_env s t" "same_key_dir s t"
    using save_ssh_keys_files [OF run] withinD [OF ssh_store_env(2) run]
      withinD [OF same_key_dir_save run] by simp_all
  then have env: "home t = home s" "read_err t = read_err s"
    by (simp_all add: same_env_def)
  show "keys_cut s t \<or> fst (load_ssh_keys_from_file c k t) = fst (load_ssh_keys_from_file c k s)"
  proof (cases "home s")
    case None
    with env show ?thesis
      by (simp add: load_ssh_keys_from_file_def io_eval_defs path_defs home_dir_def)
  next
    case (Some h)
    with env same show ?thesis
      by (auto simp: load_ssh_keys_eval [of s h] load_ssh_keys_eval [of t h] same_key_dir_def)
  qed
next
  show "fst (load_ssh_keys_from_file c k s) \<noteq> Panic m" for k s m
  proof (cases "home s")
    case None
    then show ?thesis
      by (simp add: load_ssh_keys_from_file_def io_eval_defs path_defs home_dir_def)
  next
    case (Some h)
    then show ?thesis
      by (auto simp: load_ssh_keys_eval [OF Some] oc_bind_def aes_decrypt_no_panic split: outcome.splits)
  qed
qed

text \<open>
  The store of SSH keys keeps what is saved: loading after a successful save, with the same
  cipher and from any later state with the same readable files, returns exactly the saved entries and
  changes nothing; and a save that fails leaves what would be loaded as it was, unless its write was cut off.
\<close>

theorem ssh_keys_load_after_save:
  assumes "aead_ok c" and "serde_ok (js_ssh_keys c)" and "keys_readable w"
    and "save_ssh_keys_to_file c a es w = (r, v)"
  shows "(r = Ok () \<longrightarrow> load_ssh_keys_from_file c a v = (Ok es, v)) \<and>
    (\<forall>e. r = Err e \<longrightarrow> keys_cut w v \<or>
       fst (load_ssh_keys_from_file c a v) = fst (load_ssh_keys_from_file c a w))"
  using assms ssh_store.load_after_save [of c w a es v] ssh_store.failed_save [of c a es w _ v]
  by auto

definition demo_entry :: ssh_key_entry where
  "demo_entry = \<lparr>ke_fingerprint = ''SHA256:k1'', ke_algorithm = ''ecdsa-sha2-nistp256'',
     ke_comment = ''demo'', ke_key_data = ''k1''\<rparr>"

lemma demo_keys_readable: "keys_readable demo_world"
  by (simp add: keys_readable_def)

lemma demo_save: "\<exists>v. save_ssh_keys_to_file demo_crates a es demo_world = (Ok (), v)"
  by (simp add: save_ssh_keys_to_file_def aes_encrypt_def generate_nonce_def backend_eval
      demo_ssh_keys_def rows_serde_def demo_seal_def)

theorem ssh_keys_load_after_save_witness:
  "\<exists>v. save_ssh_keys_to_file demo_crates (AesGcmCrypto []) [demo_entry] demo_world = (Ok (), v) \<and>
     load_ssh_keys_from_file demo_crates (AesGcmCrypto []) v = (Ok [demo_entry], v)"
proof -
  obtain v where run: "save_ssh_keys_to_file demo_crates (AesGcmCrypto []) [demo_entry] demo_world = (Ok (), v)"
    using demo_save by blast
  with ssh_keys_load_after_save [OF demo_aead_ok _ demo_keys_readable run] show ?thesis
    by (simp add: demo_serde_ok)
qed

end
