(* ===== verification/Vt_Core.thy ===== *)
theory Vt_Core
  imports Vt_Security Vt_Instance
begin

text \<open>
  \<open>src/core.rs\<close>: secret types, and the encryption and decryption of lists of \<open>vt://\<close> items, each
  item succeeding or failing on its own.
\<close>

section \<open>Secret types\<close>

definition secret_type_from_str :: "string \<Rightarrow> secret_type" where
  "secret_type_from_str s =
     (let l = lower_ascii s in
      if l = ''raw'' \<or> l = ''0'' then RAW
      else if l = ''totp'' \<or> l = ''1'' then TOTP
      else UNKNOWN)"

fun secret_type_as_str :: "secret_type \<Rightarrow> string" where
  "secret_type_as_str RAW = ''0''"
| "secret_type_as_str TOTP = ''1''"
| "secret_type_as_str UNKNOWN = ''_''"

text \<open>The type character is a codec, for every type (\<open>UNKNOWN\<close> included).\<close>

interpretation type_char: codec secret_type_as_str secret_type_from_str "\<lambda>_. True" "\<lambda>t. t"
proof
  fix t
  show "secret_type_from_str (secret_type_as_str t) = t"
    by (cases t) (simp_all add: secret_type_from_str_def lower_ascii_def lower_char_def)
qed simp

lemma secret_type_as_str_ascii:
  obtains ch where "secret_type_as_str t = [ch]" and "ascii_char ch"
  by (cases t) (auto simp: ascii_char_def byte_of_def)

section \<open>Encryption of a list of items\<close>

definition vt_prefix :: string where
  "vt_prefix = ''vt://mac/''"

text \<open>The displayed message of an error; these functions only meet \<open>anyhow\<close> errors.\<close>

fun error_text :: "error \<Rightarrow> string" where
  "error_text (Msg m) = m"
| "error_text AgentFailure = []"

definition encrypt_item_one ::
  "crates \<Rightarrow> aes_gcm_crypto \<Rightarrow> encrypt_item \<Rightarrow> crypto_res_item wio" where
  "encrypt_item_one c cipher item =
     io_bind (io_attempt (aes_encrypt c cipher (as_bytes (ei_plaintext item)))) (\<lambda>r.
     io_ret (case r of
         Inr encrypted_value \<Rightarrow>
           \<lparr>cr_result = vt_prefix @ secret_type_as_str (ei_t item) @ b64url_encode c encrypted_value,
            cr_err_message = []\<rparr>
       | Inl e \<Rightarrow> \<lparr>cr_result = [], cr_err_message = error_text e\<rparr>))"

definition do_encrypt ::
  "crates \<Rightarrow> aes_gcm_crypto \<Rightarrow> encrypt_item list \<Rightarrow> crypto_res_item list wio" where
  "do_encrypt c cipher items = io_mapM (encrypt_item_one c cipher) items"

section \<open>Decryption of a list of items\<close>

definition b64_to_decrypted :: "crates \<Rightarrow> aes_gcm_crypto \<Rightarrow> string \<Rightarrow> string outcome" where
  "b64_to_decrypted c cipher b64_str =
     oc_bind (of_sum (\<lambda>e. Msg (''base64 decode error: '' @ e)) (b64url_decode c (as_bytes b64_str)))
       (\<lambda>raw_bytes.
     oc_bind (aes_decrypt c cipher raw_bytes) (\<lambda>decrypted_bytes.
     case from_utf8 decrypted_bytes of
       Some s \<Rightarrow> Ok s
     | None \<Rightarrow> Err (Msg (''decryption error: '' @ utf8_error_text decrypted_bytes))))"

definition totp_generate :: "crates \<Rightarrow> nat \<Rightarrow> string \<Rightarrow> string outcome" where
  "totp_generate c now secret =
     oc_bind (of_sum (\<lambda>e. Msg (''TOTP secret encode error: '' @ e)) (totp_secret c secret)) (\<lambda>bs.
     of_sum (\<lambda>e. Msg (''TOTP generate error: '' @ e)) (totp_code c bs now))"

text \<open>
  One item: \<open>now\<close> is the system time \<open>generate_current\<close> reads.  The slices after the prefix are
  the source's, with their panic when the index is not on a character boundary.
\<close>

definition decrypt_item :: "crates \<Rightarrow> aes_gcm_crypto \<Rightarrow> nat \<Rightarrow> string \<Rightarrow> string outcome" where
  "decrypt_item c cipher now item =
     (if starts_with item vt_prefix then
        oc_bind (slice_from item (length vt_prefix)) (\<lambda>rest.
        if rest = [] then Err (Msg ''empty vt item after prefix'')
        else
          oc_bind (slice_to rest 1) (\<lambda>t.
          case secret_type_from_str t of
            RAW \<Rightarrow> oc_bind (slice_from rest 1) (b64_to_decrypted c cipher)
          | TOTP \<Rightarrow>
              oc_bind (slice_from rest 1) (\<lambda>b64.
              oc_bind (b64_to_decrypted c cipher b64) (totp_generate c now))
          | UNKNOWN \<Rightarrow> Err (Msg ''unknown secret type'')))
      else Err (Msg ''not a vt item''))"

fun to_res_item :: "string outcome \<Rightarrow> crypto_res_item outcome" where
  "to_res_item (Ok v) = Ok \<lparr>cr_result = v, cr_err_message = []\<rparr>"
| "to_res_item (Err e) = Ok \<lparr>cr_result = [], cr_err_message = error_text e\<rparr>"
| "to_res_item (Panic m) = Panic m"

definition do_decrypt ::
  "crates \<Rightarrow> aes_gcm_crypto \<Rightarrow> nat \<Rightarrow> string list \<Rightarrow> crypto_res_item list outcome" where
  "do_decrypt c cipher now items = oc_mapM (\<lambda>item. to_res_item (decrypt_item c cipher now item)) items"

section \<open>Lemmas\<close>

lemma vt_prefix_ascii: "list_all ascii_char vt_prefix"
  by (simp add: vt_prefix_def ascii_char_def byte_of_def)

lemma length_vt_prefix: "length vt_prefix = 9"
  by (simp add: vt_prefix_def)

text \<open>Cutting valid strings after an ASCII prefix.\<close>

lemma rust_str_drop_ascii: "list_all ascii_char p \<Longrightarrow> rust_str (p @ t) = rust_str t"
  by (induction p)
    (simp_all add: rust_str_def as_bytes_def ascii_char_def utf8_valid_ascii_Cons
      del: utf8_valid.simps(2))

lemma boundary_after_prefix:
  assumes "rust_str (p @ t)" and "list_all ascii_char p"
  shows "is_char_boundary (p @ t) (length p)"
proof (cases t)
  case Nil
  then show ?thesis by (simp add: is_char_boundary_def)
next
  case (Cons d ds)
  with assms have "utf8_valid (byte_of d # as_bytes ds)"
    by (simp add: rust_str_drop_ascii del: utf8_valid.simps(2)) (simp add: rust_str_def as_bytes_def)
  then have "\<not> tail_byte (byte_of d)"
    by (rule utf8_valid_head_not_tail)
  with Cons show ?thesis
    by (simp add: is_char_boundary_def is_cont_def nth_append)
qed

lemma slice_after_prefix:
  "rust_str (p @ t) \<Longrightarrow> list_all ascii_char p \<Longrightarrow> slice_from (p @ t) (length p) = Ok t"
  by (simp add: slice_from_def boundary_after_prefix)

lemma decrypt_item_not_vt: "\<not> starts_with item vt_prefix \<Longrightarrow>
    decrypt_item c a now item = Err (Msg ''not a vt item'')"
  by (simp add: decrypt_item_def)

lemma decrypt_item_prefixed:
  assumes "rust_str (vt_prefix @ rest)" and "rest \<noteq> []"
  shows "decrypt_item c a now (vt_prefix @ rest) =
    (if is_char_boundary rest 1 then
       (case secret_type_from_str (take 1 rest) of
          RAW \<Rightarrow> b64_to_decrypted c a (drop 1 rest)
        | TOTP \<Rightarrow> oc_bind (b64_to_decrypted c a (drop 1 rest)) (totp_generate c now)
        | UNKNOWN \<Rightarrow> Err (Msg ''unknown secret type''))
     else Panic ''slice index'')"
  using assms slice_after_prefix [OF assms(1) vt_prefix_ascii]
  by (simp add: decrypt_item_def slice_to_def slice_from_def split: secret_type.split)

lemma b64_to_decrypted_no_panic: "b64_to_decrypted c a s \<noteq> Panic m"
  by (auto simp: b64_to_decrypted_def oc_bind_def aes_decrypt_no_panic
      split: outcome.splits option.splits)

lemma totp_generate_no_panic: "totp_generate c now s \<noteq> Panic m"
  by (auto simp: totp_generate_def oc_bind_def split: outcome.splits)

text \<open>Every error of an item has a message.\<close>

lemma b64_to_decrypted_message: "b64_to_decrypted c a s = Err e \<Longrightarrow> error_text e \<noteq> []"
  by (auto simp: b64_to_decrypted_def oc_bind_def of_sum_def aes_decrypt_def ensure_def
      split: outcome.splits option.splits sum.splits if_splits)

lemma totp_generate_message: "totp_generate c now s = Err e \<Longrightarrow> error_text e \<noteq> []"
  by (auto simp: totp_generate_def oc_bind_def of_sum_def split: outcome.splits sum.splits)

lemma decrypt_item_message: "decrypt_item c a now item = Err e \<Longrightarrow> error_text e \<noteq> []"
  by (auto simp: decrypt_item_def oc_bind_def slice_to_def slice_from_def
      dest: b64_to_decrypted_message totp_generate_message
      split: outcome.splits if_splits secret_type.splits)

lemma to_res_item_no_err:
  "to_res_item r = Ok i \<Longrightarrow> (\<And>e. r = Err e \<Longrightarrow> error_text e \<noteq> []) \<Longrightarrow>
     cr_err_message i = [] \<longleftrightarrow> r = Ok (cr_result i)"
  by (cases r) auto

lemma do_decrypt_nth:
  "do_decrypt c a now items = Ok rs \<longleftrightarrow>
     length rs = length items \<and>
     (\<forall>i < length items. to_res_item (decrypt_item c a now (items ! i)) = Ok (rs ! i))"
  by (auto simp: do_decrypt_def oc_mapM_all2 list_all2_conv_all_nth)

section \<open>Decryption recovers what was encrypted\<close>

text \<open>What a reader of an item is to see, from the item that was encrypted.\<close>

definition reveal :: "crates \<Rightarrow> nat \<Rightarrow> encrypt_item \<Rightarrow> string outcome" where
  "reveal c now item =
     (case ei_t item of
        RAW \<Rightarrow> Ok (ei_plaintext item)
      | TOTP \<Rightarrow> totp_generate c now (ei_plaintext item)
      | UNKNOWN \<Rightarrow> Err (Msg ''unknown secret type''))"

lemma aes_encrypt_message: "aes_encrypt c a p w = (Err e, v) \<Longrightarrow> error_text e \<noteq> []"
  unfolding aes_encrypt_def generate_nonce_def
  by (cases "gcm_seal c (cipher_key a) (map (osrng w) [rng_pos w ..< rng_pos w + 12]) p")
    (auto simp: io_bind_def)

lemma b64_to_decrypted_sealed:
  assumes "aead_ok c" and "base64_ok c" and "rust_str p"
    and "aes_encrypt c a (as_bytes p) w = (Ok ct, v)"
  shows "b64_to_decrypted c a (b64url_encode c ct) = Ok p"
  using assms aes.unseal_seal [OF assms(1,4)]
  by (simp add: b64_to_decrypted_def base64_ok_def from_utf8_as_bytes)

lemma encrypt_item_one_OkE:
  assumes "encrypt_item_one c a item w = (Ok r, v)" and "cr_err_message r = []"
  obtains ct where "aes_encrypt c a (as_bytes (ei_plaintext item)) w = (Ok ct, v)"
    and "cr_result r = vt_prefix @ secret_type_as_str (ei_t item) @ b64url_encode c ct"
proof -
  from assms(1) obtain x where
    x: "io_attempt (aes_encrypt c a (as_bytes (ei_plaintext item))) w = (Ok x, v)"
    and r: "r = (case x of
        Inr ct \<Rightarrow> \<lparr>cr_result = vt_prefix @ secret_type_as_str (ei_t item) @ b64url_encode c ct,
                   cr_err_message = []\<rparr>
      | Inl e \<Rightarrow> \<lparr>cr_result = [], cr_err_message = error_text e\<rparr>)"
    by (auto simp: encrypt_item_one_def io_bind_eq_Ok)
  show thesis
  proof (cases x)
    case (Inl e)
    with x have "error_text e \<noteq> []" by (auto simp: io_attempt_eq_Ok dest: aes_encrypt_message)
    with Inl r assms(2) show thesis by simp
  next
    case (Inr ct)
    with x r show thesis by (intro that [of ct]) (auto simp: io_attempt_eq_Ok)
  qed
qed

lemma decrypt_encrypted_item:
  assumes "aead_ok c" and "base64_ok c" and "rust_str (ei_plaintext item)"
    and "encrypt_item_one c a item w = (Ok r, v)" and "cr_err_message r = []"
  shows "decrypt_item c a now (cr_result r) = reveal c now item"
proof -
  obtain ct where enc: "aes_encrypt c a (as_bytes (ei_plaintext item)) w = (Ok ct, v)"
    and r: "cr_result r = vt_prefix @ secret_type_as_str (ei_t item) @ b64url_encode c ct"
    using encrypt_item_one_OkE [OF assms(4,5)] by blast
  obtain ch where ch: "secret_type_as_str (ei_t item) = [ch]" "ascii_char ch"
    by (rule secret_type_as_str_ascii)
  let ?rest = "ch # b64url_encode c ct"
  have asc: "list_all ascii_char ?rest"
    using assms(2) ch(2) by (simp add: base64_ok_def)
  then have str: "rust_str ?rest" "rust_str (vt_prefix @ ?rest)"
    using vt_prefix_ascii by (auto intro: ascii_rust_str)
  have bd: "is_char_boundary ?rest 1"
    using str(1) ch(2) by (rule boundary_after_ascii)
  have "secret_type_from_str [ch] = ei_t item"
    using type_char.dec_enc [of "ei_t item"] ch(1) by simp
  with bd decrypt_item_prefixed [OF str(2), of c a now] b64_to_decrypted_sealed [OF assms(1-3) enc]
  show ?thesis by (simp add: r ch reveal_def split: secret_type.split)
qed

lemma do_encrypt_all2:
  "do_encrypt c a items w = (Ok rs, v) \<Longrightarrow>
     list_all2 (\<lambda>item r. \<exists>s t. encrypt_item_one c a item s = (Ok r, t)) items rs"
  unfolding do_encrypt_def
  by (induction items arbitrary: rs w) (auto simp: io_bind_eq_Ok)

lemma decrypt_after_encrypt:
  assumes "aead_ok c" and "base64_ok c"
    and "\<forall>i \<in> set items. rust_str (ei_plaintext i)"
    and "do_encrypt c a items w = (Ok rs, v)"
    and "\<forall>r \<in> set rs. cr_err_message r = []"
  shows "do_decrypt c a now (map cr_result rs) = oc_mapM (\<lambda>i. to_res_item (reveal c now i)) items"
proof -
  have "list_all2 (\<lambda>i r. decrypt_item c a now (cr_result r) = reveal c now i) items rs"
    using do_encrypt_all2 [OF assms(4)] assms(1,2,3,5)
    by (auto simp: list_all2_conv_all_nth) (metis decrypt_encrypted_item nth_mem)
  then show ?thesis
    unfolding do_decrypt_def by (induction rule: list_all2_induct) simp_all
qed

text \<open>
  Decrypting the items \<open>do_encrypt\<close> produced, with the same cipher, yields for each item what
  its type promises: the plaintext of a raw secret, the current code of a TOTP secret, and the error
  ``unknown secret type'' for an item that was encrypted with the type \<open>UNKNOWN\<close>.
\<close>

theorem do_decrypt_of_do_encrypt:
  assumes "aead_ok c" and "base64_ok c"
    and "\<forall>i \<in> set items. rust_str (ei_plaintext i)"
    and "do_encrypt c a items w = (Ok rs, v)"
    and "\<forall>r \<in> set rs. cr_err_message r = []"
  shows "do_decrypt c a now (map cr_result rs) = oc_mapM (\<lambda>i. to_res_item (reveal c now i)) items"
  by (rule decrypt_after_encrypt [OF assms])

definition demo_items :: "encrypt_item list" where
  "demo_items = [\<lparr>ei_plaintext = ''pw'', ei_t = RAW\<rparr>, \<lparr>ei_plaintext = ''K'', ei_t = TOTP\<rparr>,
     \<lparr>ei_plaintext = ''x'', ei_t = UNKNOWN\<rparr>]"

lemma demo_encrypt_item:
  "\<exists>r v. encrypt_item_one demo_crates a item w = (Ok r, v) \<and> cr_err_message r = []"
proof -
  obtain ct where "gcm_seal demo_crates (cipher_key a) (map (osrng w) [rng_pos w ..< rng_pos w + 12])
      (as_bytes (ei_plaintext item)) = Inr ct"
    by (simp add: demo_crates_def demo_seal_def)
  then show ?thesis
    by (simp add: encrypt_item_one_def aes_encrypt_def generate_nonce_def io_bind_def io_attempt_def)
qed

lemma demo_encrypt_all:
  "\<exists>rs v. do_encrypt demo_crates a items w = (Ok rs, v) \<and> (\<forall>r \<in> set rs. cr_err_message r = [])"
proof (induction items arbitrary: w)
  case Nil
  then show ?case by (simp add: do_encrypt_def)
next
  case (Cons i its)
  obtain r u where r: "encrypt_item_one demo_crates a i w = (Ok r, u)" "cr_err_message r = []"
    using demo_encrypt_item by blast
  obtain rs v where "do_encrypt demo_crates a its u = (Ok rs, v)" "\<forall>r \<in> set rs. cr_err_message r = []"
    using Cons [of u] by blast
  with r have "do_encrypt demo_crates a (i # its) w = (Ok (r # rs), v)"
    by (simp add: do_encrypt_def io_bind_def)
  with r(2) \<open>\<forall>r \<in> set rs. cr_err_message r = []\<close> show ?case by auto
qed

theorem do_decrypt_of_do_encrypt_witness:
  "\<exists>rs v. do_encrypt demo_crates (AesGcmCrypto []) demo_items demo_world = (Ok rs, v) \<and>
     do_decrypt demo_crates (AesGcmCrypto []) 0 (map cr_result rs) =
       Ok [\<lparr>cr_result = ''pw'', cr_err_message = []\<rparr>,
           \<lparr>cr_result = ''123456'', cr_err_message = []\<rparr>,
           \<lparr>cr_result = [], cr_err_message = ''unknown secret type''\<rparr>]"
proof -
  obtain rs v where enc: "do_encrypt demo_crates (AesGcmCrypto []) demo_items demo_world = (Ok rs, v)"
    and ok: "\<forall>r \<in> set rs. cr_err_message r = []"
    using demo_encrypt_all by blast
  have str: "\<forall>i \<in> set demo_items. rust_str (ei_plaintext i)"
    by (auto simp: demo_items_def ascii_char_def byte_of_def intro!: ascii_rust_str)
  have "oc_mapM (\<lambda>i. to_res_item (reveal demo_crates 0 i)) demo_items =
      Ok [\<lparr>cr_result = ''pw'', cr_err_message = []\<rparr>,
          \<lparr>cr_result = ''123456'', cr_err_message = []\<rparr>,
          \<lparr>cr_result = [], cr_err_message = ''unknown secret type''\<rparr>]"
    by (simp add: demo_items_def reveal_def totp_generate_def demo_crates_def)
  with enc do_decrypt_of_do_encrypt [OF demo_aead_ok demo_base64_ok str enc ok, of 0]
  show ?thesis by auto
qed

text \<open>
  The items of a request are decrypted independently and in order: there is one result per
  item, it is what decrypting that item alone gives, and its error message is empty exactly when the item
  decrypted, which is the test the client makes.
\<close>

theorem do_decrypt_pointwise:
  assumes "do_decrypt c a now items = Ok rs"
  shows "length rs = length items \<and>
    (\<forall>i < length items.
       do_decrypt c a now [items ! i] = Ok [rs ! i] \<and>
       (cr_err_message (rs ! i) = [] \<longleftrightarrow> decrypt_item c a now (items ! i) = Ok (cr_result (rs ! i))))"
  using assms
  by (auto simp: do_decrypt_nth to_res_item_no_err [OF _ decrypt_item_message])

lemma demo_decrypt_other:
  "do_decrypt demo_crates (AesGcmCrypto []) 0 [''x'', ''vt://mac/9''] =
     Ok [\<lparr>cr_result = [], cr_err_message = ''not a vt item''\<rparr>,
         \<lparr>cr_result = [], cr_err_message = ''unknown secret type''\<rparr>]"
  by (simp add: do_decrypt_def decrypt_item_def starts_with_def vt_prefix_def slice_from_def
      slice_to_def is_char_boundary_def is_cont_def tail_byte_def byte_of_def
      secret_type_from_str_def lower_ascii_def lower_char_def)

theorem do_decrypt_pointwise_witness:
  "do_decrypt demo_crates (AesGcmCrypto []) 0 [''vt://mac/9''] =
     Ok [\<lparr>cr_result = [], cr_err_message = ''unknown secret type''\<rparr>]"
  using do_decrypt_pointwise [OF demo_decrypt_other, THEN conjunct2, rule_format, of 1] by simp

text \<open>
  C39. \<open>do_decrypt\<close> panics on valid strings exactly when some item has, right after the
  prefix \<open>vt://mac/\<close>, a character of more than one byte: \<open>item[..1]\<close> then cuts a character.
  A client can so make the agent's session task panic instead of getting an error for the item.
\<close>

theorem do_decrypt_panic_iff:
  assumes "\<forall>item \<in> set items. rust_str item"
  shows "(\<exists>m. do_decrypt c a now items = Panic m) \<longleftrightarrow>
    (\<exists>item \<in> set items. \<exists>rest. item = vt_prefix @ rest \<and> rest \<noteq> [] \<and> \<not> is_char_boundary rest 1)"
proof -
  have one: "(\<exists>m. to_res_item (decrypt_item c a now item) = Panic m) \<longleftrightarrow>
      (\<exists>rest. item = vt_prefix @ rest \<and> rest \<noteq> [] \<and> \<not> is_char_boundary rest 1)"
    if "rust_str item" for item
  proof (cases "starts_with item vt_prefix")
    case False
    then show ?thesis by (auto simp: decrypt_item_not_vt)
  next
    case True
    then obtain rest where rest: "item = vt_prefix @ rest" by (auto simp: starts_with_iff)
    show ?thesis
    proof (cases "rest = []")
      case True
      with rest that show ?thesis
        by (simp add: decrypt_item_def slice_from_def is_char_boundary_def)
    next
      case False
      have "(\<exists>m. to_res_item r = Panic m) \<longleftrightarrow> (\<exists>m. r = Panic m)" for r
        by (cases r) auto
      with False rest that show ?thesis
        by (auto simp: decrypt_item_prefixed b64_to_decrypted_no_panic totp_generate_no_panic
            oc_bind_def split: secret_type.splits outcome.splits)
    qed
  qed
  have "(\<exists>m. oc_mapM f xs = Panic m) \<longleftrightarrow> (\<exists>x \<in> set xs. \<exists>m. f x = Panic m)"
    if "\<And>x e. f x \<noteq> Err e" for f :: "string \<Rightarrow> crypto_res_item outcome" and xs
    using that by (induction xs) (auto simp: oc_bind_def split: outcome.splits)
  moreover have "to_res_item r \<noteq> Err e" for r e
    by (cases r) auto
  ultimately show ?thesis
    using one assms by (auto simp: do_decrypt_def)
qed

theorem do_decrypt_panic_witness:
  "\<exists>m. do_decrypt demo_crates (AesGcmCrypto []) 0 [vt_prefix @ [CHR 0xC3, CHR 0xA9]] = Panic m"
proof -
  have "rust_str (vt_prefix @ [CHR 0xC3, CHR 0xA9])"
    by (rule rust_str_append [OF ascii_rust_str [OF vt_prefix_ascii]])
      (simp add: rust_str_def as_bytes_def byte_of_def utf8_len_def tails_ok_def tail_byte_def)
  then have "\<forall>item \<in> set [vt_prefix @ [CHR 0xC3, CHR 0xA9]]. rust_str item"
    by simp
  moreover have "\<not> is_char_boundary [CHR 0xC3, CHR 0xA9] 1"
    by (simp add: is_char_boundary_def is_cont_def tail_byte_def byte_of_def)
  ultimately show ?thesis
    by (subst do_decrypt_panic_iff) auto
qed

end
