(* ===== verification/Vt_Wire.thy ===== *)
theory Vt_Wire
  imports Vt_Prelude
begin

text \<open>
  The signature blob of \<open>ssh_agent.rs\<close> (\<open>encode_ecdsa_sig_blob\<close>): two SSH \<open>mpint\<close>s.  Its specification
  is a reader of \<open>mpint\<close>s after RFC 4251, section 5: a length, then that many bytes of a big-endian
  two's complement number, with no superfluous leading byte.
\<close>

section \<open>The encoder\<close>

text \<open>\<open>(len as u32).to_be_bytes()\<close>; the cast keeps the low 32 bits.\<close>

definition u32_be_bytes :: "nat \<Rightarrow> bytes" where
  "u32_be_bytes len =
     (let m = len mod 2 ^ 32 in
      [word_of_nat (m div 2 ^ 24), word_of_nat (m div 2 ^ 16 mod 256),
       word_of_nat (m div 2 ^ 8 mod 256), word_of_nat (m mod 256)])"

definition encode_mpint :: "bytes \<Rightarrow> bytes" where
  "encode_mpint bs =
     (let stripped = dropWhile (\<lambda>b. b = 0) bs in
      if stripped = [] then u32_be_bytes 0
      else
        let needs_pad = (and (hd stripped) 0x80 \<noteq> 0);
            len = length stripped + (if needs_pad then 1 else 0)
        in u32_be_bytes len @ (if needs_pad then [0] else []) @ stripped)"

definition encode_ecdsa_sig_blob :: "bytes \<Rightarrow> bytes \<Rightarrow> bytes" where
  "encode_ecdsa_sig_blob r s = encode_mpint r @ encode_mpint s"

section \<open>The reader\<close>

definition be_value :: "bytes \<Rightarrow> nat" where
  "be_value bs = foldl (\<lambda>n b. n * 256 + unat b) 0 bs"

definition read_mpint :: "bytes \<Rightarrow> (bytes \<times> bytes) option" where
  "read_mpint bs =
     (if length bs < 4 then None
      else let n = be_value (take 4 bs); body = drop 4 bs in
        if length body < n then None else Some (take n body, drop n body))"

definition mpint_value :: "bytes \<Rightarrow> int" where
  "mpint_value m =
     (if m \<noteq> [] \<and> 0x80 \<le> hd m then int (be_value m) - 256 ^ length m else int (be_value m))"

definition mpint_canonical :: "bytes \<Rightarrow> bool" where
  "mpint_canonical m \<longleftrightarrow>
     (case m of
        [] \<Rightarrow> True
      | [b] \<Rightarrow> b \<noteq> 0
      | b # d # _ \<Rightarrow> (b = 0 \<longrightarrow> 0x80 \<le> d) \<and> (b = 0xFF \<longrightarrow> d < 0x80))"

definition read_sig_blob :: "bytes \<Rightarrow> (int \<times> int) option" where
  "read_sig_blob bs =
     (case read_mpint bs of
        None \<Rightarrow> None
      | Some (r, rest) \<Rightarrow> (case read_mpint rest of
          None \<Rightarrow> None
        | Some (s, tail) \<Rightarrow>
            if tail = [] \<and> mpint_canonical r \<and> mpint_canonical s
            then Some (mpint_value r, mpint_value s) else None))"

section \<open>Lemmas\<close>

lemma be_value_Nil [simp]: "be_value [] = 0"
  by (simp add: be_value_def)

lemma be_value_foldl: "foldl (\<lambda>n b. n * 256 + unat b) k bs = k * 256 ^ length bs + be_value bs"
proof (induction bs arbitrary: k)
  case Nil
  then show ?case by simp
next
  case (Cons b bs)
  have "foldl (\<lambda>n b. n * 256 + unat b) k (b # bs) = (k * 256 + unat b) * 256 ^ length bs + be_value bs"
    using Cons.IH [of "k * 256 + unat b"] by simp
  moreover have "be_value (b # bs) = unat b * 256 ^ length bs + be_value bs"
    using Cons.IH [of "unat b"] by (simp add: be_value_def)
  ultimately show ?case by (simp add: algebra_simps)
qed

lemma be_value_Cons: "be_value (b # bs) = unat b * 256 ^ length bs + be_value bs"
  using be_value_foldl [of "unat b" bs] by (simp add: be_value_def)

lemma unat_byte_less: "unat (b :: u8) < 256"
  using unsigned_less [of b] by simp

lemma be_value_less: "be_value bs < 256 ^ length bs"
proof (induction bs)
  case Nil
  then show ?case by simp
next
  case (Cons b bs)
  have "unat b * 256 ^ length bs + be_value bs < (unat b + 1) * 256 ^ length bs"
    using Cons by simp
  also have "\<dots> \<le> 256 * 256 ^ length bs"
    using unat_byte_less [of b] by (intro mult_le_mono1) simp
  finally show ?case by (simp add: be_value_Cons)
qed

lemma be_value_strip: "be_value (dropWhile (\<lambda>b. b = 0) bs) = be_value bs"
  by (induction bs) (simp_all add: be_value_Cons)

lemma be_value_inj: "length xs = length ys \<Longrightarrow> be_value xs = be_value ys \<Longrightarrow> xs = ys"
proof (induction xs ys rule: list_induct2)
  case Nil
  then show ?case by simp
next
  case (Cons x xs y ys)
  let ?m = "256 ^ length xs :: nat"
  have lt: "be_value xs < ?m" "be_value ys < ?m"
    using be_value_less [of xs] be_value_less [of ys] Cons.hyps by simp_all
  have eq: "unat x * ?m + be_value xs = unat y * ?m + be_value ys"
    using Cons.prems Cons.hyps by (simp add: be_value_Cons)
  then have "(unat x * ?m + be_value xs) div ?m = (unat y * ?m + be_value ys) div ?m"
    by simp
  with lt have "unat x = unat y" by simp
  with eq Cons.IH show ?case by (simp add: unsigned_word_eqI)
qed

lemma u32_be_bytes_length [simp]: "length (u32_be_bytes n) = 4"
  by (simp add: u32_be_bytes_def Let_def)

lemma unat_byte_of_nat: "n < 256 \<Longrightarrow> unat (word_of_nat n :: u8) = n"
  by (simp add: unat_of_nat take_bit_nat_eq_self_iff)

lemma be_value_u32: "n < 2 ^ 32 \<Longrightarrow> be_value (u32_be_bytes n) = n"
proof -
  assume n: "n < 2 ^ 32"
  then have "n div 2 ^ 24 < 256" by simp
  with n have "be_value (u32_be_bytes n) =
      ((n div 2 ^ 24 * 256 + n div 2 ^ 16 mod 256) * 256 + n div 2 ^ 8 mod 256) * 256 + n mod 256"
    by (simp add: u32_be_bytes_def be_value_def Let_def unat_byte_of_nat)
  also have "\<dots> = n"
  proof -
    define p q where "p = n div 256" and "q = p div 256"
    have "n div 2 ^ 24 = q div 256" "n div 2 ^ 16 = q" "n div 2 ^ 8 = p"
      by (simp_all add: p_def q_def div_mult2_eq [symmetric])
    then show ?thesis
      using div_mult_mod_eq [of q 256] div_mult_mod_eq [of p 256] div_mult_mod_eq [of n 256]
      by (simp add: p_def [symmetric] q_def [symmetric])
  qed
  finally show ?thesis .
qed

lemma read_mpint_block: "length m < 2 ^ 32 \<Longrightarrow> read_mpint (u32_be_bytes (length m) @ m @ rest) = Some (m, rest)"
  by (simp add: read_mpint_def be_value_u32)

text \<open>The high bit of a byte, as the encoder tests it and as a comparison.\<close>

lemma high_bit: "and (b :: u8) 0x80 \<noteq> 0 \<longleftrightarrow> 0x80 \<le> b"
proof -
  have "and b (2 ^ 7) \<noteq> 0 \<longleftrightarrow> bit b 7"
    by (simp only: and_exp_eq_0_iff_not_bit) simp
  also have "\<dots> \<longleftrightarrow> bit (unat b) 7"
    by (simp add: bit_unsigned_iff)
  also have "\<dots> \<longleftrightarrow> odd (unat b div 2 ^ 7)"
    by (rule bit_iff_odd)
  also have "\<dots> \<longleftrightarrow> 128 \<le> unat b"
  proof (cases "128 \<le> unat b")
    case True
    then have "unat b div 2 ^ 7 = 1" using unat_byte_less [of b] by simp
    with True show ?thesis by simp
  qed simp
  finally show ?thesis by (simp add: word_le_nat_alt)
qed

lemma strip_hd: "dropWhile (\<lambda>b. b = (0::u8)) bs \<noteq> [] \<Longrightarrow> hd (dropWhile (\<lambda>b. b = 0) bs) \<noteq> 0"
  using hd_dropWhile [of "\<lambda>b. b = 0" bs] by simp

text \<open>What the encoder writes, as the body of an \<open>mpint\<close>.\<close>

definition mpint_pad :: "bytes \<Rightarrow> bytes" where
  "mpint_pad st = (case st of [] \<Rightarrow> [] | b # ds \<Rightarrow> if 0x80 \<le> b then 0 # b # ds else b # ds)"

definition mpint_body :: "bytes \<Rightarrow> bytes" where
  "mpint_body bs = mpint_pad (dropWhile (\<lambda>b. b = 0) bs)"

lemma encode_mpint_pad:
  "(if st = [] then u32_be_bytes 0
    else let needs_pad = (and (hd st) 0x80 \<noteq> 0); len = length st + (if needs_pad then 1 else 0)
      in u32_be_bytes len @ (if needs_pad then [0] else []) @ st)
   = u32_be_bytes (length (mpint_pad st)) @ mpint_pad st"
  by (cases st) (simp_all add: mpint_pad_def high_bit Let_def)

lemma encode_mpint_body: "encode_mpint bs = u32_be_bytes (length (mpint_body bs)) @ mpint_body bs"
  unfolding encode_mpint_def mpint_body_def using encode_mpint_pad by (simp only: Let_def)

lemma length_mpint_body: "length (mpint_body bs) \<le> Suc (length bs)"
proof -
  have "length (mpint_pad st) \<le> Suc (length st)" for st
    by (cases st) (simp_all add: mpint_pad_def)
  then show ?thesis
    unfolding mpint_body_def using dropWhile_length_le le_trans by (metis Suc_le_mono)
qed

lemma mpint_body_value: "mpint_value (mpint_body bs) = int (be_value bs)"
proof -
  have "mpint_value (mpint_pad st) = int (be_value st)" for st
    by (cases st) (simp_all add: mpint_pad_def mpint_value_def be_value_Cons)
  then show ?thesis unfolding mpint_body_def by (simp only: be_value_strip)
qed

lemma mpint_pad_canonical: "st = [] \<or> hd st \<noteq> 0 \<Longrightarrow> mpint_canonical (mpint_pad st)"
proof (cases st)
  case (Cons b ds)
  assume "st = [] \<or> hd st \<noteq> 0"
  with Cons have "b \<noteq> 0" by simp
  moreover have "b \<noteq> 0xFF" if "\<not> 0x80 \<le> b"
    using that by auto
  ultimately show ?thesis
    using Cons by (cases ds) (simp_all add: mpint_pad_def mpint_canonical_def)
qed (simp add: mpint_pad_def mpint_canonical_def)

lemma mpint_body_canonical: "mpint_canonical (mpint_body bs)"
  unfolding mpint_body_def using strip_hd by (intro mpint_pad_canonical) blast

lemma read_encoded:
  assumes "length bs < 2 ^ 32 - 1"
  shows "read_mpint (encode_mpint bs @ rest) = Some (mpint_body bs, rest)"
proof -
  have "length (mpint_body bs) < 2 ^ 32"
    using length_mpint_body [of bs] assms by simp
  then show ?thesis by (simp add: encode_mpint_body read_mpint_block)
qed

lemma read_blob:
  assumes "length r < 2 ^ 32 - 1" and "length s < 2 ^ 32 - 1"
  shows "read_sig_blob (encode_ecdsa_sig_blob r s) = Some (int (be_value r), int (be_value s))"
  using read_encoded [OF assms(1), of "encode_mpint s"] read_encoded [OF assms(2), of "[]"]
  by (simp add: read_sig_blob_def encode_ecdsa_sig_blob_def mpint_body_canonical mpint_body_value)

text \<open>
  C37. The blob of a signature is read back by an SSH reader of \<open>mpint\<close>s as exactly the two unsigned
  numbers \<open>r\<close> and \<open>s\<close>: positive also when their first bit is set, in canonical form (no superfluous
  zero byte), and with nothing after them; this for any lengths that fit the 32-bit length field.
\<close>

theorem sig_blob_read_back:
  assumes "length r < 2 ^ 32 - 1" and "length s < 2 ^ 32 - 1"
  shows "read_sig_blob (encode_ecdsa_sig_blob r s) = Some (int (be_value r), int (be_value s))"
  by (rule read_blob [OF assms])

theorem sig_blob_read_back_witness:
  "read_sig_blob (encode_ecdsa_sig_blob [0, 0x80, 1] [0, 0]) = Some (0x8001, 0)"
  using sig_blob_read_back [of "[0, 0x80, 1]" "[0, 0]"] by (simp add: be_value_def)

text \<open>
  For the fixed-width halves the two curves produce (32 or 48 bytes), the blob is a codec: distinct signatures
  have distinct blobs.
\<close>

interpretation sig_blob: codec "\<lambda>(r, s). encode_ecdsa_sig_blob r s" read_sig_blob
  "\<lambda>(r, s). length r = n \<and> length s = n \<and> n < 2 ^ 32 - 1"
  "\<lambda>(r, s). Some (int (be_value r), int (be_value s))" for n
proof
  show "read_sig_blob ((\<lambda>(r, s). encode_ecdsa_sig_blob r s) x) =
      (\<lambda>(r, s). Some (int (be_value r), int (be_value s))) x"
    if "(\<lambda>(r, s). length r = n \<and> length s = n \<and> n < 2 ^ 32 - 1) x" for x
    using that read_blob [of "fst x" "snd x"] by auto
qed (auto intro: be_value_inj)

text \<open>
  Two signatures of the same width (as the curves' fixed-width halves are) with the same blob are
  the same signature.
\<close>

theorem sig_blob_injective:
  assumes "length r = n" and "length s = n" and "length r' = n" and "length s' = n"
    and "n < 2 ^ 32 - 1" and "encode_ecdsa_sig_blob r s = encode_ecdsa_sig_blob r' s'"
  shows "r = r' \<and> s = s'"
  using sig_blob.enc_inj [of n "(r, s)" "(r', s')"] assms by simp

theorem sig_blob_injective_witness:
  "encode_ecdsa_sig_blob [0, 1] [2, 3] \<noteq> encode_ecdsa_sig_blob [1, 0] [2, 3]"
  using sig_blob_injective [of "[0, 1]" 2 "[2, 3]" "[1, 0]" "[2, 3]"] by auto

end
