(* ===== verification/Vt_Auth_Cache.thy ===== *)
theory Vt_Auth_Cache
  imports Vt_Strings
begin

text \<open>
  The authorisation cache of \<open>ssh_agent.rs\<close> (\<open>AuthCacheMode\<close>, \<open>AuthCache\<close>): which caller contexts
  may use a key, or decrypt, without a new touch, and until when.  Times are nanoseconds of the
  monotonic clock; the durations are whole seconds, as the source takes them.
\<close>

section \<open>Modes\<close>

datatype auth_cache_mode = CacheNone | PerSession | PerApp

definition auth_cache_mode_from_str :: "string \<Rightarrow> string + auth_cache_mode" where
  "auth_cache_mode_from_str s =
     (let l = lower_ascii s in
      if l = ''none'' then Inr CacheNone
      else if l = ''per-session'' \<or> l = ''per_session'' \<or> l = ''session'' then Inr PerSession
      else if l = ''per-app'' \<or> l = ''per_app'' \<or> l = ''app'' then Inr PerApp
      else Inl (''invalid auth cache mode '' @ [CHR 0x27] @ s @ [CHR 0x27] @
                '': expected none, per-session, or per-app''))"

fun auth_cache_mode_display :: "auth_cache_mode \<Rightarrow> string" where
  "auth_cache_mode_display CacheNone = ''none''"
| "auth_cache_mode_display PerSession = ''per-session''"
| "auth_cache_mode_display PerApp = ''per-app''"

interpretation cache_mode: codec auth_cache_mode_display auth_cache_mode_from_str "\<lambda>_. True" Inr
proof
  fix m
  show "auth_cache_mode_from_str (auth_cache_mode_display m) = Inr m"
    by (cases m) (simp_all add: auth_cache_mode_from_str_def lower_ascii_def lower_char_def)
qed simp

section \<open>The cache\<close>

text \<open>
  The entries map a context (a terminal's device number or an application's process id) and a key
  fingerprint (or the name \<open>decrypt@vt\<close>) to the instant the grant expires.
\<close>

record auth_cache =
  ac_entries :: "u64 \<times> string \<rightharpoonup> nat"
  ac_sign_duration :: u64
  ac_decrypt_duration :: u64

abbreviation nanos :: "u64 \<Rightarrow> nat" where
  "nanos secs \<equiv> unat secs * 10 ^ 9"

text \<open>\<open>Instant + Duration\<close>: the seconds of an \<open>Instant\<close> are an \<open>i64\<close>, and an overflow panics.\<close>

definition instant_add :: "nat \<Rightarrow> u64 \<Rightarrow> nat outcome" where
  "instant_add now secs =
     (if now div 10 ^ 9 + unat secs < 2 ^ 63 then Ok (now + nanos secs)
      else Panic ''overflow when adding duration to instant'')"

definition auth_cache_new :: "u64 \<Rightarrow> u64 \<Rightarrow> auth_cache" where
  "auth_cache_new sign_secs decrypt_secs =
     \<lparr>ac_entries = Map.empty, ac_sign_duration = sign_secs, ac_decrypt_duration = decrypt_secs\<rparr>"

definition is_authorized :: "nat \<Rightarrow> auth_cache \<Rightarrow> u64 \<Rightarrow> string \<Rightarrow> bool" where
  "is_authorized now self context_id fingerprint =
     (case ac_entries self (context_id, fingerprint) of
        Some expires_at \<Rightarrow> now < expires_at
      | None \<Rightarrow> False)"

definition grant :: "nat \<Rightarrow> auth_cache \<Rightarrow> u64 \<Rightarrow> string \<Rightarrow> bool \<Rightarrow> auth_cache outcome" where
  "grant now self context_id fingerprint is_decrypt =
     (let ttl = (if is_decrypt then ac_decrypt_duration self else ac_sign_duration self) in
      oc_bind (instant_add now ttl) (\<lambda>expires_at.
      Ok (self\<lparr>ac_entries := (ac_entries self)((context_id, fingerprint) \<mapsto> expires_at)\<rparr>)))"

definition cache_clear :: "auth_cache \<Rightarrow> auth_cache" where
  "cache_clear self = self\<lparr>ac_entries := Map.empty\<rparr>"

definition sweep_expired :: "nat \<Rightarrow> auth_cache \<Rightarrow> auth_cache" where
  "sweep_expired now self = self\<lparr>ac_entries := (\<lambda>k. case ac_entries self k of
       Some expires_at \<Rightarrow> if now < expires_at then Some expires_at else None
     | None \<Rightarrow> None)\<rparr>"

section \<open>Grants as an interface\<close>

text \<open>
  What a history of grants, clearings and sweeps promises: a key is authorised exactly while the
  last grant for it, if nothing was cleared since, is younger than its time to live.
\<close>

datatype 'k cache_event = Granted nat 'k bool | Cleared | Swept nat

fun last_grant :: "'k \<Rightarrow> 'k cache_event list \<Rightarrow> (nat \<times> bool) option" where
  "last_grant k [] = None"
| "last_grant k (Granted t k' b # older) = (if k' = k then Some (t, b) else last_grant k older)"
| "last_grant k (Cleared # older) = None"
| "last_grant k (Swept t # older) = last_grant k older"

definition live_grant :: "(bool \<Rightarrow> nat) \<Rightarrow> 'k cache_event list \<Rightarrow> 'k \<Rightarrow> nat \<Rightarrow> bool" where
  "live_grant ttl evs k now =
     (case last_grant k (rev evs) of Some (t, b) \<Rightarrow> now < t + ttl b | None \<Rightarrow> False)"

fun oc_foldl :: "('s \<Rightarrow> 'e \<Rightarrow> 's outcome) \<Rightarrow> 's \<Rightarrow> 'e list \<Rightarrow> 's outcome" where
  "oc_foldl f s [] = Ok s"
| "oc_foldl f s (e # es) = oc_bind (f s e) (\<lambda>t. oc_foldl f t es)"

lemma oc_foldl_snoc: "oc_foldl f s (es @ [e]) = oc_bind (oc_foldl f s es) (\<lambda>t. f t e)"
proof (induction es arbitrary: s)
  case Nil
  then show ?case by (cases "f s e") simp_all
next
  case (Cons d es)
  then show ?case by (cases "f s d") simp_all
qed

locale grant_store =
  fixes step :: "'c \<Rightarrow> 'k cache_event \<Rightarrow> 'c outcome"
    and expiry :: "'c \<Rightarrow> 'k \<Rightarrow> nat option"
    and ttl :: "'c \<Rightarrow> bool \<Rightarrow> nat"
  assumes grant_law: "step c (Granted t k b) = Ok d \<Longrightarrow> expiry d = (expiry c)(k \<mapsto> t + ttl c b)"
    and clear_law: "step c Cleared = Ok d \<Longrightarrow> expiry d = Map.empty"
    and sweep_law: "step c (Swept t) = Ok d \<Longrightarrow>
          expiry d k = (case expiry c k of Some e \<Rightarrow> if t < e then Some e else None | None \<Rightarrow> None)"
    and ttl_law: "step c e = Ok d \<Longrightarrow> ttl d = ttl c"
begin

definition live :: "'c \<Rightarrow> 'k \<Rightarrow> nat \<Rightarrow> bool" where
  "live c k now = (case expiry c k of Some e \<Rightarrow> now < e | None \<Rightarrow> False)"

lemma run_ttl: "oc_foldl step c evs = Ok d \<Longrightarrow> ttl d = ttl c"
  by (induction evs arbitrary: c) (auto simp: oc_bind_eq_Ok ttl_law)

text \<open>A sweep is invisible: it only drops grants that had expired when it ran.\<close>

lemma sweep_invisible: "step c (Swept t) = Ok d \<Longrightarrow> t \<le> now \<Longrightarrow> live d k now = live c k now"
  by (auto simp: live_def sweep_law split: option.split)

lemma run_live:
  assumes "oc_foldl step c evs = Ok d" and "expiry c = Map.empty"
    and "\<forall>t. Swept t \<in> set evs \<longrightarrow> t \<le> now"
  shows "live d k now = live_grant (ttl c) evs k now"
  using assms
proof (induction evs arbitrary: d rule: rev_induct)
  case Nil
  then show ?case by (simp add: live_def live_grant_def)
next
  case (snoc e evs)
  then obtain m where m: "oc_foldl step c evs = Ok m" and d: "step m e = Ok d"
    by (auto simp: oc_foldl_snoc oc_bind_eq_Ok)
  have IH: "live m k now = live_grant (ttl c) evs k now"
    using snoc m by simp
  show ?case
  proof (cases e)
    case (Granted t k' b)
    with d have "expiry d = (expiry m)(k' \<mapsto> t + ttl c b)"
      using grant_law run_ttl [OF m] by simp
    with Granted IH show ?thesis by (auto simp: live_def live_grant_def)
  next
    case Cleared
    with d show ?thesis by (simp add: clear_law live_def live_grant_def)
  next
    case (Swept t)
    with d snoc.prems(3) IH show ?thesis
      using sweep_invisible [of m t d now k] by (simp add: live_grant_def)
  qed
qed

end

text \<open>The cache of the source is such a store.\<close>

fun cache_step :: "auth_cache \<Rightarrow> (u64 \<times> string) cache_event \<Rightarrow> auth_cache outcome" where
  "cache_step c (Granted now (ctx, fp) is_decrypt) = grant now c ctx fp is_decrypt"
| "cache_step c Cleared = Ok (cache_clear c)"
| "cache_step c (Swept now) = Ok (sweep_expired now c)"

definition cache_ttl :: "auth_cache \<Rightarrow> bool \<Rightarrow> nat" where
  "cache_ttl c is_decrypt =
     (if is_decrypt then nanos (ac_decrypt_duration c) else nanos (ac_sign_duration c))"

lemma grant_eq_Ok:
  "grant now c ctx fp b = Ok d \<longleftrightarrow>
     now div 10 ^ 9 + unat (if b then ac_decrypt_duration c else ac_sign_duration c) < 2 ^ 63 \<and>
     d = c\<lparr>ac_entries := (ac_entries c)((ctx, fp) \<mapsto> now + cache_ttl c b)\<rparr>"
  by (auto simp: grant_def instant_add_def Let_def cache_ttl_def)

interpretation cache: grant_store cache_step ac_entries cache_ttl
proof
  fix c d :: auth_cache and t b and k :: "u64 \<times> string"
  show "cache_step c (Granted t k b) = Ok d \<Longrightarrow> ac_entries d = (ac_entries c)(k \<mapsto> t + cache_ttl c b)"
    by (cases k) (auto simp: grant_eq_Ok)
  show "cache_step c (Swept t) = Ok d \<Longrightarrow>
      ac_entries d k = (case ac_entries c k of Some e \<Rightarrow> if t < e then Some e else None | None \<Rightarrow> None)"
    by (auto simp: sweep_expired_def)
next
  fix c d :: auth_cache and e :: "(u64 \<times> string) cache_event"
  show "cache_step c Cleared = Ok d \<Longrightarrow> ac_entries d = Map.empty"
    by (auto simp: cache_clear_def)
  show "cache_step c e = Ok d \<Longrightarrow> cache_ttl d = cache_ttl c"
    by (cases e) (auto simp: grant_eq_Ok sweep_expired_def cache_clear_def cache_ttl_def fun_eq_iff)
qed

lemma is_authorized_live: "is_authorized now c ctx fp = cache.live c (ctx, fp) now"
  by (simp add: is_authorized_def cache.live_def)

text \<open>
  C33. After any history of grants, clearings and sweeps on a new cache (no sweep later than the
  question), a caller context is authorised for a key exactly when the last grant for this context and
  key, with no clearing since, is younger than the duration for its kind.  So the sweeper never
  changes an answer, a grant for one context or key never serves another, and an authorisation never outlives
  its duration.
\<close>

theorem is_authorized_iff_live_grant:
  assumes "oc_foldl cache_step (auth_cache_new sign_secs decrypt_secs) evs = Ok c"
    and "\<forall>t. Swept t \<in> set evs \<longrightarrow> t \<le> now"
  shows "is_authorized now c ctx fp =
    live_grant (\<lambda>b. if b then nanos decrypt_secs else nanos sign_secs) evs (ctx, fp) now"
proof -
  have "cache_ttl (auth_cache_new sign_secs decrypt_secs) =
      (\<lambda>b. if b then nanos decrypt_secs else nanos sign_secs)"
    by (simp add: cache_ttl_def auth_cache_new_def fun_eq_iff)
  with cache.run_live [OF assms(1) _ assms(2), of "(ctx, fp)"] show ?thesis
    by (simp add: is_authorized_live auth_cache_new_def)
qed

theorem is_authorized_iff_live_grant_witness:
  "\<exists>c. oc_foldl cache_step (auth_cache_new 300 60)
       [Granted 1000 (1, ''fp1'') False, Granted 2000 (2, ''decrypt@vt'') True, Swept 3000] = Ok c \<and>
     is_authorized (299 * 10 ^ 9) c 1 ''fp1'' \<and> \<not> is_authorized (299 * 10 ^ 9) c 2 ''decrypt@vt''"
proof -
  let ?evs = "[Granted 1000 (1, ''fp1'') False, Granted 2000 (2, ''decrypt@vt'') True, Swept 3000]
    :: (u64 \<times> string) cache_event list"
  obtain c where run: "oc_foldl cache_step (auth_cache_new 300 60) ?evs = Ok c"
    by (simp add: grant_def instant_add_def auth_cache_new_def)
  have "\<forall>t. Swept t \<in> set ?evs \<longrightarrow> t \<le> 299 * 10 ^ 9" by simp
  from is_authorized_iff_live_grant [OF run this] run show ?thesis
    by (simp add: live_grant_def)
qed

text \<open>
  A grant fails only by the overflow of the expiry instant, which panics: exactly when
  the clock's seconds plus the configured duration reach \<open>2 ^ 63\<close>.  Any smaller duration is granted and
  the context is authorised at once unless the duration is zero.
\<close>

theorem grant_panics_iff:
  "(if now div 10 ^ 9 + unat (if b then ac_decrypt_duration c else ac_sign_duration c) < 2 ^ 63
    then \<exists>d. grant now c ctx fp b = Ok d \<and>
         is_authorized now d ctx fp = ((if b then ac_decrypt_duration c else ac_sign_duration c) \<noteq> 0)
    else grant now c ctx fp b = Panic ''overflow when adding duration to instant'')"
  by (auto simp: grant_def instant_add_def is_authorized_def unat_gt_0 Let_def)

end
