(* ===== verification/Vt_Proc_Info.thy ===== *)
theory Vt_Proc_Info
  imports Vt_Instance
begin

text \<open>
  \<open>ssh_agent.rs\<close>, module \<open>proc_info\<close> (the Linux variant): what the agent learns of the process at
  the other end of its socket.  A process id is an \<open>i32\<close>, read with \<open>sint\<close>; the parent id in the
  \<open>stat\<close> line is a \<open>u32\<close> with the same bits.
\<close>

section \<open>White space\<close>

fun words_acc :: "string \<Rightarrow> string list \<Rightarrow> string list" where
  "words_acc w [] = (if w = [] then [] else [w])"
| "words_acc w (c # cs) =
     (if is_white c then (if w = [] then words_acc [] cs else w # words_acc [] cs)
      else words_acc (w @ c) cs)"

definition split_whitespace :: "string \<Rightarrow> string list" where
  "split_whitespace s = words_acc [] (utf8_chars s)"

text \<open>\<open>rsplit(d).next()\<close>: what follows the last separator.\<close>

definition after_last :: "char \<Rightarrow> string \<Rightarrow> string" where
  "after_last d s = last (split_on d s)"

section \<open>Reading the process table\<close>

definition nth_field :: "string list \<Rightarrow> nat \<Rightarrow> string option" where
  "nth_field fs i = (if i < length fs then Some (fs ! i) else None)"

definition parse_u32 :: "string \<Rightarrow> u32 option" where
  "parse_u32 s = map_option word_of_nat (parse_uint u32_max s)"

definition get_proc_bsdinfo :: "world \<Rightarrow> i32 \<Rightarrow> (u32 \<times> u32) option" where
  "get_proc_bsdinfo w pid =
     Option.bind (proc_stat w (sint pid)) (\<lambda>stat.
     let after_comm = trim (after_last (CHR '')'') stat);
         fields = split_whitespace after_comm
     in Option.bind (Option.bind (nth_field fields 1) parse_u32) (\<lambda>ppid.
        Option.bind (Option.bind (nth_field fields 4) parse_u32) (\<lambda>tty_nr.
        Some (ppid, tty_nr))))"

definition get_proc_path :: "world \<Rightarrow> i32 \<Rightarrow> string option" where
  "get_proc_path w pid = proc_exe w (sint pid)"

definition get_tty_dev :: "world \<Rightarrow> i32 \<Rightarrow> u64" where
  "get_tty_dev w pid = (case get_proc_bsdinfo w pid of Some (_, tdev) \<Rightarrow> ucast tdev | None \<Rightarrow> 0)"

text \<open>The loop of \<open>find_app_pid\<close>, with the number of turns left; \<open>None\<close> when it ends without a return.\<close>

fun find_app_loop :: "world \<Rightarrow> nat \<Rightarrow> i32 \<Rightarrow> u64 option" where
  "find_app_loop w 0 current_pid = None"
| "find_app_loop w (Suc n) current_pid =
     (if sint current_pid \<le> 1 then None
      else if (case get_proc_path w current_pid of
                 Some path \<Rightarrow> contains path ''.app/Contents/'' | None \<Rightarrow> False)
      then Some (scast current_pid)
      else (case get_proc_bsdinfo w current_pid of
              Some (ppid, _) \<Rightarrow>
                if 0 < ppid \<and> ppid \<noteq> current_pid then find_app_loop w n ppid else None
            | None \<Rightarrow> None))"

definition find_app_pid :: "world \<Rightarrow> i32 \<Rightarrow> u64" where
  "find_app_pid w peer_pid =
     (case find_app_loop w 64 peer_pid of
        Some pid \<Rightarrow> pid
      | None \<Rightarrow> (case get_proc_bsdinfo w peer_pid of
          Some (ppid, _) \<Rightarrow> ucast ppid | None \<Rightarrow> scast peer_pid))"

definition get_process_name :: "world \<Rightarrow> i32 \<Rightarrow> string option" where
  "get_process_name w pid = map_option (after_last (CHR ''/'')) (get_proc_path w pid)"

definition show_i32 :: "i32 \<Rightarrow> string" where
  "show_i32 p = (if sint p < 0 then CHR ''-'' # show_nat (nat (- sint p)) else show_nat (nat (sint p)))"

definition caller_label :: "string \<Rightarrow> i32 \<Rightarrow> string" where
  "caller_label name pid = name @ '' (PID '' @ show_i32 pid @ '')''"

fun describe_loop :: "world \<Rightarrow> nat \<Rightarrow> i32 \<Rightarrow> string" where
  "describe_loop w 0 current = []"
| "describe_loop w (Suc n) current =
     (if sint current \<le> 1 then []
      else
        let name = (case get_proc_path w current of Some path \<Rightarrow> after_last (CHR ''/'') path | None \<Rightarrow> [])
        in if name \<noteq> [] \<and> name \<noteq> ''vt-yubi'' then caller_label name current
           else (case get_proc_bsdinfo w current of
                   Some (ppid, _) \<Rightarrow>
                     if 0 < ppid \<and> ppid \<noteq> current then describe_loop w n ppid else []
                 | None \<Rightarrow> []))"

definition describe_caller :: "world \<Rightarrow> i32 \<Rightarrow> string" where
  "describe_caller w peer_pid = describe_loop w 8 peer_pid"

section \<open>The walks, over the chain of ancestors\<close>

fun ancestors :: "world \<Rightarrow> nat \<Rightarrow> i32 \<Rightarrow> i32 list" where
  "ancestors w 0 pid = []"
| "ancestors w (Suc n) pid =
     (if sint pid \<le> 1 then []
      else pid # (case get_proc_bsdinfo w pid of
             Some (ppid, _) \<Rightarrow> if 0 < ppid \<and> ppid \<noteq> pid then ancestors w n ppid else []
           | None \<Rightarrow> []))"

definition is_app :: "world \<Rightarrow> i32 \<Rightarrow> bool" where
  "is_app w pid \<longleftrightarrow> (\<exists>path. get_proc_path w pid = Some path \<and> contains path ''.app/Contents/'')"

definition is_invoker :: "world \<Rightarrow> i32 \<Rightarrow> bool" where
  "is_invoker w pid \<longleftrightarrow>
     (\<exists>name. get_process_name w pid = Some name \<and> name \<noteq> [] \<and> name \<noteq> ''vt-yubi'')"

lemma find_app_loop_ancestors:
  "find_app_loop w n pid = map_option scast (find (is_app w) (ancestors w n pid))"
  by (induction w n pid rule: find_app_loop.induct)
    (auto simp: is_app_def split: option.splits)

lemma describe_loop_ancestors:
  "describe_loop w n pid = (case find (is_invoker w) (ancestors w n pid) of
     Some p \<Rightarrow> caller_label (the (get_process_name w p)) p | None \<Rightarrow> [])"
  by (induction w n pid rule: describe_loop.induct)
    (auto simp: is_invoker_def get_process_name_def Let_def split: option.splits)

text \<open>
  Both walks look at the same chain of ancestors, from the peer upwards (64 and 8 processes,
  never process 1 or below): the caller shown to the user is the nearest one whose executable has a name and
  is not \<open>vt-yubi\<close> itself, and the application of the per-app cache is the nearest one inside an application
  bundle, else the direct parent, else the peer.
\<close>

theorem caller_walks:
  "describe_caller w pid = (case find (is_invoker w) (ancestors w 8 pid) of
       Some p \<Rightarrow> caller_label (the (get_process_name w p)) p | None \<Rightarrow> []) \<and>
   find_app_pid w pid = (case find (is_app w) (ancestors w 64 pid) of
       Some p \<Rightarrow> scast p
     | None \<Rightarrow> (case get_proc_bsdinfo w pid of Some (ppid, _) \<Rightarrow> ucast ppid | None \<Rightarrow> scast pid))"
  by (auto simp: describe_caller_def describe_loop_ancestors find_app_pid_def find_app_loop_ancestors
      split: option.split)

section \<open>The stat line\<close>

text \<open>A field of the line: ASCII, not empty, with no white space and no closing parenthesis.\<close>

definition stat_field :: "string \<Rightarrow> bool" where
  "stat_field f \<longleftrightarrow> f \<noteq> [] \<and> list_all (\<lambda>c. ascii_char c \<and> \<not> is_white [c] \<and> c \<noteq> CHR '')'') f"

lemma after_last_cut: "d \<notin> set t \<Longrightarrow> after_last d (s @ d # t) = t"
proof -
  assume t: "d \<notin> set t"
  have "split_on d (u @ d # t) = split_on d u @ [t]" for u
    using split_on_no_sep [OF t] by (induction u) (auto split: list.splits)
  then show ?thesis by (simp add: after_last_def)
qed

lemma words_acc_field:
  "list_all (\<lambda>c. \<not> is_white [c]) f \<Longrightarrow> words_acc w (map (\<lambda>c. [c]) f @ cs) = words_acc (w @ f) cs"
  by (induction f arbitrary: w) simp_all

lemma words_acc_white_end: "list_all is_white ws \<Longrightarrow> words_acc w (cs @ ws) = words_acc w cs"
proof (induction cs arbitrary: w)
  case Nil
  have "list_all is_white ws \<Longrightarrow> words_acc [] ws = []"
    by (induction ws) simp_all
  with Nil show ?case by (cases ws) auto
next
  case (Cons c cs)
  then show ?case by simp
qed

lemma words_acc_white_start: "words_acc [] (dropWhile is_white cs) = words_acc [] cs"
  by (induction cs) simp_all

lemma words_acc_trim:
  "words_acc [] (rev (dropWhile is_white (rev (dropWhile is_white cs)))) = words_acc [] cs"
proof -
  let ?ds = "dropWhile is_white cs"
  have "?ds = rev (dropWhile is_white (rev ?ds)) @ rev (takeWhile is_white (rev ?ds))"
    by (metis rev_append rev_rev_ident takeWhile_dropWhile_id)
  moreover have "list_all is_white (rev (takeWhile is_white (rev ?ds)))"
    by (auto simp: list_all_iff dest: set_takeWhileD)
  ultimately have "words_acc [] ?ds = words_acc [] (rev (dropWhile is_white (rev ?ds)))"
    by (metis words_acc_white_end)
  then show ?thesis by (simp add: words_acc_white_start)
qed

lemma split_whitespace_trim:
  assumes "list_all ascii_char s"
  shows "split_whitespace (trim s) = split_whitespace s"
proof -
  let ?cs = "rev (dropWhile is_white (rev (dropWhile is_white (map (\<lambda>c. [c]) s))))"
  have sub: "\<exists>t. xs' = map (\<lambda>c. [c]) t \<and> list_all ascii_char t"
    if "set xs' \<subseteq> set (map (\<lambda>c. [c]) s)" for xs'
    using that assms
  proof (induction xs')
    case (Cons x xs')
    then obtain t c where "xs' = map (\<lambda>c. [c]) t" "list_all ascii_char t" "x = [c]" "c \<in> set s" by auto
    with Cons.prems show ?case by (intro exI [of _ "c # t"]) (auto simp: list_all_iff)
  qed simp
  have "set ?cs \<subseteq> set (map (\<lambda>c. [c]) s)"
    by (auto dest!: set_dropWhileD)
  from sub [OF this] obtain t where t: "?cs = map (\<lambda>c. [c]) t" "list_all ascii_char t" by blast
  have "trim s = t"
    using t(1) by (simp add: trim_def utf8_chars_ascii [OF assms] o_def)
  with t assms show ?thesis
    by (simp add: split_whitespace_def utf8_chars_ascii t(1) [symmetric] words_acc_trim)
qed

lemma words_acc_join:
  "list_all stat_field fs \<Longrightarrow> words_acc [] (map (\<lambda>c. [c]) (join '' '' fs)) = fs"
proof (induction "'' ''" fs rule: join.induct)
  case 1
  then show ?case by simp
next
  case (2 x)
  then show ?case
    using words_acc_field [of x "[]" "[]"] by (auto simp: stat_field_def list_all_iff)
next
  case (3 x y xs)
  have "is_white [CHR '' '']" by (simp add: is_white_def white_chars_def)
  with 3 show ?case
    using words_acc_field [of x "[]"] by (auto simp: stat_field_def list_all_iff)
qed

lemma stat_field_digit:
  assumes "d < 10"
  shows "ascii_char (digit_char d) \<and> \<not> is_white [digit_char d] \<and> digit_char d \<noteq> CHR '')''"
proof -
  have "of_char (digit_char d) = (48 + d :: nat)" using assms by (rule of_char_digit)
  moreover have "byte_of (digit_char d) \<le> 0x7F"
    using assms by (simp add: word_le_nat_alt of_char_digit)
  ultimately show ?thesis
    using assms by (auto simp: ascii_char_def is_white_def white_chars_def)
qed

lemma stat_field_number: "stat_field (show_nat n)"
  by (induction n rule: show_nat.induct)
    (subst show_nat.simps, use stat_field_digit in \<open>auto simp: stat_field_def\<close>)

text \<open>
  The parent and the terminal are read right from a \<open>stat\<close> line whatever the process calls
  itself: a name with spaces, with parentheses or that imitates the fields after it cannot shift what is
  read.
\<close>

theorem stat_line_parsed:
  assumes "proc_stat w (sint pid) =
      Some (before @ ''('' @ comm @ '') '' @
        join '' '' (state # show_nat ppid # pgrp # session # show_nat tty # others))"
    and "ppid \<le> u32_max" and "tty \<le> u32_max"
    and "list_all stat_field (state # pgrp # session # others)"
  shows "get_proc_bsdinfo w pid = Some (word_of_nat ppid, word_of_nat tty)"
proof -
  let ?fs = "state # show_nat ppid # pgrp # session # show_nat tty # others"
  have fs: "list_all stat_field ?fs" using assms(4) stat_field_number by simp
  have "CHR '')'' \<notin> set (join '' '' gs) \<and> list_all ascii_char (join '' '' gs)"
    if "list_all stat_field gs" for gs
    using that
    by (induction "'' ''" gs rule: join.induct)
      (auto simp: stat_field_def list_all_iff ascii_char_def byte_of_def)
  with fs have j: "CHR '')'' \<notin> set (join '' '' ?fs)" "list_all ascii_char (join '' '' ?fs)"
    by blast+
  have sp: "ascii_char (CHR '' '')" "is_white [CHR '' '']"
    by (simp_all add: ascii_char_def byte_of_def is_white_def white_chars_def)
  have cut: "after_last (CHR '')'') (before @ ''('' @ comm @ '') '' @ join '' '' ?fs) = '' '' @ join '' '' ?fs"
    using after_last_cut [of "CHR '')''" "'' '' @ join '' '' ?fs" "before @ ''('' @ comm"] j(1) by simp
  have "list_all ascii_char ('' '' @ join '' '' ?fs)" using j(2) sp(1) by simp
  then have "split_whitespace (trim ('' '' @ join '' '' ?fs)) = words_acc [] (map (\<lambda>c. [c]) ('' '' @ join '' '' ?fs))"
    using split_whitespace_trim utf8_chars_ascii unfolding split_whitespace_def by metis
  also have "\<dots> = ?fs"
    using sp(2) words_acc_join [OF fs] by simp
  finally have fields: "split_whitespace (trim ('' '' @ join '' '' ?fs)) = ?fs" .
  have ix: "nth_field ?fs 1 = Some (show_nat ppid)" "nth_field ?fs 4 = Some (show_nat tty)"
    by (simp_all add: nth_field_def numeral_eq_Suc)
  show ?thesis
    unfolding get_proc_bsdinfo_def assms(1) cut Let_def bind.bind_lunit fields ix
    using assms(2,3) by (simp add: parse_u32_def parse_show_nat)
qed

definition demo_proc_world :: world where
  "demo_proc_world = demo_world\<lparr>proc_stat := (\<lambda>p. if p = 7
     then Some (''7 (x) S 1 1) S 42 7 7 34816 0'') else None)\<rparr>"

theorem stat_line_parsed_witness:
  "get_proc_bsdinfo demo_proc_world 7 = Some (42, 34816)"
proof -
  have "show_nat 42 = ''42''" "show_nat 34816 = ''34816''"
    by (simp_all add: show_nat.simps digit_char_def char_of_eq_iff)
  then have "proc_stat demo_proc_world (sint (7 :: i32)) =
      Some (''7 '' @ ''('' @ ''x) S 1 1'' @ '') '' @
        join '' '' (''S'' # show_nat 42 # ''7'' # ''7'' # show_nat 34816 # [''0'']))"
    by (simp add: demo_proc_world_def)
  from stat_line_parsed [OF this] show ?thesis
    by (simp add: stat_field_def ascii_char_def byte_of_def is_white_def white_chars_def)
qed

end
