(* ===== verification/Vt_Prompt.thy ===== *)
theory Vt_Prompt
  imports Vt_World
begin

text \<open>
  The texts of \<open>ssh_agent.rs\<close> that ask the user for a touch.  They are made of what an untrusted
  client sent, so they are sanitised: no control characters, and a bounded number of characters.
\<close>

definition sanitize_for_prompt :: "string \<Rightarrow> nat \<Rightarrow> string" where
  "sanitize_for_prompt s max_chars =
     concat (take max_chars (filter (\<lambda>c. \<not> is_control c) (utf8_chars s)))"

definition max_label_chars :: nat where "max_label_chars = 40"
definition max_labels_shown :: nat where "max_labels_shown = 3"

definition quoted_label :: "string \<Rightarrow> string" where
  "quoted_label l = ''`'' @ l @ ''`''"

definition format_items_label :: "nat \<Rightarrow> string list \<Rightarrow> string" where
  "format_items_label items_len descriptions =
     (let labels = map (\<lambda>d. sanitize_for_prompt d max_label_chars)
            (filter (\<lambda>d. d \<noteq> []) descriptions)
      in if labels = [] then
           (if items_len = 1 then ''1 item'' else show_nat items_len @ '' items'')
         else
           let shown = min (length labels) max_labels_shown;
               more = items_len - shown;
               joined = join '', '' (map quoted_label (take shown labels))
           in if 0 < more then joined @ '' (+'' @ show_nat more @ '' more)'' else joined)"

definition format_decrypt_prompt :: "decrypt_req \<Rightarrow> string \<Rightarrow> string" where
  "format_decrypt_prompt req caller =
     (let host = sanitize_for_prompt (dr_host req) 100;
          command = sanitize_for_prompt (dr_command req) 200;
          items_label = format_items_label (length (dr_items req)) (dr_descriptions req);
          caller_part = (if caller = [] then [] else '' by '' @ caller)
      in ''decrypt '' @ items_label @ '' from '' @ host @ caller_part @ '' to run `'' @ command @ ''`'')"

definition format_auth_prompt :: "auth_req \<Rightarrow> string \<Rightarrow> string" where
  "format_auth_prompt req caller =
     (let reason = sanitize_for_prompt (ar_reason req) 100;
          host = sanitize_for_prompt (ar_host req) 100;
          caller_part = (if caller = [] then [] else '' via '' @ caller)
      in ''bio auth: '' @ reason @ '' from '' @ host @ caller_part)"

text \<open>
  The AppleScript source that \<open>notify_touch\<close> of \<open>yk_backend.rs\<close> hands to \<open>osascript -e\<close> on macOS,
  from the text of the prompt.
\<close>

definition notify_script :: "string \<Rightarrow> string" where
  "notify_script reason =
     ''display notification '' @ [CHR 0x22] @ reason @ [CHR 0x22] @ '' with title '' @
       [CHR 0x22] @ ''vt-yubi: Touch YubiKey'' @ [CHR 0x22]"

section \<open>Characters of a concatenation\<close>

definition starts_char :: "string \<Rightarrow> bool" where
  "starts_char s \<longleftrightarrow> s = [] \<or> \<not> is_cont (hd s)"

lemma utf8_chars_append: "starts_char t \<Longrightarrow> utf8_chars (s @ t) = utf8_chars s @ utf8_chars t"
proof (induction s rule: utf8_chars.induct)
  case 1
  then show ?case by simp
next
  case (2 c cs)
  have "takeWhile is_cont (cs @ t) = takeWhile is_cont cs \<and>
      dropWhile is_cont (cs @ t) = dropWhile is_cont cs @ t"
    using 2(2) by (induction cs) (cases t, auto simp: starts_char_def)
  with 2 show ?case by simp
qed

lemma rust_str_starts_char: "rust_str s \<Longrightarrow> starts_char s"
  using utf8_valid_head_not_tail
  by (cases s) (auto simp: rust_str_def as_bytes_def starts_char_def is_cont_def simp del: utf8_valid.simps(2))

text \<open>One character: a byte that is no continuation, then only continuations.\<close>

definition one_char :: "string \<Rightarrow> bool" where
  "one_char c \<longleftrightarrow> c \<noteq> [] \<and> \<not> is_cont (hd c) \<and> list_all is_cont (tl c)"

lemma utf8_chars_one: "starts_char s \<Longrightarrow> list_all one_char (utf8_chars s)"
proof (induction s rule: utf8_chars.induct)
  case 1
  then show ?case by simp
next
  case (2 c cs)
  have "starts_char (dropWhile is_cont cs)"
    using hd_dropWhile [of is_cont cs] by (auto simp: starts_char_def)
  moreover have "list_all is_cont (takeWhile is_cont cs)"
    by (auto simp: list_all_iff dest: set_takeWhileD)
  ultimately show ?case using 2 by (simp add: one_char_def starts_char_def)
qed

lemma starts_char_concat: "list_all one_char cs \<Longrightarrow> starts_char (concat cs)"
  by (cases cs) (auto simp: one_char_def starts_char_def)

lemma utf8_chars_concat: "list_all one_char cs \<Longrightarrow> utf8_chars (concat cs) = cs"
proof (induction cs)
  case Nil
  then show ?case by simp
next
  case (Cons c cs)
  then obtain b bs where c: "c = b # bs" "list_all is_cont bs"
    by (cases c) (auto simp: one_char_def)
  then have "takeWhile is_cont bs = bs" "dropWhile is_cont bs = []"
    by (simp_all add: takeWhile_eq_all_conv list_all_iff)
  then have "utf8_chars c = [c]"
    by (simp only: c utf8_chars.simps)
  with Cons show ?case by (simp add: utf8_chars_append starts_char_concat)
qed

section \<open>Parts of a prompt\<close>

text \<open>A part with no control character and at most \<open>n\<close> characters.\<close>

definition prompt_part :: "nat \<Rightarrow> string \<Rightarrow> bool" where
  "prompt_part n s \<longleftrightarrow> starts_char s \<and> list_all (\<lambda>c. \<not> is_control c) (utf8_chars s)
     \<and> length (utf8_chars s) \<le> n"

lemma part_append: "prompt_part n s \<Longrightarrow> prompt_part m t \<Longrightarrow> prompt_part (n + m) (s @ t)"
proof -
  assume s: "prompt_part n s" and t: "prompt_part m t"
  then have "starts_char (s @ t)" by (cases s) (auto simp: prompt_part_def starts_char_def)
  with s t show ?thesis
    by (simp add: prompt_part_def utf8_chars_append)
qed

lemma part_mono: "prompt_part n s \<Longrightarrow> n \<le> m \<Longrightarrow> prompt_part m s"
  by (auto simp: prompt_part_def)

lemma part_Nil [simp]: "prompt_part n []"
  by (simp add: prompt_part_def starts_char_def)

definition printable :: "char \<Rightarrow> bool" where
  "printable c \<longleftrightarrow> ascii_char c \<and> \<not> is_control [c]"

lemma part_ascii: "list_all printable s \<Longrightarrow> length s \<le> n \<Longrightarrow> prompt_part n s"
proof -
  assume s: "list_all printable s" and n: "length s \<le> n"
  then have "list_all ascii_char s" by (auto simp: list_all_iff printable_def)
  then have "utf8_chars s = map (\<lambda>c. [c]) s" "starts_char s"
    by (rule utf8_chars_ascii, cases s) (simp_all add: starts_char_def ascii_not_cont)
  with s n show ?thesis
    by (simp add: prompt_part_def list_all_iff printable_def)
qed

lemma part_sanitize: "rust_str s \<Longrightarrow> prompt_part n (sanitize_for_prompt s n)"
proof -
  assume "rust_str s"
  then have "list_all one_char (utf8_chars s)"
    by (intro utf8_chars_one rust_str_starts_char)
  then have one: "list_all one_char (take n (filter (\<lambda>c. \<not> is_control c) (utf8_chars s)))"
    by (auto simp: list_all_iff dest: in_set_takeD)
  then show ?thesis
    by (auto simp: prompt_part_def sanitize_for_prompt_def utf8_chars_concat starts_char_concat
        list_all_iff dest: in_set_takeD)
qed

lemma printable_digit: "d < 10 \<Longrightarrow> printable (digit_char d)"
proof -
  assume d: "d < 10"
  then have "byte_of (digit_char d) \<le> 0x7F"
    by (simp add: word_le_nat_alt of_char_digit)
  with d show ?thesis by (simp add: printable_def ascii_char_def is_control_def of_char_digit)
qed

lemma printable_show_nat: "list_all printable (show_nat n)"
  by (induction n rule: show_nat.induct) (subst show_nat.simps, simp add: printable_digit)

lemma part_show_nat: "prompt_part (length (show_nat n)) (show_nat n)"
  by (intro part_ascii printable_show_nat) simp

lemma length_show_nat_mono: "m \<le> n \<Longrightarrow> length (show_nat m) \<le> length (show_nat n)"
proof (induction n arbitrary: m rule: show_nat.induct)
  case (1 n)
  show ?case
  proof (cases "m < 10")
    case True
    then have "length (show_nat m) = 1" by (subst show_nat.simps) simp
    then show ?thesis using show_nat_nonempty [of n] by (simp add: Suc_le_eq)
  next
    case False
    with 1 have "length (show_nat (m div 10)) \<le> length (show_nat (n div 10))"
      by (simp add: div_le_mono)
    with False "1.prems" show ?thesis
      by (subst (1 2) show_nat.simps) simp
  qed
qed

lemmas printable_eval = printable_def ascii_char_def is_control_def byte_of_def

lemma part_quoted: "prompt_part n l \<Longrightarrow> prompt_part (n + 2) (quoted_label l)"
proof -
  assume "prompt_part n l"
  moreover have "prompt_part 1 ''`''" by (rule part_ascii) (simp_all add: printable_eval)
  ultimately have "prompt_part (1 + (n + 1)) (quoted_label l)"
    unfolding quoted_label_def by (intro part_append)
  then show ?thesis by (simp add: add.commute)
qed

lemma part_join:
  "list_all (prompt_part n) ls \<Longrightarrow> prompt_part (length ls * (n + 2)) (join '', '' ls)"
proof (induction "'', ''" ls rule: join.induct)
  case 1
  then show ?case by simp
next
  case (2 x)
  then show ?case by (auto elim: part_mono)
next
  case (3 x y xs)
  have "prompt_part 2 '', ''" by (rule part_ascii) (simp_all add: printable_eval)
  with 3 have "prompt_part (n + (2 + length (y # xs) * (n + 2))) (x @ '', '' @ join '', '' (y # xs))"
    by (intro part_append) simp_all
  then show ?case by (simp add: algebra_simps)
qed

lemma part_label:
  assumes "list_all rust_str descriptions"
  shows "prompt_part (141 + length (show_nat n)) (format_items_label n descriptions)"
proof -
  let ?labels = "map (\<lambda>d. sanitize_for_prompt d max_label_chars) (filter (\<lambda>d. d \<noteq> []) descriptions)"
  let ?shown = "min (length ?labels) max_labels_shown"
  let ?joined = "join '', '' (map quoted_label (take ?shown ?labels))"
  have "list_all (prompt_part 42) (map quoted_label (take ?shown ?labels))"
    using assms part_quoted [of 40] part_sanitize [of _ 40]
    by (auto simp: list_all_iff max_label_chars_def dest!: in_set_takeD)
  then have "prompt_part (length (map quoted_label (take ?shown ?labels)) * (42 + 2)) ?joined"
    by (rule part_join)
  moreover have "length (map quoted_label (take ?shown ?labels)) * (42 + 2) \<le> 132"
    by (simp add: max_labels_shown_def)
  ultimately have j: "prompt_part 132 ?joined"
    by (rule part_mono)
  have n: "prompt_part (length (show_nat n)) (show_nat (n - k))" for k
    using part_show_nat [of "n - k"] length_show_nat_mono [of "n - k" n] by (auto elim: part_mono)
  have pieces: "prompt_part 3 '' (+''" "prompt_part 6 '' more)''" "prompt_part 6 '' items''"
    "prompt_part 6 ''1 item''"
    by (rule part_ascii, simp add: printable_eval, simp)+
  have "prompt_part (132 + (3 + (length (show_nat n) + 6)))
      (?joined @ '' (+'' @ show_nat (n - ?shown) @ '' more)'')"
    by (intro part_append j n pieces)
  moreover have "prompt_part (length (show_nat n) + 6) (show_nat n @ '' items'')"
    by (intro part_append part_show_nat pieces)
  ultimately show ?thesis
    using j pieces unfolding format_items_label_def Let_def by (auto elim!: part_mono)
qed

text \<open>
  The sanitised text is not made safe for the AppleScript it is put into: a command of at most 200
  characters without control characters reaches the script unchanged, between double quotes that it can
  close.  Since the notification is shown before the presence check, a client that holds \<open>VT_AUTH\<close>
  has its own script run on the user's Mac without any touch.
\<close>

theorem notify_script_verbatim:
  assumes "prompt_part 200 (dr_command req)"
  shows "\<exists>before. notify_script (format_decrypt_prompt req caller) =
    ''display notification '' @ [CHR 0x22] @ before @ dr_command req @ ''`'' @ [CHR 0x22] @
      '' with title '' @ [CHR 0x22] @ ''vt-yubi: Touch YubiKey'' @ [CHR 0x22]"
proof -
  have "filter (\<lambda>c. \<not> is_control c) (utf8_chars (dr_command req)) = utf8_chars (dr_command req)"
    using assms by (auto simp: prompt_part_def list_all_iff filter_id_conv)
  with assms have "sanitize_for_prompt (dr_command req) 200 = dr_command req"
    by (simp add: sanitize_for_prompt_def prompt_part_def)
  then show ?thesis
    by (simp add: notify_script_def format_decrypt_prompt_def Let_def)
qed

definition injected_command :: string where
  "injected_command = [CHR 0x22] @ '' & (do shell script '' @ [CHR 0x22] @ ''id'' @ [CHR 0x22] @ '') & '' @ [CHR 0x22]"

theorem notify_script_verbatim_witness:
  "\<exists>before. notify_script (format_decrypt_prompt
       \<lparr>dr_host = ''h'', dr_command = injected_command, dr_items = [], dr_descriptions = []\<rparr> []) =
    ''display notification '' @ [CHR 0x22] @ before @ injected_command @ ''`'' @ [CHR 0x22] @
      '' with title '' @ [CHR 0x22] @ ''vt-yubi: Touch YubiKey'' @ [CHR 0x22]"
proof -
  have "prompt_part 200 injected_command"
    by (rule part_ascii) (simp_all add: injected_command_def printable_eval)
  then show ?thesis
    using notify_script_verbatim
      [of "\<lparr>dr_host = ''h'', dr_command = injected_command, dr_items = [], dr_descriptions = []\<rparr>" "[]"]
    by simp
qed

end
