(* ===== verification/Vt_Audit.thy ===== *)
theory Vt_Audit
  imports Vt_Custody
begin

text \<open>
  \<open>src/audit.rs\<close>: one JSON line per vault operation, appended to a file of the day.  A failure to
  log is only a warning: it never stops the operation that is logged.
\<close>

definition audit_file_path :: "string option wio" where
  "audit_file_path =
     io_bind (io_attempt home_dir) (\<lambda>r. case r of
       Inl _ \<Rightarrow> io_ret None
     | Inr hm \<Rightarrow>
         let dir = path_join hm ''.vt-yubi/audit'' in
         io_bind (io_attempt (create_dir_all dir)) (\<lambda>r. case r of
           Inl _ \<Rightarrow> io_ret None
         | Inr _ \<Rightarrow> io_bind (io_get today) (\<lambda>date. io_ret (Some (path_join dir (date @ ''.jsonl''))))))"

definition write_event :: "crates \<Rightarrow> audit_event \<Rightarrow> unit wio" where
  "write_event c event =
     io_bind audit_file_path (\<lambda>p. case p of
       None \<Rightarrow> io_ret ()
     | Some path \<Rightarrow> (case js_audit c event of
         Inl _ \<Rightarrow> io_ret ()
       | Inr line \<Rightarrow>
           io_bind (io_attempt (fs_append path (as_bytes (line @ [CHR 0x0A])))) (\<lambda>_. io_ret ())))"

definition result_str :: "bool \<Rightarrow> string" where
  "result_str approved = (if approved then ''approved'' else ''denied'')"

definition log_decrypt :: "crates \<Rightarrow> i32 option \<Rightarrow> string \<Rightarrow> decrypt_req \<Rightarrow> bool \<Rightarrow> unit wio" where
  "log_decrypt c peer_pid caller req approved =
     io_bind (io_get timestamp) (\<lambda>time.
     write_event c \<lparr>ae_time = time, ae_op = ''decrypt'', ae_peer_pid = peer_pid, ae_caller = caller,
       ae_host = Some (dr_host req), ae_command = Some (dr_command req),
       ae_items = Some (length (dr_items req)),
       ae_descriptions = filter (\<lambda>d. d \<noteq> []) (dr_descriptions req),
       ae_reason = None, ae_key = None, ae_fingerprint = None, ae_result = result_str approved\<rparr>)"

definition log_encrypt :: "crates \<Rightarrow> i32 option \<Rightarrow> string \<Rightarrow> nat \<Rightarrow> unit wio" where
  "log_encrypt c peer_pid caller items_count =
     io_bind (io_get timestamp) (\<lambda>time.
     write_event c \<lparr>ae_time = time, ae_op = ''encrypt'', ae_peer_pid = peer_pid, ae_caller = caller,
       ae_host = None, ae_command = None, ae_items = Some items_count, ae_descriptions = [],
       ae_reason = None, ae_key = None, ae_fingerprint = None, ae_result = ''ok''\<rparr>)"

definition log_auth :: "crates \<Rightarrow> i32 option \<Rightarrow> string \<Rightarrow> auth_req \<Rightarrow> bool \<Rightarrow> unit wio" where
  "log_auth c peer_pid caller req approved =
     io_bind (io_get timestamp) (\<lambda>time.
     write_event c \<lparr>ae_time = time, ae_op = ''auth'', ae_peer_pid = peer_pid, ae_caller = caller,
       ae_host = Some (ar_host req), ae_command = None, ae_items = None, ae_descriptions = [],
       ae_reason = Some (ar_reason req), ae_key = None, ae_fingerprint = None,
       ae_result = result_str approved\<rparr>)"

definition is_outbound_ssh :: "string \<Rightarrow> bool" where
  "is_outbound_ssh peer_exe_name \<longleftrightarrow> peer_exe_name = ''ssh''"

definition log_sign ::
  "crates \<Rightarrow> i32 option \<Rightarrow> string \<Rightarrow> string \<Rightarrow> string \<Rightarrow> string \<Rightarrow> bool \<Rightarrow> unit wio" where
  "log_sign c peer_pid peer_exe_name caller key_label fingerprint approved =
     (if is_outbound_ssh peer_exe_name then io_ret ()
      else
        io_bind (io_get timestamp) (\<lambda>time.
        write_event c \<lparr>ae_time = time, ae_op = ''sign'', ae_peer_pid = peer_pid, ae_caller = caller,
          ae_host = None, ae_command = None, ae_items = None, ae_descriptions = [],
          ae_reason = None, ae_key = Some key_label, ae_fingerprint = Some fingerprint,
          ae_result = result_str approved\<rparr>))"

section \<open>What logging does\<close>

definition audit_file :: "string \<Rightarrow> string \<Rightarrow> string" where
  "audit_file h date = path_join (path_join h ''.vt-yubi/audit'') (date @ ''.jsonl'')"

text \<open>
  The effect of logging \<open>e\<close>: nothing, or one line more in the file of the day (and, before
  it, the directory).
\<close>

definition audit_writable :: "world \<Rightarrow> bool" where
  "audit_writable w \<longleftrightarrow> (\<exists>h. home w = Some h \<and> mkdir_err w (path_join h ''.vt-yubi/audit'') = None
     \<and> write_err w (audit_file h (today w)) = None)"

definition appended :: "crates \<Rightarrow> audit_event \<Rightarrow> world \<Rightarrow> (string \<rightharpoonup> bytes)" where
  "appended c e w =
     (case js_audit c e of
        Inl _ \<Rightarrow> files w
      | Inr l \<Rightarrow>
          if audit_writable w then
            (let p = audit_file (the (home w)) (today w) in
             (files w)(p \<mapsto> (case files w p of None \<Rightarrow> [] | Some old \<Rightarrow> old) @ as_bytes l @ [0x0A]))
          else files w)"

lemma newline_byte [simp]: "byte_of (CHR 0x0A) = 0x0A"
  by (simp add: byte_of_def)

lemma write_event_effect:
  "fst (write_event c e w) = Ok () \<and> files (snd (write_event c e w)) = appended c e w"
  by (cases "js_audit c e")
    (auto simp: write_event_def audit_file_path_def io_bind_def io_attempt_def home_dir_def
      create_dir_all_def fs_append_def appended_def audit_writable_def audit_file_def Let_def as_bytes_def
      split: option.splits sum.splits)

text \<open>Logging leaves everything but the directory and the file of the day as it was.\<close>

definition only_audit :: "world \<Rightarrow> world \<Rightarrow> bool" where
  "only_audit w v \<longleftrightarrow> v = w\<lparr>dirs := dirs v, files := files v\<rparr>
     \<and> (\<forall>p. (\<forall>h. home w = Some h \<longrightarrow> p \<noteq> audit_file h (today w)) \<longrightarrow> files v p = files w p)
     \<and> (\<forall>p. (\<forall>h. home w = Some h \<longrightarrow> p \<noteq> path_join h ''.vt-yubi/audit'') \<longrightarrow> (p \<in> dirs v \<longleftrightarrow> p \<in> dirs w))"

lemma only_audit_sel:
  assumes "v = w\<lparr>dirs := dirs v, files := files v\<rparr>"
  shows "home v = home w" "today v = today w" "yk_log v = yk_log w" "stdout v = stdout w"
    "dev_tick v = dev_tick w" "instant v = instant w" "dev v = dev w" "osrng v = osrng w"
    "read_err v = read_err w" "write_err v = write_err w" "mkdir_err v = mkdir_err w"
    "unix_time v = unix_time w" "timestamp v = timestamp w" "proc_stat v = proc_stat w"
    "proc_exe v = proc_exe w"
  by (subst assms, simp)+

interpretation audit: frame_rel only_audit
proof
  fix s t u
  show "only_audit s s"
    by (simp add: only_audit_def)
  assume st: "only_audit s t" and tu: "only_audit t u"
  then have t: "t = s\<lparr>dirs := dirs t, files := files t\<rparr>" and u: "u = t\<lparr>dirs := dirs u, files := files u\<rparr>"
    by (simp_all add: only_audit_def)
  have "u = s\<lparr>dirs := dirs u, files := files u\<rparr>"
    by (subst u, subst t) simp
  then show "only_audit s u"
    using st tu only_audit_sel [OF t] by (auto simp: only_audit_def)
qed

lemmas audit_frame [frame_intros] = audit.all

lemma only_audit_write: "within only_audit (write_event c e)"
proof (rule withinI)
  fix s r t
  assume run: "write_event c e s = (r, t)"
  then have "t = s\<lparr>dirs := dirs t, files := files t\<rparr> \<and>
      (\<forall>p. (\<forall>h. home s = Some h \<longrightarrow> p \<noteq> path_join h ''.vt-yubi/audit'') \<longrightarrow> (p \<in> dirs t \<longleftrightarrow> p \<in> dirs s))"
    by (cases "js_audit c e")
      (auto simp: write_event_def audit_file_path_def io_bind_def io_attempt_def home_dir_def
        create_dir_all_def fs_append_def Let_def split: option.splits sum.splits)
  moreover have "files t = appended c e s"
    using write_event_effect [of c e s] run by simp
  ultimately show "only_audit s t"
    by (auto simp: only_audit_def appended_def Let_def audit_writable_def split: sum.splits)
qed

lemmas only_audit_keeps = only_audit_sel [OF only_audit_def [THEN iffD1, THEN conjunct1]]

lemma audit_logs [frame_intros]:
  "within only_audit (log_decrypt c p cl req ok)"
  "within only_audit (log_encrypt c p cl n)"
  "within only_audit (log_auth c p cl areq ok)"
  "within only_audit (log_sign c p exe cl lbl fp ok)"
  unfolding log_decrypt_def log_encrypt_def log_auth_def log_sign_def
  by (auto intro!: audit_frame only_audit_write)

lemma log_Ok:
  "fst (log_decrypt c p cl req ok w) = Ok ()"
  "fst (log_encrypt c p cl n w) = Ok ()"
  "fst (log_auth c p cl areq ok w) = Ok ()"
  "fst (log_sign c p exe cl lbl fp ok w) = Ok ()"
  by (simp_all add: log_decrypt_def log_encrypt_def log_auth_def log_sign_def
      write_event_effect)

lemma only_audit_frames: "only_audit w v \<Longrightarrow> same_env w v \<and> same_device w v"
  using only_audit_sel [of v w] by (simp add: only_audit_def same_env_def same_device_def)

lemma within_audit:
  "within only_audit m \<Longrightarrow> within same_env m"
  "within only_audit m \<Longrightarrow> within same_device m"
  by (simp_all add: within_def only_audit_frames)

lemmas log_env [frame_intros] = audit_logs [THEN within_audit(1)]
lemmas log_device [frame_intros] = audit_logs [THEN within_audit(2)]

text \<open>The log is never the file of keys.\<close>

lemma audit_not_vault:
  "audit_file h d \<noteq> vt_file h ''ssh_keys.enc''"
  "path_join h ''.vt-yubi/audit'' \<noteq> vt_file h ''ssh_keys.enc''"
  by (simp_all add: audit_file_def path_join_def)


text \<open>
  Logging an event always succeeds, uses neither the device nor the terminal, and changes files
  only by appending to the file of the day: the bytes already there stay, and what is added is one line
  (the event's JSON, which has no line feed, and a line feed), exactly once if the event can be serialised
  and the file written, and nothing otherwise.
\<close>

theorem write_event_appends_line:
  assumes "json_line_ok c" and "write_event c e w = (r, v)"
  shows "r = Ok () \<and> yk_log v = yk_log w \<and> stdout v = stdout w \<and>
    (if audit_writable w \<and> (\<exists>l. js_audit c e = Inr l)
     then \<exists>l. CHR 0x0A \<notin> set l \<and> js_audit c e = Inr l \<and>
       files v = (let p = audit_file (the (home w)) (today w) in
         (files w)(p \<mapsto> (case files w p of None \<Rightarrow> [] | Some old \<Rightarrow> old) @ as_bytes l @ [0x0A]))
     else files v = files w)"
proof -
  have "r = Ok ()" "files v = appended c e w"
    using write_event_effect [of c e w] assms(2) by simp_all
  moreover have "only_audit w v" using withinD [OF only_audit_write assms(2)] .
  then have "yk_log v = yk_log w" "stdout v = stdout w" by (rule only_audit_keeps)+
  ultimately show ?thesis
    using assms(1) by (auto simp: appended_def json_line_ok_def Let_def split: sum.splits)
qed

theorem write_event_appends_line_witness:
  "\<exists>r v. log_sign demo_crates None ''sshd'' [] ''k'' ''fp'' True demo_world = (r, v) \<and> r = Ok () \<and>
     files v ''/h/.vt-yubi/audit/2026-04-24.jsonl'' = 
       Some (as_bytes (json_text [(''time'', JStr (timestamp demo_world)), (''op'', JStr ''sign''), (''key'', JStr ''k''),
         (''fingerprint'', JStr ''fp''), (''result'', JStr ''approved'')]) @ [0x0A])"
proof -
  let ?e = "\<lparr>ae_time = timestamp demo_world, ae_op = ''sign'', ae_peer_pid = None, ae_caller = [],
    ae_host = None, ae_command = None, ae_items = None, ae_descriptions = [], ae_reason = None,
    ae_key = Some ''k'', ae_fingerprint = Some ''fp'', ae_result = ''approved''\<rparr>"
  obtain r v where run: "write_event demo_crates ?e demo_world = (r, v)" by fastforce
  have wr: "audit_writable demo_world" by (simp add: audit_writable_def)
  have "log_sign demo_crates None ''sshd'' [] ''k'' ''fp'' True demo_world = (r, v)"
    using run by (simp add: log_sign_def is_outbound_ssh_def result_str_def)
  moreover from write_event_appends_line [OF audit_json_line [OF demo_audit_json_ok] run] wr
  have "r = Ok () \<and> files v ''/h/.vt-yubi/audit/2026-04-24.jsonl'' = 
       Some (as_bytes (json_text [(''time'', JStr (timestamp demo_world)), (''op'', JStr ''sign''), (''key'', JStr ''k''),
         (''fingerprint'', JStr ''fp''), (''result'', JStr ''approved'')]) @ [0x0A])"
    by (auto simp: Let_def audit_file_def path_join_def event_json_def field_if_def field_some_def)
  ultimately show ?thesis by blast
qed

end
