(* ===== verification/Vt_Agent.thy ===== *)
theory Vt_Agent
  imports Vt_Key_Store Vt_Core Vt_Wire Vt_Auth_Cache Vt_Proc_Info Vt_Prompt Vt_Audit
begin

text \<open>
  The SSH agent of \<open>ssh_agent.rs\<close>: the state its sessions share, and one operation per handler of the
  agent protocol.  The fields of \<open>VtSshAgentFactory\<close> are behind locks in the source; here they are the
  fields of one record, with the world the agent runs in, and a handler is a state transformer that
  keeps the changes made before an error.  A handler runs here without being interrupted;
  \<open>Vt_Agent_Run\<close> treats what interleaving adds.
\<close>

section \<open>State\<close>

text \<open>
  The table of keys is an association list, in the order of insertion; the source's hash map has no
  order, so nothing is claimed about it.
\<close>

record agent =
  ag_keys :: "(string \<times> private_key) list"
  ag_last_activity :: nat
  ag_locked :: bool
  ag_lock_passphrase :: "bytes option"
  ag_idle_cleared :: bool
  ag_auth_cache :: auth_cache
  ag_cache_mode :: auth_cache_mode
  ag_passphrase :: bytes
  ag_auth_token :: bytes
  ag_pin :: string
  ag_world :: world

type_synonym 'a aio = "(agent, 'a) io"

text \<open>An operation on the world, run by the agent.\<close>

definition in_world :: "'a wio \<Rightarrow> 'a aio" where
  "in_world m = (\<lambda>s. case m (ag_world s) of (r, w) \<Rightarrow> (r, s\<lparr>ag_world := w\<rparr>))"

definition agent_now :: "agent \<Rightarrow> nat" where
  "agent_now s = instant (ag_world s)"

definition hash_lock_passphrase :: "crates \<Rightarrow> string \<Rightarrow> bytes" where
  "hash_lock_passphrase c passphrase = sha256 c (as_bytes passphrase)"

definition insert_entry ::
  "crates \<Rightarrow> (string \<times> private_key) list \<Rightarrow> ssh_key_entry \<Rightarrow> (string \<times> private_key) list" where
  "insert_entry c keys entry =
     (case openssh_parse c (as_bytes (ke_key_data entry)) of
        Inr privkey \<Rightarrow> AList.update (ke_fingerprint entry) privkey keys
      | Inl _ \<Rightarrow> keys)"

definition load_all_keys :: "crates \<Rightarrow> bytes \<Rightarrow> (string \<times> private_key) list wio" where
  "load_all_keys c passphrase =
     io_bind (io_of (aes_new passphrase)) (\<lambda>cipher.
     io_bind (load_ssh_keys_from_file c cipher) (\<lambda>entries.
     io_ret (foldl (insert_entry c) [] entries)))"

definition fingerprint_str :: "crates \<Rightarrow> bytes \<Rightarrow> string" where
  "fingerprint_str c key_data = fingerprint_sha256 c key_data"

definition agent_new ::
  "(string \<times> private_key) list \<Rightarrow> auth_cache_mode \<Rightarrow> u64 \<Rightarrow> u64 \<Rightarrow> bytes \<Rightarrow> bytes \<Rightarrow> string \<Rightarrow> world \<Rightarrow> agent"
  where
  "agent_new keys mode sign_secs decrypt_secs passphrase auth_token pin w =
     \<lparr>ag_keys = keys, ag_last_activity = instant w, ag_locked = False, ag_lock_passphrase = None,
      ag_idle_cleared = False, ag_auth_cache = auth_cache_new sign_secs decrypt_secs,
      ag_cache_mode = mode, ag_passphrase = passphrase, ag_auth_token = auth_token, ag_pin = pin,
      ag_world = w\<rparr>"

section \<open>Shared steps of the handlers\<close>

definition ensure_keys_loaded :: "crates \<Rightarrow> unit aio" where
  "ensure_keys_loaded c =
     io_bind (io_get ag_keys) (\<lambda>keys.
     if keys \<noteq> [] then io_ret ()
     else
       io_bind (io_get ag_idle_cleared) (\<lambda>idle.
       if \<not> idle then io_ret ()
       else
         io_bind (io_get ag_passphrase) (\<lambda>passphrase.
         io_bind (in_world (load_all_keys c passphrase)) (\<lambda>loaded.
         io_seq (io_upd (\<lambda>s. s\<lparr>ag_keys := loaded\<rparr>))
           (io_upd (\<lambda>s. s\<lparr>ag_idle_cleared := False\<rparr>))))))"

definition touch_activity :: "unit aio" where
  "touch_activity = io_upd (\<lambda>s. s\<lparr>ag_last_activity := agent_now s\<rparr>)"

definition verify_yubikey_presence :: "crates \<Rightarrow> string \<Rightarrow> bool aio" where
  "verify_yubikey_presence c reason =
     io_bind (io_get ag_pin) (\<lambda>pin.
     io_or False (in_world (verify_presence_with_pin c pin reason)))"

text \<open>The caller's cache context: none without a cache or without a known peer.\<close>

definition context_id :: "auth_cache_mode \<Rightarrow> i32 option \<Rightarrow> world \<Rightarrow> u64 option" where
  "context_id mode peer_pid w =
     (case mode of
        CacheNone \<Rightarrow> None
      | PerSession \<Rightarrow> map_option (get_tty_dev w) peer_pid
      | PerApp \<Rightarrow> map_option (find_app_pid w) peer_pid)"

definition cache_grant :: "u64 \<Rightarrow> string \<Rightarrow> bool \<Rightarrow> unit aio" where
  "cache_grant ctx fingerprint is_decrypt =
     io_bind (io_get (\<lambda>s. grant (agent_now s) (ag_auth_cache s) ctx fingerprint is_decrypt)) (\<lambda>r.
     io_bind (io_of r) (\<lambda>cache.
     io_upd (\<lambda>s. s\<lparr>ag_auth_cache := cache\<rparr>)))"

definition check_or_prompt_auth ::
  "crates \<Rightarrow> i32 option \<Rightarrow> string \<Rightarrow> string \<Rightarrow> bool \<Rightarrow> bool aio" where
  "check_or_prompt_auth c peer_pid fingerprint auth_message is_decrypt =
     io_bind (io_get (\<lambda>s. context_id (ag_cache_mode s) peer_pid (ag_world s))) (\<lambda>ctx.
     case ctx of
       None \<Rightarrow> verify_yubikey_presence c auth_message
     | Some ctx \<Rightarrow>
         io_bind (io_get (\<lambda>s. is_authorized (agent_now s) (ag_auth_cache s) ctx fingerprint)) (\<lambda>hit.
         if hit then io_ret True
         else
           io_bind (verify_yubikey_presence c auth_message) (\<lambda>present.
           if \<not> present then io_ret False
           else io_seq (cache_grant ctx fingerprint is_decrypt) (io_ret True))))"

section \<open>Listing and signing\<close>

record identity =
  id_pubkey :: bytes
  id_comment :: string

record sign_request =
  sr_pubkey :: bytes
  sr_data :: bytes

record signature =
  sg_algorithm :: string
  sg_blob :: bytes

definition request_identities :: "crates \<Rightarrow> identity list aio" where
  "request_identities c =
     io_bind (io_get ag_locked) (\<lambda>locked.
     if locked then io_ret []
     else
       io_seq (ensure_keys_loaded c) (
       io_bind (io_get ag_keys) (\<lambda>keys.
       io_ret (map (\<lambda>(_, privkey).
         \<lparr>id_pubkey = public_key_data c privkey, id_comment = pk_comment privkey\<rparr>) keys))))"

text \<open>The two supported curves; the names of their algorithms are the source's.\<close>

fun curve_algorithm :: "ecdsa_curve \<Rightarrow> string option" where
  "curve_algorithm NistP256 = Some ''ecdsa-sha2-nistp256''"
| "curve_algorithm NistP384 = Some ''ecdsa-sha2-nistp384''"
| "curve_algorithm NistP521 = None"

definition sign_with_key :: "crates \<Rightarrow> private_key \<Rightarrow> bytes \<Rightarrow> signature outcome" where
  "sign_with_key c privkey data =
     (case pk_key_data privkey of
        Ecdsa curve private_bytes _ \<Rightarrow>
          (case curve_algorithm curve of
             None \<Rightarrow> Err AgentFailure
           | Some algorithm \<Rightarrow>
               oc_bind (of_sum Msg (ecdsa_sign c curve private_bytes data)) (\<lambda>(r, s).
               let sig_blob = encode_ecdsa_sig_blob r s in
               case signature_error c algorithm sig_blob of
                 Some e \<Rightarrow> Err (Msg e)
               | None \<Rightarrow> Ok \<lparr>sg_algorithm = algorithm, sg_blob = sig_blob\<rparr>))
      | _ \<Rightarrow> Err AgentFailure)"

definition unwrap_or_empty :: "string option \<Rightarrow> string" where
  "unwrap_or_empty o' = (case o' of None \<Rightarrow> [] | Some s \<Rightarrow> s)"

definition sign_message :: "string \<Rightarrow> string \<Rightarrow> string" where
  "sign_message key_label proc_name =
     (if proc_name = [] then ''SSH sign: '' @ key_label
      else ''SSH sign: '' @ key_label @ '' by '' @ proc_name)"

definition peer_name :: "i32 option \<Rightarrow> world \<Rightarrow> string" where
  "peer_name peer_pid w = unwrap_or_empty (Option.bind peer_pid (get_process_name w))"

definition peer_caller :: "i32 option \<Rightarrow> world \<Rightarrow> string" where
  "peer_caller peer_pid w = unwrap_or_empty (map_option (describe_caller w) peer_pid)"

text \<open>A handler first reads the lock and releases it; the rest of the handler is a definition of its own.\<close>

definition sign_unlocked :: "crates \<Rightarrow> i32 option \<Rightarrow> sign_request \<Rightarrow> signature aio" where
  "sign_unlocked c peer_pid request =
       io_seq (ensure_keys_loaded c) (
       io_seq touch_activity (
       let fp_str = fingerprint_str c (sr_pubkey request) in
       io_bind (io_get (\<lambda>s. map_of (ag_keys s) fp_str)) (\<lambda>found.
       case found of
         None \<Rightarrow> io_fail AgentFailure
       | Some privkey \<Rightarrow>
           io_bind (io_get (\<lambda>s. peer_name peer_pid (ag_world s))) (\<lambda>proc_name.
           io_bind (io_get (\<lambda>s. peer_caller peer_pid (ag_world s))) (\<lambda>caller.
           let key_label = (if pk_comment privkey = [] then fp_str else pk_comment privkey) in
           io_bind (check_or_prompt_auth c peer_pid fp_str (sign_message key_label proc_name) False)
             (\<lambda>approved.
           io_seq (in_world (log_sign c peer_pid proc_name caller key_label fp_str approved)) (
           if \<not> approved then io_fail AgentFailure
           else io_of (sign_with_key c privkey (sr_data request)))))))))"

definition sign_op :: "crates \<Rightarrow> i32 option \<Rightarrow> sign_request \<Rightarrow> signature aio" where
  "sign_op c peer_pid request =
     io_bind (io_get ag_locked) (\<lambda>locked.
     if locked then io_fail AgentFailure else sign_unlocked c peer_pid request)"

section \<open>Extensions\<close>

record extension =
  ex_name :: string
  ex_details :: bytes

definition handle_encrypt :: "crates \<Rightarrow> i32 option \<Rightarrow> string \<Rightarrow> bytes \<Rightarrow> bytes aio" where
  "handle_encrypt c peer_pid caller decrypted =
     io_bind (io_of (of_sum Msg (de (js_encrypt_items c) decrypted))) (\<lambda>items.
     io_seq (in_world (log_encrypt c peer_pid caller (length items))) (
     io_bind (io_get ag_passphrase) (\<lambda>passphrase.
     io_bind (io_of (aes_new passphrase)) (\<lambda>mac_cipher.
     io_bind (in_world (do_encrypt c mac_cipher items)) (\<lambda>result.
     io_of (of_sum Msg (ser (js_results c) result)))))))"

definition handle_decrypt :: "crates \<Rightarrow> i32 option \<Rightarrow> string \<Rightarrow> bytes \<Rightarrow> bytes aio" where
  "handle_decrypt c peer_pid caller decrypted =
     io_bind (io_of (of_sum Msg (de (js_decrypt_req c) decrypted))) (\<lambda>req.
     io_bind (check_or_prompt_auth c peer_pid ''decrypt@vt'' (format_decrypt_prompt req caller) True)
       (\<lambda>approved.
     io_seq (in_world (log_decrypt c peer_pid caller req approved)) (
     if \<not> approved then io_fail AgentFailure
     else
       io_bind (io_get ag_passphrase) (\<lambda>passphrase.
       io_bind (io_of (aes_new passphrase)) (\<lambda>mac_cipher.
       io_bind (io_get (\<lambda>s. do_decrypt c mac_cipher (unix_time (ag_world s)) (dr_items req))) (\<lambda>r.
       io_bind (io_of r) (\<lambda>result.
       io_of (of_sum Msg (ser (js_results c) result)))))))))"

definition handle_auth :: "crates \<Rightarrow> i32 option \<Rightarrow> string \<Rightarrow> bytes \<Rightarrow> bytes aio" where
  "handle_auth c peer_pid caller decrypted =
     io_bind (io_of (of_sum Msg (de (js_auth_req c) decrypted))) (\<lambda>req.
     io_bind (verify_yubikey_presence c (format_auth_prompt req caller)) (\<lambda>approved.
     io_seq (in_world (log_auth c peer_pid caller req approved)) (
     if \<not> approved then io_fail AgentFailure
     else io_of (of_sum Msg (ser (js_auth_res c) \<lparr>as_approved = True\<rparr>)))))"

definition extension_unlocked :: "crates \<Rightarrow> i32 option \<Rightarrow> extension \<Rightarrow> extension option aio" where
  "extension_unlocked c peer_pid ext =
     (if ex_name ext \<notin> {''encrypt@vt'', ''decrypt@vt'', ''auth@vt''} then io_ret None
     else
       io_seq touch_activity (
       io_bind (io_get ag_auth_token) (\<lambda>auth_token.
       io_bind (io_of (aes_new auth_token)) (\<lambda>auth_cipher.
       io_bind (io_map_err (\<lambda>_. AgentFailure) (io_of (aes_decrypt c auth_cipher (ex_details ext))))
         (\<lambda>decrypted.
       io_bind (io_get (\<lambda>s. peer_caller peer_pid (ag_world s))) (\<lambda>caller.
       io_bind
         (if ex_name ext = ''encrypt@vt'' then handle_encrypt c peer_pid caller decrypted
          else if ex_name ext = ''decrypt@vt'' then handle_decrypt c peer_pid caller decrypted
          else handle_auth c peer_pid caller decrypted) (\<lambda>response_bytes.
       io_bind (in_world (aes_encrypt c auth_cipher response_bytes)) (\<lambda>encrypted_response.
       io_ret (Some \<lparr>ex_name = ex_name ext, ex_details = encrypted_response\<rparr>)))))))))"

definition extension_op :: "crates \<Rightarrow> i32 option \<Rightarrow> extension \<Rightarrow> extension option aio" where
  "extension_op c peer_pid ext =
     io_bind (io_get ag_locked) (\<lambda>locked.
     if locked then io_fail AgentFailure else extension_unlocked c peer_pid ext)"

section \<open>Adding and removing keys\<close>

datatype credential = KeyCredential keypair string | OtherCredential

definition supported_key :: "private_key \<Rightarrow> bool" where
  "supported_key k \<longleftrightarrow>
     (case pk_key_data k of Ecdsa curve _ _ \<Rightarrow> curve = NistP256 \<or> curve = NistP384 | _ \<Rightarrow> False)"

definition add_identity_unlocked :: "crates \<Rightarrow> credential \<Rightarrow> unit aio" where
  "add_identity_unlocked c cred =
     (case cred of
       OtherCredential \<Rightarrow> io_fail AgentFailure
     | KeyCredential privkey comment \<Rightarrow>
         io_bind (io_of (of_sum Msg (private_key_new c privkey comment))) (\<lambda>private_key.
         io_seq (io_of (ensure (supported_key private_key) AgentFailure)) (
         let fp_str = fingerprint_str c (public_key_data c private_key) in
         io_bind (io_of (of_sum Msg (openssh_print c private_key))) (\<lambda>key_openssh.
         io_bind (io_get ag_passphrase) (\<lambda>passphrase.
         io_bind (io_of (aes_new passphrase)) (\<lambda>cipher.
         io_bind (in_world (io_or [] (load_ssh_keys_from_file c cipher))) (\<lambda>entries.
         io_seq (io_when (\<not> (\<exists>e \<in> set entries. ke_fingerprint e = fp_str))
                   (in_world (save_ssh_keys_to_file c cipher (entries @
                      [\<lparr>ke_fingerprint = fp_str, ke_algorithm = key_algorithm c private_key,
                        ke_comment = comment, ke_key_data = key_openssh\<rparr>])))) (
         io_seq (io_upd (\<lambda>s. s\<lparr>ag_keys := AList.update fp_str private_key (ag_keys s)\<rparr>))
           touch_activity))))))))"

definition add_identity :: "crates \<Rightarrow> credential \<Rightarrow> unit aio" where
  "add_identity c cred =
     io_bind (io_get ag_locked) (\<lambda>locked.
     if locked then io_fail AgentFailure else add_identity_unlocked c cred)"

definition remove_identity :: "crates \<Rightarrow> bytes \<Rightarrow> unit aio" where
  "remove_identity c pubkey =
     (let fp_str = fingerprint_str c pubkey in
      io_bind (io_get ag_passphrase) (\<lambda>passphrase.
      io_seq
        (case aes_new passphrase of
           Ok cipher \<Rightarrow>
             io_bind (in_world (io_or [] (load_ssh_keys_from_file c cipher))) (\<lambda>entries.
             io_bind (in_world (io_attempt (save_ssh_keys_to_file c cipher
                        (filter (\<lambda>e. ke_fingerprint e \<noteq> fp_str) entries)))) (\<lambda>_.
             io_ret ()))
         | _ \<Rightarrow> io_ret ())
        (io_upd (\<lambda>s. s\<lparr>ag_keys := AList.delete fp_str (ag_keys s)\<rparr>))))"

definition remove_all_identities :: "crates \<Rightarrow> unit aio" where
  "remove_all_identities c =
     io_bind (io_get ag_passphrase) (\<lambda>passphrase.
     io_seq
       (case aes_new passphrase of
          Ok cipher \<Rightarrow>
            io_bind (in_world (io_attempt (save_ssh_keys_to_file c cipher []))) (\<lambda>_. io_ret ())
        | _ \<Rightarrow> io_ret ())
       (io_upd (\<lambda>s. s\<lparr>ag_keys := []\<rparr>)))"

section \<open>Locking and unlocking\<close>

definition lock :: "crates \<Rightarrow> string \<Rightarrow> unit aio" where
  "lock c passphrase =
     io_bind (io_get ag_locked) (\<lambda>locked.
     if locked then io_fail AgentFailure
     else
       io_seq (io_upd (\<lambda>s. s\<lparr>ag_locked := True\<rparr>)) (
       io_seq (io_upd (\<lambda>s. s\<lparr>ag_lock_passphrase := Some (hash_lock_passphrase c passphrase)\<rparr>)) (
       io_seq (io_upd (\<lambda>s. s\<lparr>ag_keys := []\<rparr>))
         (io_upd (\<lambda>s. s\<lparr>ag_auth_cache := cache_clear (ag_auth_cache s)\<rparr>)))))"

definition unlock :: "crates \<Rightarrow> string \<Rightarrow> unit aio" where
  "unlock c passphrase =
     io_bind (io_get ag_locked) (\<lambda>locked.
     if \<not> locked then io_fail AgentFailure
     else
       let candidate = hash_lock_passphrase c passphrase in
       io_bind (io_get ag_lock_passphrase) (\<lambda>lp.
       let matches = (case lp of Some saved_hash \<Rightarrow> saved_hash = candidate | None \<Rightarrow> False) in
       if \<not> matches then io_fail AgentFailure
       else
         io_seq (io_upd (\<lambda>s. s\<lparr>ag_locked := False\<rparr>)) (
         io_seq (io_upd (\<lambda>s. s\<lparr>ag_lock_passphrase := None\<rparr>)) (
         io_bind (io_get ag_passphrase) (\<lambda>key.
         io_bind (io_attempt (in_world (load_all_keys c key))) (\<lambda>r.
         case r of
           Inr loaded \<Rightarrow> io_upd (\<lambda>s. s\<lparr>ag_keys := loaded\<rparr>)
         | Inl _ \<Rightarrow> io_ret ()))))))"

end
