(* ===== verification/Vt_Consent.thy ===== *)
theory Vt_Consent
  imports Vt_Agent
begin

text \<open>
  What a single request to the agent can do: nothing is signed or decrypted without a touch or a live
  grant, an \<open>auth@vt\<close> always needs a touch, a wrong transport key gets nothing, and a locked agent
  refuses.
\<close>

section \<open>Operations on the world\<close>

lemma in_world_eq:
  "in_world m s = (r, t) \<longleftrightarrow> (\<exists>w. m (ag_world s) = (r, w) \<and> t = s\<lparr>ag_world := w\<rparr>)"
  by (auto simp: in_world_def split: prod.splits)

lemma in_world_eval [io_simps]: "m (ag_world s) = (r, w) \<Longrightarrow> in_world m s = (r, s\<lparr>ag_world := w\<rparr>)"
  by (simp add: in_world_def)

lemma within_in_world:
  "within R' m \<Longrightarrow> (\<And>s w. R' (ag_world s) w \<Longrightarrow> R s (s\<lparr>ag_world := w\<rparr>)) \<Longrightarrow> within R (in_world m)"
  by (auto simp: within_def in_world_def split: prod.splits) (metis snd_conv)

section \<open>Frames of the agent\<close>

text \<open>What no request changes: the secrets, the PIN, the mode, the oracles of the world.\<close>

definition same_config :: "agent \<Rightarrow> agent \<Rightarrow> bool" where
  "same_config s t \<longleftrightarrow> ag_passphrase t = ag_passphrase s \<and> ag_auth_token t = ag_auth_token s
     \<and> ag_pin t = ag_pin s \<and> ag_cache_mode t = ag_cache_mode s \<and> same_env (ag_world s) (ag_world t)"

text \<open>The lock is as it was.\<close>

definition same_lock :: "agent \<Rightarrow> agent \<Rightarrow> bool" where
  "same_lock s t \<longleftrightarrow> ag_locked t = ag_locked s \<and> ag_lock_passphrase t = ag_lock_passphrase s"

text \<open>The device was not used and no grant was made.\<close>

definition no_consent :: "agent \<Rightarrow> agent \<Rightarrow> bool" where
  "no_consent s t \<longleftrightarrow> ag_auth_cache t = ag_auth_cache s \<and> same_device (ag_world s) (ag_world t)"

text \<open>The keys in memory are as they were.\<close>

definition same_keys :: "agent \<Rightarrow> agent \<Rightarrow> bool" where
  "same_keys s t \<longleftrightarrow> ag_keys t = ag_keys s"

interpretation config: frame_rel same_config
  by unfold_locales (auto simp: same_config_def intro: env.frame_refl env.frame_trans)

interpretation lockf: frame_rel same_lock
  by unfold_locales (auto simp: same_lock_def)

interpretation noconsent: frame_rel no_consent
  by unfold_locales (auto simp: no_consent_def intro: nodev.frame_refl nodev.frame_trans)

interpretation samekeys: frame_rel same_keys
  by unfold_locales (auto simp: same_keys_def)

lemmas config_frame [frame_intros] = config.all
lemmas lockf_frame [frame_intros] = lockf.all
lemmas noconsent_frame [frame_intros] = noconsent.all
lemmas samekeys_frame [frame_intros] = samekeys.all

lemma in_world_frames [frame_intros]:
  "within same_env m \<Longrightarrow> within same_config (in_world m)"
  "within same_lock (in_world m)"
  "within same_device m \<Longrightarrow> within no_consent (in_world m)"
  "within same_keys (in_world m)"
  by (auto simp: within_def in_world_def same_config_def same_lock_def no_consent_def same_keys_def
      split: prod.splits) (metis snd_conv)+

lemma load_all_keys_frames [frame_intros]:
  "within same_env (load_all_keys c p)"
  "within same_device (load_all_keys c p)"
  unfolding load_all_keys_def by (intro frame_intros)+

lemma upd_frames [frame_intros]:
  "within same_config (io_upd (\<lambda>s. s\<lparr>ag_keys := f1 s\<rparr>))"
  "within same_config (io_upd (\<lambda>s. s\<lparr>ag_idle_cleared := f2 s\<rparr>))"
  "within same_config (io_upd (\<lambda>s. s\<lparr>ag_last_activity := f3 s\<rparr>))"
  "within same_config (io_upd (\<lambda>s. s\<lparr>ag_auth_cache := f4 s\<rparr>))"
  "within same_config (io_upd (\<lambda>s. s\<lparr>ag_locked := f5 s\<rparr>))"
  "within same_config (io_upd (\<lambda>s. s\<lparr>ag_lock_passphrase := f6 s\<rparr>))"
  "within same_lock (io_upd (\<lambda>s. s\<lparr>ag_keys := f1 s\<rparr>))"
  "within same_lock (io_upd (\<lambda>s. s\<lparr>ag_idle_cleared := f2 s\<rparr>))"
  "within same_lock (io_upd (\<lambda>s. s\<lparr>ag_last_activity := f3 s\<rparr>))"
  "within same_lock (io_upd (\<lambda>s. s\<lparr>ag_auth_cache := f4 s\<rparr>))"
  "within no_consent (io_upd (\<lambda>s. s\<lparr>ag_keys := f1 s\<rparr>))"
  "within no_consent (io_upd (\<lambda>s. s\<lparr>ag_idle_cleared := f2 s\<rparr>))"
  "within no_consent (io_upd (\<lambda>s. s\<lparr>ag_last_activity := f3 s\<rparr>))"
  "within same_keys (io_upd (\<lambda>s. s\<lparr>ag_last_activity := f3 s\<rparr>))"
  "within same_keys (io_upd (\<lambda>s. s\<lparr>ag_auth_cache := f4 s\<rparr>))"
  by (simp_all add: within_def same_config_def same_lock_def no_consent_def same_keys_def
      env.frame_refl nodev.frame_refl)

lemma ensure_frames [frame_intros]:
  "within same_config (ensure_keys_loaded c)"
  "within same_lock (ensure_keys_loaded c)"
  "within no_consent (ensure_keys_loaded c)"
  unfolding ensure_keys_loaded_def by (intro frame_intros)+

lemma touch_frames [frame_intros]:
  "within same_config touch_activity"
  "within same_lock touch_activity"
  "within no_consent touch_activity"
  "within same_keys touch_activity"
  unfolding touch_activity_def by (intro frame_intros)+

lemma check_frames [frame_intros]:
  "within same_config (check_or_prompt_auth c p fp m b)"
  "within same_lock (check_or_prompt_auth c p fp m b)"
  "within same_keys (check_or_prompt_auth c p fp m b)"
  unfolding check_or_prompt_auth_def verify_yubikey_presence_def cache_grant_def
  by (intro frame_intros)+

lemma verify_frames [frame_intros]:
  "within same_config (verify_yubikey_presence c m)"
  "within same_lock (verify_yubikey_presence c m)"
  "within same_keys (verify_yubikey_presence c m)"
  unfolding verify_yubikey_presence_def by (intro frame_intros)+

lemma do_encrypt_frames [frame_intros]:
  "within same_env (do_encrypt c a items)"
  "within same_files (do_encrypt c a items)"
  "within same_device (do_encrypt c a items)"
  unfolding do_encrypt_def encrypt_item_one_def by (intro frame_intros)+

lemma handler_frames [frame_intros]:
  "within same_config (handle_encrypt c p cl d)"
  "within same_lock (handle_encrypt c p cl d)"
  "within same_keys (handle_encrypt c p cl d)"
  "within no_consent (handle_encrypt c p cl d)"
  "within same_config (handle_decrypt c p cl d)"
  "within same_lock (handle_decrypt c p cl d)"
  "within same_keys (handle_decrypt c p cl d)"
  "within same_config (handle_auth c p cl d)"
  "within same_lock (handle_auth c p cl d)"
  "within same_keys (handle_auth c p cl d)"
  unfolding handle_encrypt_def handle_decrypt_def handle_auth_def
  by (intro frame_intros)+

section \<open>Consent\<close>

text \<open>
  A live grant for this caller and key in \<open>s\<close>, or a touch between \<open>s\<close> and \<open>t\<close>: the device was opened,
  accepted the PIN and performed the touched ECDH.
\<close>

definition cached_grant :: "agent \<Rightarrow> i32 option \<Rightarrow> string \<Rightarrow> bool" where
  "cached_grant s peer_pid fp \<longleftrightarrow>
     (\<exists>ctx. context_id (ag_cache_mode s) peer_pid (ag_world s) = Some ctx
        \<and> is_authorized (agent_now s) (ag_auth_cache s) ctx fp)"

definition touched :: "agent \<Rightarrow> agent \<Rightarrow> bool" where
  "touched s t \<longleftrightarrow>
     yk_log (ag_world t) = yk_log (ag_world s) @ [YkOpen True, YkPin True, YkEcdh True]"

lemma verify_presence_True:
  assumes "verify_yubikey_presence c m s = (Ok True, t)"
  shows "touched s t \<and> ag_auth_cache t = ag_auth_cache s"
proof -
  obtain r w where run: "verify_presence_with_pin c (ag_pin s) m (ag_world s) = (r, w)" by fastforce
  with assms have "r = Ok True" "t = s\<lparr>ag_world := w\<rparr>"
    by (cases r; auto simp: verify_yubikey_presence_def io_or_def in_world_def)+
  with presence_outcomes [OF run] show ?thesis by (simp add: touched_def)
qed

lemma check_approved:
  assumes "check_or_prompt_auth c peer_pid fp m b s = (Ok True, t)"
  shows "(cached_grant s peer_pid fp \<and> t = s) \<or> touched s t"
proof (cases "context_id (ag_cache_mode s) peer_pid (ag_world s)")
  case None
  with assms show ?thesis
    by (auto simp: check_or_prompt_auth_def dest: verify_presence_True)
next
  case (Some ctx)
  show ?thesis
  proof (cases "is_authorized (agent_now s) (ag_auth_cache s) ctx fp")
    case True
    with assms Some show ?thesis
      by (auto simp: check_or_prompt_auth_def cached_grant_def)
  next
    case False
    with assms Some obtain u where u: "verify_yubikey_presence c m s = (Ok True, u)"
      and t: "cache_grant ctx fp b u = (Ok (), t)"
      by (auto simp: check_or_prompt_auth_def io_bind_eq_Ok split: if_splits)
    from t have "ag_world t = ag_world u"
      by (auto simp: cache_grant_def io_bind_eq_Ok)
    with verify_presence_True [OF u] show ?thesis by (simp add: touched_def)
  qed
qed

lemma context_id_cong:
  assumes "same_config s t"
  shows "context_id m p (ag_world t) = context_id m p (ag_world s)"
proof -
  have "get_proc_bsdinfo (ag_world t) = get_proc_bsdinfo (ag_world s)"
    "get_proc_path (ag_world t) = get_proc_path (ag_world s)"
    using assms by (auto simp: same_config_def same_env_def get_proc_bsdinfo_def get_proc_path_def fun_eq_iff)
  then have anc: "ancestors (ag_world t) n x = ancestors (ag_world s) n x"
    "is_app (ag_world t) = is_app (ag_world s)" "get_tty_dev (ag_world t) = get_tty_dev (ag_world s)" for n x
    by (induction "ag_world s" n x rule: ancestors.induct)
      (auto simp: is_app_def get_tty_dev_def fun_eq_iff split: option.splits)
  then have "find_app_pid (ag_world t) = find_app_pid (ag_world s)"
    using \<open>get_proc_bsdinfo (ag_world t) = get_proc_bsdinfo (ag_world s)\<close>
    by (intro ext) (simp add: find_app_pid_def find_app_loop_ancestors cong: option.case_cong)
  with anc(3) show ?thesis
    by (cases m) (simp_all add: context_id_def)
qed

lemma cached_grant_cong:
  assumes "no_consent s t" and "same_config s t"
  shows "cached_grant t p fp = cached_grant s p fp"
  using assms context_id_cong [OF assms(2)]
  by (simp add: cached_grant_def no_consent_def same_config_def same_device_def agent_now_def)

lemma touched_cong:
  "no_consent s s' \<Longrightarrow> touched s' t' \<Longrightarrow> no_consent t' t \<Longrightarrow> touched s t"
  by (simp add: touched_def no_consent_def same_device_def)

section \<open>Signing\<close>

lemma sign_op_OkE:
  assumes "sign_op c p req s = (Ok sg, t)"
  obtains u v k lbl msg ok where "\<not> ag_locked s" and "no_consent s u" and "same_config s u"
    and "map_of (ag_keys u) (fingerprint_str c (sr_pubkey req)) = Some k"
    and "check_or_prompt_auth c p (fingerprint_str c (sr_pubkey req)) msg False u = (Ok True, v)"
    and "ag_keys t = ag_keys u" and "no_consent v t"
    and "sign_with_key c k (sr_data req) = Ok sg"
proof -
  let ?fp = "fingerprint_str c (sr_pubkey req)"
  from assms obtain u0 u k msg name cl lbl ok v where l: "\<not> ag_locked s"
    and u0: "ensure_keys_loaded c s = (Ok (), u0)" and u: "touch_activity u0 = (Ok (), u)"
    and k: "map_of (ag_keys u) ?fp = Some k"
    and v: "check_or_prompt_auth c p ?fp msg False u = (Ok ok, v)"
    and t: "in_world (log_sign c p name cl lbl ?fp ok) v = (Ok (), t)" and ok: "ok"
    and sg: "sign_with_key c k (sr_data req) = Ok sg"
    by (auto simp: sign_op_def sign_unlocked_def io_bind_eq_Ok Let_def split: if_splits option.splits)
  have "no_consent s u" "same_config s u"
    using withinD [OF ensure_frames(3) u0] withinD [OF touch_frames(3) u]
      withinD [OF ensure_frames(1) u0] withinD [OF touch_frames(1) u]
    by (blast intro: noconsent.frame_trans config.frame_trans)+
  moreover have "ag_keys t = ag_keys u" "no_consent v t"
    using withinD [OF check_frames(3) v] withinD [OF in_world_frames(4) t]
      withinD [OF in_world_frames(3) [OF log_device(4)] t]
    by (simp_all add: same_keys_def)
  ultimately show thesis using that l k v sg ok by simp
qed

lemma sign_consent:
  assumes "sign_op c p req s = (Ok sg, t)"
  shows "\<not> ag_locked s \<and>
    (cached_grant s p (fingerprint_str c (sr_pubkey req)) \<or> touched s t) \<and>
    (\<exists>k. map_of (ag_keys t) (fingerprint_str c (sr_pubkey req)) = Some k \<and>
         sign_with_key c k (sr_data req) = Ok sg)"
proof -
  obtain u v k msg where l: "\<not> ag_locked s" and u: "no_consent s u" "same_config s u"
    and k: "map_of (ag_keys u) (fingerprint_str c (sr_pubkey req)) = Some k" "ag_keys t = ag_keys u"
    and v: "check_or_prompt_auth c p (fingerprint_str c (sr_pubkey req)) msg False u = (Ok True, v)"
    and t: "no_consent v t" and sg: "sign_with_key c k (sr_data req) = Ok sg"
    using assms by (rule sign_op_OkE)
  from check_approved [OF v] show ?thesis
    using l k sg cached_grant_cong [OF u] touched_cong [OF u(1) _ t] by auto
qed

text \<open>
  The agent returns a signature only if it is unlocked, it holds the requested key, and the user
  consented: either the caller's context had a live grant for this very key when the request came, or the
  YubiKey was opened, accepted the PIN and was touched while the request ran.  The signature is the one of
  the requested key over the requested data.
\<close>

theorem sign_needs_consent:
  assumes "sign_op c p req s = (Ok sg, t)"
  shows "\<not> ag_locked s \<and>
    (cached_grant s p (fingerprint_str c (sr_pubkey req)) \<or> touched s t) \<and>
    (\<exists>k. map_of (ag_keys t) (fingerprint_str c (sr_pubkey req)) = Some k \<and>
         sign_with_key c k (sr_data req) = Ok sg)"
  by (rule sign_consent [OF assms])

text \<open>The law of the signing crates: both halves have a fixed width, far below the 32-bit limit.\<close>

definition ecdsa_ok :: "crates \<Rightarrow> bool" where
  "ecdsa_ok c \<longleftrightarrow> (\<forall>cv k d r s. ecdsa_sign c cv k d = Inr (r, s) \<longrightarrow> length r \<le> 66 \<and> length s \<le> 66)"

text \<open>
  Signing with a stored key either fails or yields a blob that an SSH peer reads back as the
  pair \<open>(r, s)\<close> the ECDSA crate computed with that key, under the algorithm name of the key's curve; keys that
  are not ECDSA on P-256 or P-384 never sign.
\<close>

theorem sign_with_key_blob:
  assumes "ecdsa_ok c" and "sign_with_key c k data = Ok sg"
  shows "\<exists>cv priv pub r s. pk_key_data k = Ecdsa cv priv pub \<and>
    ecdsa_sign c cv priv data = Inr (r, s) \<and>
    read_sig_blob (sg_blob sg) = Some (int (be_value r), int (be_value s)) \<and>
    (cv = NistP256 \<and> sg_algorithm sg = ''ecdsa-sha2-nistp256'' \<or>
     cv = NistP384 \<and> sg_algorithm sg = ''ecdsa-sha2-nistp384'')"
proof -
  from assms(2) obtain cv priv pub r s alg where k: "pk_key_data k = Ecdsa cv priv pub"
    and alg: "curve_algorithm cv = Some alg" and rs: "ecdsa_sign c cv priv data = Inr (r, s)"
    and sg: "sg = \<lparr>sg_algorithm = alg, sg_blob = encode_ecdsa_sig_blob r s\<rparr>"
    by (auto simp: sign_with_key_def oc_bind_eq_Ok Let_def split: keypair.splits option.splits)
  have "length r \<le> 66" "length s \<le> 66"
    using assms(1) rs by (auto simp: ecdsa_ok_def)
  then have "read_sig_blob (sg_blob sg) = Some (int (be_value r), int (be_value s))"
    using read_blob [of r s] by (simp add: sg)
  with k alg rs sg show ?thesis by (cases cv) auto
qed

section \<open>Extensions\<close>

lemma extension_OkE:
  assumes "extension_op c p ext s = (Ok (Some resp), t)"
  obtains a plain cl bs u v where "\<not> ag_locked s" and "aes_new (ag_auth_token s) = Ok a"
    and "aes_decrypt c a (ex_details ext) = Ok plain"
    and "u = s\<lparr>ag_last_activity := agent_now s\<rparr>" and "cl = peer_caller p (ag_world s)"
    and "(if ex_name ext = ''encrypt@vt'' then handle_encrypt c p cl plain
          else if ex_name ext = ''decrypt@vt'' then handle_decrypt c p cl plain
          else handle_auth c p cl plain) u = (Ok bs, v)"
    and "ex_name ext \<in> {''encrypt@vt'', ''decrypt@vt'', ''auth@vt''}" and "ex_name resp = ex_name ext"
    and "aes_encrypt c a bs (ag_world v) = (Ok (ex_details resp), ag_world t)"
    and "t = v\<lparr>ag_world := ag_world t\<rparr>"
proof -
  let ?u = "s\<lparr>ag_last_activity := agent_now s\<rparr>"
  let ?h = "\<lambda>plain. if ex_name ext = ''encrypt@vt'' then handle_encrypt c p (peer_caller p (ag_world s)) plain
      else if ex_name ext = ''decrypt@vt'' then handle_decrypt c p (peer_caller p (ag_world s)) plain
      else handle_auth c p (peer_caller p (ag_world s)) plain"
  from assms have l: "\<not> ag_locked s"
    and n: "ex_name ext \<in> {''encrypt@vt'', ''decrypt@vt'', ''auth@vt''}"
    by (auto simp: extension_op_def extension_unlocked_def split: if_splits)
  with assms obtain a plain bs v x where "aes_new (ag_auth_token s) = Ok a"
    and "aes_decrypt c a (ex_details ext) = Ok plain" and h: "?h plain ?u = (Ok bs, v)"
    and x: "in_world (aes_encrypt c a bs) v = (Ok x, t)"
    and r: "resp = \<lparr>ex_name = ex_name ext, ex_details = x\<rparr>"
    unfolding extension_op_def extension_unlocked_def touch_activity_def
    by (auto simp: io_bind_eq_Ok simp del: insert_iff cong: if_cong)
  then show thesis
    by (intro that [OF l _ _ refl refl h n]) (auto simp: in_world_eq)
qed

lemma aes_decrypt_response:
  assumes "aead_ok c" and "aes_new k = Ok a" and "aes_encrypt c a bs w = (Ok ct, v)"
  shows "aes_decrypt c (AesGcmCrypto k) ct = Ok bs"
  using aes.unseal_seal [OF assms(1,3)] assms(2) by (simp add: aes_new_eq_Ok)

lemma last_activity_frames:
  "no_consent s (s\<lparr>ag_last_activity := x\<rparr>)" "same_config s (s\<lparr>ag_last_activity := x\<rparr>)"
  by (simp_all add: no_consent_def same_config_def env.frame_refl nodev.frame_refl)

lemma decrypt_consent:
  assumes "aead_ok c" and "extension_op c p ext s = (Ok (Some resp), t)"
    and "ex_name ext = ''decrypt@vt''"
  shows "\<not> ag_locked s \<and> (cached_grant s p ''decrypt@vt'' \<or> touched s t) \<and>
    (\<exists>plain req rs bs.
      aes_decrypt c (AesGcmCrypto (ag_auth_token s)) (ex_details ext) = Ok plain \<and>
      de (js_decrypt_req c) plain = Inr req \<and>
      do_decrypt c (AesGcmCrypto (ag_passphrase s)) (unix_time (ag_world s)) (dr_items req) = Ok rs \<and>
      ser (js_results c) rs = Inr bs \<and>
      aes_decrypt c (AesGcmCrypto (ag_auth_token s)) (ex_details resp) = Ok bs)"
proof -
  obtain a plain cl bs u v where l: "\<not> ag_locked s" and a: "aes_new (ag_auth_token s) = Ok a"
    and plain: "aes_decrypt c a (ex_details ext) = Ok plain"
    and u: "u = s\<lparr>ag_last_activity := agent_now s\<rparr>" and h: "handle_decrypt c p cl plain u = (Ok bs, v)"
    and enc: "aes_encrypt c a bs (ag_world v) = (Ok (ex_details resp), ag_world t)"
    using assms(2) by (rule extension_OkE) (simp add: assms(3))
  have su: "no_consent s u" "same_config s u" unfolding u by (rule last_activity_frames)+
  from h obtain req v1 v2 m rs where req: "de (js_decrypt_req c) plain = Inr req"
    and chk: "check_or_prompt_auth c p ''decrypt@vt'' (format_decrypt_prompt req cl) True u = (Ok True, v1)"
    and lg: "in_world (log_decrypt c p cl req True) v1 = (Ok (), v2)"
    and m: "aes_new (ag_passphrase v2) = Ok m"
    and rs: "do_decrypt c m (unix_time (ag_world v2)) (dr_items req) = Ok rs"
    and bs: "ser (js_results c) rs = Inr bs" and v: "v = v2"
    by (auto simp: handle_decrypt_def io_bind_eq_Ok split: if_splits)
  have c2: "same_config s v2"
    using su(2) withinD [OF check_frames(1) chk] withinD [OF in_world_frames(1) [OF log_env(1)] lg]
    by (blast intro: config.frame_trans)
  have nt: "no_consent v1 v2" by (rule withinD [OF in_world_frames(3) [OF log_device(1)] lg])
  have "yk_log (ag_world t) = yk_log (ag_world v2)"
    using withinD [OF aes_frames(3) enc] v by (simp add: same_device_def)
  then have "cached_grant s p ''decrypt@vt'' \<or> touched s t"
    using check_approved [OF chk] cached_grant_cong [OF su] su(1) nt
    by (auto simp: touched_def no_consent_def same_device_def)
  moreover have "m = AesGcmCrypto (ag_passphrase s)" "unix_time (ag_world v2) = unix_time (ag_world s)"
    using m c2 by (auto simp: aes_new_eq_Ok same_config_def same_env_def)
  moreover have "a = AesGcmCrypto (ag_auth_token s)" using a by (simp add: aes_new_eq_Ok)
  ultimately show ?thesis
    using l plain req rs bs aes_decrypt_response [OF assms(1) a enc] by auto
qed

text \<open>
  C3. A \<open>decrypt@vt\<close> request is answered only by an unlocked agent, for a request sealed under the
  transport key, and with the user's consent (a live grant for decryption in the caller's context, or a
  touch); the answer, opened with the transport key, is the serialised result of \<open>do_decrypt\<close> on
  the items of the request under the master passphrase.
\<close>

theorem decrypt_extension_needs_consent:
  assumes "aead_ok c" and "extension_op c p ext s = (Ok (Some resp), t)"
    and "ex_name ext = ''decrypt@vt''"
  shows "\<not> ag_locked s \<and> (cached_grant s p ''decrypt@vt'' \<or> touched s t) \<and>
    (\<exists>plain req rs bs.
      aes_decrypt c (AesGcmCrypto (ag_auth_token s)) (ex_details ext) = Ok plain \<and>
      de (js_decrypt_req c) plain = Inr req \<and>
      do_decrypt c (AesGcmCrypto (ag_passphrase s)) (unix_time (ag_world s)) (dr_items req) = Ok rs \<and>
      ser (js_results c) rs = Inr bs \<and>
      aes_decrypt c (AesGcmCrypto (ag_auth_token s)) (ex_details resp) = Ok bs)"
  by (rule decrypt_consent [OF assms])

lemma auth_consent:
  assumes "extension_op c p ext s = (Ok (Some resp), t)" and "ex_name ext = ''auth@vt''"
  shows "\<not> ag_locked s \<and> touched s t \<and> ag_auth_cache t = ag_auth_cache s"
proof -
  obtain a plain cl bs u v where l: "\<not> ag_locked s"
    and u: "u = s\<lparr>ag_last_activity := agent_now s\<rparr>" and h: "handle_auth c p cl plain u = (Ok bs, v)"
    and enc: "aes_encrypt c a bs (ag_world v) = (Ok (ex_details resp), ag_world t)"
    and t: "t = v\<lparr>ag_world := ag_world t\<rparr>"
    using assms(1) by (rule extension_OkE) (simp add: assms(2))
  from h obtain req v1 where v1: "verify_yubikey_presence c (format_auth_prompt req cl) u = (Ok True, v1)"
    and lg: "in_world (log_auth c p cl req True) v1 = (Ok (), v)"
    by (auto simp: handle_auth_def io_bind_eq_Ok split: if_splits)
  have nt: "no_consent v1 v" by (rule withinD [OF in_world_frames(3) [OF log_device(3)] lg])
  have dv: "yk_log (ag_world t) = yk_log (ag_world v)"
    using withinD [OF aes_frames(3) enc] by (simp add: same_device_def)
  have cv: "ag_auth_cache t = ag_auth_cache v" by (subst t) simp
  from verify_presence_True [OF v1] nt dv cv l show ?thesis
    by (auto simp: u touched_def no_consent_def same_device_def)
qed

text \<open>
  An \<open>auth@vt\<close> request is granted only with a touch during the request, whatever the cache holds,
  and it leaves the cache as it was: confirming one action never authorises a later one.
\<close>

theorem auth_extension_touched:
  assumes "extension_op c p ext s = (Ok (Some resp), t)" and "ex_name ext = ''auth@vt''"
  shows "\<not> ag_locked s \<and> touched s t \<and> ag_auth_cache t = ag_auth_cache s"
  by (rule auth_consent [OF assms])

text \<open>
  A client without the transport key gets nothing from an unlocked agent: a request that does not open
  under it is refused before it is parsed, before the device is used and before anything is logged; all
  it does is count as activity, which postpones the idle timeout.
\<close>

theorem extension_wrong_key:
  assumes "\<not> ag_locked s" and "length (ag_auth_token s) = 32"
    and "ex_name ext \<in> {''encrypt@vt'', ''decrypt@vt'', ''auth@vt''}"
    and "\<forall>plain. aes_decrypt c (AesGcmCrypto (ag_auth_token s)) (ex_details ext) \<noteq> Ok plain"
  shows "extension_op c p ext s = (Err AgentFailure, s\<lparr>ag_last_activity := agent_now s\<rparr>)"
proof -
  obtain e where "aes_decrypt c (AesGcmCrypto (ag_auth_token s)) (ex_details ext) = Err e"
    using assms(4) aes_decrypt_no_panic by (metis outcome.exhaust)
  with assms(1,2,3) show ?thesis
    by (simp add: extension_op_def extension_unlocked_def touch_activity_def aes_new_32 io_bind_def io_map_err_def)
qed

section \<open>The lock\<close>

text \<open>
  A locked agent refuses to sign, to serve any extension and to take a key, and it lists no
  identities; none of these requests changes anything.
\<close>

theorem locked_agent_refuses:
  assumes "ag_locked s"
  shows "sign_op c p req s = (Err AgentFailure, s) \<and> extension_op c p ext s = (Err AgentFailure, s) \<and>
    add_identity c cred s = (Err AgentFailure, s) \<and> lock c pass s = (Err AgentFailure, s) \<and>
    request_identities c s = (Ok [], s)"
  using assms
  by (simp add: sign_op_def extension_op_def add_identity_def lock_def request_identities_def)

lemma load_all_keys_state: "load_all_keys c p w = (r, v) \<Longrightarrow> v = w"
  by (cases "aes_new p")
    (auto simp: load_all_keys_def io_bind_def dest: load_ssh_keys_state split: prod.splits outcome.splits)

lemma load_all_keys_no_panic: "load_all_keys c p w \<noteq> (Panic m, v)"
proof -
  have "load_ssh_keys_from_file c a w \<noteq> (Panic m', v')" for a m' v'
    using ssh_store.load_no_panic [of c a w m'] by (metis fst_conv)
  then show ?thesis
    by (auto simp: load_all_keys_def io_bind_def aes_new_def ensure_def
        split: prod.splits outcome.splits if_splits)
qed

lemma load_attempt:
  obtains r where "io_attempt (in_world (load_all_keys c p)) s = (Ok r, s)"
    and "r = (case fst (load_all_keys c p (ag_world s)) of
      Ok ks \<Rightarrow> Inr ks | Err e \<Rightarrow> Inl e | Panic m \<Rightarrow> Inl AgentFailure)"
proof -
  obtain r w where run: "load_all_keys c p (ag_world s) = (r, w)" by fastforce
  then have "w = ag_world s" by (rule load_all_keys_state)
  with run that show thesis
    using load_all_keys_no_panic [of c p "ag_world s"]
    by (cases r) (auto simp: io_attempt_def in_world_def)
qed

text \<open>What unlocking does, by whether the hash matches.\<close>

lemma unlock_eval:
  assumes "ag_locked s"
  shows "unlock c q s =
    (if ag_lock_passphrase s = Some (hash_lock_passphrase c q)
     then (Ok (), s\<lparr>ag_locked := False, ag_lock_passphrase := None,
             ag_keys := (case fst (load_all_keys c (ag_passphrase s) (ag_world s)) of
                Ok ks \<Rightarrow> ks | _ \<Rightarrow> ag_keys s)\<rparr>)
     else (Err AgentFailure, s))"
proof (cases "ag_lock_passphrase s = Some (hash_lock_passphrase c q)")
  case False
  with assms show ?thesis by (auto simp: unlock_def Let_def split: option.splits)
next
  case True
  let ?s = "s\<lparr>ag_locked := False, ag_lock_passphrase := None\<rparr>"
  obtain r where "io_attempt (in_world (load_all_keys c (ag_passphrase s))) ?s = (Ok r, ?s)"
    and r: "r = (case fst (load_all_keys c (ag_passphrase s) (ag_world s)) of
      Ok ks \<Rightarrow> Inr ks | Err e \<Rightarrow> Inl e | Panic m \<Rightarrow> Inl AgentFailure)"
    using load_attempt [of c "ag_passphrase s" ?s] by auto
  with True assms show ?thesis
    by (simp add: unlock_def Let_def io_bind_def split: outcome.splits)
qed

text \<open>
  A locked agent is unlocked exactly by a passphrase with the stored hash; a wrong one changes
  nothing.  Unlocking forgets the hash and reloads the stored keys if they can be loaded; the
  grants made before the lock are not restored.
\<close>

theorem unlock_iff_hash:
  assumes "lock c pw s = (Ok (), u)"
  shows "ag_locked u \<and> ag_keys u = [] \<and> ac_entries (ag_auth_cache u) = Map.empty \<and>
    (if hash_lock_passphrase c q = hash_lock_passphrase c pw
     then \<exists>v. unlock c q u = (Ok (), v) \<and> \<not> ag_locked v \<and> ag_lock_passphrase v = None \<and>
       ac_entries (ag_auth_cache v) = Map.empty \<and>
       ag_keys v = (case fst (load_all_keys c (ag_passphrase s) (ag_world s)) of Ok ks \<Rightarrow> ks | _ \<Rightarrow> [])
     else unlock c q u = (Err AgentFailure, u))"
proof -
  have u: "u = s\<lparr>ag_locked := True, ag_lock_passphrase := Some (hash_lock_passphrase c pw), ag_keys := [],
      ag_auth_cache := cache_clear (ag_auth_cache s)\<rparr>"
    using assms by (auto simp: lock_def split: if_splits)
  have lu: "ag_locked u" by (simp add: u)
  show ?thesis
    by (simp add: unlock_eval [OF lu]) (simp add: u cache_clear_def split: outcome.splits)
qed

section \<open>A concrete agent\<close>

definition demo_key :: private_key where
  "demo_key = \<lparr>pk_key_data = Ecdsa NistP256 [1] [7], pk_comment = ''k''\<rparr>"

definition demo_agent :: agent where
  "demo_agent = agent_new [(fingerprint_str demo_crates [7], demo_key)] CacheNone 300 60
     (replicate 32 1) (replicate 32 2) ''1234'' demo_world"

lemma demo_agent_sel [simp]:
  "ag_keys demo_agent = [(fingerprint_str demo_crates [7], demo_key)]"
  "ag_locked demo_agent = False" "ag_cache_mode demo_agent = CacheNone"
  "ag_passphrase demo_agent = replicate 32 1" "ag_auth_token demo_agent = replicate 32 2"
  "ag_pin demo_agent = ''1234''" "ag_world demo_agent = demo_world"
  "ag_auth_cache demo_agent = auth_cache_new 300 60" "ag_lock_passphrase demo_agent = None"
  by (simp_all add: demo_agent_def agent_new_def)

text \<open>The demonstration device is always there, takes any PIN and is always touched.\<close>

lemma demo_presence:
  assumes "dev w = demo_device"
  shows "\<exists>v. verify_presence_with_pin demo_crates pin m w = (Ok True, v) \<and> same_env w v \<and> files v = files w
    \<and> osrng v = osrng w"
proof -
  obtain r v where run: "verify_presence_with_pin demo_crates pin m w = (r, v)" by fastforce
  with assms have "r = Ok True"
    by (simp add: verify_presence_with_pin_def open_with_pin_def notify_touch_def yk_prim_defs
        dev_call_def ephemeral_secret_def io_eval_defs)
  with run withinD [OF presence_frames(1) run] withinD [OF presence_frames(2) run] show ?thesis
    by (auto simp: same_env_def same_files_def)
qed

lemma demo_check:
  assumes "dev (ag_world s) = demo_device" and "ag_cache_mode s = CacheNone"
  shows "\<exists>t. check_or_prompt_auth demo_crates p fp m b s = (Ok True, t)"
proof -
  obtain v where "verify_presence_with_pin demo_crates (ag_pin s) m (ag_world s) = (Ok True, v)"
    using demo_presence [OF assms(1)] by blast
  with assms(2) show ?thesis
    by (simp add: check_or_prompt_auth_def context_id_def verify_yubikey_presence_def io_or_def in_world_def)
qed

lemma log_run:
  "\<exists>v. in_world (log_sign c p exe cl lbl fp ok) s = (Ok (), s\<lparr>ag_world := v\<rparr>)"
  "\<exists>v. in_world (log_decrypt c p cl req ok) s = (Ok (), s\<lparr>ag_world := v\<rparr>)"
  "\<exists>v. in_world (log_auth c p cl areq ok) s = (Ok (), s\<lparr>ag_world := v\<rparr>)"
  using log_Ok(1) [of c p cl req ok "ag_world s"] log_Ok(3) [of c p cl areq ok "ag_world s"]
    log_Ok(4) [of c p exe cl lbl fp ok "ag_world s"]
  by (auto simp: in_world_def split: prod.splits)

definition demo_sign_request :: sign_request where
  "demo_sign_request = \<lparr>sr_pubkey = [7], sr_data = [9]\<rparr>"

lemma demo_sign:
  "\<exists>t. sign_op demo_crates None demo_sign_request demo_agent =
    (Ok \<lparr>sg_algorithm = ''ecdsa-sha2-nistp256'', sg_blob = encode_ecdsa_sig_blob [1, 2] [128, 3]\<rparr>, t)"
proof -
  let ?u = "demo_agent\<lparr>ag_last_activity := agent_now demo_agent\<rparr>"
  obtain v where v: "check_or_prompt_auth demo_crates None (fingerprint_str demo_crates [7])
      (sign_message ''k'' []) False ?u = (Ok True, v)"
    using demo_check [of ?u] by fastforce
  obtain x where "in_world (log_sign demo_crates None [] [] ''k'' (fingerprint_str demo_crates [7]) True) v =
      (Ok (), v\<lparr>ag_world := x\<rparr>)"
    using log_run(1) by blast
  with v show ?thesis
    by (simp add: sign_op_def sign_unlocked_def ensure_keys_loaded_def touch_activity_def io_bind_def demo_sign_request_def
        peer_name_def peer_caller_def unwrap_or_empty_def demo_key_def sign_with_key_def Let_def)
qed

text \<open>A message sealed with the nonce of zeros.\<close>

definition demo_box :: "bytes \<Rightarrow> bytes \<Rightarrow> bytes" where
  "demo_box k p = replicate 12 0 @ p @ demo_tag k (replicate 12 0)"

lemma demo_box_open [simp]: "aes_decrypt demo_crates (AesGcmCrypto k) (demo_box k p) = Ok p"
  by (simp add: aes_decrypt_def demo_box_def)

definition demo_request :: decrypt_req where
  "demo_request = \<lparr>dr_host = ''h'', dr_command = ''[read]'', dr_items = [''x''], dr_descriptions = []\<rparr>"

definition demo_auth_request :: auth_req where
  "demo_auth_request = \<lparr>ar_host = ''h'', ar_reason = ''sudo''\<rparr>"

definition the_ser :: "'a serde \<Rightarrow> 'a \<Rightarrow> bytes" where
  "the_ser j x = (case ser j x of Inr bs \<Rightarrow> bs | Inl _ \<Rightarrow> [])"

definition demo_decrypt_ext :: extension where
  "demo_decrypt_ext = \<lparr>ex_name = ''decrypt@vt'',
     ex_details = demo_box (replicate 32 2) (the_ser demo_decrypt_req demo_request)\<rparr>"

definition demo_auth_ext :: extension where
  "demo_auth_ext = \<lparr>ex_name = ''auth@vt'',
     ex_details = demo_box (replicate 32 2) (the_ser demo_auth_req demo_auth_request)\<rparr>"

lemma demo_de_the_ser:
  "de demo_decrypt_req (the_ser demo_decrypt_req x) = Inr x"
  "de demo_auth_req (the_ser demo_auth_req y) = Inr y"
  using serde_okD [OF demo_serde_ok(7), of x] serde_okD [OF demo_serde_ok(8), of y]
  by (simp_all add: the_ser_def demo_decrypt_req_def demo_auth_req_def row_serde_def)

lemma demo_ser_results: "ser demo_results x = Inr (the_ser demo_results x)"
  by (simp add: the_ser_def demo_results_def rows_serde_def)

lemma demo_aes_encrypt: "\<exists>ct v. aes_encrypt demo_crates a p w = (Ok ct, v)"
  by (simp add: aes_encrypt_def generate_nonce_def io_bind_def demo_seal_def)

lemma demo_decrypt_run:
  "\<exists>resp t. extension_op demo_crates None demo_decrypt_ext demo_agent = (Ok (Some resp), t)"
proof -
  let ?u = "demo_agent\<lparr>ag_last_activity := agent_now demo_agent\<rparr>"
  let ?m = "format_decrypt_prompt demo_request []"
  obtain v where v: "check_or_prompt_auth demo_crates None ''decrypt@vt'' ?m True ?u = (Ok True, v)"
    using demo_check [of ?u] by fastforce
  obtain x where x: "in_world (log_decrypt demo_crates None [] demo_request True) v = (Ok (), v\<lparr>ag_world := x\<rparr>)"
    using log_run(2) by blast
  have c: "same_config ?u v" by (rule withinD [OF check_frames(1) v])
  have d: "do_decrypt demo_crates a now (dr_items demo_request) =
      Ok [\<lparr>cr_result = [], cr_err_message = ''not a vt item''\<rparr>]" for a now
    by (simp add: demo_request_def do_decrypt_def decrypt_item_def starts_with_def vt_prefix_def)
  let ?rs = "[\<lparr>cr_result = [], cr_err_message = ''not a vt item''\<rparr>]"
  have h: "handle_decrypt demo_crates None [] (the_ser demo_decrypt_req demo_request) ?u =
      (Ok (the_ser demo_results ?rs), v\<lparr>ag_world := x\<rparr>)"
    using v x c d
    by (simp add: handle_decrypt_def io_bind_def demo_de_the_ser aes_new_32 same_config_def
        demo_ser_results)
  obtain ct y where e: "aes_encrypt demo_crates (AesGcmCrypto (replicate 32 2)) (the_ser demo_results ?rs) x = (Ok ct, y)"
    using demo_aes_encrypt by blast
  have "extension_op demo_crates None demo_decrypt_ext demo_agent =
      (Ok (Some \<lparr>ex_name = ''decrypt@vt'', ex_details = ct\<rparr>), v\<lparr>ag_world := y\<rparr>)"
    using h e
    by (simp add: extension_op_def extension_unlocked_def touch_activity_def io_bind_def io_map_err_def demo_decrypt_ext_def
        peer_caller_def unwrap_or_empty_def aes_new_32 in_world_def)
  then show ?thesis by blast
qed

theorem sign_needs_consent_witness:
  "\<exists>sg t. sign_op demo_crates None demo_sign_request demo_agent = (Ok sg, t) \<and> touched demo_agent t"
proof -
  obtain sg t where run: "sign_op demo_crates None demo_sign_request demo_agent = (Ok sg, t)"
    using demo_sign by blast
  moreover have "\<not> cached_grant demo_agent None fp" for fp
    by (simp add: cached_grant_def context_id_def)
  ultimately show ?thesis using sign_needs_consent [OF run] by blast
qed

lemma demo_ecdsa_ok: "ecdsa_ok demo_crates"
  by (simp add: ecdsa_ok_def)

theorem sign_with_key_blob_witness:
  "\<exists>sg. sign_with_key demo_crates demo_key [9] = Ok sg \<and> read_sig_blob (sg_blob sg) = Some (258, 32771)"
proof -
  obtain sg where run: "sign_with_key demo_crates demo_key [9] = Ok sg"
    by (simp add: sign_with_key_def demo_key_def)
  with sign_with_key_blob [OF demo_ecdsa_ok run] show ?thesis
    by (auto simp: be_value_def)
qed

theorem decrypt_extension_needs_consent_witness:
  "\<exists>resp t rs bs. extension_op demo_crates None demo_decrypt_ext demo_agent = (Ok (Some resp), t) \<and>
     touched demo_agent t \<and> ser demo_results rs = Inr bs \<and>
     aes_decrypt demo_crates (AesGcmCrypto (replicate 32 2)) (ex_details resp) = Ok bs"
proof -
  obtain resp t where run: "extension_op demo_crates None demo_decrypt_ext demo_agent = (Ok (Some resp), t)"
    using demo_decrypt_run by blast
  have "ex_name demo_decrypt_ext = ''decrypt@vt''" by (simp add: demo_decrypt_ext_def)
  from decrypt_extension_needs_consent [OF demo_aead_ok run this] run show ?thesis
    by (auto simp: cached_grant_def context_id_def)
qed

lemma demo_verify:
  assumes "dev (ag_world s) = demo_device"
  shows "\<exists>t. verify_yubikey_presence demo_crates m s = (Ok True, t)"
proof -
  obtain v where "verify_presence_with_pin demo_crates (ag_pin s) m (ag_world s) = (Ok True, v)"
    using demo_presence [OF assms] by blast
  then show ?thesis by (simp add: verify_yubikey_presence_def io_or_def in_world_def)
qed

lemma demo_auth_run:
  "\<exists>resp t. extension_op demo_crates None demo_auth_ext demo_agent = (Ok (Some resp), t)"
proof -
  let ?u = "demo_agent\<lparr>ag_last_activity := agent_now demo_agent\<rparr>"
  obtain v where v: "verify_yubikey_presence demo_crates (format_auth_prompt demo_auth_request []) ?u = (Ok True, v)"
    using demo_verify [of ?u] by fastforce
  obtain x where x: "in_world (log_auth demo_crates None [] demo_auth_request True) v = (Ok (), v\<lparr>ag_world := x\<rparr>)"
    using log_run(3) by blast
  obtain bs where bs: "ser demo_auth_res \<lparr>as_approved = True\<rparr> = Inr bs"
    by (simp add: demo_auth_res_def)
  have h: "handle_auth demo_crates None [] (the_ser demo_auth_req demo_auth_request) ?u =
      (Ok bs, v\<lparr>ag_world := x\<rparr>)"
    using v x bs by (simp add: handle_auth_def io_bind_def demo_de_the_ser)
  obtain ct y where e: "aes_encrypt demo_crates (AesGcmCrypto (replicate 32 2)) bs x = (Ok ct, y)"
    using demo_aes_encrypt by blast
  have "extension_op demo_crates None demo_auth_ext demo_agent =
      (Ok (Some \<lparr>ex_name = ''auth@vt'', ex_details = ct\<rparr>), v\<lparr>ag_world := y\<rparr>)"
    using h e
    by (simp add: extension_op_def extension_unlocked_def touch_activity_def io_bind_def io_map_err_def demo_auth_ext_def
        peer_caller_def unwrap_or_empty_def aes_new_32 in_world_def)
  then show ?thesis by blast
qed

theorem auth_extension_touched_witness:
  "\<exists>resp t. extension_op demo_crates None demo_auth_ext demo_agent = (Ok (Some resp), t) \<and>
     touched demo_agent t"
proof -
  obtain resp t where run: "extension_op demo_crates None demo_auth_ext demo_agent = (Ok (Some resp), t)"
    using demo_auth_run by blast
  have "ex_name demo_auth_ext = ''auth@vt''" by (simp add: demo_auth_ext_def)
  from auth_extension_touched [OF run this] run show ?thesis by blast
qed

theorem extension_wrong_key_witness:
  "extension_op demo_crates None \<lparr>ex_name = ''decrypt@vt'', ex_details = [1, 2, 3]\<rparr> demo_agent =
     (Err AgentFailure, demo_agent\<lparr>ag_last_activity := 1000\<rparr>)"
  using extension_wrong_key [of demo_agent "\<lparr>ex_name = ''decrypt@vt'', ex_details = [1, 2, 3]\<rparr>" demo_crates None]
  by (simp add: aes_decrypt_def agent_now_def)

theorem locked_agent_refuses_witness:
  "sign_op demo_crates None demo_sign_request (demo_agent\<lparr>ag_locked := True\<rparr>) =
     (Err AgentFailure, demo_agent\<lparr>ag_locked := True\<rparr>)"
  using locked_agent_refuses [of "demo_agent\<lparr>ag_locked := True\<rparr>"] by simp

theorem unlock_iff_hash_witness:
  "\<exists>u. lock demo_crates ''pw'' demo_agent = (Ok (), u) \<and>
     unlock demo_crates ''no'' u = (Err AgentFailure, u) \<and> is_ok (fst (unlock demo_crates ''pw'' u))"
proof -
  obtain u where run: "lock demo_crates ''pw'' demo_agent = (Ok (), u)"
    by (simp add: lock_def)
  have "hash_lock_passphrase demo_crates ''no'' \<noteq> hash_lock_passphrase demo_crates ''pw''"
    by (simp add: hash_lock_passphrase_def demo_sha_def as_bytes_def byte_of_def numeral_eq_Suc)
  with unlock_iff_hash [OF run, of "''no''"] unlock_iff_hash [OF run, of "''pw''"] run show ?thesis
    by (metis (no_types, lifting) fst_conv is_ok.simps(1))
qed

end
