(* ===== verification/Vt_Agent_Run.thy ===== *)
theory Vt_Agent_Run
  imports Vt_Consent
begin

text \<open>
  The agent over time: its startup, the two sweepers of \<open>run_ssh_agent_inner\<close>, and runs of requests,
  waits, sweeps and changes made by other programs.  The lock invariant, what a lock guarantees until
  it is undone, and that every signature is covered by a touch are proved over all runs.
\<close>

section \<open>Startup\<close>

definition socket_path :: "string wio" where
  "socket_path = io_bind home_dir (\<lambda>hm. io_ret (path_join (path_join hm ''.ssh'') ''vt-yubi.sock''))"

text \<open>
  Up to the point where the agent listens; the process id printed for the shell is not modelled
  beyond its place in the text.
\<close>

definition run_ssh_agent_inner ::
  "crates \<Rightarrow> string \<Rightarrow> bool \<Rightarrow> auth_cache_mode \<Rightarrow> u64 \<Rightarrow> u64 \<Rightarrow> bytes \<Rightarrow> bytes \<Rightarrow> string \<Rightarrow> agent wio" where
  "run_ssh_agent_inner c pid print_env mode sign_secs decrypt_secs passphrase auth_token pin =
     io_bind (load_all_keys c passphrase) (\<lambda>keys.
     io_bind socket_path (\<lambda>sock.
     io_bind (fs_exists sock) (\<lambda>ex.
     io_seq (io_when ex (fs_remove sock)) (
     io_bind home_dir (\<lambda>hm.
     io_seq (create_dir_all (path_join hm ''.ssh'')) (
     io_seq (io_when print_env (io_seq (println (''export SSH_AUTH_SOCK='' @ sock @ '';''))
               (println (''echo Agent pid '' @ pid @ '';'')))) (
     io_get (agent_new keys mode sign_secs decrypt_secs passphrase auth_token pin))))))))"

definition run_ssh_agent ::
  "crates \<Rightarrow> string \<Rightarrow> bool \<Rightarrow> auth_cache_mode \<Rightarrow> u64 \<Rightarrow> u64 \<Rightarrow> agent wio" where
  "run_ssh_agent c pid print_env mode sign_secs decrypt_secs =
     io_bind (open_and_verify_pin c) (\<lambda>pin.
     io_bind (load_auth_token c) (\<lambda>auth_token.
     io_bind (load_passphrase c) (\<lambda>passphrase.
     run_ssh_agent_inner c pid print_env mode sign_secs decrypt_secs passphrase auth_token pin)))"

text \<open>The two entries for the callers: \<open>serve\<close>, which has opened the key itself, and the command \<open>ssh agent\<close>.\<close>

definition run_ssh_agent_with_secrets ::
  "crates \<Rightarrow> string \<Rightarrow> bool \<Rightarrow> auth_cache_mode \<Rightarrow> u64 \<Rightarrow> u64 \<Rightarrow> bytes \<Rightarrow> bytes \<Rightarrow> string \<Rightarrow> agent wio" where
  "run_ssh_agent_with_secrets c pid print_env mode sign_secs decrypt_secs passphrase auth_token pin =
     run_ssh_agent_inner c pid print_env mode sign_secs decrypt_secs passphrase auth_token pin"

definition start_ssh_agent :: "crates \<Rightarrow> string \<Rightarrow> auth_cache_mode \<Rightarrow> u64 \<Rightarrow> u64 \<Rightarrow> agent wio" where
  "start_ssh_agent c pid mode sign_secs decrypt_secs = run_ssh_agent c pid True mode sign_secs decrypt_secs"

section \<open>Sweepers\<close>

text \<open>One turn of the idle sweeper; \<open>elapsed\<close> is zero if the clock is not past the last activity.\<close>

definition idle_sweep :: "u64 \<Rightarrow> agent \<Rightarrow> agent" where
  "idle_sweep timeout s =
     (if nanos timeout \<le> agent_now s - ag_last_activity s then
        (if ag_keys s \<noteq> [] then s\<lparr>ag_keys := [], ag_idle_cleared := True\<rparr> else s)
      else s)"

text \<open>One turn of the cache sweeper, which is not started when there is no cache.\<close>

definition cache_sweep :: "agent \<Rightarrow> agent" where
  "cache_sweep s =
     (if ag_cache_mode s = CacheNone then s
      else s\<lparr>ag_auth_cache := sweep_expired (agent_now s) (ag_auth_cache s)\<rparr>)"

section \<open>Runs\<close>

datatype request =
    ReqIdentities
  | ReqSign sign_request
  | ReqExtension extension
  | ReqAdd credential
  | ReqRemove bytes
  | ReqRemoveAll
  | ReqLock string
  | ReqUnlock string

text \<open>
  What happens to a running agent.  \<open>Wait\<close> is the monotonic clock; \<open>ClockReads\<close> moves the wall clock, to any date,
  local time and Unix time, back as well as forth.  \<open>FilesChanged\<close> and \<open>ProcsChanged\<close> are the work of other programs
  (\<open>vt-yubi ssh add\<close> among them) and of the kernel.
\<close>

datatype agent_event =
    Request "i32 option" request
  | Wait nat
  | ClockReads string string nat
  | IdleSweep
  | CacheSweep
  | FilesChanged "string \<rightharpoonup> bytes"
  | ProcsChanged "int \<Rightarrow> string option" "int \<Rightarrow> string option"

fun request_step :: "crates \<Rightarrow> i32 option \<Rightarrow> request \<Rightarrow> agent \<Rightarrow> agent" where
  "request_step c p ReqIdentities s = snd (request_identities c s)"
| "request_step c p (ReqSign r) s = snd (sign_op c p r s)"
| "request_step c p (ReqExtension e) s = snd (extension_op c p e s)"
| "request_step c p (ReqAdd cred) s = snd (add_identity c cred s)"
| "request_step c p (ReqRemove pub) s = snd (remove_identity c pub s)"
| "request_step c p ReqRemoveAll s = snd (remove_all_identities c s)"
| "request_step c p (ReqLock pw) s = snd (lock c pw s)"
| "request_step c p (ReqUnlock pw) s = snd (unlock c pw s)"

fun agent_step :: "crates \<Rightarrow> u64 \<Rightarrow> agent \<Rightarrow> agent_event \<Rightarrow> agent" where
  "agent_step c timeout s (Request p r) = request_step c p r s"
| "agent_step c timeout s (Wait n) =
     s\<lparr>ag_world := (ag_world s)\<lparr>instant := instant (ag_world s) + n\<rparr>\<rparr>"
| "agent_step c timeout s (ClockReads date time secs) =
     s\<lparr>ag_world := (ag_world s)\<lparr>today := date, timestamp := time, unix_time := secs\<rparr>\<rparr>"
| "agent_step c timeout s IdleSweep = idle_sweep timeout s"
| "agent_step c timeout s CacheSweep = cache_sweep s"
| "agent_step c timeout s (FilesChanged fs) = s\<lparr>ag_world := (ag_world s)\<lparr>files := fs\<rparr>\<rparr>"
| "agent_step c timeout s (ProcsChanged st ex) =
     s\<lparr>ag_world := (ag_world s)\<lparr>proc_stat := st, proc_exe := ex\<rparr>\<rparr>"

definition agent_run :: "crates \<Rightarrow> u64 \<Rightarrow> agent \<Rightarrow> agent_event list \<Rightarrow> agent" where
  "agent_run c timeout s evs = foldl (agent_step c timeout) s evs"

lemma agent_run_simps [simp]:
  "agent_run c T s [] = s"
  "agent_run c T s (evs @ [e]) = agent_step c T (agent_run c T s evs) e"
  by (simp_all add: agent_run_def)

section \<open>The lock invariant\<close>

definition agent_inv :: "agent \<Rightarrow> bool" where
  "agent_inv s \<longleftrightarrow> distinct (map fst (ag_keys s)) \<and>
     (if ag_locked s
      then ag_keys s = [] \<and> ac_entries (ag_auth_cache s) = Map.empty \<and> ag_lock_passphrase s \<noteq> None
      else ag_lock_passphrase s = None)"

lemma insert_entry_distinct: "distinct (map fst ks) \<Longrightarrow> distinct (map fst (insert_entry c ks e))"
  by (simp add: insert_entry_def distinct_update split: sum.split)

lemma load_all_keys_distinct:
  assumes "load_all_keys c p w = (Ok ks, v)"
  shows "distinct (map fst ks)"
proof -
  from assms obtain es where ks: "ks = foldl (insert_entry c) [] es"
    by (auto simp: load_all_keys_def io_bind_eq_Ok)
  have "distinct (map fst ms) \<Longrightarrow> distinct (map fst (foldl (insert_entry c) ms es))" for ms
    by (induction es arbitrary: ms) (simp_all add: insert_entry_distinct)
  then show ?thesis by (simp add: ks)
qed

lemma ensure_eval:
  "ensure_keys_loaded c s =
    (if ag_keys s \<noteq> [] \<or> \<not> ag_idle_cleared s then (Ok (), s)
     else case fst (load_all_keys c (ag_passphrase s) (ag_world s)) of
       Ok ks \<Rightarrow> (Ok (), s\<lparr>ag_keys := ks, ag_idle_cleared := False\<rparr>)
     | Err e \<Rightarrow> (Err e, s)
     | Panic m \<Rightarrow> (Panic m, s))"
proof -
  obtain r w where run: "load_all_keys c (ag_passphrase s) (ag_world s) = (r, w)" by fastforce
  then have "w = ag_world s" by (rule load_all_keys_state)
  with run show ?thesis
    by (cases r) (simp_all add: ensure_keys_loaded_def in_world_def io_bind_def)
qed

definition keys_stay_distinct :: "agent \<Rightarrow> agent \<Rightarrow> bool" where
  "keys_stay_distinct s t \<longleftrightarrow> (distinct (map fst (ag_keys s)) \<longrightarrow> distinct (map fst (ag_keys t)))"

interpretation keysd: frame_rel keys_stay_distinct
  by unfold_locales (auto simp: keys_stay_distinct_def)

lemmas keysd_frame [frame_intros] = keysd.all

lemma same_keys_distinct: "within same_keys m \<Longrightarrow> within keys_stay_distinct m"
  by (simp add: within_def same_keys_def keys_stay_distinct_def)

lemma ensure_distinct [frame_intros]: "within keys_stay_distinct (ensure_keys_loaded c)"
proof (rule withinI)
  fix s r t
  assume "ensure_keys_loaded c s = (r, t)"
  then show "keys_stay_distinct s t"
    using load_all_keys_distinct [of c "ag_passphrase s" "ag_world s"]
    by (auto simp: ensure_eval keys_stay_distinct_def split: if_splits outcome.splits) (metis fst_conv prod.collapse)
qed

lemmas keysd_same [frame_intros] = in_world_frames(4) [THEN same_keys_distinct]
  touch_frames(4) [THEN same_keys_distinct] check_frames(3) [THEN same_keys_distinct]
  handler_frames(3) [THEN same_keys_distinct] handler_frames(7) [THEN same_keys_distinct]
  handler_frames(10) [THEN same_keys_distinct]

lemma upd_key_distinct [frame_intros]:
  "within keys_stay_distinct (io_upd (\<lambda>s. s\<lparr>ag_keys := AList.update k v (ag_keys s)\<rparr>))"
  "within keys_stay_distinct (io_upd (\<lambda>s. s\<lparr>ag_keys := AList.delete k (ag_keys s)\<rparr>))"
  "within keys_stay_distinct (io_upd (\<lambda>s. s\<lparr>ag_keys := []\<rparr>))"
  by (simp_all add: within_def keys_stay_distinct_def distinct_update distinct_delete)

text \<open>The requests other than locking and unlocking keep the lock and distinct keys.\<close>

lemma outcome_case_frame:
  "(\<And>x. within R (f x)) \<Longrightarrow> (\<And>e. within R (g e)) \<Longrightarrow> (\<And>m. within R (h m)) \<Longrightarrow>
    within R (case_outcome f g h v)"
  by (cases v) simp_all

lemma credential_case_frame:
  "(\<And>k cm. within R (f k cm)) \<Longrightarrow> within R g \<Longrightarrow> within R (case_credential f g v)"
  by (cases v) simp_all

lemma request_lock_frames [frame_intros]:
  "within same_lock (request_identities c)"
  "within same_lock (sign_op c p r)"
  "within same_lock (extension_op c p e)"
  "within same_lock (add_identity c cred)"
  "within same_lock (remove_identity c pub)"
  "within same_lock (remove_all_identities c)"
  unfolding request_identities_def sign_op_def sign_unlocked_def extension_op_def extension_unlocked_def
    add_identity_def add_identity_unlocked_def remove_identity_def remove_all_identities_def
  by (intro frame_intros outcome_case_frame credential_case_frame)+

lemma request_distinct [frame_intros]:
  "within keys_stay_distinct (request_identities c)"
  "within keys_stay_distinct (sign_op c p r)"
  "within keys_stay_distinct (extension_op c p e)"
  "within keys_stay_distinct (add_identity c cred)"
  "within keys_stay_distinct (remove_identity c pub)"
  "within keys_stay_distinct (remove_all_identities c)"
  unfolding request_identities_def sign_op_def sign_unlocked_def extension_op_def extension_unlocked_def
    add_identity_def add_identity_unlocked_def remove_identity_def remove_all_identities_def
  by (intro frame_intros outcome_case_frame credential_case_frame)+

text \<open>Removing keys uses neither the device nor the cache, and adds none.\<close>

definition none_stays_none :: "agent \<Rightarrow> agent \<Rightarrow> bool" where
  "none_stays_none s t \<longleftrightarrow> (ag_keys s = [] \<longrightarrow> ag_keys t = [])"

interpretation nonef: frame_rel none_stays_none
  by unfold_locales (auto simp: none_stays_none_def)

lemmas nonef_frame [frame_intros] = nonef.all

lemma none_upd [frame_intros]:
  "within none_stays_none (io_upd (\<lambda>s. s\<lparr>ag_keys := AList.delete k (ag_keys s)\<rparr>))"
  "within none_stays_none (io_upd (\<lambda>s. s\<lparr>ag_keys := []\<rparr>))"
  "within none_stays_none (in_world m)"
  by (auto simp: within_def none_stays_none_def in_world_def split: prod.splits)

lemma remove_frames [frame_intros]:
  "within none_stays_none (remove_identity c pub)"
  "within none_stays_none (remove_all_identities c)"
  "within no_consent (remove_identity c pub)"
  "within no_consent (remove_all_identities c)"
  unfolding remove_identity_def remove_all_identities_def
  by (intro frame_intros outcome_case_frame)+

lemma lock_eval:
  "lock c pw s = (if ag_locked s then (Err AgentFailure, s)
     else (Ok (), s\<lparr>ag_locked := True, ag_lock_passphrase := Some (hash_lock_passphrase c pw),
             ag_keys := [], ag_auth_cache := cache_clear (ag_auth_cache s)\<rparr>))"
  by (simp add: lock_def)

lemma locked_same:
  assumes "ag_locked s"
  shows "sign_op c p req s = (Err AgentFailure, s)" "extension_op c p ext s = (Err AgentFailure, s)"
    "add_identity c cred s = (Err AgentFailure, s)" "request_identities c s = (Ok [], s)"
  using assms by (simp_all add: sign_op_def extension_op_def add_identity_def request_identities_def)

lemma withinS: "within R m \<Longrightarrow> R s (snd (m s))"
  by (simp add: within_def)

lemma request_inv_unlocked:
  assumes "agent_inv s" and "\<not> ag_locked s"
  shows "agent_inv (request_step c p r s)"
proof -
  have keep: "agent_inv (snd (m s))" if "within same_lock m" "within keys_stay_distinct m" for m :: "'x aio"
    using assms withinS [OF that(1), of s] withinS [OF that(2), of s]
    by (simp add: agent_inv_def same_lock_def keys_stay_distinct_def)
  show ?thesis
  proof (cases r)
    case (ReqLock pw)
    with assms show ?thesis by (simp add: lock_eval agent_inv_def cache_clear_def)
  next
    case (ReqUnlock pw)
    with assms show ?thesis by (simp add: unlock_def)
  qed (simp_all add: keep request_lock_frames request_distinct)
qed

lemma unlock_loaded_distinct:
  assumes "agent_inv s" and "ag_locked s"
  shows "agent_inv (snd (unlock c q s))"
  using assms load_all_keys_distinct [of c "ag_passphrase s" "ag_world s"]
  by (auto simp: unlock_eval agent_inv_def split: outcome.split) (metis prod.collapse)

lemma request_inv_locked:
  assumes "agent_inv s" and "ag_locked s"
  shows "agent_inv (request_step c p r s)"
proof -
  have keep: "agent_inv (snd (m s))"
    if "within same_lock m" "within none_stays_none m" "within no_consent m" for m :: "'x aio"
    using assms withinS [OF that(1), of s] withinS [OF that(2), of s] withinS [OF that(3), of s]
    by (simp add: agent_inv_def same_lock_def none_stays_none_def no_consent_def)
  show ?thesis
    using assms
    by (cases r) (simp_all add: keep locked_same lock_eval unlock_loaded_distinct request_lock_frames remove_frames)
qed

lemma agent_step_inv: "agent_inv s \<Longrightarrow> agent_inv (agent_step c timeout s e)"
proof (cases e)
  case (Request p r)
  then show "agent_inv s \<Longrightarrow> ?thesis"
    using request_inv_locked request_inv_unlocked by (cases "ag_locked s") auto
qed (auto simp: agent_inv_def idle_sweep_def cache_sweep_def sweep_expired_def fun_eq_iff)

text \<open>A fresh agent: what startup hands to the listener.\<close>

definition fresh_agent :: "agent \<Rightarrow> bool" where
  "fresh_agent s \<longleftrightarrow> distinct (map fst (ag_keys s)) \<and> \<not> ag_locked s \<and> ag_lock_passphrase s = None
     \<and> \<not> ag_idle_cleared s \<and> ac_entries (ag_auth_cache s) = Map.empty"

interpretation agent_sys: transition_system fresh_agent "agent_step c timeout" agent_inv for c timeout
  by unfold_locales (simp add: fresh_agent_def agent_inv_def, rule agent_step_inv)

lemma startup_fresh:
  assumes "run_ssh_agent_inner c pid env mode sd dd pass tok pin w = (Ok s, v)"
  shows "fresh_agent s"
  using assms load_all_keys_distinct
  by (auto simp: run_ssh_agent_inner_def io_bind_eq_Ok fresh_agent_def agent_new_def
      auth_cache_new_def)

text \<open>
  C34. Over any run of a started agent (requests of any sessions one after the other, waits, sweeps,
  changes of files and processes by others): a locked agent holds no private key and no grant and
  remembers the hash of its lock passphrase, an unlocked one remembers none, and no fingerprint is
  in memory twice.
\<close>

theorem agent_lock_invariant:
  assumes "run_ssh_agent_inner c pid env mode sd dd pass tok pin w = (Ok s, v)"
  shows "agent_inv (agent_run c timeout s evs)"
  unfolding agent_run_def using startup_fresh [OF assms] by (rule agent_sys.reachable_inv)

lemma demo_no_keys: "load_all_keys demo_crates (replicate 32 1) demo_world = (Ok [], demo_world)"
  by (simp add: load_all_keys_def aes_new_32 load_ssh_keys_from_file_def io_eval_defs paths_eval
      fs_exists_def)

theorem agent_lock_invariant_witness:
  "\<exists>s v. run_ssh_agent_inner demo_crates ''7'' True PerApp 300 60 (replicate 32 1) (replicate 32 2) ''1234''
       demo_world = (Ok s, v) \<and>
     agent_inv (agent_run demo_crates 60 s [Request None (ReqLock ''pw''), Request None ReqIdentities])"
proof -
  obtain s v where run: "run_ssh_agent_inner demo_crates ''7'' True PerApp 300 60 (replicate 32 1)
      (replicate 32 2) ''1234'' demo_world = (Ok s, v)"
    using demo_no_keys
    by (simp add: run_ssh_agent_inner_def socket_path_def io_eval_defs home_dir_def fs_exists_def
        create_dir_all_def)
  with agent_lock_invariant [OF run] show ?thesis by blast
qed

section \<open>What a lock guarantees\<close>

text \<open>Locked with the hash \<open>h\<close>, nothing left to use, and the device as in \<open>u\<close>.\<close>

definition sealed_since :: "bytes \<Rightarrow> agent \<Rightarrow> agent \<Rightarrow> bool" where
  "sealed_since h u s \<longleftrightarrow> ag_locked s \<and> ag_lock_passphrase s = Some h \<and> ag_keys s = []
     \<and> ac_entries (ag_auth_cache s) = Map.empty \<and> yk_log (ag_world s) = yk_log (ag_world u)"

definition unlocks_with :: "crates \<Rightarrow> bytes \<Rightarrow> agent_event \<Rightarrow> bool" where
  "unlocks_with c h e \<longleftrightarrow> (\<exists>p q. e = Request p (ReqUnlock q) \<and> hash_lock_passphrase c q = h)"

lemma sealed_step:
  assumes "sealed_since h u s" and "\<not> unlocks_with c h e"
  shows "sealed_since h u (agent_step c timeout s e)"
proof (cases e)
  case (Request p r)
  have l: "ag_locked s" using assms by (simp add: sealed_since_def)
  have keep: "sealed_since h u (snd (m s))"
    if "within same_lock m" "within none_stays_none m" "within no_consent m" for m :: "'x aio"
    using assms withinS [OF that(1), of s] withinS [OF that(2), of s] withinS [OF that(3), of s]
    by (simp add: sealed_since_def same_lock_def none_stays_none_def no_consent_def same_device_def)
  show ?thesis
  proof (cases r)
    case (ReqUnlock q)
    with assms Request have "ag_lock_passphrase s \<noteq> Some (hash_lock_passphrase c q)"
      by (auto simp: sealed_since_def unlocks_with_def)
    with assms l Request ReqUnlock show ?thesis by (simp add: unlock_eval)
  qed (use assms l Request in
    \<open>simp_all add: locked_same lock_eval keep request_lock_frames remove_frames\<close>)
qed (use assms in \<open>auto simp: sealed_since_def idle_sweep_def cache_sweep_def sweep_expired_def fun_eq_iff\<close>)

lemma sealed_run:
  "sealed_since h u s \<Longrightarrow> \<forall>e \<in> set evs. \<not> unlocks_with c h e \<Longrightarrow> sealed_since h u (agent_run c timeout s evs)"
  by (induction evs rule: rev_induct) (auto simp: sealed_step)

text \<open>
  C2. Once the agent is locked, then whatever happens (requests of any session, lock attempts with
  other passphrases, restored files, sweeps) short of an unlock with a passphrase of the same hash:
  it stays locked with no key and no grant, it never uses the device, and every request to sign, to decrypt,
  to encrypt or to confirm is refused.
\<close>

theorem locked_until_matching_unlock:
  assumes "lock c pw s = (Ok (), u)"
    and "\<forall>e \<in> set evs. \<not> unlocks_with c (hash_lock_passphrase c pw) e"
  shows "sealed_since (hash_lock_passphrase c pw) u (agent_run c timeout u evs) \<and>
    fst (sign_op c p req (agent_run c timeout u evs)) = Err AgentFailure \<and>
    fst (extension_op c p ext (agent_run c timeout u evs)) = Err AgentFailure"
proof -
  have "sealed_since (hash_lock_passphrase c pw) u u"
    using assms(1) by (auto simp: lock_eval sealed_since_def cache_clear_def split: if_splits)
  then have run: "sealed_since (hash_lock_passphrase c pw) u (agent_run c timeout u evs)"
    using assms(2) by (rule sealed_run)
  then have "ag_locked (agent_run c timeout u evs)" by (simp add: sealed_since_def)
  with run show ?thesis by (simp add: locked_same)
qed

theorem locked_until_matching_unlock_witness:
  "\<exists>u. lock demo_crates ''pw'' demo_agent = (Ok (), u) \<and>
     fst (sign_op demo_crates None demo_sign_request
       (agent_run demo_crates 60 u [Request None (ReqUnlock ''no''), Wait 5, Request None ReqIdentities]))
     = Err AgentFailure"
proof -
  obtain u where run: "lock demo_crates ''pw'' demo_agent = (Ok (), u)"
    by (simp add: lock_def)
  have "hash_lock_passphrase demo_crates ''no'' \<noteq> hash_lock_passphrase demo_crates ''pw''"
    by (simp add: hash_lock_passphrase_def demo_sha_def as_bytes_def byte_of_def numeral_eq_Suc)
  then have "\<forall>e \<in> set [Request None (ReqUnlock ''no''), Wait 5, Request None ReqIdentities].
      \<not> unlocks_with demo_crates (hash_lock_passphrase demo_crates ''pw'') e"
    by (simp add: unlocks_with_def)
  from locked_until_matching_unlock [OF run this] run show ?thesis by blast
qed

section \<open>Every use is covered by a touch\<close>

text \<open>The key of the cache a request may add a grant for, and the kind of its duration.\<close>

fun grant_key :: "crates \<Rightarrow> request \<Rightarrow> (string \<times> bool) option" where
  "grant_key c (ReqSign r) = Some (fingerprint_str c (sr_pubkey r), False)"
| "grant_key c (ReqExtension e) =
     (if ex_name e = ''decrypt@vt'' then Some (''decrypt@vt'', True) else None)"
| "grant_key c _ = None"

text \<open>What a step may do to the cache: drop entries, or add one for the caller after a touch.\<close>

definition touch_grant :: "i32 option \<Rightarrow> string \<Rightarrow> bool \<Rightarrow> agent \<Rightarrow> agent \<Rightarrow> bool" where
  "touch_grant p fp b s t \<longleftrightarrow> touched s t \<and>
     (\<exists>ctx. context_id (ag_cache_mode s) p (ag_world s) = Some ctx \<and>
       ag_auth_cache t = (ag_auth_cache s)\<lparr>ac_entries :=
         (ac_entries (ag_auth_cache s))((ctx, fp) \<mapsto> agent_now t + cache_ttl (ag_auth_cache s) b)\<rparr>)"

definition grants :: "i32 option \<Rightarrow> string \<Rightarrow> bool \<Rightarrow> agent \<Rightarrow> agent \<Rightarrow> bool" where
  "grants p fp b s t \<longleftrightarrow> ag_auth_cache t = ag_auth_cache s \<or> touch_grant p fp b s t"

lemma check_cache:
  assumes "check_or_prompt_auth c p fp m b s = (r, t)"
  shows "ag_auth_cache t = ag_auth_cache s \<or> touch_grant p fp b s t"
proof -
  have vc: "ag_auth_cache u = ag_auth_cache s" "same_config s u"
    if "verify_yubikey_presence c m s = (q, u)" for q u
    using that withinD [OF verify_frames(1) that]
    by (auto simp: verify_yubikey_presence_def io_or_def in_world_def split: prod.splits outcome.splits)
  show ?thesis
  proof (cases "context_id (ag_cache_mode s) p (ag_world s)")
    case None
    with assms vc show ?thesis by (simp add: check_or_prompt_auth_def)
  next
    case (Some ctx)
    obtain q u where u: "verify_yubikey_presence c m s = (q, u)" by fastforce
    show ?thesis
    proof (cases "is_authorized (agent_now s) (ag_auth_cache s) ctx fp \<or> q \<noteq> Ok True")
      case True
      with assms Some u vc [OF u] show ?thesis
        by (cases q) (auto simp: check_or_prompt_auth_def io_bind_def split: if_splits)
    next
      case False
      with assms Some u have g: "io_seq (cache_grant ctx fp b) (io_ret True) u = (r, t)"
        by (simp add: check_or_prompt_auth_def io_bind_def)
      show ?thesis
      proof (cases "grant (agent_now u) (ag_auth_cache u) ctx fp b")
        case (Ok d)
        with g have t: "t = u\<lparr>ag_auth_cache := d\<rparr>" by (auto simp: cache_grant_def io_bind_def)
        have "touched s u" using verify_presence_True [of c m s u] u False by auto
        with Ok t Some vc [OF u] show ?thesis
          by (auto simp: touch_grant_def touched_def grant_eq_Ok agent_now_def)
      qed (use g vc [OF u] in \<open>auto simp: cache_grant_def io_bind_def\<close>)
    qed
  qed
qed

text \<open>Steps before and after the check that neither use the device nor touch the cache.\<close>

definition quiet :: "agent \<Rightarrow> agent \<Rightarrow> bool" where
  "quiet s t \<longleftrightarrow> no_consent s t \<and> same_config s t"

lemma quietI: "within no_consent m \<Longrightarrow> within same_config m \<Longrightarrow> within quiet m"
  by (simp add: within_def quiet_def)

lemma touch_grant_cong:
  "quiet s s' \<Longrightarrow> touch_grant p fp b s' t' \<Longrightarrow> quiet t' t \<Longrightarrow> touch_grant p fp b s t"
  using context_id_cong [of s s']
  by (auto simp: touch_grant_def quiet_def no_consent_def same_device_def touched_def same_config_def
      agent_now_def)

lemma quiet_refl: "quiet s s"
  by (simp add: quiet_def noconsent.frame_refl config.frame_refl)

lemma quiet_grants: "quiet s t \<Longrightarrow> grants p fp b s t"
  by (simp add: quiet_def no_consent_def grants_def)

lemma grants_pre: "within quiet m \<Longrightarrow> (\<And>x. within (grants p fp b) (f x)) \<Longrightarrow> within (grants p fp b) (io_bind m f)"
proof (rule withinI)
  fix s r t
  assume m: "within quiet m" and f: "\<And>x. within (grants p fp b) (f x)" and run: "io_bind m f s = (r, t)"
  obtain q u where u: "m s = (q, u)" by fastforce
  have su: "quiet s u" by (rule withinD [OF m u])
  show "grants p fp b s t"
  proof (cases q)
    case (Ok x)
    with run u have "f x u = (r, t)" by (simp add: io_bind_def)
    then have "grants p fp b u t" by (rule withinD [OF f])
    with su show ?thesis
      using touch_grant_cong [OF su _ quiet_refl]
      by (auto simp: grants_def quiet_def no_consent_def)
  qed (use run u su in \<open>auto simp: io_bind_def quiet_grants\<close>)
qed

lemma grants_post: "within (grants p fp b) m \<Longrightarrow> (\<And>x. within quiet (f x)) \<Longrightarrow> within (grants p fp b) (io_bind m f)"
proof (rule withinI)
  fix s r t
  assume m: "within (grants p fp b) m" and f: "\<And>x. within quiet (f x)" and run: "io_bind m f s = (r, t)"
  obtain q u where u: "m s = (q, u)" by fastforce
  have su: "grants p fp b s u" by (rule withinD [OF m u])
  show "grants p fp b s t"
  proof (cases q)
    case (Ok x)
    with run u have "f x u = (r, t)" by (simp add: io_bind_def)
    then have "quiet u t" by (rule withinD [OF f])
    with su show ?thesis
      using touch_grant_cong [OF quiet_refl]
      by (auto simp: grants_def quiet_def no_consent_def)
  qed (use run u su in \<open>auto simp: io_bind_def\<close>)
qed

lemma grants_if:
  "within (grants p fp b) m \<Longrightarrow> within (grants p fp b) n \<Longrightarrow> within (grants p fp b) (if x then m else n)"
  by simp

lemma grants_option:
  "within (grants p fp b) m \<Longrightarrow> (\<And>x. within (grants p fp b) (f x)) \<Longrightarrow>
    within (grants p fp b) (case_option m f v)"
  by (cases v) simp_all

lemma grants_quiet: "within no_consent m \<Longrightarrow> within same_config m \<Longrightarrow> within (grants p fp b) m"
  by (simp add: within_def quiet_grants quiet_def)

lemma grants_check: "within (grants p fp b) (check_or_prompt_auth c p fp m b)"
  using check_cache by (intro withinI) (auto simp: grants_def)

lemma sign_grants: "within (grants p (fingerprint_str c (sr_pubkey r)) False) (sign_op c p r)"
  unfolding sign_op_def sign_unlocked_def Let_def io_seq_def
  by (intro grants_pre [OF quietI] grants_if grants_option grants_post [OF grants_check] quietI
      frame_intros grants_quiet)

lemma decrypt_grants: "within (grants p ''decrypt@vt'' True) (handle_decrypt c p cl d)"
  unfolding handle_decrypt_def io_seq_def
  by (intro grants_pre [OF quietI] grants_post [OF grants_check] quietI frame_intros)

text \<open>Everything but a check, a lock and a sweep leaves the cache alone.\<close>

definition same_cache :: "agent \<Rightarrow> agent \<Rightarrow> bool" where
  "same_cache s t \<longleftrightarrow> ag_auth_cache t = ag_auth_cache s"

interpretation cachef: frame_rel same_cache
  by unfold_locales (auto simp: same_cache_def)

lemmas cachef_frame [frame_intros] = cachef.all

lemma quiet_same_cache: "within no_consent m \<Longrightarrow> within same_cache m"
  by (simp add: within_def no_consent_def same_cache_def)

lemma in_world_same_cache [frame_intros]: "within same_cache (in_world m)"
  by (auto simp: within_def in_world_def same_cache_def split: prod.splits)

lemma cache_upd [frame_intros]:
  "within same_cache (io_upd (\<lambda>s. s\<lparr>ag_keys := f1 s\<rparr>))"
  "within same_cache touch_activity"
  "within same_cache (ensure_keys_loaded c)"
  by (simp_all add: within_def same_cache_def touch_activity_def)
    (use ensure_frames(3) in \<open>auto simp: within_def no_consent_def\<close>)

lemma cache_requests [frame_intros]:
  "within same_cache (request_identities c)"
  "within same_cache (add_identity c cred)"
  "within same_cache (remove_identity c pub)"
  "within same_cache (remove_all_identities c)"
  "within same_cache (handle_auth c p cl d)"
  "within same_cache (handle_encrypt c p cl d)"
  unfolding request_identities_def add_identity_def add_identity_unlocked_def remove_identity_def
    remove_all_identities_def handle_auth_def handle_encrypt_def verify_yubikey_presence_def
  by (intro frame_intros outcome_case_frame credential_case_frame)+

lemma extension_grants:
  "ex_name e = ''decrypt@vt'' \<Longrightarrow> within (grants p ''decrypt@vt'' True) (extension_op c p e)"
  unfolding extension_op_def extension_unlocked_def io_seq_def
  by (simp cong: if_cong,
      intro grants_pre [OF quietI] grants_if grants_post [OF decrypt_grants] quietI frame_intros grants_quiet)

lemma extension_same_cache:
  "ex_name e \<noteq> ''decrypt@vt'' \<Longrightarrow> within same_cache (extension_op c p e)"
proof -
  assume "ex_name e \<noteq> ''decrypt@vt''"
  then have ne: "(ex_name e = ''decrypt@vt'') = False" by simp
  show ?thesis
    unfolding extension_op_def extension_unlocked_def
    by (simp only: ne if_False cong: if_cong) (intro frame_intros)
qed

lemma unlock_cache: "ag_auth_cache (snd (unlock c q s)) = ag_auth_cache s"
  by (cases "ag_locked s") (simp_all add: unlock_eval, simp add: unlock_def)

lemma request_cache:
  assumes "t = request_step c p r s"
  shows "ag_auth_cache t = ag_auth_cache s \<or> (\<exists>pw. r = ReqLock pw \<and> ag_auth_cache t = cache_clear (ag_auth_cache s))
    \<or> (\<exists>fp b. grant_key c r = Some (fp, b) \<and> touch_grant p fp b s t)"
proof -
  have same: "ag_auth_cache (snd (m s)) = ag_auth_cache s" if "within same_cache m" for m :: "'x aio"
    using withinS [OF that] by (simp add: same_cache_def)
  show ?thesis
  proof (cases r)
    case (ReqSign q)
    with assms withinS [OF sign_grants, of p c q s] show ?thesis by (auto simp: grants_def)
  next
    case (ReqExtension e)
    show ?thesis
    proof (cases "ex_name e = ''decrypt@vt''")
      case True
      with assms ReqExtension withinS [OF extension_grants [OF True], of p s c] show ?thesis
        by (auto simp: grants_def)
    next
      case False
      with assms ReqExtension show ?thesis by (simp add: same extension_same_cache)
    qed
  qed (use assms in \<open>simp_all add: same cache_requests lock_eval unlock_cache\<close>)
qed

text \<open>
  \<open>covered c T s0 evs ctx fp e\<close>: in the run \<open>evs\<close> from \<open>s0\<close> there was a request by a caller of
  context \<open>ctx\<close> for the key \<open>fp\<close> during which the YubiKey was touched, \<open>e\<close> is the time it ended plus the
  configured duration, and no lock came after it.
\<close>

definition covered ::
  "crates \<Rightarrow> u64 \<Rightarrow> agent \<Rightarrow> agent_event list \<Rightarrow> u64 \<Rightarrow> string \<Rightarrow> nat \<Rightarrow> bool" where
  "covered c T s0 evs ctx fp e \<longleftrightarrow>
     (\<exists>pre p r b post. evs = pre @ Request p r # post \<and> grant_key c r = Some (fp, b) \<and>
        (let s = agent_run c T s0 pre; t = agent_step c T s (Request p r) in
         touched s t \<and> context_id (ag_cache_mode s) p (ag_world s) = Some ctx \<and>
         e = agent_now t + cache_ttl (ag_auth_cache s0) b) \<and>
        (\<forall>q pw. Request q (ReqLock pw) \<notin> set post))"

lemma covered_later:
  assumes "covered c T s0 evs ctx fp e" and "\<forall>q pw. x \<noteq> Request q (ReqLock pw)"
  shows "covered c T s0 (evs @ [x]) ctx fp e"
proof -
  obtain pre p r b post where h: "evs = pre @ Request p r # post" "grant_key c r = Some (fp, b)"
    "let s = agent_run c T s0 pre; t = agent_step c T s (Request p r) in
         touched s t \<and> context_id (ag_cache_mode s) p (ag_world s) = Some ctx \<and>
         e = agent_now t + cache_ttl (ag_auth_cache s0) b"
    "\<forall>q pw. Request q (ReqLock pw) \<notin> set post"
    using assms(1) unfolding covered_def by blast
  have "evs @ [x] = pre @ Request p r # (post @ [x])" by (simp add: h(1))
  moreover have "\<forall>q pw. Request q (ReqLock pw) \<notin> set (post @ [x])"
    using h(4) assms(2) by auto
  ultimately show ?thesis using h(2,3) unfolding covered_def by blast
qed

lemma covered_now:
  assumes "grant_key c r = Some (fp, b)" and "touched (agent_run c T s0 evs) t"
    and "t = request_step c p r (agent_run c T s0 evs)"
    and "context_id (ag_cache_mode (agent_run c T s0 evs)) p (ag_world (agent_run c T s0 evs)) = Some ctx"
  shows "covered c T s0 (evs @ [Request p r]) ctx fp (agent_now t + cache_ttl (ag_auth_cache s0) b)"
  unfolding covered_def
  by (rule exI [of _ evs], rule exI [of _ p], rule exI [of _ r], rule exI [of _ b], rule exI [of _ "[]"])
    (use assms in \<open>simp add: Let_def\<close>)

lemma cache_ttl_entries [simp]: "cache_ttl (d\<lparr>ac_entries := m\<rparr>) = cache_ttl d"
  by (simp add: cache_ttl_def fun_eq_iff)

lemma agent_run_ttl: "cache_ttl (ag_auth_cache (agent_run c T s0 evs)) = cache_ttl (ag_auth_cache s0)"
proof (induction evs rule: rev_induct)
  case (snoc x evs)
  then show ?case
  proof (cases x)
    case (Request p r)
    with snoc request_cache [where s = "agent_run c T s0 evs" and c = c and p = p and r = r, OF refl] show ?thesis
      by (auto simp: touch_grant_def cache_clear_def)
  qed (auto simp: idle_sweep_def cache_sweep_def sweep_expired_def)
qed simp

lemma entries_covered:
  assumes "fresh_agent s0" and "ac_entries (ag_auth_cache (agent_run c T s0 evs)) (ctx, fp) = Some e"
  shows "covered c T s0 evs ctx fp e"
  using assms(2)
proof (induction evs arbitrary: e rule: rev_induct)
  case Nil
  with assms(1) show ?case by (simp add: fresh_agent_def)
next
  case (snoc x evs)
  let ?s = "agent_run c T s0 evs"
  have inv: "agent_inv ?s"
    unfolding agent_run_def using assms(1) by (rule agent_sys.reachable_inv)
  have old: "covered c T s0 (evs @ [x]) ctx fp e"
    if "ac_entries (ag_auth_cache ?s) (ctx, fp) = Some e" "\<forall>q pw. x \<noteq> Request q (ReqLock pw)"
    using covered_later [OF snoc.IH [OF that(1)] that(2)] .
  show ?case
  proof (cases x)
    case (Request p r)
    let ?t = "request_step c p r ?s"
    show ?thesis
    proof (cases "\<exists>pw. r = ReqLock pw")
      case True
      with Request snoc.prems inv show ?thesis
        by (auto simp: lock_eval cache_clear_def agent_inv_def split: if_splits)
    next
      case False
      with request_cache [where s = ?s and c = c and p = p and r = r, OF refl] consider "ag_auth_cache ?t = ag_auth_cache ?s"
        | fp' b where "grant_key c r = Some (fp', b)" "touch_grant p fp' b ?s ?t" by blast
      then show ?thesis
      proof cases
        case 1
        with Request snoc.prems False old show ?thesis by auto
      next
        case 2
        then obtain ctx' where ctx': "context_id (ag_cache_mode ?s) p (ag_world ?s) = Some ctx'"
          "touched ?s ?t" "ac_entries (ag_auth_cache ?t) = (ac_entries (ag_auth_cache ?s))
            ((ctx', fp') \<mapsto> agent_now ?t + cache_ttl (ag_auth_cache s0) b)"
          by (auto simp: touch_grant_def agent_run_ttl)
        show ?thesis
        proof (cases "ctx' = ctx \<and> fp' = fp")
          case True
          with ctx' snoc.prems Request have "e = agent_now ?t + cache_ttl (ag_auth_cache s0) b" by auto
          with True covered_now [OF 2(1) ctx'(2) refl ctx'(1)] Request show ?thesis by simp
        next
          case other: False
          with ctx' snoc.prems Request have "ac_entries (ag_auth_cache ?s) (ctx, fp) = Some e"
            by (auto split: if_splits)
          with False Request old show ?thesis by auto
        qed
      qed
    qed
  next
    case CacheSweep
    with snoc.prems have "ac_entries (ag_auth_cache ?s) (ctx, fp) = Some e"
      by (auto simp: cache_sweep_def sweep_expired_def split: if_splits option.splits)
    with CacheSweep old show ?thesis by auto
  qed (use snoc.prems old in \<open>auto simp: idle_sweep_def split: if_splits\<close>)
qed

lemma cached_covered:
  assumes "fresh_agent s0" and "cached_grant (agent_run c T s0 evs) p fp"
  shows "\<exists>ctx e. context_id (ag_cache_mode (agent_run c T s0 evs)) p (ag_world (agent_run c T s0 evs)) = Some ctx
    \<and> covered c T s0 evs ctx fp e \<and> agent_now (agent_run c T s0 evs) < e"
  using assms(2) entries_covered [OF assms(1)]
  by (fastforce simp: cached_grant_def is_authorized_def split: option.splits)

text \<open>
  C1. Every signature is covered by a touch.  If a started agent, after any run, signs for a
  caller, then the YubiKey was touched during this very request, or during an earlier request of a caller
  with the same context for the same key, after which the agent was not locked and the configured duration
  has not passed.
\<close>

theorem every_signature_covered:
  assumes "fresh_agent s0" and "s = agent_run c T s0 evs" and "sign_op c p req s = (Ok sg, t)"
  shows "touched s t \<or>
    (\<exists>ctx e. context_id (ag_cache_mode s) p (ag_world s) = Some ctx \<and>
       covered c T s0 evs ctx (fingerprint_str c (sr_pubkey req)) e \<and> agent_now s < e)"
  using sign_consent [OF assms(3)] cached_covered [OF assms(1), of c T evs p] unfolding assms(2) by blast

text \<open>
  C6. Every decryption is covered by a touch in the same sense: during the request, or during an
  earlier \<open>decrypt@vt\<close> of the same context within the decryption duration and with no lock since.
\<close>

theorem every_decryption_covered:
  assumes "fresh_agent s0" and "s = agent_run c T s0 evs" and "aead_ok c"
    and "extension_op c p ext s = (Ok (Some resp), t)" and "ex_name ext = ''decrypt@vt''"
  shows "touched s t \<or>
    (\<exists>ctx e. context_id (ag_cache_mode s) p (ag_world s) = Some ctx \<and>
       covered c T s0 evs ctx ''decrypt@vt'' e \<and> agent_now s < e)"
  using decrypt_consent [OF assms(3-5)] cached_covered [OF assms(1), of c T evs p] unfolding assms(2) by blast

lemma demo_fresh: "fresh_agent demo_agent"
  by (simp add: fresh_agent_def auth_cache_new_def) (simp add: demo_agent_def agent_new_def)

theorem every_signature_covered_witness:
  "\<exists>sg t. sign_op demo_crates None demo_sign_request (agent_run demo_crates 60 demo_agent []) = (Ok sg, t) \<and>
     touched demo_agent t"
proof -
  obtain sg t where run: "sign_op demo_crates None demo_sign_request demo_agent = (Ok sg, t)"
    using demo_sign by blast
  from every_signature_covered [OF demo_fresh _ run, of 60 "[]"] run show ?thesis
    by (auto simp: context_id_def)
qed

theorem every_decryption_covered_witness:
  "\<exists>resp t. extension_op demo_crates None demo_decrypt_ext (agent_run demo_crates 60 demo_agent []) =
     (Ok (Some resp), t) \<and> touched demo_agent t"
proof -
  obtain resp t where run: "extension_op demo_crates None demo_decrypt_ext demo_agent = (Ok (Some resp), t)"
    using demo_decrypt_run by blast
  have "ex_name demo_decrypt_ext = ''decrypt@vt''" by (simp add: demo_decrypt_ext_def)
  from every_decryption_covered [OF demo_fresh _ demo_aead_ok run this, of 60 "[]"] run
  show ?thesis by (auto simp: context_id_def)
qed

section \<open>Contexts without a terminal\<close>

text \<open>
  In per-session mode all callers without a controlling terminal, and all whose process entry
  cannot be read, share the context 0: a grant made for one of them serves every other.
\<close>

theorem no_terminal_shared_context:
  assumes "ag_cache_mode s = PerSession"
    and "\<forall>q \<in> {p1, p2}. case get_proc_bsdinfo (ag_world s) q of None \<Rightarrow> True | Some (_, tty) \<Rightarrow> tty = 0"
  shows "cached_grant s (Some p1) fp = cached_grant s (Some p2) fp"
proof -
  have "get_tty_dev (ag_world s) q = 0" if "q \<in> {p1, p2}" for q
    using that assms(2) by (auto simp: get_tty_dev_def split: option.splits prod.splits)
  then have "get_tty_dev (ag_world s) p1 = get_tty_dev (ag_world s) p2" by simp
  with assms(1) show ?thesis by (simp add: cached_grant_def context_id_def)
qed

theorem no_terminal_shared_context_witness:
  "cached_grant (demo_agent\<lparr>ag_cache_mode := PerSession, ag_auth_cache := (ag_auth_cache demo_agent)
       \<lparr>ac_entries := [(0, ''fp'') \<mapsto> 2000]\<rparr>\<rparr>) (Some 8) ''fp''"
proof -
  let ?s = "demo_agent\<lparr>ag_cache_mode := PerSession, ag_auth_cache := (ag_auth_cache demo_agent)
       \<lparr>ac_entries := [(0, ''fp'') \<mapsto> 2000]\<rparr>\<rparr>"
  have "cached_grant ?s (Some 7) ''fp''"
    by (simp add: cached_grant_def context_id_def get_tty_dev_def get_proc_bsdinfo_def is_authorized_def
        agent_now_def)
  with no_terminal_shared_context [of ?s 7 8 "''fp''"] show ?thesis
    by (simp add: get_proc_bsdinfo_def)
qed

end
