(* ===== verification/Vt_Trail.thy ===== *)
theory Vt_Trail
  imports Vt_Agent_Run
begin

text \<open>
  The audit log read back: every use of a secret through the agent is in it, and it says nothing else.
\<close>

section \<open>The lines of a log\<close>

definition log_lines :: "string \<Rightarrow> string list" where
  "log_lines s = butlast (split_on (CHR 0x0A) s)"

definition whole_lines :: "bytes \<Rightarrow> bool" where
  "whole_lines bs \<longleftrightarrow> bs = [] \<or> last bs = 0x0A"

lemma split_on_mid: "split_on d (s @ d # t) = split_on d s @ split_on d t"
  by (induction s) (auto split: list.splits)

lemma newline_char: "of_bytes [0x0A] = [CHR 0x0A]"
  by code_simp

lemma log_lines_append:
  assumes "whole_lines xs"
  shows "log_lines (of_bytes (xs @ ys)) = log_lines (of_bytes xs) @ log_lines (of_bytes ys)"
proof (cases "xs = []")
  case True
  then show ?thesis by (simp add: log_lines_def of_bytes_def)
next
  case False
  with assms obtain us where xs: "xs = us @ [0x0A]" by (metis append_butlast_last_id whole_lines_def)
  have b: "of_bytes (xs @ zs) = of_bytes us @ CHR 0x0A # of_bytes zs" for zs
    using newline_char by (simp add: xs of_bytes_def)
  show ?thesis
    using b [of "[]"] by (simp add: b log_lines_def split_on_mid butlast_append of_bytes_def)
qed

lemma log_lines_one: "CHR 0x0A \<notin> set l \<Longrightarrow> log_lines (of_bytes (as_bytes l @ [0x0A])) = [l]"
proof -
  assume l: "CHR 0x0A \<notin> set l"
  have "of_bytes (as_bytes l @ [0x0A]) = l @ [CHR 0x0A]" using newline_char by (simp add: of_bytes_def as_bytes_def o_def)
  with l split_on_append [of "CHR 0x0A" l "[]"] show ?thesis by (simp add: log_lines_def)
qed

section \<open>The log of a day\<close>

definition log_bytes :: "string \<Rightarrow> world \<Rightarrow> bytes" where
  "log_bytes d w =
     (case Option.bind (home w) (\<lambda>h. files w (audit_file h d)) of None \<Rightarrow> [] | Some bs \<Rightarrow> bs)"

text \<open>What a reader of the file of day \<open>d\<close> finds: for each line the event, or nothing if the line is not one.\<close>

definition audit_log :: "(string \<Rightarrow> json_object option) \<Rightarrow> string \<Rightarrow> world \<Rightarrow> audit_event option list" where
  "audit_log rd d w = map (\<lambda>l. Option.bind (rd l) json_event) (log_lines (of_bytes (log_bytes d w)))"

text \<open>The directory and the file of any day can be written, and the files end with whole lines.\<close>

definition log_open :: "world \<Rightarrow> bool" where
  "log_open w \<longleftrightarrow>
     (\<exists>h. home w = Some h \<and> mkdir_err w (path_join h ''.vt-yubi/audit'') = None \<and> (\<forall>d. write_err w (audit_file h d) = None)) \<and>
     (\<forall>d. whole_lines (log_bytes d w))"

definition same_trail :: "world \<Rightarrow> world \<Rightarrow> bool" where
  "same_trail w v \<longleftrightarrow> same_env w v \<and> (\<forall>d. log_bytes d v = log_bytes d w)"

text \<open>The log of the day got these entries, and that of no other day any.\<close>

definition grew :: "(string \<Rightarrow> json_object option) \<Rightarrow> audit_event list \<Rightarrow> world \<Rightarrow> world \<Rightarrow> bool" where
  "grew rd es w v \<longleftrightarrow> same_env w v \<and> log_open v \<and>
     (\<forall>d. audit_log rd d v = audit_log rd d w @ (if d = today w then map Some es else []))"

interpretation trail: frame_rel same_trail
  by unfold_locales (auto simp: same_trail_def intro: env.frame_refl env.frame_trans)

lemmas trail_frames [frame_intros] = trail.all

lemma same_files_trail: "within same_env m \<Longrightarrow> within same_files m \<Longrightarrow> within same_trail m"
  by (simp add: within_def same_trail_def same_env_def same_files_def log_bytes_def)

lemma log_open_cong: "same_trail w v \<Longrightarrow> log_open v = log_open w"
  by (simp add: same_trail_def log_open_def same_env_def)

lemma trail_log: "same_trail w v \<Longrightarrow> audit_log rd d v = audit_log rd d w"
  by (simp add: same_trail_def audit_log_def)

lemma trail_today: "same_trail w v \<Longrightarrow> today v = today w" "grew rd es w v \<Longrightarrow> today v = today w"
  by (simp_all add: same_trail_def grew_def same_env_def)

lemma grew_none: "log_open w \<Longrightarrow> same_trail w v \<Longrightarrow> grew rd [] w v"
  using log_open_cong [of w v] trail_log [of w v] by (simp add: grew_def) (simp add: same_trail_def)

lemma grew_after: "same_trail u w \<Longrightarrow> grew rd es w v \<Longrightarrow> grew rd es u v"
  using trail_log [of u w] trail_today(1) [of u w]
  by (auto simp: grew_def same_trail_def intro: env.frame_trans)

lemma grew_before: "grew rd es w v \<Longrightarrow> same_trail v u \<Longrightarrow> grew rd es w u"
  using log_open_cong [of v u] trail_log [of v u] by (auto simp: grew_def same_trail_def intro: env.frame_trans)

lemma audit_file_inj [simp]: "audit_file h d = audit_file h d' \<longleftrightarrow> d = d'"
  by (simp add: audit_file_def path_join_def)

lemma write_event_grows:
  assumes "audit_json_ok c rd" and "log_open w"
  shows "\<exists>v. write_event c e w = (Ok (), v) \<and> grew rd [e] w v"
proof -
  obtain l where l: "js_audit c e = Inr l" "CHR 0x0A \<notin> set l" "rd l = Some (event_json e)"
    using assms(1) by (auto simp: audit_json_ok_def)
  obtain h where h: "home w = Some h" and open_dir: "mkdir_err w (path_join h ''.vt-yubi/audit'') = None"
    "\<forall>d. write_err w (audit_file h d) = None" and wl: "\<forall>d. whole_lines (log_bytes d w)"
    using assms(2) by (auto simp: log_open_def)
  have wr: "audit_writable w" using h open_dir by (simp add: audit_writable_def)
  obtain v where run: "write_event c e w = (Ok (), v)"
    using write_event_effect [of c e w] by (cases "write_event c e w") simp
  then have f: "files v = appended c e w" using write_event_effect [of c e w] by simp
  have env: "same_env w v" using withinD [OF only_audit_write run] only_audit_frames by blast
  then have b: "log_bytes d v = (if d = today w then log_bytes d w @ as_bytes l @ [0x0A] else log_bytes d w)" for d
    using h l(1) wr by (auto simp: log_bytes_def f appended_def same_env_def Let_def split: option.split)
  then have "whole_lines (log_bytes d v)" for d using wl by (simp add: whole_lines_def)
  then have "log_open v" using h open_dir env by (auto simp: log_open_def same_env_def)
  moreover have "audit_log rd d v = audit_log rd d w @ (if d = today w then map Some [e] else [])" for d
  proof -
    have "log_lines (of_bytes (log_bytes d w @ as_bytes l @ [0x0A])) = log_lines (of_bytes (log_bytes d w)) @ [l]"
      by (simp only: log_lines_append [OF wl [rule_format, of d]] log_lines_one [OF l(2)])
    then show ?thesis using l(3) by (cases "d = today w") (simp_all add: audit_log_def b)
  qed
  ultimately show ?thesis using run env by (auto simp: grew_def)
qed

section \<open>Entries\<close>

definition sign_entry :: "i32 option \<Rightarrow> world \<Rightarrow> string \<Rightarrow> string \<Rightarrow> bool \<Rightarrow> audit_event" where
  "sign_entry p w label fp ok =
     \<lparr>ae_time = timestamp w, ae_op = ''sign'', ae_peer_pid = p, ae_caller = peer_caller p w, ae_host = None,
      ae_command = None, ae_items = None, ae_descriptions = [], ae_reason = None, ae_key = Some label,
      ae_fingerprint = Some fp, ae_result = (if ok then ''approved'' else ''denied'')\<rparr>"

definition decrypt_entry :: "i32 option \<Rightarrow> world \<Rightarrow> decrypt_req \<Rightarrow> bool \<Rightarrow> audit_event" where
  "decrypt_entry p w req ok =
     \<lparr>ae_time = timestamp w, ae_op = ''decrypt'', ae_peer_pid = p, ae_caller = peer_caller p w,
      ae_host = Some (dr_host req), ae_command = Some (dr_command req), ae_items = Some (length (dr_items req)),
      ae_descriptions = filter (\<lambda>d. d \<noteq> []) (dr_descriptions req), ae_reason = None, ae_key = None,
      ae_fingerprint = None, ae_result = (if ok then ''approved'' else ''denied'')\<rparr>"

definition auth_entry :: "i32 option \<Rightarrow> world \<Rightarrow> auth_req \<Rightarrow> bool \<Rightarrow> audit_event" where
  "auth_entry p w req ok =
     \<lparr>ae_time = timestamp w, ae_op = ''auth'', ae_peer_pid = p, ae_caller = peer_caller p w,
      ae_host = Some (ar_host req), ae_command = None, ae_items = None, ae_descriptions = [],
      ae_reason = Some (ar_reason req), ae_key = None, ae_fingerprint = None,
      ae_result = (if ok then ''approved'' else ''denied'')\<rparr>"

definition encrypt_entry :: "i32 option \<Rightarrow> world \<Rightarrow> nat \<Rightarrow> audit_event" where
  "encrypt_entry p w n =
     \<lparr>ae_time = timestamp w, ae_op = ''encrypt'', ae_peer_pid = p, ae_caller = peer_caller p w, ae_host = None,
      ae_command = None, ae_items = Some n, ae_descriptions = [], ae_reason = None, ae_key = None,
      ae_fingerprint = None, ae_result = ''ok''\<rparr>"

lemma log_entries:
  assumes "timestamp w = timestamp y"
  shows "log_sign c p exe (peer_caller p w) lbl fp ok y =
     (if exe = ''ssh'' then (Ok (), y) else write_event c (sign_entry p w lbl fp ok) y)"
    and "log_decrypt c p (peer_caller p w) req ok y = write_event c (decrypt_entry p w req ok) y"
    and "log_auth c p (peer_caller p w) areq ok y = write_event c (auth_entry p w areq ok) y"
    and "log_encrypt c p (peer_caller p w) n y = write_event c (encrypt_entry p w n) y"
  by (simp_all add: assms log_sign_def log_decrypt_def log_auth_def log_encrypt_def is_outbound_ssh_def sign_entry_def
      decrypt_entry_def auth_entry_def encrypt_entry_def result_str_def)

lemma caller_cong:
  assumes "same_env w v"
  shows "peer_caller p v = peer_caller p w" and "peer_name p v = peer_name p w"
proof -
  have b: "get_proc_bsdinfo v = get_proc_bsdinfo w" "get_proc_path v = get_proc_path w"
    using assms by (auto simp: same_env_def get_proc_bsdinfo_def get_proc_path_def fun_eq_iff)
  then have n: "get_process_name v = get_process_name w" by (simp add: get_process_name_def fun_eq_iff)
  have "describe_loop v k x = describe_loop w k x" for k x
    by (induction k arbitrary: x) (simp_all add: b cong: if_cong option.case_cong)
  then have "describe_caller v = describe_caller w" by (simp add: describe_caller_def fun_eq_iff)
  then show "peer_caller p v = peer_caller p w" "peer_name p v = peer_name p w"
    using n by (simp_all add: peer_caller_def peer_name_def)
qed

lemma entry_cong:
  assumes "same_env w v"
  shows "sign_entry p v = sign_entry p w" and "decrypt_entry p v = decrypt_entry p w"
    and "auth_entry p v = auth_entry p w" and "encrypt_entry p v = encrypt_entry p w"
  using caller_cong [OF assms] assms
  by (simp_all add: fun_eq_iff sign_entry_def decrypt_entry_def auth_entry_def encrypt_entry_def same_env_def)

section \<open>The handlers\<close>

definition agent_trail :: "agent \<Rightarrow> agent \<Rightarrow> bool" where
  "agent_trail s t \<longleftrightarrow> same_trail (ag_world s) (ag_world t)"

interpretation agent_trail: frame_rel agent_trail
  by unfold_locales (auto simp: agent_trail_def intro: trail.frame_refl trail.frame_trans)

lemmas agent_trail_frames [frame_intros] = agent_trail.all

lemma trail_in_world [frame_intros]: "within same_trail m \<Longrightarrow> within agent_trail (in_world m)"
  by (rule within_in_world) (simp_all add: agent_trail_def)

lemma trail_loads [frame_intros]: "within same_trail (load_all_keys c k)"
  using load_all_keys_state [of c k] by (simp add: within_def) (metis prod.collapse trail.frame_refl)

lemma trail_steps [frame_intros]:
  "within agent_trail (io_upd (\<lambda>s. s\<lparr>ag_keys := f1 s\<rparr>))" "within agent_trail (io_upd (\<lambda>s. s\<lparr>ag_idle_cleared := f2 s\<rparr>))"
  "within agent_trail (io_upd (\<lambda>s. s\<lparr>ag_last_activity := f3 s\<rparr>))" "within agent_trail (io_upd (\<lambda>s. s\<lparr>ag_auth_cache := f4 s\<rparr>))"
  "within agent_trail (io_upd (\<lambda>s. s\<lparr>ag_locked := f5 s\<rparr>))" "within agent_trail (io_upd (\<lambda>s. s\<lparr>ag_lock_passphrase := f6 s\<rparr>))"
  by (simp_all add: within_def agent_trail_def trail.frame_refl)

lemma trail_verify [frame_intros]:
  "within agent_trail (verify_yubikey_presence c m)"
  unfolding verify_yubikey_presence_def by (intro frame_intros same_files_trail)

lemma trail_check [frame_intros]:
  "within agent_trail (check_or_prompt_auth c p fp m b)"
  unfolding check_or_prompt_auth_def cache_grant_def by (intro frame_intros)

lemma trail_ensure [frame_intros]:
  "within agent_trail (ensure_keys_loaded c)" "within agent_trail touch_activity"
  unfolding ensure_keys_loaded_def touch_activity_def by (intro frame_intros)+

lemma logged_after:
  assumes "audit_json_ok c rd" and "log_open w" and "same_trail w (ag_world v)"
    and "m (ag_world v) = write_event c e (ag_world v)"
  obtains x where "in_world m v = (Ok (), v\<lparr>ag_world := x\<rparr>)" and "grew rd [e] w x"
    and "yk_log x = yk_log (ag_world v)"
proof -
  have "log_open (ag_world v)" using assms(2,3) log_open_cong by blast
  then obtain x where x: "write_event c e (ag_world v) = (Ok (), x)" "grew rd [e] (ag_world v) x"
    using write_event_grows [OF assms(1)] by blast
  then have "in_world m v = (Ok (), v\<lparr>ag_world := x\<rparr>)" by (simp add: assms(4) in_world_def)
  then show thesis
    using that grew_after [OF assms(3) x(2)] only_audit_keeps(3) [OF withinD [OF only_audit_write x(1)]] by blast
qed

lemma io_bind_of: "io_bind (io_of (of_sum f (Inr x))) g = g x" "io_bind (io_get h) k s = k (h s) s"
  by (simp_all add: io_bind_def fun_eq_iff)

text \<open>
  A handler that asks, logs the answer (unless \<open>b\<close> says that nobody is to know) and goes on without a trace: it leaves
  the entry with the answer, or fails without one.
\<close>

lemma asked_and_logged:
  assumes "audit_json_ok c rd" and "log_open (ag_world u)" and "within agent_trail ask"
    and lg: "\<And>ok y. timestamp (ag_world u) = timestamp y \<Longrightarrow> lg ok y = (if b then write_event c (e ok) y else (Ok (), y))"
    and rest: "\<And>s. snd (rest s) = s"
    and run: "io_bind ask (\<lambda>ok. io_seq (in_world (lg ok)) (if \<not> ok then io_fail AgentFailure else rest)) u = (r, v)"
  shows "(\<exists>ok v1. ask u = (Ok ok, v1) \<and> yk_log (ag_world v) = yk_log (ag_world v1) \<and>
      grew rd (if b then [e ok] else []) (ag_world u) (ag_world v) \<and> (\<not> ok \<longrightarrow> r = Err AgentFailure)) \<or>
    (same_trail (ag_world u) (ag_world v) \<and> (\<forall>x. r \<noteq> Ok x))"
proof -
  obtain q v1 where chk: "ask u = (q, v1)" by fastforce
  have st: "same_trail (ag_world u) (ag_world v1)"
    using withinD [OF assms(3) chk] by (simp add: agent_trail_def)
  show ?thesis
  proof (cases q)
    case (Ok ok)
    have l: "lg ok (ag_world v1) = (if b then write_event c (e ok) (ag_world v1) else (Ok (), ag_world v1))"
      using st by (intro lg) (simp add: same_trail_def same_env_def)
    have "\<exists>x. in_world (lg ok) v1 = (Ok (), v1\<lparr>ag_world := x\<rparr>) \<and> grew rd (if b then [e ok] else []) (ag_world u) x \<and>
      yk_log x = yk_log (ag_world v1)"
    proof (cases b)
      case True
      then show ?thesis using logged_after [OF assms(1,2) st, of "lg ok" "e ok"] l by (metis (full_types))
    next
      case False
      then show ?thesis using l grew_none [OF assms(2) st] by (intro exI [of _ "ag_world v1"]) (simp add: in_world_def)
    qed
    then obtain x where x: "in_world (lg ok) v1 = (Ok (), v1\<lparr>ag_world := x\<rparr>)"
      and g: "grew rd (if b then [e ok] else []) (ag_world u) x" "yk_log x = yk_log (ag_world v1)" by blast
    have "ag_world v = x \<and> (\<not> ok \<longrightarrow> r = Err AgentFailure)"
      using run chk x Ok rest [of "v1\<lparr>ag_world := x\<rparr>"] by (cases ok) (auto simp: io_bind_def io_seq_def)
    then show ?thesis using chk g Ok by auto
  qed (use run chk st in \<open>auto simp: io_bind_def\<close>)
qed

lemma handle_decrypt_trail:
  assumes "audit_json_ok c rd" and "log_open (ag_world u)"
    and "handle_decrypt c p (peer_caller p (ag_world u)) plain u = (r, v)"
  shows "(\<exists>req ok v1. de (js_decrypt_req c) plain = Inr req \<and>
      check_or_prompt_auth c p ''decrypt@vt'' (format_decrypt_prompt req (peer_caller p (ag_world u))) True u = (Ok ok, v1) \<and>
      yk_log (ag_world v) = yk_log (ag_world v1) \<and>
      grew rd [decrypt_entry p (ag_world u) req ok] (ag_world u) (ag_world v) \<and> (\<not> ok \<longrightarrow> r = Err AgentFailure)) \<or>
    (same_trail (ag_world u) (ag_world v) \<and> (\<forall>x. r \<noteq> Ok x))"
proof (cases "de (js_decrypt_req c) plain")
  case (Inl e)
  then show ?thesis using assms(3) by (auto simp: handle_decrypt_def io_bind_def trail.frame_refl)
next
  case (Inr req)
  let ?cl = "peer_caller p (ag_world u)"
  let ?rest = "io_bind (io_get ag_passphrase) (\<lambda>passphrase. io_bind (io_of (aes_new passphrase)) (\<lambda>mac_cipher.
       io_bind (io_get (\<lambda>s. do_decrypt c mac_cipher (unix_time (ag_world s)) (dr_items req))) (\<lambda>r.
       io_bind (io_of r) (\<lambda>result. io_of (of_sum Msg (ser (js_results c) result))))))"
  have rest: "snd (?rest s) = s" for s
    by (auto simp: io_bind_def split: outcome.splits)
  have "io_bind (check_or_prompt_auth c p ''decrypt@vt'' (format_decrypt_prompt req ?cl) True)
     (\<lambda>ok. io_seq (in_world (log_decrypt c p ?cl req ok)) (if \<not> ok then io_fail AgentFailure else ?rest)) u = (r, v)"
    using assms(3) by (simp add: handle_decrypt_def io_bind_of Inr)
  from asked_and_logged [where b = True, OF assms(1,2) trail_check _ rest this, of "decrypt_entry p (ag_world u) req"] Inr
  show ?thesis by (auto simp: log_entries(2))
qed

lemma handle_auth_trail:
  assumes "audit_json_ok c rd" and "log_open (ag_world u)"
    and "handle_auth c p (peer_caller p (ag_world u)) plain u = (r, v)"
  shows "(\<exists>req ok v1. de (js_auth_req c) plain = Inr req \<and>
      verify_yubikey_presence c (format_auth_prompt req (peer_caller p (ag_world u))) u = (Ok ok, v1) \<and>
      yk_log (ag_world v) = yk_log (ag_world v1) \<and>
      grew rd [auth_entry p (ag_world u) req ok] (ag_world u) (ag_world v) \<and> (\<not> ok \<longrightarrow> r = Err AgentFailure)) \<or>
    (same_trail (ag_world u) (ag_world v) \<and> (\<forall>x. r \<noteq> Ok x))"
proof (cases "de (js_auth_req c) plain")
  case (Inl e)
  then show ?thesis using assms(3) by (auto simp: handle_auth_def io_bind_def trail.frame_refl)
next
  case (Inr req)
  let ?cl = "peer_caller p (ag_world u)" and ?rest = "io_of (of_sum Msg (ser (js_auth_res c) \<lparr>as_approved = True\<rparr>))"
  have rest: "snd (?rest s) = s" for s :: agent by simp
  have "io_bind (verify_yubikey_presence c (format_auth_prompt req ?cl))
     (\<lambda>ok. io_seq (in_world (log_auth c p ?cl req ok)) (if \<not> ok then io_fail AgentFailure else ?rest)) u = (r, v)"
    using assms(3) by (simp add: handle_auth_def io_bind_of Inr)
  from asked_and_logged [where b = True, OF assms(1,2) trail_verify _ rest this, of "auth_entry p (ag_world u) req"] Inr
  show ?thesis by (auto simp: log_entries(3))
qed

lemma handle_encrypt_trail:
  assumes "audit_json_ok c rd" and "log_open (ag_world u)"
    and "handle_encrypt c p (peer_caller p (ag_world u)) plain u = (r, v)"
  shows "(\<exists>items. de (js_encrypt_items c) plain = Inr items \<and>
      grew rd [encrypt_entry p (ag_world u) (length items)] (ag_world u) (ag_world v)) \<or>
    (same_trail (ag_world u) (ag_world v) \<and> (\<forall>x. r \<noteq> Ok x))"
proof (cases "de (js_encrypt_items c) plain")
  case (Inl e)
  then show ?thesis using assms(3) by (auto simp: handle_encrypt_def io_bind_def trail.frame_refl)
next
  case (Inr items)
  let ?cl = "peer_caller p (ag_world u)" and ?e = "encrypt_entry p (ag_world u) (length items)"
  have "log_encrypt c p ?cl (length items) (ag_world u) = write_event c ?e (ag_world u)"
    by (intro log_entries) simp
  from logged_after [OF assms(1,2) trail.frame_refl, of "log_encrypt c p ?cl (length items)", OF this]
  obtain x where x: "in_world (log_encrypt c p ?cl (length items)) u = (Ok (), u\<lparr>ag_world := x\<rparr>)" and g: "grew rd [?e] (ag_world u) x"
    by blast
  have "same_trail x (ag_world v)"
  proof -
    have d: "within same_trail (do_encrypt c a items)" for a by (intro same_files_trail frame_intros)
    have "within agent_trail (io_bind (io_of (aes_new k)) (\<lambda>mac_cipher.
       io_bind (in_world (do_encrypt c mac_cipher items)) (\<lambda>result.
       io_of (of_sum Msg (ser (js_results c) result)))))" for k by (intro frame_intros d)
    moreover have "io_bind (io_of (aes_new (ag_passphrase u))) (\<lambda>mac_cipher.
       io_bind (in_world (do_encrypt c mac_cipher items)) (\<lambda>result.
       io_of (of_sum Msg (ser (js_results c) result)))) (u\<lparr>ag_world := x\<rparr>) = (r, v)"
      using assms(3) x by (simp add: handle_encrypt_def io_bind_of Inr io_seq_def
          io_bind_def [of "in_world (log_encrypt c p ?cl (length items))"])
    ultimately have "agent_trail (u\<lparr>ag_world := x\<rparr>) v" by (rule withinD)
    then show ?thesis by (simp add: agent_trail_def)
  qed
  then show ?thesis using Inr grew_before [OF g] by blast
qed

section \<open>Requests\<close>

text \<open>What the transport key opens in an extension.\<close>

definition opened :: "crates \<Rightarrow> agent \<Rightarrow> extension \<Rightarrow> bytes outcome" where
  "opened c s x = aes_decrypt c (AesGcmCrypto (ag_auth_token s)) (ex_details x)"

text \<open>
  The entry \<open>e\<close> is a true record of the request, which took the agent from \<open>s\<close> to \<open>t\<close>: it names the caller and
  what was asked for, and says \<open>approved\<close> only if there was a live grant or a touch (for \<open>auth\<close>, a touch).
\<close>

fun records :: "crates \<Rightarrow> i32 option \<Rightarrow> request \<Rightarrow> agent \<Rightarrow> agent \<Rightarrow> audit_event \<Rightarrow> bool" where
  "records c p (ReqSign q) s t e \<longleftrightarrow>
     (\<exists>label ok. e = sign_entry p (ag_world s) label (fingerprint_str c (sr_pubkey q)) ok \<and>
        (ok \<longrightarrow> cached_grant s p (fingerprint_str c (sr_pubkey q)) \<or> touched s t))"
| "records c p (ReqExtension x) s t e \<longleftrightarrow>
     (\<exists>plain. opened c s x = Ok plain \<and>
       (ex_name x = ''encrypt@vt'' \<and>
          (\<exists>items. de (js_encrypt_items c) plain = Inr items \<and> e = encrypt_entry p (ag_world s) (length items)) \<or>
        ex_name x = ''decrypt@vt'' \<and>
          (\<exists>req ok. de (js_decrypt_req c) plain = Inr req \<and> e = decrypt_entry p (ag_world s) req ok \<and>
             (ok \<longrightarrow> cached_grant s p ''decrypt@vt'' \<or> touched s t)) \<or>
        ex_name x = ''auth@vt'' \<and>
          (\<exists>req ok. de (js_auth_req c) plain = Inr req \<and> e = auth_entry p (ag_world s) req ok \<and> (ok \<longrightarrow> touched s t))))"
| "records c p _ s t e \<longleftrightarrow> False"

text \<open>The request got a signature, other than for the \<open>ssh\<close> client, or an answer.\<close>

fun used :: "crates \<Rightarrow> i32 option \<Rightarrow> request \<Rightarrow> agent \<Rightarrow> bool" where
  "used c p (ReqSign q) s \<longleftrightarrow> (\<exists>sg. fst (sign_op c p q s) = Ok sg) \<and> peer_name p (ag_world s) \<noteq> ''ssh''"
| "used c p (ReqExtension x) s \<longleftrightarrow> (\<exists>resp. fst (extension_op c p x s) = Ok (Some resp))"
| "used c p _ s \<longleftrightarrow> False"

definition denied :: "audit_event \<Rightarrow> bool" where
  "denied e \<longleftrightarrow> ae_result e = ''denied''"

lemma denied_entries [simp]:
  "denied (sign_entry p w l fp ok) \<longleftrightarrow> \<not> ok" "denied (decrypt_entry p w req ok) \<longleftrightarrow> \<not> ok"
  "denied (auth_entry p w areq ok) \<longleftrightarrow> \<not> ok" "\<not> denied (encrypt_entry p w n)"
  by (simp_all add: denied_def sign_entry_def decrypt_entry_def auth_entry_def encrypt_entry_def)

text \<open>One request: at most one entry, which is true, and one that is not a denial if the request was a use.\<close>

definition request_logged :: "crates \<Rightarrow> (string \<Rightarrow> json_object option) \<Rightarrow> i32 option \<Rightarrow> request \<Rightarrow> agent \<Rightarrow> agent \<Rightarrow> bool" where
  "request_logged c rd p r s t \<longleftrightarrow>
     (\<exists>es. grew rd es (ag_world s) (ag_world t) \<and> length es \<le> 1 \<and> (\<forall>e \<in> set es. records c p r s t e) \<and>
        (used c p r s \<longrightarrow> (\<exists>e. es = [e] \<and> \<not> denied e)))"

lemma logged_nothing: "grew rd [] (ag_world s) (ag_world t) \<Longrightarrow> \<not> used c p r s \<Longrightarrow> request_logged c rd p r s t"
  unfolding request_logged_def by (intro exI [of _ "[]"]) simp

lemma logged_none:
  "log_open (ag_world s) \<Longrightarrow> agent_trail s t \<Longrightarrow> \<not> used c p r s \<Longrightarrow> request_logged c rd p r s t"
  by (intro logged_nothing) (simp_all add: agent_trail_def grew_none)

lemma logged_one:
  "grew rd [e] (ag_world s) (ag_world t) \<Longrightarrow> records c p r s t e \<Longrightarrow> (used c p r s \<Longrightarrow> \<not> denied e) \<Longrightarrow>
    request_logged c rd p r s t"
  unfolding request_logged_def by (intro exI [of _ "[e]"]) simp

lemma consent_back:
  assumes "no_consent s u" and "same_config s u" and "check_or_prompt_auth c p fp m b u = (Ok True, v)"
    and "yk_log (ag_world t) = yk_log (ag_world v)"
  shows "cached_grant s p fp \<or> touched s t"
  using check_approved [OF assms(3)] cached_grant_cong [OF assms(1,2)] assms(1,4)
  by (auto simp: touched_def no_consent_def same_device_def)

text \<open>A signature: the keys are loaded, activity is noted, and then the question is asked.\<close>

lemma sign_unlocked_step:
  assumes "ensure_keys_loaded c s = (Ok (), u0)" and u: "u = u0\<lparr>ag_last_activity := agent_now u0\<rparr>"
  shows "agent_trail s u" and "no_consent s u" and "same_config s u"
    and "sign_unlocked c p q s =
      (case map_of (ag_keys u) (fingerprint_str c (sr_pubkey q)) of
         None \<Rightarrow> (Err AgentFailure, u)
       | Some k \<Rightarrow>
           (let fp = fingerprint_str c (sr_pubkey q); lbl = (if pk_comment k = [] then fp else pk_comment k);
              name = peer_name p (ag_world u) in
            io_bind (check_or_prompt_auth c p fp (sign_message lbl name) False)
              (\<lambda>ok. io_seq (in_world (log_sign c p name (peer_caller p (ag_world u)) lbl fp ok))
                (if \<not> ok then io_fail AgentFailure else io_of (sign_with_key c k (sr_data q)))) u))"
proof -
  show "agent_trail s u" using withinD [OF trail_ensure(1) assms(1)] by (simp add: u agent_trail_def)
  show "no_consent s u" "same_config s u"
    using withinD [OF ensure_frames(3) assms(1)] withinD [OF ensure_frames(1) assms(1)] last_activity_frames [of u0]
    unfolding u by (blast intro: noconsent.frame_trans config.frame_trans)+
  have t: "touch_activity u0 = (Ok (), u)" by (simp add: touch_activity_def u)
  show "sign_unlocked c p q s =
      (case map_of (ag_keys u) (fingerprint_str c (sr_pubkey q)) of
         None \<Rightarrow> (Err AgentFailure, u)
       | Some k \<Rightarrow>
           (let fp = fingerprint_str c (sr_pubkey q); lbl = (if pk_comment k = [] then fp else pk_comment k);
              name = peer_name p (ag_world u) in
            io_bind (check_or_prompt_auth c p fp (sign_message lbl name) False)
              (\<lambda>ok. io_seq (in_world (log_sign c p name (peer_caller p (ag_world u)) lbl fp ok))
                (if \<not> ok then io_fail AgentFailure else io_of (sign_with_key c k (sr_data q)))) u))"
    by (simp add: sign_unlocked_def io_seq_def io_bind_def [of "ensure_keys_loaded c"] io_bind_def [of touch_activity]
        assms(1) t Let_def io_bind_of split: option.split)
qed

lemma sign_found_logged:
  assumes "audit_json_ok c rd" and "log_open (ag_world u)"
    and "io_bind (check_or_prompt_auth c p fp (sign_message lbl name) False)
       (\<lambda>ok. io_seq (in_world (log_sign c p name (peer_caller p (ag_world u)) lbl fp ok))
         (if \<not> ok then io_fail AgentFailure else io_of sg)) u = (r, t)"
  shows "(\<exists>ok v1. check_or_prompt_auth c p fp (sign_message lbl name) False u = (Ok ok, v1) \<and>
      yk_log (ag_world t) = yk_log (ag_world v1) \<and>
      grew rd (if name \<noteq> ''ssh'' then [sign_entry p (ag_world u) lbl fp ok] else []) (ag_world u) (ag_world t) \<and>
      (\<not> ok \<longrightarrow> r = Err AgentFailure)) \<or>
    (same_trail (ag_world u) (ag_world t) \<and> (\<forall>x. r \<noteq> Ok x))"
proof -
  have lg: "log_sign c p name (peer_caller p (ag_world u)) lbl fp ok y =
    (if name \<noteq> ''ssh'' then write_event c (sign_entry p (ag_world u) lbl fp ok) y else (Ok (), y))"
    if "timestamp (ag_world u) = timestamp y" for ok y
    by (simp add: log_entries(1) [OF that])
  have "snd (io_of sg z) = z" for z :: agent by simp
  from asked_and_logged [OF assms(1,2) trail_check lg this assms(3)] show ?thesis .
qed

lemma sign_logged:
  assumes "audit_json_ok c rd" and "log_open (ag_world s)"
  shows "request_logged c rd p (ReqSign q) s (snd (sign_op c p q s))"
proof (cases "ag_locked s")
  case True
  then show ?thesis
    by (intro logged_none [OF assms(2)]) (auto simp: sign_op_def io_bind_def agent_trail.frame_refl)
next
  case unlocked: False
  then have eq: "sign_op c p q s = sign_unlocked c p q s" by (simp add: sign_op_def io_bind_def)
  let ?fp = "fingerprint_str c (sr_pubkey q)"
  obtain q0 u0 where e: "ensure_keys_loaded c s = (q0, u0)" by fastforce
  show ?thesis
  proof (cases q0)
    case (Ok x)
    define u where "u = u0\<lparr>ag_last_activity := agent_now u0\<rparr>"
    have "ensure_keys_loaded c s = (Ok (), u0)" using e Ok by simp
    note step = sign_unlocked_step [OF this u_def]
    have lo: "log_open (ag_world u)" using step(1) assms(2) log_open_cong by (simp add: agent_trail_def)
    show ?thesis
    proof (cases "map_of (ag_keys u) ?fp")
      case None
      then show ?thesis
        using step(1,4) by (intro logged_none [OF assms(2)]) (simp_all add: eq)
    next
      case (Some k)
      let ?lbl = "if pk_comment k = [] then ?fp else pk_comment k" and ?name = "peer_name p (ag_world u)"
      obtain r t where run: "sign_unlocked c p q s = (r, t)" by fastforce
      with step(4) Some have "io_bind (check_or_prompt_auth c p ?fp (sign_message ?lbl ?name) False)
         (\<lambda>ok. io_seq (in_world (log_sign c p ?name (peer_caller p (ag_world u)) ?lbl ?fp ok))
           (if \<not> ok then io_fail AgentFailure else io_of (sign_with_key c k (sr_data q)))) u = (r, t)"
        by (simp add: Let_def)
      from sign_found_logged [OF assms(1) lo this]
      consider (asked) ok v1 where "check_or_prompt_auth c p ?fp (sign_message ?lbl ?name) False u = (Ok ok, v1)"
          "yk_log (ag_world t) = yk_log (ag_world v1)" "\<not> ok \<longrightarrow> r = Err AgentFailure"
          "grew rd (if ?name \<noteq> ''ssh'' then [sign_entry p (ag_world u) ?lbl ?fp ok] else []) (ag_world u) (ag_world t)"
        | (failed) "same_trail (ag_world u) (ag_world t)" "\<forall>x. r \<noteq> Ok x"
        by blast
      then show ?thesis
      proof cases
        case asked
        have env: "same_env (ag_world s) (ag_world u)" using step(1) by (simp add: agent_trail_def same_trail_def)
        have consent: "cached_grant s p ?fp \<or> touched s t" if ok
          using consent_back [OF step(2,3) _ asked(2)] asked(1) that by simp
        have g: "grew rd (if ?name \<noteq> ''ssh'' then [sign_entry p (ag_world s) ?lbl ?fp ok] else []) (ag_world s) (ag_world t)"
          by (rule grew_after [OF step(1) [unfolded agent_trail_def] asked(4), unfolded entry_cong(1) [OF env]])
        show ?thesis
        proof (cases "?name = ''ssh''")
          case True
          with g show ?thesis
            using caller_cong(2) [OF env] by (intro logged_nothing) (simp_all add: eq run)
        next
          case False
          with g show ?thesis
            using consent asked(3) by (intro logged_one [of rd "sign_entry p (ag_world s) ?lbl ?fp ok"]) (auto simp: eq run)
        qed
      next
        case failed
        with run step(1) show ?thesis
          by (intro logged_none [OF assms(2)]) (auto simp: eq agent_trail_def intro: trail.frame_trans)
      qed
    qed
  qed (use e withinD [OF trail_ensure(1) e] in
      \<open>auto simp: eq sign_unlocked_def io_bind_def io_seq_def intro!: logged_none [OF assms(2)]\<close>)
qed

lemma extension_unlocked_step:
  assumes "ex_name x \<in> {''encrypt@vt'', ''decrypt@vt'', ''auth@vt''}" and u: "u = s\<lparr>ag_last_activity := agent_now s\<rparr>"
  shows "extension_unlocked c p x s =
    (case aes_new (ag_auth_token s) of
       Ok a \<Rightarrow>
         (case opened c s x of
            Ok plain \<Rightarrow>
              io_bind
                (if ex_name x = ''encrypt@vt'' then handle_encrypt c p (peer_caller p (ag_world u)) plain
                 else if ex_name x = ''decrypt@vt'' then handle_decrypt c p (peer_caller p (ag_world u)) plain
                 else handle_auth c p (peer_caller p (ag_world u)) plain) (\<lambda>bs.
              io_bind (in_world (aes_encrypt c a bs)) (\<lambda>enc.
              io_ret (Some \<lparr>ex_name = ex_name x, ex_details = enc\<rparr>))) u
          | _ \<Rightarrow> (Err AgentFailure, u))
     | Err e \<Rightarrow> (Err e, u) | Panic m \<Rightarrow> (Panic m, u))"
proof -
  have t: "touch_activity s = (Ok (), u)" "ag_auth_token u = ag_auth_token s" by (simp_all add: touch_activity_def u)
  define h where "h = (\<lambda>cl plain. if ex_name x = ''encrypt@vt'' then handle_encrypt c p cl plain
     else if ex_name x = ''decrypt@vt'' then handle_decrypt c p cl plain else handle_auth c p cl plain)"
  have h: "(if ex_name x = ''encrypt@vt'' then handle_encrypt c p cl plain
     else if ex_name x = ''decrypt@vt'' then handle_decrypt c p cl plain else handle_auth c p cl plain) = h cl plain" for cl plain
    by (simp add: h_def)
  show ?thesis
  proof (cases "aes_new (ag_auth_token s)")
    case (Ok a)
    then have a: "a = AesGcmCrypto (ag_auth_token s)" by (simp add: aes_new_eq_Ok)
    have np: "opened c s x \<noteq> Panic m" for m using aes_decrypt_no_panic by (simp add: opened_def)
    show ?thesis
      using assms(1) t Ok np unfolding extension_unlocked_def h
      by (cases "opened c s x") (simp_all add: io_bind_def io_seq_def io_map_err_def opened_def a)
  qed (use assms(1) t in \<open>simp_all add: extension_unlocked_def io_seq_def io_bind_def\<close>)
qed

text \<open>What the answer to a handler adds: nothing in the log, nothing at the device.\<close>

lemma answered_trail:
  assumes "io_bind h (\<lambda>bs. io_bind (in_world (aes_encrypt c a bs)) (\<lambda>enc. io_ret (f enc))) u = (r, t)" and "h u = (q, v)"
  shows "same_trail (ag_world v) (ag_world t)" and "yk_log (ag_world t) = yk_log (ag_world v)"
    and "\<forall>x. q \<noteq> Ok x \<Longrightarrow> \<forall>x. r \<noteq> Ok x"
proof -
  have e: "within same_trail (aes_encrypt c a bs)" for bs by (intro same_files_trail frame_intros)
  show "same_trail (ag_world v) (ag_world t)" "yk_log (ag_world t) = yk_log (ag_world v)"
    "\<forall>x. q \<noteq> Ok x \<Longrightarrow> \<forall>x. r \<noteq> Ok x"
    using assms e aes_frames(3)
    by (auto simp: io_bind_def in_world_def within_def same_device_def trail.frame_refl
        split: outcome.splits prod.splits) (metis snd_conv)+
qed

lemma extension_logged:
  assumes "audit_json_ok c rd" and "log_open (ag_world s)"
  shows "request_logged c rd p (ReqExtension x) s (snd (extension_op c p x s))"
proof (cases "ag_locked s \<or> ex_name x \<notin> {''encrypt@vt'', ''decrypt@vt'', ''auth@vt''}")
  case True
  then show ?thesis
    by (intro logged_none [OF assms(2)])
      (auto simp: extension_op_def extension_unlocked_def io_bind_def agent_trail.frame_refl)
next
  case False
  define u where "u = s\<lparr>ag_last_activity := agent_now s\<rparr>"
  have eq: "extension_op c p x s = extension_unlocked c p x s" using False by (simp add: extension_op_def io_bind_def)
  note step = extension_unlocked_step [OF _ u_def, of x c p]
  have w: "ag_world u = ag_world s" by (simp add: u_def)
  have su: "agent_trail s u" "no_consent s u" "same_config s u"
    using last_activity_frames [of s] by (simp_all add: agent_trail_def u_def trail.frame_refl)
  have refused: ?thesis if "extension_unlocked c p x s = (q, u)" "\<forall>y. q \<noteq> Ok y" for q
    using that su(1) by (intro logged_none [OF assms(2)]) (auto simp: eq)
  let ?cl = "peer_caller p (ag_world u)"
  let ?h = "\<lambda>plain. if ex_name x = ''encrypt@vt'' then handle_encrypt c p ?cl plain
    else if ex_name x = ''decrypt@vt'' then handle_decrypt c p ?cl plain else handle_auth c p ?cl plain"
  show ?thesis
  proof (cases "\<exists>a plain. aes_new (ag_auth_token s) = Ok a \<and> opened c s x = Ok plain")
    case False
    with step \<open>\<not> (ag_locked s \<or> _)\<close> refused show ?thesis
      by (cases "aes_new (ag_auth_token s)"; cases "opened c s x") auto
  next
    case True
    then obtain a plain where a: "aes_new (ag_auth_token s) = Ok a" and plain: "opened c s x = Ok plain" by blast
    obtain q v where h: "?h plain u = (q, v)" by fastforce
    obtain r t where run: "extension_unlocked c p x s = (r, t)" by fastforce
    with step False a plain have "io_bind (?h plain) (\<lambda>bs. io_bind (in_world (aes_encrypt c a bs)) (\<lambda>enc.
      io_ret (Some \<lparr>ex_name = ex_name x, ex_details = enc\<rparr>))) u = (r, t)" by simp
    note after = answered_trail [OF this h]
    have failed: ?thesis if "same_trail (ag_world u) (ag_world v)" "\<forall>y. q \<noteq> Ok y"
      using trail.frame_trans [OF that(1) after(1)] after(3) [OF that(2)] run
      by (intro logged_none [OF assms(2)]) (auto simp: eq agent_trail_def w)
    have lo: "log_open (ag_world u)" using assms(2) by (simp add: w)
    have one: ?thesis if "grew rd [e] (ag_world u) (ag_world v)" "records c p (ReqExtension x) s t e"
      "denied e \<Longrightarrow> \<forall>y. q \<noteq> Ok y" for e
      using grew_before [OF that(1) after(1)] that(2,3) after(3) run
      by (intro logged_one [of rd e]) (auto simp: eq w)
    consider (encrypt) "ex_name x = ''encrypt@vt''" | (decrypt) "ex_name x = ''decrypt@vt''" | (auth) "ex_name x = ''auth@vt''"
      using False by blast
    then show ?thesis
    proof cases
      case encrypt
      then have "handle_encrypt c p ?cl plain u = (q, v)" using h by simp
      from handle_encrypt_trail [OF assms(1) lo this] show ?thesis
      proof (elim disjE exE conjE)
        fix items
        assume "de (js_encrypt_items c) plain = Inr items" "grew rd [encrypt_entry p (ag_world u) (length items)] (ag_world u) (ag_world v)"
        then show ?thesis using encrypt plain by (intro one) (auto simp: w)
      qed (rule failed)
    next
      case decrypt
      then have "handle_decrypt c p ?cl plain u = (q, v)" using h by simp
      from handle_decrypt_trail [OF assms(1) lo this] show ?thesis
      proof (elim disjE exE conjE)
        fix req ok v1
        assume d: "de (js_decrypt_req c) plain = Inr req" "grew rd [decrypt_entry p (ag_world u) req ok] (ag_world u) (ag_world v)"
          "\<not> ok \<longrightarrow> q = Err AgentFailure" "yk_log (ag_world v) = yk_log (ag_world v1)"
          and chk: "check_or_prompt_auth c p ''decrypt@vt'' (format_decrypt_prompt req ?cl) True u = (Ok ok, v1)"
        have "ok \<Longrightarrow> cached_grant s p ''decrypt@vt'' \<or> touched s t"
          using consent_back [OF su(2,3), of c p _ _ _ v1 t] chk after(2) d(4) by (metis (full_types))
        then show ?thesis using decrypt plain d by (intro one [OF d(2)]) (auto simp: w)
      qed (rule failed)
    next
      case auth
      then have "handle_auth c p ?cl plain u = (q, v)" using h by simp
      from handle_auth_trail [OF assms(1) lo this] show ?thesis
      proof (elim disjE exE conjE)
        fix req ok v1
        assume d: "de (js_auth_req c) plain = Inr req" "grew rd [auth_entry p (ag_world u) req ok] (ag_world u) (ag_world v)"
          "\<not> ok \<longrightarrow> q = Err AgentFailure" "yk_log (ag_world v) = yk_log (ag_world v1)"
          and chk: "verify_yubikey_presence c (format_auth_prompt req ?cl) u = (Ok ok, v1)"
        have "touched s t" if ok
          using verify_presence_True [of c _ u v1] chk that after(2) d(4) by (auto simp: touched_def w)
        then show ?thesis using auth plain d by (intro one [OF d(2)]) (auto simp: w)
      qed (rule failed)
    qed
  qed
qed

text \<open>The requests that manage keys write the key file, never the log.\<close>

lemma save_trail [frame_intros]: "within same_trail (save_ssh_keys_to_file c a es)"
proof (rule withinI)
  fix w r v
  assume run: "save_ssh_keys_to_file c a es w = (r, v)"
  have d: "within same_trail ensure_dir" "within same_trail (aes_encrypt c a bs)" for bs
    by (intro same_files_trail frame_intros)+
  have f: "same_trail w v" if "io_context m (fs_write path bs) w = (r, v)" "home w = Some h" "path = vt_file h ''ssh_keys.enc''"
    for m path bs h w r v
    using that audit_not_vault(1) [of h]
    by (auto simp: io_context_def io_map_err_def fs_write_def same_trail_def same_env_def log_bytes_def
        split: option.splits write_fault.splits outcome.splits if_splits)
  have k: "within same_trail (io_bind ssh_keys_path (\<lambda>path. io_context m (fs_write path bs)))" for m bs
  proof (rule withinI)
    fix w r v
    assume "io_bind ssh_keys_path (\<lambda>path. io_context m (fs_write path bs)) w = (r, v)"
    then show "same_trail w v"
      using f by (cases "home w") (auto simp: io_bind_def paths_eval trail.frame_refl path_defs home_dir_def)
  qed
  have "within same_trail (save_ssh_keys_to_file c a es)"
    unfolding save_ssh_keys_to_file_def
    by (rule trail.seq [OF d(1)], rule trail.bind [OF trail.of_outcome], rule trail.bind [OF d(2)], rule k)
  with run show "same_trail w v" by (auto dest: withinD)
qed

lemma trail_load_file [frame_intros]: "within same_trail (load_ssh_keys_from_file c a)"
  unfolding load_ssh_keys_from_file_def by (intro same_files_trail frame_intros)

lemma manage_trail:
  "within agent_trail (request_identities c)" "within agent_trail (add_identity c cred)"
  "within agent_trail (remove_identity c pub)" "within agent_trail (remove_all_identities c)"
  "within agent_trail (lock c pw)" "within agent_trail (unlock c pw)"
  unfolding request_identities_def add_identity_def add_identity_unlocked_def remove_identity_def remove_all_identities_def
    lock_def unlock_def Let_def
  by (intro frame_intros outcome_case_frame credential_case_frame)+

lemma request_step_logged:
  assumes "audit_json_ok c rd" and "log_open (ag_world s)"
  shows "request_logged c rd p r s (request_step c p r s)"
proof -
  show ?thesis
  proof (cases r)
    case (ReqSign q)
    then show ?thesis using sign_logged [OF assms] by simp
  next
    case (ReqExtension x)
    then show ?thesis using extension_logged [OF assms] by simp
  next
    case ReqIdentities
    then show ?thesis by (intro logged_none [OF assms(2)]) (simp_all add: withinS [OF manage_trail(1)])
  next
    case (ReqAdd cred)
    then show ?thesis by (intro logged_none [OF assms(2)]) (simp_all add: withinS [OF manage_trail(2)])
  next
    case (ReqRemove pub)
    then show ?thesis by (intro logged_none [OF assms(2)]) (simp_all add: withinS [OF manage_trail(3)])
  next
    case ReqRemoveAll
    then show ?thesis by (intro logged_none [OF assms(2)]) (simp_all add: withinS [OF manage_trail(4)])
  next
    case (ReqLock pw)
    then show ?thesis by (intro logged_none [OF assms(2)]) (simp_all add: withinS [OF manage_trail(5)])
  next
    case (ReqUnlock pw)
    then show ?thesis by (intro logged_none [OF assms(2)]) (simp_all add: withinS [OF manage_trail(6)])
  qed
qed

section \<open>Runs\<close>

text \<open>Other programs may append to the logs, whole lines only.\<close>

definition others_append :: "crates \<Rightarrow> u64 \<Rightarrow> agent \<Rightarrow> agent_event list \<Rightarrow> bool" where
  "others_append c T s0 evs \<longleftrightarrow>
     (\<forall>i fs. i < length evs \<longrightarrow> evs ! i = FilesChanged fs \<longrightarrow>
        (let w = ag_world (agent_run c T s0 (take i evs)) in
         \<forall>d. \<exists>xs. whole_lines xs \<and> log_bytes d (w\<lparr>files := fs\<rparr>) = log_bytes d w @ xs))"

definition extends_log :: "(string \<Rightarrow> json_object option) \<Rightarrow> agent \<Rightarrow> agent \<Rightarrow> bool" where
  "extends_log rd s t \<longleftrightarrow> log_open (ag_world t) \<and>
     (\<forall>d. \<exists>xs. audit_log rd d (ag_world t) = audit_log rd d (ag_world s) @ xs)"

lemma whole_lines_append: "whole_lines xs \<Longrightarrow> whole_lines ys \<Longrightarrow> whole_lines (xs @ ys)"
  by (cases "ys = []") (auto simp: whole_lines_def)

text \<open>The logs depend on the home directory and the files; a clock that moves opens another file and changes none.\<close>

lemma log_cong:
  assumes "home v = home w" and "files v = files w"
  shows "log_bytes d v = log_bytes d w" and "audit_log rd d v = audit_log rd d w"
    and "mkdir_err v = mkdir_err w \<Longrightarrow> write_err v = write_err w \<Longrightarrow> log_open v = log_open w"
  using assms by (simp_all add: log_bytes_def audit_log_def log_open_def)

lemma quiet_event:
  assumes "\<forall>p r. e \<noteq> Request p r" and "\<forall>fs. e \<noteq> FilesChanged fs"
  shows "audit_log rd d (ag_world (agent_step c T s e)) = audit_log rd d (ag_world s)"
    and "log_open (ag_world (agent_step c T s e)) = log_open (ag_world s)"
proof -
  have k: "home (ag_world (agent_step c T s e)) = home (ag_world s) \<and> files (ag_world (agent_step c T s e)) = files (ag_world s) \<and>
      mkdir_err (ag_world (agent_step c T s e)) = mkdir_err (ag_world s) \<and>
      write_err (ag_world (agent_step c T s e)) = write_err (ag_world s)"
    using assms by (cases e) (simp_all add: idle_sweep_def cache_sweep_def)
  then show "audit_log rd d (ag_world (agent_step c T s e)) = audit_log rd d (ag_world s)"
    "log_open (ag_world (agent_step c T s e)) = log_open (ag_world s)"
    using log_cong [of "ag_world (agent_step c T s e)" "ag_world s"] by simp_all
qed

lemma step_extends:
  assumes "audit_json_ok c rd" and "log_open (ag_world s)"
    and "\<And>fs d. e = FilesChanged fs \<Longrightarrow> \<exists>xs. whole_lines xs \<and> log_bytes d ((ag_world s)\<lparr>files := fs\<rparr>) = log_bytes d (ag_world s) @ xs"
  shows "extends_log rd s (agent_step c T s e)"
proof (cases e)
  case (Request p r)
  with request_step_logged [OF assms(1,2), of p r] show ?thesis
    by (auto simp: request_logged_def grew_def extends_log_def)
next
  case (FilesChanged fs)
  let ?v = "(ag_world s)\<lparr>files := fs\<rparr>"
  have wl: "whole_lines (log_bytes d (ag_world s))" for d using assms(2) by (simp add: log_open_def)
  have v: "whole_lines (log_bytes d ?v) \<and> (\<exists>xs. audit_log rd d ?v = audit_log rd d (ag_world s) @ xs)" for d
  proof -
    obtain xs where "whole_lines xs" "log_bytes d ?v = log_bytes d (ag_world s) @ xs"
      using assms(3) [OF FilesChanged] by blast
    then show ?thesis using whole_lines_append [OF wl] log_lines_append [OF wl] by (auto simp: audit_log_def)
  qed
  then have "log_open ?v" using assms(2) by (simp add: log_open_def)
  with v show ?thesis by (simp add: FilesChanged extends_log_def)
qed (use assms(2) quiet_event [of e] in \<open>simp_all add: extends_log_def\<close>)

lemma run_extends:
  assumes "audit_json_ok c rd" and "log_open (ag_world s0)" and "others_append c T s0 evs" and "i \<le> j" and "j \<le> length evs"
  shows "extends_log rd (agent_run c T s0 (take i evs)) (agent_run c T s0 (take j evs))"
proof -
  have step: "extends_log rd (agent_run c T s0 (take k evs)) (agent_run c T s0 (take (Suc k) evs))"
    if "k < length evs" "log_open (ag_world (agent_run c T s0 (take k evs)))" for k
    using step_extends [OF assms(1) that(2), of "evs ! k" T] assms(3) that(1)
    by (auto simp: take_Suc_conv_app_nth others_append_def Let_def)
  have lo: "log_open (ag_world (agent_run c T s0 (take k evs)))" if "k \<le> length evs" for k
    using that by (induction k) (use assms(2) step in \<open>auto simp: extends_log_def\<close>)
  show ?thesis
    using assms(4,5)
  proof (induction j rule: dec_induct)
    case base
    then show ?case using lo assms(4,5) by (simp add: extends_log_def)
  next
    case (step k)
    have "extends_log rd (agent_run c T s0 (take i evs)) (agent_run c T s0 (take k evs))"
      "extends_log rd (agent_run c T s0 (take k evs)) (agent_run c T s0 (take (Suc k) evs))"
      using step \<open>\<And>k. _ \<Longrightarrow> _ \<Longrightarrow> extends_log rd _ (agent_run c T s0 (take (Suc k) evs))\<close> [of k] lo [of k] by simp_all
    then show ?case unfolding extends_log_def by (metis append_assoc)
  qed
qed

text \<open>
  C7. Every use is in the audit log, as long as the log can be written.  In any run of the agent, over any number of days,
  during which the log files can be opened, written and are only appended to, in whole lines, by other programs, each
  signature (but for those made for the \<open>ssh\<close> client), and each answered \<open>encrypt@vt\<close>, \<open>decrypt@vt\<close> and \<open>auth@vt\<close> has a
  line in the final file of the day it was made that a JSON reader reads back as a true record of it: the caller, what was
  asked for, and that it was not denied.  When the log cannot be written the code goes on without it
  (\<open>write_event_appends_line\<close>: logging always succeeds, and then adds nothing).
\<close>

theorem every_use_logged:
  assumes "audit_json_ok c rd" and "log_open (ag_world s0)" and "others_append c T s0 evs"
    and "i < length evs" and "evs ! i = Request p r" and "s = agent_run c T s0 (take i evs)" and "used c p r s"
  shows "\<exists>e. Some e \<in> set (audit_log rd (today (ag_world s)) (ag_world (agent_run c T s0 evs))) \<and> \<not> denied e \<and>
    records c p r s (request_step c p r s) e"
proof -
  have "extends_log rd (agent_run c T s0 (take 0 evs)) s"
    using run_extends [OF assms(1-3), of 0 i] assms(4) by (simp add: assms(6))
  then have "log_open (ag_world s)" by (simp add: extends_log_def)
  from request_step_logged [OF assms(1) this, of p r] assms(7)
  obtain e where e: "grew rd [e] (ag_world s) (ag_world (request_step c p r s))" "\<not> denied e"
    "records c p r s (request_step c p r s) e"
    by (force simp: request_logged_def)
  have t: "agent_run c T s0 (take (Suc i) evs) = request_step c p r s"
    using assms(4) by (simp add: take_Suc_conv_app_nth assms(5,6))
  have "extends_log rd (request_step c p r s) (agent_run c T s0 evs)"
    using run_extends [OF assms(1-3), of "Suc i" "length evs"] assms(4) by (simp add: t)
  then obtain xs where "audit_log rd (today (ag_world s)) (ag_world (agent_run c T s0 evs)) =
      audit_log rd (today (ag_world s)) (ag_world (request_step c p r s)) @ xs"
    unfolding extends_log_def by blast
  then have "Some e \<in> set (audit_log rd (today (ag_world s)) (ag_world (agent_run c T s0 evs)))"
    using e(1) by (simp add: grew_def)
  with e(2,3) show ?thesis by blast
qed

text \<open>Without other writers the log of each day is the record of the requests of that day, in their order.\<close>

definition others_silent :: "crates \<Rightarrow> u64 \<Rightarrow> agent \<Rightarrow> agent_event list \<Rightarrow> bool" where
  "others_silent c T s0 evs \<longleftrightarrow>
     (\<forall>i fs. i < length evs \<longrightarrow> evs ! i = FilesChanged fs \<longrightarrow>
        (let w = ag_world (agent_run c T s0 (take i evs)) in \<forall>d. log_bytes d (w\<lparr>files := fs\<rparr>) = log_bytes d w))"

text \<open>The entry is a true record of a request of the run that was made on day \<open>d\<close>.\<close>

definition recorded :: "crates \<Rightarrow> u64 \<Rightarrow> agent \<Rightarrow> agent_event list \<Rightarrow> string \<Rightarrow> audit_event \<Rightarrow> bool" where
  "recorded c T s0 evs d e \<longleftrightarrow>
     (\<exists>i p r. i < length evs \<and> evs ! i = Request p r \<and>
        (let s = agent_run c T s0 (take i evs) in today (ag_world s) = d \<and> records c p r s (request_step c p r s) e))"

fun is_request :: "agent_event \<Rightarrow> bool" where
  "is_request (Request p r) = True"
| "is_request _ = False"

text \<open>How many requests were made on day \<open>d\<close>.\<close>

definition requests_on :: "crates \<Rightarrow> u64 \<Rightarrow> agent \<Rightarrow> agent_event list \<Rightarrow> string \<Rightarrow> nat" where
  "requests_on c T s0 evs d =
     length (filter (\<lambda>i. is_request (evs ! i) \<and> today (ag_world (agent_run c T s0 (take i evs))) = d) [0..<length evs])"

lemma requests_on_append:
  "requests_on c T s0 (evs @ [e]) d =
     requests_on c T s0 evs d + (if is_request e \<and> today (ag_world (agent_run c T s0 evs)) = d then 1 else 0)"
proof -
  have "filter (\<lambda>i. is_request ((evs @ [e]) ! i) \<and> today (ag_world (agent_run c T s0 (take i (evs @ [e])))) = d) [0..<length evs] =
      filter (\<lambda>i. is_request (evs ! i) \<and> today (ag_world (agent_run c T s0 (take i evs))) = d) [0..<length evs]"
    by (rule filter_cong) (simp_all add: nth_append)
  then show ?thesis by (simp add: requests_on_def)
qed

lemma others_silent_append: "others_silent c T s0 (evs @ [e]) \<Longrightarrow> others_silent c T s0 evs"
  unfolding others_silent_def
proof (intro allI impI)
  fix i fs
  assume a: "\<forall>i fs. i < length (evs @ [e]) \<longrightarrow> (evs @ [e]) ! i = FilesChanged fs \<longrightarrow>
      (let w = ag_world (agent_run c T s0 (take i (evs @ [e]))) in \<forall>d. log_bytes d (w\<lparr>files := fs\<rparr>) = log_bytes d w)"
    and "i < length evs" "evs ! i = FilesChanged fs"
  then show "let w = ag_world (agent_run c T s0 (take i evs)) in \<forall>d. log_bytes d (w\<lparr>files := fs\<rparr>) = log_bytes d w"
    using a [rule_format, of i fs] by (simp add: nth_append)
qed

lemma recorded_append: "recorded c T s0 evs d e \<Longrightarrow> recorded c T s0 (evs @ [x]) d e"
  unfolding recorded_def
proof (elim exE conjE)
  fix i p r
  assume "i < length evs" "evs ! i = Request p r"
    "let s = agent_run c T s0 (take i evs) in today (ag_world s) = d \<and> records c p r s (request_step c p r s) e"
  then show "\<exists>i p r. i < length (evs @ [x]) \<and> (evs @ [x]) ! i = Request p r \<and>
      (let s = agent_run c T s0 (take i (evs @ [x])) in today (ag_world s) = d \<and> records c p r s (request_step c p r s) e)"
    by (intro exI [of _ i] exI [of _ p] exI [of _ r]) (simp add: nth_append)
qed

lemma log_recorded:
  assumes "audit_json_ok c rd" and "log_open (ag_world s0)" and "others_silent c T s0 evs"
  shows "log_open (ag_world (agent_run c T s0 evs)) \<and>
    (\<exists>es. audit_log rd d (ag_world (agent_run c T s0 evs)) = audit_log rd d (ag_world s0) @ map Some es \<and>
      length es \<le> requests_on c T s0 evs d \<and> (\<forall>e \<in> set es. recorded c T s0 evs d e))"
  using assms(3)
proof (induction evs rule: rev_induct)
  case Nil
  then show ?case using assms(2) by simp
next
  case (snoc x evs)
  let ?s = "agent_run c T s0 evs" and ?w = "ag_world (agent_run c T s0 evs)"
  obtain es where es: "audit_log rd d ?w = audit_log rd d (ag_world s0) @ map Some es"
    "length es \<le> requests_on c T s0 evs d" "\<forall>e \<in> set es. recorded c T s0 (evs @ [x]) d e" and lo: "log_open ?w"
    using snoc.IH [OF others_silent_append [OF snoc.prems]] recorded_append by blast
  have kept: ?case if "audit_log rd d (ag_world (agent_step c T ?s x)) = audit_log rd d ?w"
    "log_open (ag_world (agent_step c T ?s x))"
    using es that by (intro conjI exI [of _ es]) (simp_all add: requests_on_append)
  show ?case
  proof (cases x)
    case (Request p r)
    from request_step_logged [OF assms(1) lo, of p r]
    obtain fs where fs: "grew rd fs ?w (ag_world (request_step c p r ?s))" "length fs \<le> 1"
      "\<forall>e \<in> set fs. records c p r ?s (request_step c p r ?s) e"
      by (auto simp: request_logged_def)
    show ?thesis
    proof (cases "d = today ?w")
      case True
      have "recorded c T s0 (evs @ [x]) d e" if "e \<in> set fs" for e
        unfolding recorded_def using fs(3) that True
        by (intro exI [of _ "length evs"] exI [of _ p] exI [of _ r]) (simp add: Request)
      with es fs True show ?thesis
        by (intro conjI exI [of _ "es @ fs"]) (auto simp: Request grew_def requests_on_append)
    next
      case False
      with fs(1) show ?thesis by (intro kept) (simp_all add: Request grew_def)
    qed
  next
    case (FilesChanged fs)
    then have "\<forall>d. log_bytes d (?w\<lparr>files := fs\<rparr>) = log_bytes d ?w"
      using snoc.prems [unfolded others_silent_def, rule_format, of "length evs" fs] by (simp add: Let_def)
    then show ?thesis using lo by (intro kept) (simp_all add: FilesChanged audit_log_def log_open_def)
  qed (intro kept; simp add: quiet_event lo del: agent_step.simps)+
qed

text \<open>
  C8. The audit log says nothing that did not happen: when no other program writes to it, what a run adds to the file of any
  day is at most one line per request made on that day, every line reads back as an event, and each event is a true record
  of a request of that day; one that says \<open>approved\<close> had a live grant of its caller or a touch of the key during that
  request.  No name that a client sends, of a host, a command, a secret or a reason, can make a line of its own.
\<close>

theorem log_is_true:
  assumes "audit_json_ok c rd" and "log_open (ag_world s0)" and "others_silent c T s0 evs"
  shows "\<forall>d. \<exists>es. audit_log rd d (ag_world (agent_run c T s0 evs)) = audit_log rd d (ag_world s0) @ map Some es \<and>
    length es \<le> requests_on c T s0 evs d \<and> (\<forall>e \<in> set es. recorded c T s0 evs d e)"
  using log_recorded [OF assms] by blast

lemma demo_log_open: "log_open demo_world" "audit_log json_read d demo_world = []"
  by (simp_all add: log_open_def audit_log_def log_bytes_def whole_lines_def log_lines_def of_bytes_def)

text \<open>A run over midnight: the use of the first day is in its file.\<close>

theorem every_use_logged_witness:
  "\<exists>e. Some e \<in> set (audit_log json_read ''2026-04-24'' (ag_world (agent_run demo_crates 60 demo_agent
       [Request None (ReqSign demo_sign_request), ClockReads ''2026-04-25'' ''00:01'' 1777132860]))) \<and>
     ae_op e = ''sign'' \<and> ae_result e = ''approved''"
proof -
  let ?evs = "[Request None (ReqSign demo_sign_request), ClockReads ''2026-04-25'' ''00:01'' 1777132860]"
  have u: "used demo_crates None (ReqSign demo_sign_request) demo_agent"
    using demo_sign by (auto simp: peer_name_def unwrap_or_empty_def)
  have o': "others_append demo_crates 60 demo_agent ?evs"
    by (auto simp: others_append_def less_Suc_eq)
  have l: "log_open (ag_world demo_agent)" "today (ag_world demo_agent) = ''2026-04-24''"
    using demo_log_open by (simp_all add: demo_agent_def agent_new_def)
  from every_use_logged [OF demo_audit_json_ok l(1) o', of 0 None _ demo_agent] u l(2)
  obtain e where "Some e \<in> set (audit_log json_read ''2026-04-24'' (ag_world (agent_run demo_crates 60 demo_agent ?evs)))"
    "\<not> denied e" "records demo_crates None (ReqSign demo_sign_request) demo_agent
      (request_step demo_crates None (ReqSign demo_sign_request) demo_agent) e"
    by auto
  moreover from this(2,3) have "ae_op e = ''sign''" "ae_result e = ''approved''"
    by (auto simp: sign_entry_def denied_def split: if_splits)
  ultimately show ?thesis by blast
qed

theorem log_is_true_witness:
  "\<exists>es. audit_log json_read ''2026-04-24'' (ag_world (agent_run demo_crates 60 demo_agent [Request None (ReqSign demo_sign_request), Wait 5])) = map Some es \<and>
     length es \<le> requests_on demo_crates 60 demo_agent [Request None (ReqSign demo_sign_request), Wait 5] ''2026-04-24'' \<and>
     (\<forall>e \<in> set es. recorded demo_crates 60 demo_agent [Request None (ReqSign demo_sign_request), Wait 5] ''2026-04-24'' e)"
proof -
  have o': "others_silent demo_crates 60 demo_agent [Request None (ReqSign demo_sign_request), Wait 5]"
    by (auto simp: others_silent_def less_Suc_eq)
  have l: "log_open (ag_world demo_agent)" "audit_log json_read d (ag_world demo_agent) = []" for d
    using demo_log_open by (simp_all add: demo_agent_def agent_new_def)
  from log_is_true [OF demo_audit_json_ok l(1) o', THEN spec, of "''2026-04-24''"] l(2) show ?thesis by simp
qed

end
