(* ===== verification/Vt_Blind.thy ===== *)
theory Vt_Blind
  imports Vt_Trail
begin

text \<open>
  Confidentiality: what an extension request leaves behind does not depend on the secrets.  Two runs are compared that
  differ in the master passphrase, in the plaintexts to encrypt and in the ciphertexts to decrypt.
\<close>

section \<open>Operations that do not look at the hidden part\<close>

definition blind :: "('s \<Rightarrow> 's) \<Rightarrow> ('s, 'a) io \<Rightarrow> bool" where
  "blind h m \<longleftrightarrow> (\<forall>s. m (h s) = apsnd h (m s))"

named_theorems blind_intros

lemma blind_plain [blind_intros]: "blind h (io_ret x)" "blind h (io_fail e)" "blind h (io_of r)"
  by (simp_all add: blind_def)

lemma blind_get [blind_intros]: "(\<And>s. f (h s) = f s) \<Longrightarrow> blind h (io_get f)"
  by (simp add: blind_def)

lemma blind_upd [blind_intros]: "(\<And>s. f (h s) = h (f s)) \<Longrightarrow> blind h (io_upd f)"
  by (simp add: blind_def)

lemma blind_bind [blind_intros]: "blind h m \<Longrightarrow> (\<And>x. blind h (f x)) \<Longrightarrow> blind h (io_bind m f)"
  by (auto simp: blind_def io_bind_def split: prod.split outcome.split)

lemma blind_seq [blind_intros]: "blind h m \<Longrightarrow> blind h n \<Longrightarrow> blind h (io_seq m n)"
  by (simp add: io_seq_def blind_bind)

lemma blind_or [blind_intros]: "blind h m \<Longrightarrow> blind h (io_or d m)"
  by (auto simp: blind_def io_or_def split: prod.split outcome.split)

lemma blind_cases [blind_intros]:
  "blind h m \<Longrightarrow> blind h n \<Longrightarrow> blind h (if b then m else n)"
  "blind h m \<Longrightarrow> (\<And>x. blind h (f x)) \<Longrightarrow> blind h (case v of None \<Rightarrow> m | Some x \<Rightarrow> f x)"
  by (simp_all split: option.split)

section \<open>The agent without its secrets\<close>

definition set_key :: "bytes \<Rightarrow> agent \<Rightarrow> agent" where
  "set_key k s = s\<lparr>ag_passphrase := k\<rparr>"

text \<open>What is left when the passphrase and the position of the random generator are taken away: the files with the audit
  log, the terminal, the notifications, the log of the device, the clipboard, the clock, the keys and the cache.\<close>

definition public_part :: "agent \<Rightarrow> agent" where
  "public_part s = s\<lparr>ag_passphrase := [], ag_world := (ag_world s)\<lparr>rng_pos := 0\<rparr>\<rparr>"

lemma set_key_sel [simp]:
  "ag_world (set_key k s) = ag_world s" "ag_pin (set_key k s) = ag_pin s" "ag_auth_token (set_key k s) = ag_auth_token s"
  "ag_auth_cache (set_key k s) = ag_auth_cache s" "ag_cache_mode (set_key k s) = ag_cache_mode s"
  "ag_locked (set_key k s) = ag_locked s" "agent_now (set_key k s) = agent_now s" "public_part (set_key k s) = public_part s"
  by (simp_all add: set_key_def agent_now_def public_part_def)

lemma blind_world [blind_intros]: "blind (set_key k) (in_world m)"
  by (auto simp: blind_def in_world_def set_key_def split: prod.split)

lemma blind_check [blind_intros]:
  "blind (set_key k) (verify_yubikey_presence c m)" "blind (set_key k) (check_or_prompt_auth c p fp m b)"
  unfolding check_or_prompt_auth_def verify_yubikey_presence_def cache_grant_def
  by (intro blind_intros; simp add: set_key_def agent_now_def)+

lemma blind_public: "blind (set_key k) m \<Longrightarrow> public_part (snd (m (set_key k s))) = public_part (snd (m s))"
  by (simp add: blind_def)

text \<open>Drawing random bytes is all that sealing does to the world.\<close>

definition only_draws :: "world \<Rightarrow> world \<Rightarrow> bool" where
  "only_draws w v \<longleftrightarrow> (\<exists>n. v = w\<lparr>rng_pos := n\<rparr>)"

interpretation draws: frame_rel only_draws
proof
  show "only_draws s s" for s unfolding only_draws_def by (intro exI [of _ "rng_pos s"]) simp
  show "only_draws s t \<Longrightarrow> only_draws t u \<Longrightarrow> only_draws s u" for s t u by (auto simp: only_draws_def)
qed

lemmas draws_frames [frame_intros] = draws.all

lemma draws_bytes [frame_intros]: "within only_draws (fill_bytes n)"
  by (auto simp: within_def fill_bytes_def only_draws_def)

lemma draws_seal [frame_intros]: "within only_draws (aes_encrypt c a p)"
  unfolding aes_encrypt_def generate_nonce_def by (intro frame_intros)

lemma draws_encrypt [frame_intros]: "within only_draws (do_encrypt c a items)"
  unfolding do_encrypt_def encrypt_item_one_def by (intro frame_intros)

definition same_public :: "agent \<Rightarrow> agent \<Rightarrow> bool" where
  "same_public s t \<longleftrightarrow> public_part t = public_part s"

interpretation public: frame_rel same_public
  by unfold_locales (simp_all add: same_public_def)

lemmas public_frames [frame_intros] = public.all

lemma draws_public [frame_intros]: "within only_draws m \<Longrightarrow> within same_public (in_world m)"
  by (rule within_in_world [where R' = only_draws]) (auto simp: same_public_def public_part_def only_draws_def)

section \<open>The visible part of a request\<close>

datatype visible = VItems nat | VDecrypt string string nat "string list" | VReason string string | VBad

text \<open>What an opened request shows: of an encryption the number of items, of a decryption all but the ciphertexts.\<close>

definition shown :: "crates \<Rightarrow> string \<Rightarrow> bytes \<Rightarrow> visible" where
  "shown c name plain =
     (if name = ''encrypt@vt'' then
        (case de (js_encrypt_items c) plain of Inl _ \<Rightarrow> VBad | Inr items \<Rightarrow> VItems (length items))
      else if name = ''decrypt@vt'' then
        (case de (js_decrypt_req c) plain of Inl _ \<Rightarrow> VBad
         | Inr req \<Rightarrow> VDecrypt (dr_host req) (dr_command req) (length (dr_items req)) (dr_descriptions req))
      else
        (case de (js_auth_req c) plain of Inl _ \<Rightarrow> VBad | Inr req \<Rightarrow> VReason (ar_host req) (ar_reason req)))"

definition seen_request :: "crates \<Rightarrow> agent \<Rightarrow> extension \<Rightarrow> visible option" where
  "seen_request c s x = (case opened c s x of Ok plain \<Rightarrow> Some (shown c (ex_name x) plain) | _ \<Rightarrow> None)"

text \<open>What the handler of a request with this visible part does before it comes to the secrets.\<close>

fun public_run :: "crates \<Rightarrow> i32 option \<Rightarrow> string \<Rightarrow> visible \<Rightarrow> unit aio" where
  "public_run c p cl (VItems n) = in_world (log_encrypt c p cl n)"
| "public_run c p cl (VDecrypt h cmd n ds) =
     (let req = \<lparr>dr_host = h, dr_command = cmd, dr_items = replicate n [], dr_descriptions = ds\<rparr> in
      io_bind (check_or_prompt_auth c p ''decrypt@vt'' (format_decrypt_prompt req cl) True)
        (\<lambda>ok. in_world (log_decrypt c p cl req ok)))"
| "public_run c p cl (VReason h rs) =
     (let req = \<lparr>ar_host = h, ar_reason = rs\<rparr> in
      io_bind (verify_yubikey_presence c (format_auth_prompt req cl)) (\<lambda>ok. in_world (log_auth c p cl req ok)))"
| "public_run c p cl VBad = io_ret ()"

lemma blind_public_run: "blind (set_key k) (public_run c p cl v)"
  by (cases v) (simp_all add: Let_def blind_intros)

lemma prompt_visible:
  "format_decrypt_prompt \<lparr>dr_host = dr_host req, dr_command = dr_command req, dr_items = replicate (length (dr_items req)) [],
     dr_descriptions = dr_descriptions req\<rparr> cl = format_decrypt_prompt req cl"
  "log_decrypt c p cl \<lparr>dr_host = dr_host req, dr_command = dr_command req, dr_items = replicate (length (dr_items req)) [],
     dr_descriptions = dr_descriptions req\<rparr> = log_decrypt c p cl req"
  "\<lparr>ar_host = ar_host areq, ar_reason = ar_reason areq\<rparr> = areq"
  by (simp_all add: format_decrypt_prompt_def log_decrypt_def fun_eq_iff)

lemma bind_public:
  assumes "\<And>x. within same_public (f x)"
  shows "public_part (snd (io_bind m f u)) = public_part (snd (m u))"
  using assms by (auto simp: io_bind_def within_def same_public_def split: prod.split outcome.split)

lemma bind_seq_public:
  assumes "\<And>b. within same_public (g b)"
  shows "public_part (snd (io_bind m (\<lambda>b. io_seq (l b) (g b)) u)) = public_part (snd (io_bind m l u))"
  using bind_public [of "\<lambda>_. g b" "l b" for b, OF assms]
  by (simp add: io_seq_def io_bind_def [of m] split: prod.split outcome.split)

lemma handlers_public:
  "public_part (snd (handle_encrypt c p cl plain u)) = public_part (snd (public_run c p cl (shown c ''encrypt@vt'' plain) u))"
  "public_part (snd (handle_decrypt c p cl plain u)) = public_part (snd (public_run c p cl (shown c ''decrypt@vt'' plain) u))"
  "public_part (snd (handle_auth c p cl plain u)) = public_part (snd (public_run c p cl (shown c ''auth@vt'' plain) u))"
proof -
  have w: "public_part (snd (io_seq m f u)) = public_part (snd (m u))" if "within same_public f" for m f u
    by (simp add: io_seq_def bind_public that)
  show "public_part (snd (handle_encrypt c p cl plain u)) = public_part (snd (public_run c p cl (shown c ''encrypt@vt'' plain) u))"
  proof (cases "de (js_encrypt_items c) plain")
    case (Inr items)
    have "within same_public (io_bind (io_get ag_passphrase) (\<lambda>passphrase.
       io_bind (io_of (aes_new passphrase)) (\<lambda>mac_cipher.
       io_bind (in_world (do_encrypt c mac_cipher items)) (\<lambda>result.
       io_of (of_sum Msg (ser (js_results c) result))))))" by (intro frame_intros)
    from w [OF this] show ?thesis by (simp add: handle_encrypt_def io_bind_of Inr shown_def)
  qed (simp add: handle_encrypt_def shown_def io_bind_def)
  show "public_part (snd (handle_decrypt c p cl plain u)) = public_part (snd (public_run c p cl (shown c ''decrypt@vt'' plain) u))"
  proof (cases "de (js_decrypt_req c) plain")
    case (Inr req)
    let ?rest = "\<lambda>approved. if \<not> approved then io_fail AgentFailure
      else io_bind (io_get ag_passphrase) (\<lambda>passphrase. io_bind (io_of (aes_new passphrase)) (\<lambda>mac_cipher.
       io_bind (io_get (\<lambda>s. do_decrypt c mac_cipher (unix_time (ag_world s)) (dr_items req))) (\<lambda>r.
       io_bind (io_of r) (\<lambda>result. io_of (of_sum Msg (ser (js_results c) result))))))"
    have "within same_public (?rest b)" for b by (auto intro!: frame_intros)
    from bind_seq_public [where g = ?rest, OF this] show ?thesis
      by (simp add: handle_decrypt_def io_bind_of Inr shown_def prompt_visible Let_def)
  qed (simp add: handle_decrypt_def shown_def io_bind_def)
  show "public_part (snd (handle_auth c p cl plain u)) = public_part (snd (public_run c p cl (shown c ''auth@vt'' plain) u))"
  proof (cases "de (js_auth_req c) plain")
    case (Inr req)
    let ?rest = "\<lambda>approved. if \<not> approved then io_fail AgentFailure else io_of (of_sum Msg (ser (js_auth_res c) \<lparr>as_approved = True\<rparr>))"
    have "within same_public (?rest b)" for b by (auto intro!: frame_intros)
    from bind_seq_public [where g = ?rest, OF this] show ?thesis
      by (simp add: handle_auth_def io_bind_of Inr shown_def prompt_visible Let_def)
  qed (simp add: handle_auth_def shown_def io_bind_def)
qed

text \<open>So is what a whole request leaves.\<close>

lemma extension_public:
  assumes "ex_name x \<in> {''encrypt@vt'', ''decrypt@vt'', ''auth@vt''}" and "\<not> ag_locked s"
    and u: "u = s\<lparr>ag_last_activity := agent_now s\<rparr>"
  shows "public_part (snd (extension_op c p x s)) =
    (case aes_new (ag_auth_token s) of
       Ok _ \<Rightarrow> (case seen_request c s x of
           Some v \<Rightarrow> public_part (snd (public_run c p (peer_caller p (ag_world u)) v u))
         | None \<Rightarrow> public_part u)
     | _ \<Rightarrow> public_part u)"
proof -
  have f: "public_part (snd (io_bind m (\<lambda>bs. io_bind (in_world (aes_encrypt c a bs)) (\<lambda>enc.
      io_ret (Some \<lparr>ex_name = n, ex_details = enc\<rparr>))) u)) = public_part (snd (m u))" for m :: "bytes aio" and a n u
    by (intro bind_public frame_intros)
  show ?thesis
    using assms(1,2) extension_unlocked_step [OF assms(1) u, of c p]
    by (auto simp: extension_op_def io_bind_def [of "io_get ag_locked"] seen_request_def f handlers_public split: outcome.split)
qed

text \<open>
  C9. Confidentiality: apart from the sealed answer, what an extension request leaves behind, in the files, the audit log,
  the notifications, the terminal, the log of the device, the cache and the clock, depends only on the visible part of the
  request (of \<open>encrypt@vt\<close> the number of items; of \<open>decrypt@vt\<close> the host, the command, the descriptions and the
  number of items; of \<open>auth@vt\<close> host and reason).  It is the same for any other plaintexts, any other
  ciphertexts and any other master passphrase.
\<close>

theorem extension_leaves_no_secret:
  assumes "ex_name y = ex_name x" and "seen_request c s y = seen_request c s x"
  shows "public_part (snd (extension_op c p y (set_key k s))) = public_part (snd (extension_op c p x s))"
proof (cases "ag_locked s \<or> ex_name x \<notin> {''encrypt@vt'', ''decrypt@vt'', ''auth@vt''}")
  case True
  then show ?thesis
    using assms(1) by (auto simp: extension_op_def extension_unlocked_def io_bind_def)
next
  case False
  define u where "u = s\<lparr>ag_last_activity := agent_now s\<rparr>"
  define u' where "u' = (set_key k s)\<lparr>ag_last_activity := agent_now (set_key k s)\<rparr>"
  have u': "u' = set_key k u" by (simp add: u_def u'_def set_key_def agent_now_def)
  have sr: "seen_request c (set_key k s) y = seen_request c s x"
    using assms by (simp add: seen_request_def opened_def)
  have run: "public_part (snd (public_run c p cl v u')) = public_part (snd (public_run c p cl v u))" for cl v
    unfolding u' by (rule blind_public [OF blind_public_run])
  show ?thesis
    using extension_public [OF _ _ u_def, of x c p] extension_public [OF _ _ u'_def, of y c p] False assms(1) run
    by (auto simp: sr u' split: outcome.split option.split)
qed

text \<open>Two decryption requests for different ciphertexts, to agents with different passphrases.\<close>

theorem extension_leaves_no_secret_witness:
  "\<exists>y. opened demo_crates demo_agent y \<noteq> opened demo_crates demo_agent demo_decrypt_ext \<and>
     public_part (snd (extension_op demo_crates None y (set_key (replicate 32 9) demo_agent))) =
     public_part (snd (extension_op demo_crates None demo_decrypt_ext demo_agent))"
proof -
  let ?req = "demo_request\<lparr>dr_items := map (Cons (CHR ''x'')) (dr_items demo_request)\<rparr>"
  let ?y = "\<lparr>ex_name = ''decrypt@vt'', ex_details = demo_box (replicate 32 2) (the_ser demo_decrypt_req ?req)\<rparr>"
  have o': "opened demo_crates demo_agent ?y = Ok (the_ser demo_decrypt_req ?req)"
    "opened demo_crates demo_agent demo_decrypt_ext = Ok (the_ser demo_decrypt_req demo_request)"
    by (simp_all add: opened_def demo_decrypt_ext_def)
  have d: "de demo_decrypt_req (the_ser demo_decrypt_req r) = Inr r" for r by (rule demo_de_the_ser)
  have "the_ser demo_decrypt_req ?req \<noteq> the_ser demo_decrypt_req demo_request"
  proof
    assume "the_ser demo_decrypt_req ?req = the_ser demo_decrypt_req demo_request"
    with d [of ?req] d [of demo_request] have "?req = demo_request" by simp
    then have "dr_items ?req = dr_items demo_request" by simp
    then show False by (simp add: demo_request_def)
  qed
  moreover have "seen_request demo_crates demo_agent ?y = seen_request demo_crates demo_agent demo_decrypt_ext"
    unfolding seen_request_def o' by (simp add: shown_def d demo_decrypt_ext_def)
  ultimately show ?thesis
    using extension_leaves_no_secret [of ?y demo_decrypt_ext demo_crates demo_agent None "replicate 32 9"] o'
    by (intro exI [of _ ?y]) (simp add: demo_decrypt_ext_def)
qed

end
