(* ===== verification/Vt_Caller.thy ===== *)
theory Vt_Caller
  imports Vt_Prompt Vt_Proc_Info
begin

text \<open>
  What a prompt of \<open>ssh_agent.rs\<close> shows of the process that asks.  The texts of the request are
  sanitised; the name of the caller's executable is not.
\<close>

section \<open>The name of an executable is a string\<close>

lemma utf8_valid_after_ascii: "utf8_valid (xs @ a # ys) \<Longrightarrow> a \<le> 0x7F \<Longrightarrow> utf8_valid ys"
proof (induction xs rule: utf8_valid.induct)
  case 1
  then show ?case by (simp add: utf8_valid_ascii_Cons del: utf8_valid.simps(2))
next
  case (2 b bs)
  let ?n = "utf8_len b - 1"
  have "\<not> tail_byte a"
    using \<open>a \<le> 0x7F\<close> by (simp add: tail_byte_def word_le_nat_alt)
  moreover have "list_all tail_byte (take ?n bs @ take (?n - length bs) (a # ys))"
    using 2(2) by (simp add: tails_ok_def)
  ultimately have "?n - length bs = 0"
    by (cases "?n - length bs") auto
  then have "drop ?n (bs @ a # ys) = drop ?n bs @ a # ys" by simp
  with 2(2) have "utf8_valid (drop ?n bs @ a # ys)" by simp
  then show ?case using 2(1,3) by blast
qed

lemma after_last_suffix: "after_last d s = s \<or> (\<exists>pre. s = pre @ d # after_last d s)"
proof (induction s)
  case Nil
  then show ?case by (simp add: after_last_def)
next
  case (Cons c cs)
  obtain p ps where sp: "split_on d cs = p # ps"
    by (metis neq_Nil_conv split_on_nonempty)
  show ?case
  proof (cases "ps = []")
    case True
    with sp join_split_on [of d cs] have "cs = p" by simp
    with True sp show ?thesis by (auto simp: after_last_def)
  next
    case False
    with sp have same: "after_last d (c # cs) = after_last d cs"
      by (simp add: after_last_def)
    have "d \<notin> set (after_last d cs)"
      unfolding after_last_def by (rule split_on_pieces [OF last_in_set]) simp
    moreover have "d \<in> set cs"
      using False sp split_on_no_sep [of d cs] by auto
    ultimately have "\<exists>pre. cs = pre @ d # after_last d cs" using Cons by metis
    then have "\<exists>pre. c # cs = pre @ d # after_last d cs" by (metis append_Cons)
    with same show ?thesis by simp
  qed
qed

lemma rust_str_file_name:
  assumes "rust_str s"
  shows "rust_str (after_last (CHR ''/'') s)"
proof -
  have "rust_str t" if "s = pre @ CHR ''/'' # t" for pre t
    using assms utf8_valid_after_ascii [of "as_bytes pre" "byte_of (CHR ''/'')" "as_bytes t"] that
    by (simp add: rust_str_def as_bytes_def byte_of_def)
  with after_last_suffix [of "CHR ''/''" s] assms show ?thesis by metis
qed

section \<open>The control characters of a text\<close>

definition controls :: "string \<Rightarrow> string list" where
  "controls s = filter is_control (utf8_chars s)"

lemma controls_append: "starts_char t \<Longrightarrow> controls (s @ t) = controls s @ controls t"
  by (simp add: controls_def utf8_chars_append)

lemma part_controls: "prompt_part n s \<Longrightarrow> controls s = []"
  by (simp add: controls_def prompt_part_def list_all_iff filter_empty_conv)

lemma part_starts: "prompt_part n s \<Longrightarrow> starts_char s"
  by (simp add: prompt_part_def)

lemma part_pid: "1 < sint (p :: i32) \<Longrightarrow> prompt_part 17 ('' (PID '' @ show_i32 p @ '')'')"
proof -
  assume p: "1 < sint p"
  have "sint p < 2147483648" using sint_lt [of p] by simp
  then have "nat (sint p) \<le> 2147483647" using p by linarith
  then have "length (show_nat (nat (sint p))) \<le> length (show_nat 2147483647)"
    by (rule length_show_nat_mono)
  also have "\<dots> = 10" by (simp add: show_nat.simps)
  finally have "prompt_part 10 (show_i32 p)"
    using part_show_nat [of "nat (sint p)"] p by (auto simp: show_i32_def elim: part_mono)
  moreover have "prompt_part 6 '' (PID ''" "prompt_part 1 '')''"
    by (rule part_ascii, simp add: printable_eval, simp)+
  ultimately have "prompt_part (6 + (10 + 1)) ('' (PID '' @ show_i32 p @ '')'')"
    by (intro part_append)
  then show ?thesis by simp
qed

lemma ancestors_above: "p \<in> set (ancestors w n pid) \<Longrightarrow> 1 < sint p"
proof (induction w n pid rule: ancestors.induct)
  case (2 w n pid)
  then show ?case by (cases "get_proc_bsdinfo w pid") (fastforce split: if_splits)+
qed simp

text \<open>A decryption prompt around any text: only that text brings control characters, and length.\<close>

lemma decrypt_prompt_around:
  assumes "rust_str (dr_host req)" and "rust_str (dr_command req)"
    and "list_all rust_str (dr_descriptions req)" and "starts_char caller"
  defines "chars \<equiv> \<lambda>s. length (utf8_chars s)"
  shows "controls (format_decrypt_prompt req caller) = controls caller"
    and "chars (format_decrypt_prompt req caller)
      \<le> 469 + length (show_nat (length (dr_items req))) + chars caller"
proof -
  let ?n = "length (dr_items req)"
  let ?by = "if caller = [] then [] else '' by '' @ caller"
  let ?before = "''decrypt '' @ format_items_label ?n (dr_descriptions req) @ '' from '' @
    sanitize_for_prompt (dr_host req) 100"
  let ?after = "'' to run `'' @ sanitize_for_prompt (dr_command req) 200 @ ''`''"
  have pieces: "prompt_part 8 ''decrypt ''" "prompt_part 6 '' from ''" "prompt_part 9 '' to run `''"
    "prompt_part 1 ''`''" "prompt_part 4 '' by ''"
    by (rule part_ascii, simp add: printable_eval, simp)+
  have before: "prompt_part (8 + ((141 + length (show_nat ?n)) + (6 + 100))) ?before"
    by (intro part_append pieces part_label part_sanitize assms(1,3))
  have after: "prompt_part (9 + (200 + 1)) ?after"
    by (intro part_append pieces part_sanitize assms(2))
  have split: "format_decrypt_prompt req caller = ?before @ ?by @ ?after"
    by (simp add: format_decrypt_prompt_def Let_def)
  have joined: "controls ('' by '' @ caller) = controls caller"
    "chars ('' by '' @ caller) \<le> 4 + chars caller"
    unfolding controls_append [OF assms(4)] chars_def utf8_chars_append [OF assms(4)]
    unfolding part_controls [OF pieces(5)] using pieces(5) by (simp_all add: prompt_part_def)
  have "starts_char ('' by '' @ caller)"
    using part_starts [OF pieces(5)] by (simp add: starts_char_def)
  then have by_text: "controls ?by = controls caller" "chars ?by \<le> 4 + chars caller" "starts_char ?by"
    using joined by (simp_all add: controls_def chars_def starts_char_def)
  have start: "starts_char (?by @ ?after)"
    using by_text(3) part_starts [OF after] by (auto simp: starts_char_def)
  show "controls (format_decrypt_prompt req caller) = controls caller"
    unfolding split controls_append [OF start] controls_append [OF part_starts [OF after]] by_text(1)
      part_controls [OF before] part_controls [OF after] by simp
  have "chars (format_decrypt_prompt req caller) = chars ?before + (chars ?by + chars ?after)"
    unfolding split chars_def utf8_chars_append [OF start] utf8_chars_append [OF part_starts [OF after]]
    by simp
  with before after by_text(2)
  show "chars (format_decrypt_prompt req caller) \<le> 469 + length (show_nat ?n) + chars caller"
    by (simp add: chars_def prompt_part_def)
qed

lemma caller_label_parts:
  assumes "rust_str name" and "1 < sint p"
  shows "starts_char (caller_label name p)" and "controls (caller_label name p) = controls name"
    and "length (utf8_chars (caller_label name p)) \<le> length (utf8_chars name) + 17"
proof -
  note pid = part_pid [OF assms(2)]
  show "starts_char (caller_label name p)"
    using rust_str_starts_char [OF assms(1)] part_starts [OF pid]
    by (cases name) (auto simp: caller_label_def starts_char_def)
  show "controls (caller_label name p) = controls name"
    unfolding caller_label_def controls_append [OF part_starts [OF pid]] part_controls [OF pid] by simp
  show "length (utf8_chars (caller_label name p)) \<le> length (utf8_chars name) + 17"
    using pid unfolding caller_label_def utf8_chars_append [OF part_starts [OF pid]]
    by (simp add: prompt_part_def)
qed

text \<open>
  C40. The prompt of a decryption, for any request and any process that asks: none of the texts of the
  request brings a control character (a line break or an escape sequence that could forge another prompt),
  and together with the words around them they take at most 486 characters and the digits of the number of
  items.  The name of the executable of the process shown as the caller, the nearest ancestor of the
  peer with a name other than \<open>vt-yubi\<close>, is not sanitised: its control characters are in the prompt, all
  of them and in their order, and its length comes on top.
\<close>

theorem decrypt_prompt_controls:
  assumes "rust_str (dr_host req)" and "rust_str (dr_command req)"
    and "list_all rust_str (dr_descriptions req)"
    and "\<And>p path. get_proc_path w p = Some path \<Longrightarrow> rust_str path"
  shows "let prompt = format_decrypt_prompt req (describe_caller w peer);
      name = (case find (is_invoker w) (ancestors w 8 peer) of
        Some p \<Rightarrow> the (get_process_name w p) | None \<Rightarrow> [])
    in filter is_control (utf8_chars prompt) = filter is_control (utf8_chars name) \<and>
       length (utf8_chars prompt)
         \<le> 486 + length (show_nat (length (dr_items req))) + length (utf8_chars name)"
proof (cases "find (is_invoker w) (ancestors w 8 peer)")
  case None
  then have "describe_caller w peer = []" by (simp add: caller_walks)
  then show ?thesis
    using decrypt_prompt_around [OF assms(1-3), of "[]"] None
    by (simp add: controls_def starts_char_def)
next
  case (Some p)
  then have p: "p \<in> set (ancestors w 8 peer)" "is_invoker w p"
    by (auto simp: find_Some_iff)
  then obtain name where name: "get_process_name w p = Some name" by (auto simp: is_invoker_def)
  then have "rust_str name"
    using assms(4) rust_str_file_name by (auto simp: get_process_name_def)
  note label = caller_label_parts [OF this ancestors_above [OF p(1)]]
  have "describe_caller w peer = caller_label name p"
    using Some name by (simp add: caller_walks)
  then show ?thesis
    using decrypt_prompt_around [OF assms(1-3) label(1)] label(2,3) Some name
    by (simp add: controls_def)
qed

text \<open>An executable whose name holds a line feed and an escape: both reach the prompt.\<close>

definition forging_world :: world where
  "forging_world = demo_world\<lparr>proc_exe := (\<lambda>p. if p = 7
     then Some (''/tmp/x'' @ [CHR 0x0A, CHR 0x1B] @ ''[2J'') else None)\<rparr>"

theorem decrypt_prompt_controls_witness:
  "filter is_control (utf8_chars (format_decrypt_prompt
     \<lparr>dr_host = ''h'' @ [CHR 0x0A], dr_command = [CHR 0x1B] @ ''ls'', dr_items = [''a''],
      dr_descriptions = [''d'']\<rparr> (describe_caller forging_world 7))) = [[CHR 0x0A], [CHR 0x1B]]"
proof -
  let ?req = "\<lparr>dr_host = ''h'' @ [CHR 0x0A], dr_command = [CHR 0x1B] @ ''ls'', dr_items = [''a''],
      dr_descriptions = [''d'']\<rparr>"
  let ?name = "''x'' @ [CHR 0x0A, CHR 0x1B] @ ''[2J''"
  have texts: "rust_str (dr_host ?req)" "rust_str (dr_command ?req)" "list_all rust_str (dr_descriptions ?req)"
    by (simp_all add: ascii_rust_str ascii_char_def byte_of_def)
  have paths: "rust_str path" if "get_proc_path forging_world p = Some path" for p path
    using that by (auto simp: get_proc_path_def forging_world_def ascii_rust_str ascii_char_def byte_of_def
        split: if_splits)
  have ascii: "list_all ascii_char ?name" by (simp add: ascii_char_def byte_of_def)
  have nm: "get_process_name forging_world 7 = Some ?name"
    by (simp add: get_process_name_def get_proc_path_def forging_world_def after_last_def)
  then have "is_invoker forging_world 7" by (simp add: is_invoker_def)
  then have "find (is_invoker forging_world) (ancestors forging_world 8 7) = Some 7"
    by (simp add: eval_nat_numeral)
  with nm decrypt_prompt_controls [OF texts paths, where peer = 7]
  have "filter is_control (utf8_chars (format_decrypt_prompt ?req (describe_caller forging_world 7)))
    = filter is_control (utf8_chars ?name)" by (simp add: Let_def)
  also have "\<dots> = [[CHR 0x0A], [CHR 0x1B]]"
    unfolding utf8_chars_ascii [OF ascii] by (simp add: is_control_def byte_of_def)
  finally show ?thesis .
qed

end
