(* ===== verification/Vt_Agent_Keys.thy ===== *)
theory Vt_Agent_Keys
  imports Vt_Agent_Run
begin

text \<open>
  The agent's keys in memory against the encrypted file they are kept in: adding and removing, the
  idle timeout and the reload after it, and what happens when a request and a lock interleave.
\<close>

section \<open>The stored keys\<close>

definition stored_keys :: "crates \<Rightarrow> agent \<Rightarrow> ssh_key_entry list outcome" where
  "stored_keys c s = fst (load_ssh_keys_from_file c (AesGcmCrypto (ag_passphrase s)) (ag_world s))"

lemma stored_keys_content: "stored_keys c s = ssh_store.content c (AesGcmCrypto (ag_passphrase s)) (ag_world s)"
  by (simp add: stored_keys_def ssh_store.content_def)

definition store_ok :: "crates \<Rightarrow> agent \<Rightarrow> bool" where
  "store_ok c s \<longleftrightarrow> aead_ok c \<and> serde_ok (js_ssh_keys c) \<and> keys_readable (ag_world s)"

text \<open>What the lenient handlers take the store to hold.\<close>

definition assumed_keys :: "crates \<Rightarrow> agent \<Rightarrow> ssh_key_entry list" where
  "assumed_keys c s = (case stored_keys c s of Ok es \<Rightarrow> es | _ \<Rightarrow> [])"

lemma lenient_load:
  "in_world (io_or [] (load_ssh_keys_from_file c (AesGcmCrypto (ag_passphrase s)))) s = (Ok (assumed_keys c s), s)"
proof -
  obtain r w where run: "load_ssh_keys_from_file c (AesGcmCrypto (ag_passphrase s)) (ag_world s) = (r, w)"
    by fastforce
  then have "w = ag_world s" by (rule load_ssh_keys_state)
  moreover have "\<forall>m. r \<noteq> Panic m"
    using ssh_store.load_no_panic [of c "AesGcmCrypto (ag_passphrase s)" "ag_world s"] run by simp
  ultimately show ?thesis
    using run by (cases r) (simp_all add: in_world_def io_or_def assumed_keys_def stored_keys_def)
qed

lemma saved_keys:
  assumes "store_ok c s" and "save_ssh_keys_to_file c (AesGcmCrypto (ag_passphrase s)) es (ag_world s) = (Ok (), w)"
    and "ag_passphrase t = ag_passphrase s" and "ag_world t = w"
  shows "stored_keys c t = Ok es"
  using assms ssh_store.saved [of c "ag_world s"] by (simp add: stored_keys_content store_ok_def)

text \<open>The entry a key is stored as.\<close>

definition entry_of :: "crates \<Rightarrow> private_key \<Rightarrow> string \<Rightarrow> string \<Rightarrow> ssh_key_entry" where
  "entry_of c k comment enc =
     \<lparr>ke_fingerprint = fingerprint_str c (public_key_data c k), ke_algorithm = key_algorithm c k,
      ke_comment = comment, ke_key_data = enc\<rparr>"

lemma add_identity_OkE:
  assumes "add_identity c (KeyCredential kd cm) s = (Ok (), t)"
  obtains k enc u fp where "private_key_new c kd cm = Inr k" and "supported_key k"
    and "openssh_print c k = Inr enc" and "length (ag_passphrase s) = 32" and "\<not> ag_locked s"
    and "fp = fingerprint_str c (public_key_data c k)"
    and "if \<exists>e \<in> set (assumed_keys c s). ke_fingerprint e = fp then u = s
         else in_world (save_ssh_keys_to_file c (AesGcmCrypto (ag_passphrase s))
                (assumed_keys c s @ [entry_of c k cm enc])) s = (Ok (), u)"
    and "t = u\<lparr>ag_keys := AList.update fp k (ag_keys u), ag_last_activity := agent_now u\<rparr>"
proof -
  from assms have l: "\<not> ag_locked s" and run: "add_identity_unlocked c (KeyCredential kd cm) s = (Ok (), t)"
    by (auto simp: add_identity_def split: if_splits)
  from run obtain k enc where k: "private_key_new c kd cm = Inr k" "supported_key k"
      "openssh_print c k = Inr enc" "length (ag_passphrase s) = 32"
    by (auto simp: add_identity_unlocked_def Let_def io_bind_eq_Ok ensure_def aes_new_eq_Ok split: if_splits)
  let ?fp = "fingerprint_str c (public_key_data c k)"
  let ?had = "\<exists>e \<in> set (assumed_keys c s). ke_fingerprint e = ?fp"
  from run k obtain u where
    "io_when (\<not> ?had) (in_world (save_ssh_keys_to_file c (AesGcmCrypto (ag_passphrase s))
        (assumed_keys c s @ [entry_of c k cm enc]))) s = (Ok (), u)"
    and "t = u\<lparr>ag_keys := AList.update ?fp k (ag_keys u), ag_last_activity := agent_now u\<rparr>"
    by (auto simp: add_identity_unlocked_def Let_def io_bind_eq_Ok aes_new_32 lenient_load entry_of_def
        touch_activity_def agent_now_def)
  then show thesis
    by (intro that [OF k l refl]) (auto simp: io_when_def split: if_splits)
qed

text \<open>
  A key that \<open>add_identity\<close> accepts is a P-256 or P-384 key, is in memory under its
  fingerprint, and is stored: afterwards the file holds exactly the entries it held before and, if the
  fingerprint was not among them, one more with the key.  (Entries of a file that could not be read count
  as none, so such a file is replaced.)
\<close>

theorem add_identity_stores:
  assumes "store_ok c s" and "add_identity c (KeyCredential kd cm) s = (Ok (), t)"
  shows "\<exists>k enc. private_key_new c kd cm = Inr k \<and> supported_key k \<and> openssh_print c k = Inr enc \<and>
    map_of (ag_keys t) (fingerprint_str c (public_key_data c k)) = Some k \<and>
    stored_keys c t =
      (if \<exists>x \<in> set (assumed_keys c s). ke_fingerprint x = fingerprint_str c (public_key_data c k)
       then stored_keys c s else Ok (assumed_keys c s @ [entry_of c k cm enc]))"
proof -
  obtain k enc u fp where k: "private_key_new c kd cm = Inr k" "supported_key k" "openssh_print c k = Inr enc"
    and fp: "fp = fingerprint_str c (public_key_data c k)"
    and u: "if \<exists>e \<in> set (assumed_keys c s). ke_fingerprint e = fp then u = s
       else in_world (save_ssh_keys_to_file c (AesGcmCrypto (ag_passphrase s))
              (assumed_keys c s @ [entry_of c k cm enc])) s = (Ok (), u)"
    and t: "t = u\<lparr>ag_keys := AList.update fp k (ag_keys u), ag_last_activity := agent_now u\<rparr>"
    using assms(2) by (rule add_identity_OkE)
  have "stored_keys c t = (if \<exists>x \<in> set (assumed_keys c s). ke_fingerprint x = fp
       then stored_keys c s else Ok (assumed_keys c s @ [entry_of c k cm enc]))"
  proof (cases "\<exists>x \<in> set (assumed_keys c s). ke_fingerprint x = fp")
    case True
    with u t show ?thesis by (simp add: stored_keys_def)
  next
    case False
    with u obtain w where "save_ssh_keys_to_file c (AesGcmCrypto (ag_passphrase s))
        (assumed_keys c s @ [entry_of c k cm enc]) (ag_world s) = (Ok (), w)"
      and "u = s\<lparr>ag_world := w\<rparr>"
      by (auto simp: in_world_eq)
    with False saved_keys [OF assms(1), of _ w t] t show ?thesis by simp
  qed
  with k fp t show ?thesis by (auto simp: update_conv')
qed

lemma demo_stored: "stored_keys demo_crates demo_agent = Ok []"
  by (simp add: stored_keys_def load_ssh_keys_eval [of demo_world "''/h''"])

lemma demo_assumed: "assumed_keys demo_crates demo_agent = []"
  by (simp add: assumed_keys_def demo_stored)

lemma demo_store_ok: "ag_world s = demo_world \<Longrightarrow> store_ok demo_crates s"
  by (simp add: store_ok_def demo_aead_ok demo_serde_ok demo_keys_readable)

definition demo_credential :: credential where
  "demo_credential = KeyCredential (Ecdsa NistP256 [1] [7]) ''k''"

lemma demo_print: "openssh_print demo_crates demo_key = Inr (of_bytes [1])"
  by (simp add: demo_crates_def demo_key_def)

lemma demo_public: "public_key_data demo_crates demo_key = [7]"
  by (simp add: demo_crates_def demo_key_def)

lemma demo_new_key: "private_key_new demo_crates (Ecdsa NistP256 [1] [7]) ''k'' = Inr demo_key"
  by (simp add: demo_key_def)

lemma demo_supported: "supported_key demo_key"
  by (simp add: supported_key_def demo_key_def)

lemma demo_add_unlocked:
  assumes "ag_world s = demo_world" and "ag_passphrase s = replicate 32 1"
  shows "\<exists>t. add_identity_unlocked demo_crates demo_credential s = (Ok (), t)"
proof -
  have none: "assumed_keys demo_crates s = []"
    using assms by (simp add: assumed_keys_def stored_keys_def load_ssh_keys_eval [of demo_world "''/h''"])
  obtain v where "save_ssh_keys_to_file demo_crates (AesGcmCrypto (replicate 32 1))
      [entry_of demo_crates demo_key ''k'' (of_bytes [1])] demo_world = (Ok (), v)"
    using demo_save by blast
  then have "in_world (save_ssh_keys_to_file demo_crates (AesGcmCrypto (replicate 32 1))
      [\<lparr>ke_fingerprint = fingerprint_str demo_crates [7], ke_algorithm = ''ecdsa-sha2-nistp256'',
        ke_comment = ''k'', ke_key_data = of_bytes [1]\<rparr>]) s = (Ok (), s\<lparr>ag_world := v\<rparr>)"
    by (simp add: in_world_def entry_of_def demo_public assms(1))
  moreover have "key_algorithm demo_crates demo_key = ''ecdsa-sha2-nistp256''" by simp
  ultimately show ?thesis
    using lenient_load [of demo_crates s] assms
    by (simp add: add_identity_unlocked_def demo_credential_def demo_new_key demo_supported
        demo_public demo_print aes_new_32 none io_bind_def Let_def touch_activity_def del: demo_crates_sel)
qed

lemma demo_add_any:
  assumes "ag_world s = demo_world" and "\<not> ag_locked s" and "ag_passphrase s = replicate 32 1"
  shows "\<exists>t. add_identity demo_crates demo_credential s = (Ok (), t)"
  using demo_add_unlocked [OF assms(1,3)] assms(2) by (simp add: add_identity_def)

theorem add_identity_stores_witness:
  "\<exists>t. add_identity demo_crates demo_credential demo_agent = (Ok (), t) \<and>
     stored_keys demo_crates t = Ok [entry_of demo_crates demo_key ''k'' (of_bytes [1])]"
proof -
  obtain t where run: "add_identity demo_crates (KeyCredential (Ecdsa NistP256 [1] [7]) ''k'') demo_agent = (Ok (), t)"
    using demo_add_any [of demo_agent] by (auto simp: demo_credential_def)
  have "store_ok demo_crates demo_agent" by (rule demo_store_ok) simp
  from add_identity_stores [OF this run] demo_new_key demo_print have
    "stored_keys demo_crates t = Ok [entry_of demo_crates demo_key ''k'' (of_bytes [1])]"
    by (auto simp: demo_assumed)
  with run show ?thesis by (auto simp: demo_credential_def)
qed

section \<open>Removing keys\<close>

text \<open>
  A lock does not protect the stored keys: \<open>remove_all_identities\<close> has no lock check, so any
  client that reaches the socket of a locked agent erases the whole key file.
\<close>

theorem locked_agent_erases_store:
  assumes "store_ok c s" and "ag_locked s" and "length (ag_passphrase s) = 32"
    and "save_ssh_keys_to_file c (AesGcmCrypto (ag_passphrase s)) [] (ag_world s) = (Ok (), w)"
  shows "\<exists>t. remove_all_identities c s = (Ok (), t) \<and> ag_locked t \<and> stored_keys c t = Ok []"
proof -
  let ?t = "s\<lparr>ag_world := w, ag_keys := []\<rparr>"
  have "remove_all_identities c s = (Ok (), ?t)"
    using assms(3,4) by (simp add: remove_all_identities_def aes_new_32 in_world_def io_attempt_def io_bind_def)
  moreover have "stored_keys c ?t = Ok []"
    by (rule saved_keys [OF assms(1,4)]) simp_all
  ultimately show ?thesis using assms(2) by auto
qed

theorem locked_agent_erases_store_witness:
  "\<exists>t. remove_all_identities demo_crates (demo_agent\<lparr>ag_locked := True\<rparr>) = (Ok (), t) \<and>
     stored_keys demo_crates t = Ok []"
proof -
  let ?s = "demo_agent\<lparr>ag_locked := True\<rparr>"
  obtain w where "save_ssh_keys_to_file demo_crates (AesGcmCrypto (ag_passphrase ?s)) [] (ag_world ?s) = (Ok (), w)"
    using demo_save by auto
  moreover have "store_ok demo_crates ?s" by (rule demo_store_ok) simp
  ultimately show ?thesis using locked_agent_erases_store [of demo_crates ?s w] by auto
qed

lemma remove_identity_eval:
  assumes "length (ag_passphrase s) = 32"
  shows "remove_identity c pub s =
    (case save_ssh_keys_to_file c (AesGcmCrypto (ag_passphrase s))
        (filter (\<lambda>e. ke_fingerprint e \<noteq> fingerprint_str c pub) (assumed_keys c s)) (ag_world s) of
       (r, w) \<Rightarrow> (case r of Panic m \<Rightarrow> (Panic m, s\<lparr>ag_world := w\<rparr>)
         | _ \<Rightarrow> (Ok (), s\<lparr>ag_world := w, ag_keys := AList.delete (fingerprint_str c pub) (ag_keys s)\<rparr>)))"
  unfolding remove_identity_def Let_def io_bind_prim io_seq_eval aes_new_32 [OF assms] outcome.case
    io_bind_assoc io_bind_eval(1) [OF lenient_load]
  by (simp add: io_bind_def in_world_def io_attempt_def split: prod.split outcome.split)

text \<open>
  \<open>remove_identity\<close> always reports success and always forgets the key in memory, and only that
  one.  The stored entry is removed only if the file could be saved; if not, the failure is dropped, and the
  key comes back with the next reload (unless the write was cut off, which spoils the whole file).
\<close>

theorem remove_identity_effect:
  assumes "store_ok c s" and "length (ag_passphrase s) = 32"
    and "remove_identity c pub s = (Ok (), t)"
  shows "map_of (ag_keys t) = (map_of (ag_keys s))(fingerprint_str c pub := None) \<and>
    stored_keys c t =
      (case fst (save_ssh_keys_to_file c (AesGcmCrypto (ag_passphrase s))
          (filter (\<lambda>e. ke_fingerprint e \<noteq> fingerprint_str c pub) (assumed_keys c s)) (ag_world s)) of
        Ok _ \<Rightarrow> Ok (filter (\<lambda>e. ke_fingerprint e \<noteq> fingerprint_str c pub) (assumed_keys c s))
      | _ \<Rightarrow> if keys_cut (ag_world s) (ag_world t) then stored_keys c t else stored_keys c s)"
proof -
  let ?es = "filter (\<lambda>e. ke_fingerprint e \<noteq> fingerprint_str c pub) (assumed_keys c s)"
  obtain q w where run: "save_ssh_keys_to_file c (AesGcmCrypto (ag_passphrase s)) ?es (ag_world s) = (q, w)"
    by fastforce
  have q: "\<forall>m. q \<noteq> Panic m"
    and t: "t = s\<lparr>ag_world := w, ag_keys := AList.delete (fingerprint_str c pub) (ag_keys s)\<rparr>"
    using assms(3) unfolding remove_identity_eval [OF assms(2)] run by (cases q; simp)+
  show ?thesis
  proof (cases q)
    case (Ok x)
    with run have "stored_keys c t = Ok ?es"
      by (intro saved_keys [OF assms(1)]) (simp_all add: t)
    with Ok run t show ?thesis by (simp add: delete_conv')
  next
    case (Err e)
    with run have "keys_cut (ag_world s) (ag_world t) \<or> stored_keys c t = stored_keys c s"
      using ssh_store.failed_save [of c "AesGcmCrypto (ag_passphrase s)" ?es "ag_world s" e w]
      by (simp add: t stored_keys_def)
    with Err run t show ?thesis by (auto simp: delete_conv')
  qed (use q in auto)
qed

theorem remove_identity_effect_witness:
  "\<exists>t. remove_identity demo_crates [7] demo_agent = (Ok (), t) \<and>
     map_of (ag_keys t) (fingerprint_str demo_crates [7]) = None"
proof -
  obtain w where "save_ssh_keys_to_file demo_crates (AesGcmCrypto (replicate 32 1)) [] demo_world = (Ok (), w)"
    using demo_save by blast
  then have "\<exists>t. remove_identity demo_crates [7] demo_agent = (Ok (), t)"
    using lenient_load [of demo_crates demo_agent]
    by (simp add: remove_identity_def aes_new_32 demo_assumed io_bind_def Let_def in_world_def io_attempt_def)
  then obtain t where run: "remove_identity demo_crates [7] demo_agent = (Ok (), t)" by blast
  have ok: "store_ok demo_crates demo_agent" by (rule demo_store_ok) simp
  from remove_identity_effect [OF ok _ run] run show ?thesis by simp
qed

section \<open>The idle timeout\<close>

definition identity_of :: "crates \<Rightarrow> string \<times> private_key \<Rightarrow> identity" where
  "identity_of c e = \<lparr>id_pubkey = public_key_data c (snd e), id_comment = pk_comment (snd e)\<rparr>"

lemma request_identities_eval:
  assumes "\<not> ag_locked s" and "ensure_keys_loaded c s = (Ok (), t)"
  shows "request_identities c s = (Ok (map (identity_of c) (ag_keys t)), t)"
  using assms by (simp add: request_identities_def io_bind_def identity_of_def case_prod_unfold)

text \<open>
  When the agent has been idle for the configured time, the sweep clears every private key from
  memory, and not earlier; the next listing of identities loads the stored keys again and lists them,
  without a touch (the master passphrase stays in memory).
\<close>

theorem idle_clear_and_reload:
  assumes "\<not> ag_locked s" and "ag_keys s \<noteq> []"
    and "load_all_keys c (ag_passphrase s) (ag_world s) = (Ok ks, ag_world s)"
  shows "(if nanos timeout \<le> agent_now s - ag_last_activity s
     then ag_keys (idle_sweep timeout s) = [] \<and>
       request_identities c (idle_sweep timeout s) =
         (Ok (map (identity_of c) ks), s\<lparr>ag_keys := ks, ag_idle_cleared := False\<rparr>)
     else idle_sweep timeout s = s)"
proof -
  let ?t = "s\<lparr>ag_keys := [], ag_idle_cleared := True\<rparr>"
  have "ensure_keys_loaded c ?t = (Ok (), s\<lparr>ag_keys := ks, ag_idle_cleared := False\<rparr>)"
    using assms(3) by (simp add: ensure_eval)
  with assms(1,2) show ?thesis by (simp add: idle_sweep_def request_identities_eval)
qed

theorem idle_clear_and_reload_witness:
  "request_identities demo_crates (idle_sweep 60 (demo_agent\<lparr>ag_world := demo_world\<lparr>instant := 10 ^ 12\<rparr>\<rparr>)) =
     (Ok [], demo_agent\<lparr>ag_world := demo_world\<lparr>instant := 10 ^ 12\<rparr>, ag_keys := [], ag_idle_cleared := False\<rparr>)"
proof -
  let ?s = "demo_agent\<lparr>ag_world := demo_world\<lparr>instant := 10 ^ 12\<rparr>\<rparr>"
  have "load_all_keys demo_crates (ag_passphrase ?s) (ag_world ?s) = (Ok [], ag_world ?s)"
    by (simp add: load_all_keys_def aes_new_32 load_ssh_keys_from_file_def io_eval_defs paths_eval fs_exists_def)
  moreover have "nanos 60 \<le> agent_now ?s - ag_last_activity ?s"
    by (simp add: agent_now_def) (simp add: demo_agent_def agent_new_def)
  ultimately show ?thesis
    using idle_clear_and_reload [of ?s demo_crates "[]" 60] by simp
qed

text \<open>
  But a key added while the others are cleared hides them: the memory is then not empty, so the
  stored keys are not loaded again, and only the new key is listed (and can sign) until a restart or an
  unlock, whatever the file holds.
\<close>

theorem idle_add_hides_stored_keys:
  assumes "ag_keys s = []" and "ag_idle_cleared s" and "add_identity c (KeyCredential kd cm) s = (Ok (), t)"
  shows "\<exists>k. private_key_new c kd cm = Inr k \<and>
    ag_keys t = [(fingerprint_str c (public_key_data c k), k)] \<and>
    request_identities c t = (Ok [identity_of c (fingerprint_str c (public_key_data c k), k)], t)"
proof -
  obtain k u where k: "private_key_new c kd cm = Inr k" and l: "\<not> ag_locked s"
    and u: "u = s \<or> (\<exists>m :: unit wio. in_world m s = (Ok (), u))"
    and t: "t = u\<lparr>ag_keys := AList.update (fingerprint_str c (public_key_data c k)) k (ag_keys u),
         ag_last_activity := agent_now u\<rparr>"
    using assms(3) by (rule add_identity_OkE) (simp split: if_splits, blast+)
  have "ag_keys u = []" "\<not> ag_locked u"
    using u assms(1) l by (auto simp: in_world_eq)
  with t have "ag_keys t = [(fingerprint_str c (public_key_data c k), k)]" "\<not> ag_locked t" by simp_all
  moreover from this have "ensure_keys_loaded c t = (Ok (), t)" by (simp add: ensure_eval)
  ultimately show ?thesis using k request_identities_eval [of t c t] by simp
qed

theorem idle_add_hides_stored_keys_witness:
  "\<exists>t. add_identity demo_crates demo_credential (demo_agent\<lparr>ag_keys := [], ag_idle_cleared := True\<rparr>) = (Ok (), t) \<and>
     length (ag_keys t) = 1"
proof -
  let ?s = "demo_agent\<lparr>ag_keys := [], ag_idle_cleared := True\<rparr>"
  obtain t where run: "add_identity demo_crates (KeyCredential (Ecdsa NistP256 [1] [7]) ''k'') ?s = (Ok (), t)"
    using demo_add_any [of ?s] by (auto simp: demo_credential_def)
  from idle_add_hides_stored_keys [OF _ _ run] run show ?thesis
    by (auto simp: demo_credential_def)
qed

section \<open>A lock between the check and the rest of a request\<close>

text \<open>
  The handlers release the lock after reading it.  If another session locks the agent after
  \<open>add_identity\<close> read it, the rest of that request puts a private key into the memory of the locked
  agent, which breaks the lock invariant.
\<close>

theorem lock_race_keeps_key:
  assumes "lock c pw s = (Ok (), u)" and "add_identity_unlocked c cred u = (Ok (), t)"
  shows "ag_locked t \<and> ag_keys t \<noteq> [] \<and> \<not> agent_inv t"
proof -
  have "within same_lock (add_identity_unlocked c cred)"
    unfolding add_identity_unlocked_def by (intro frame_intros credential_case_frame)
  from withinD [OF this assms(2)] assms(1) have "ag_locked t"
    by (auto simp: same_lock_def lock_eval split: if_splits)
  moreover have "ag_keys t \<noteq> []"
    using assms(2)
    by (auto simp: add_identity_unlocked_def Let_def io_bind_eq_Ok touch_activity_def
        split: credential.splits)
  ultimately show ?thesis by (simp add: agent_inv_def)
qed

theorem lock_race_keeps_key_witness:
  "\<exists>u t. lock demo_crates ''pw'' demo_agent = (Ok (), u) \<and>
     add_identity_unlocked demo_crates demo_credential u = (Ok (), t) \<and> \<not> agent_inv t"
proof -
  obtain u where u: "lock demo_crates ''pw'' demo_agent = (Ok (), u)" by (simp add: lock_def)
  then have w: "ag_world u = demo_world" "ag_passphrase u = replicate 32 1"
    by (auto simp: lock_eval)
  obtain t where t: "add_identity_unlocked demo_crates demo_credential u = (Ok (), t)"
    using demo_add_unlocked [OF w] by blast
  from lock_race_keeps_key [OF u t] u t show ?thesis by blast
qed

end
