(* ===== verification/Vt_Session.thy ===== *)
theory Vt_Session
  imports Vt_Agent_Keys
begin

text \<open>
  Around the handlers: the session of a connection, with the process id the kernel gave when
  it was accepted (\<open>get_peer_pid\<close>, \<open>new_session\<close>), and the task that clears idle keys, turn by turn.
\<close>

section \<open>Sessions\<close>

text \<open>
  What \<open>getsockopt\<close> with \<open>SO_PEERCRED\<close> answered: its return value and the process id of the peer.
\<close>

record peer_cred =
  pc_ret :: i32
  pc_pid :: i32

definition get_peer_pid :: "peer_cred \<Rightarrow> i32 option" where
  "get_peer_pid cred = (if pc_ret cred = 0 \<and> 0 <s pc_pid cred then Some (pc_pid cred) else None)"

text \<open>
  A session shares the state of the factory, which is the one agent here, and adds its peer, which is asked for once, when
  the connection is accepted: every request of the connection is handled under it.  The loop that accepts connections
  and hands their requests to the sessions is that of \<open>ssh_agent_lib\<close>; what it hands over is the \<open>Request\<close> events of a run.
\<close>

record vt_session =
  vs_peer_pid :: "i32 option"

definition new_session :: "peer_cred \<Rightarrow> vt_session" where
  "new_session cred = \<lparr>vs_peer_pid = get_peer_pid cred\<rparr>"

section \<open>The idle sweeper\<close>

text \<open>The pause between two turns, in nanoseconds.\<close>

definition check_interval :: "u64 \<Rightarrow> nat" where
  "check_interval timeout = min (nanos 60) (nanos timeout)"

text \<open>
  One turn of the loop: a sleep of some length, what happened meanwhile, and the sweep.
\<close>

definition sweeper_turn :: "nat \<times> agent_event list \<Rightarrow> agent_event list" where
  "sweeper_turn t = Wait (fst t) # snd t @ [IdleSweep]"

definition slept :: "(nat \<times> agent_event list) list \<Rightarrow> nat" where
  "slept ts = sum_list (map fst ts)"

text \<open>Events that are neither a request nor a wait.\<close>

definition background :: "agent_event \<Rightarrow> bool" where
  "background e = (case e of Request p r \<Rightarrow> False | Wait n \<Rightarrow> False | _ \<Rightarrow> True)"

lemma run_append: "agent_run c T s (es @ fs) = agent_run c T (agent_run c T s es) fs"
  by (simp add: agent_run_def)

lemma background_run:
  assumes "\<forall>e\<in>set es. background e"
  shows "agent_now (agent_run c T s es) = agent_now s \<and>
    ag_last_activity (agent_run c T s es) = ag_last_activity s \<and>
    (ag_keys (agent_run c T s es) = ag_keys s \<or>
     nanos T \<le> agent_now s - ag_last_activity s \<and> ag_keys (agent_run c T s es) = [])"
  using assms
proof (induction es rule: rev_induct)
  case (snoc e es)
  then show ?case
    by (cases e) (auto simp: background_def idle_sweep_def cache_sweep_def agent_now_def)
qed simp

lemma turn_effect:
  assumes "\<forall>e\<in>set (snd t). background e" and "ag_last_activity s \<le> agent_now s"
  shows "agent_now (agent_run c T s (sweeper_turn t)) = agent_now s + fst t"
    and "ag_last_activity (agent_run c T s (sweeper_turn t)) = ag_last_activity s"
    and "ag_keys (agent_run c T s (sweeper_turn t)) =
      (if nanos T \<le> agent_now s + fst t - ag_last_activity s then [] else ag_keys s)"
proof -
  let ?w = "agent_step c T s (Wait (fst t))"
  have w: "agent_now ?w = agent_now s + fst t" "ag_last_activity ?w = ag_last_activity s" "ag_keys ?w = ag_keys s"
    by (simp_all add: agent_now_def)
  have r: "agent_run c T s (sweeper_turn t) = idle_sweep T (agent_run c T ?w (snd t))"
    by (simp add: sweeper_turn_def agent_run_def)
  note b = background_run [OF assms(1), of c T ?w]
  show "agent_now (agent_run c T s (sweeper_turn t)) = agent_now s + fst t"
    "ag_last_activity (agent_run c T s (sweeper_turn t)) = ag_last_activity s"
    using b w by (simp_all add: r idle_sweep_def agent_now_def)
  show "ag_keys (agent_run c T s (sweeper_turn t)) =
      (if nanos T \<le> agent_now s + fst t - ag_last_activity s then [] else ag_keys s)"
    using b w by (auto simp: r idle_sweep_def)
qed

lemma turns_effect:
  assumes "\<forall>t\<in>set ts. \<forall>e\<in>set (snd t). background e" and "ag_last_activity s = agent_now s" and "0 < nanos T"
  shows "agent_now (agent_run c T s (concat (map sweeper_turn ts))) = agent_now s + slept ts \<and>
    ag_last_activity (agent_run c T s (concat (map sweeper_turn ts))) = ag_last_activity s \<and>
    ag_keys (agent_run c T s (concat (map sweeper_turn ts))) = (if nanos T \<le> slept ts then [] else ag_keys s)"
  using assms(1)
proof (induction ts rule: rev_induct)
  case Nil
  with assms(3) show ?case by (simp add: slept_def)
next
  case (snoc t ts)
  let ?s = "agent_run c T s (concat (map sweeper_turn ts))"
  have h: "agent_now ?s = agent_now s + slept ts" "ag_last_activity ?s = ag_last_activity s"
    "ag_keys ?s = (if nanos T \<le> slept ts then [] else ag_keys s)"
    using snoc by auto
  have t: "\<forall>e\<in>set (snd t). background e" "ag_last_activity ?s \<le> agent_now ?s"
    using snoc.prems h assms(2) by auto
  have "agent_run c T s (concat (map sweeper_turn (ts @ [t]))) = agent_run c T ?s (sweeper_turn t)"
    by (simp add: run_append)
  with turn_effect [OF t, of c T] h assms(2) show ?case by (auto simp: slept_def)
qed

lemma slept_crosses:
  assumes "0 < N" and "N \<le> slept ts" and "\<forall>t\<in>set ts. fst t \<le> L"
  shows "\<exists>k\<le>length ts. N \<le> slept (take k ts) \<and> slept (take k ts) < N + L"
  using assms(2,3)
proof (induction ts rule: rev_induct)
  case Nil
  with assms(1) show ?case by (simp add: slept_def)
next
  case (snoc t ts)
  show ?case
  proof (cases "N \<le> slept ts")
    case True
    then obtain k where k: "k \<le> length ts" "N \<le> slept (take k ts)" "slept (take k ts) < N + L"
      using snoc by auto
    then show ?thesis by (intro exI [of _ k]) simp
  next
    case False
    then have "slept (ts @ [t]) < N + L" using snoc.prems(2) by (simp add: slept_def)
    with snoc.prems(1) show ?thesis by (intro exI [of _ "Suc (length ts)"]) simp
  qed
qed

text \<open>
  C26. Idle private keys leave the memory, in time and not too early.  After the last request, whatever other
  programs do, the keys stay through every turn of the sweeper before the timeout and are gone after
  every turn past it; and when no turn comes more than \<open>late\<close> after its interval and the turns go on for long
  enough, they are gone within the timeout, one interval (at most a minute) and \<open>late\<close>.
\<close>

theorem idle_keys_leave_memory:
  assumes "ag_last_activity s = agent_now s" and "0 < timeout"
    and "\<forall>t\<in>set turns. fst t \<le> check_interval timeout + late \<and> (\<forall>e\<in>set (snd t). background e)"
    and "nanos timeout \<le> slept turns"
  shows "(\<forall>j. ag_keys (agent_run c timeout s (concat (map sweeper_turn (take j turns)))) =
        (if nanos timeout \<le> slept (take j turns) then [] else ag_keys s)) \<and>
    (\<exists>k\<le>length turns. let t = agent_run c timeout s (concat (map sweeper_turn (take k turns))) in
        ag_keys t = [] \<and> agent_now t < agent_now s + nanos timeout + check_interval timeout + late)"
proof -
  have pos: "0 < nanos timeout" using assms(2) by (simp add: unat_gt_0 word_gt_0)
  have eff: "agent_now (agent_run c timeout s (concat (map sweeper_turn (take j turns)))) =
        agent_now s + slept (take j turns) \<and>
      ag_keys (agent_run c timeout s (concat (map sweeper_turn (take j turns)))) =
        (if nanos timeout \<le> slept (take j turns) then [] else ag_keys s)" for j
  proof -
    have "\<forall>t\<in>set (take j turns). \<forall>e\<in>set (snd t). background e"
      using assms(3) by (meson in_set_takeD)
    from turns_effect [OF this assms(1) pos, of c] show ?thesis by blast
  qed
  obtain k where "k \<le> length turns" "nanos timeout \<le> slept (take k turns)"
    "slept (take k turns) < nanos timeout + (check_interval timeout + late)"
    using slept_crosses [OF pos assms(4)] assms(3) by blast
  with eff show ?thesis by (auto simp: Let_def intro!: exI [of _ k])
qed

theorem idle_keys_leave_memory_witness:
  "\<exists>k\<le>2. let t = agent_run demo_crates 90 (demo_agent\<lparr>ag_last_activity := agent_now demo_agent\<rparr>)
      (concat (map sweeper_turn (take k [(60 * 10 ^ 9, [CacheSweep]), (60 * 10 ^ 9, [])]))) in
    ag_keys t = [] \<and> agent_now t < agent_now demo_agent + 150 * 10 ^ 9 + 1"
proof -
  let ?s = "demo_agent\<lparr>ag_last_activity := agent_now demo_agent\<rparr>"
  let ?ts = "[(60 * 10 ^ 9, [CacheSweep]), (60 * 10 ^ 9, [])] :: (nat \<times> agent_event list) list"
  have s: "ag_last_activity ?s = agent_now ?s" "agent_now ?s = agent_now demo_agent" by (simp_all add: agent_now_def)
  have n: "nanos 90 \<le> slept ?ts" "nanos 90 = 90 * 10 ^ 9" "check_interval 90 = 60 * 10 ^ 9"
    by (simp_all add: slept_def check_interval_def)
  have pre: "(0 :: u64) < 90"
    "\<forall>t\<in>set ?ts. fst t \<le> check_interval 90 + 1 \<and> (\<forall>e\<in>set (snd t). background e)"
    by (simp_all add: n(3) background_def)
  obtain k where "k \<le> length ?ts" and k: "ag_keys (agent_run demo_crates 90 ?s (concat (map sweeper_turn (take k ?ts)))) = []"
    "agent_now (agent_run demo_crates 90 ?s (concat (map sweeper_turn (take k ?ts)))) <
      agent_now ?s + nanos 90 + check_interval 90 + 1"
    using idle_keys_leave_memory [OF s(1) pre n(1), of demo_crates, THEN conjunct2] unfolding Let_def by blast
  then have "k \<le> 2" by simp
  moreover have "agent_now (agent_run demo_crates 90 ?s (concat (map sweeper_turn (take k ?ts)))) <
      agent_now demo_agent + 150 * 10 ^ 9 + 1"
    using k(2) unfolding n(2,3) s(2) by simp
  ultimately show ?thesis using k(1) unfolding Let_def by blast
qed

end
