(* ===== verification/Vt_Tasks.thy ===== *)
theory Vt_Tasks
  imports Vt_Session
begin

text \<open>
  The handlers as the runtime executes them.  The state of \<open>VtSshAgentFactory\<close> lies behind six
  \<open>tokio\<close> locks, and the sessions are tasks that interleave wherever the source awaits a lock.  Here
  every handler is a task that names the guards it takes and drops, in the order of the source, and
  does one access at a time in between.  Each is proved to do, when it runs alone, what the handler of
  \<open>Vt_Agent\<close> does in one step; \<open>Vt_Interleave\<close> runs many of them against each other.
\<close>

section \<open>Tasks\<close>

datatype lock_id = LockedLock | PassLock | KeysLock | ActivityLock | IdleLock | CacheLock

datatype lock_mode = ReadLock | WriteLock

datatype reply =
    IdentitiesReply "identity list"
  | SignReply signature
  | ExtensionReply "extension option"
  | UnitReply

text \<open>
  \<open>Act upd next\<close> is a stretch of code between two awaits: it changes the state and goes on in a way that
  depends on the state it saw.  A task that is \<open>Done\<close> drops the guards it still holds, as returning
  and unwinding do.
\<close>

datatype task =
    Done "reply outcome"
  | Acquire lock_id lock_mode task
  | Release lock_id task
  | Act "agent \<Rightarrow> agent" "agent \<Rightarrow> task"

definition act :: "'a aio \<Rightarrow> ('a \<Rightarrow> task) \<Rightarrow> task" where
  "act m k = Act (\<lambda>s. snd (m s)) (\<lambda>s. case fst (m s) of
      Ok x \<Rightarrow> k x
    | Err e \<Rightarrow> Done (Err e)
    | Panic p \<Rightarrow> Done (Panic p))"

text \<open>A task run without any other one in between: locks are then no obstacle.\<close>

primrec run_alone :: "task \<Rightarrow> reply aio" where
  "run_alone (Done r) = io_of r"
| "run_alone (Acquire l m k) = run_alone k"
| "run_alone (Release l k) = run_alone k"
| "run_alone (Act upd next) = (\<lambda>s. run_alone (next s) (upd s))"

section \<open>The shared steps\<close>

definition ensure_task :: "crates \<Rightarrow> task \<Rightarrow> task" where
  "ensure_task c k =
     Acquire KeysLock ReadLock (
     act (io_get ag_keys) (\<lambda>keys.
     Release KeysLock (
     if keys \<noteq> [] then k
     else
       Acquire IdleLock ReadLock (
       act (io_get ag_idle_cleared) (\<lambda>idle.
       Release IdleLock (
       if \<not> idle then k
       else
         act (io_bind (io_get ag_passphrase) (\<lambda>passphrase. in_world (load_all_keys c passphrase))) (\<lambda>loaded.
         Acquire KeysLock WriteLock (
         act (io_upd (\<lambda>s. s\<lparr>ag_keys := loaded\<rparr>)) (\<lambda>_.
         Acquire IdleLock WriteLock (
         act (io_upd (\<lambda>s. s\<lparr>ag_idle_cleared := False\<rparr>)) (\<lambda>_.
         Release IdleLock (Release KeysLock k))))))))))))"

definition touch_task :: "task \<Rightarrow> task" where
  "touch_task k =
     Acquire ActivityLock WriteLock (act touch_activity (\<lambda>_. Release ActivityLock k))"

definition prompt_task ::
  "crates \<Rightarrow> u64 \<Rightarrow> string \<Rightarrow> string \<Rightarrow> bool \<Rightarrow> (bool \<Rightarrow> task) \<Rightarrow> task" where
  "prompt_task c ctx fingerprint auth_message is_decrypt k =
     act (verify_yubikey_presence c auth_message) (\<lambda>present.
     if \<not> present then k False
     else
       Acquire CacheLock WriteLock (
       act (cache_grant ctx fingerprint is_decrypt) (\<lambda>_.
       Release CacheLock (k True))))"

definition cached_task ::
  "crates \<Rightarrow> u64 \<Rightarrow> string \<Rightarrow> string \<Rightarrow> bool \<Rightarrow> (bool \<Rightarrow> task) \<Rightarrow> task" where
  "cached_task c ctx fingerprint auth_message is_decrypt k =
     Acquire CacheLock ReadLock (
     act (io_get (\<lambda>s. is_authorized (agent_now s) (ag_auth_cache s) ctx fingerprint)) (\<lambda>hit.
     Release CacheLock (
     if hit then k True else prompt_task c ctx fingerprint auth_message is_decrypt k)))"

definition check_task ::
  "crates \<Rightarrow> i32 option \<Rightarrow> string \<Rightarrow> string \<Rightarrow> bool \<Rightarrow> (bool \<Rightarrow> task) \<Rightarrow> task" where
  "check_task c peer_pid fingerprint auth_message is_decrypt k =
     act (io_get (\<lambda>s. context_id (ag_cache_mode s) peer_pid (ag_world s))) (\<lambda>ctx.
     case ctx of
       None \<Rightarrow> act (verify_yubikey_presence c auth_message) k
     | Some ctx \<Rightarrow> cached_task c ctx fingerprint auth_message is_decrypt k)"

section \<open>Listing and signing\<close>

text \<open>\<open>done\<close> answers with a value.\<close>

abbreviation answer :: "reply \<Rightarrow> task" where
  "answer r \<equiv> Done (Ok r)"

abbreviation refuse :: task where
  "refuse \<equiv> Done (Err AgentFailure)"

text \<open>The check that opens most handlers.\<close>

definition unless_locked :: "task \<Rightarrow> task \<Rightarrow> task" where
  "unless_locked locked_reply k =
     Acquire LockedLock ReadLock (
     act (io_get ag_locked) (\<lambda>locked.
     if locked then locked_reply else Release LockedLock k))"

definition identities_task :: "crates \<Rightarrow> task" where
  "identities_task c =
     unless_locked (answer (IdentitiesReply [])) (
     ensure_task c (
     Acquire KeysLock ReadLock (
     act (io_get ag_keys) (\<lambda>keys.
     answer (IdentitiesReply (map (\<lambda>(_, privkey).
       \<lparr>id_pubkey = public_key_data c privkey, id_comment = pk_comment privkey\<rparr>) keys))))))"

text \<open>The guard of the keys stays until the signature is made, over the prompt.\<close>

definition sign_found :: "crates \<Rightarrow> i32 option \<Rightarrow> sign_request \<Rightarrow> private_key \<Rightarrow> task" where
  "sign_found c peer_pid request privkey =
     (let fp_str = fingerprint_str c (sr_pubkey request) in
     act (io_get (\<lambda>s. peer_name peer_pid (ag_world s))) (\<lambda>proc_name.
     act (io_get (\<lambda>s. peer_caller peer_pid (ag_world s))) (\<lambda>caller.
     let key_label = (if pk_comment privkey = [] then fp_str else pk_comment privkey) in
     check_task c peer_pid fp_str (sign_message key_label proc_name) False (\<lambda>approved.
     act (in_world (log_sign c peer_pid proc_name caller key_label fp_str approved)) (\<lambda>_.
     if \<not> approved then refuse
     else act (io_of (sign_with_key c privkey (sr_data request))) (\<lambda>sg. answer (SignReply sg)))))))"

definition sign_task :: "crates \<Rightarrow> i32 option \<Rightarrow> sign_request \<Rightarrow> task" where
  "sign_task c peer_pid request =
     unless_locked refuse (
     ensure_task c (
     touch_task (
     Acquire KeysLock ReadLock (
     act (io_get (\<lambda>s. map_of (ag_keys s) (fingerprint_str c (sr_pubkey request)))) (\<lambda>found.
     case found of None \<Rightarrow> refuse | Some privkey \<Rightarrow> sign_found c peer_pid request privkey)))))"

section \<open>Extensions\<close>

definition encrypt_task :: "crates \<Rightarrow> i32 option \<Rightarrow> string \<Rightarrow> bytes \<Rightarrow> (bytes \<Rightarrow> task) \<Rightarrow> task" where
  "encrypt_task c peer_pid caller decrypted k =
     act (io_of (of_sum Msg (de (js_encrypt_items c) decrypted))) (\<lambda>items.
     act (in_world (log_encrypt c peer_pid caller (length items))) (\<lambda>_.
     act (io_get ag_passphrase) (\<lambda>passphrase.
     act (io_of (aes_new passphrase)) (\<lambda>mac_cipher.
     act (in_world (do_encrypt c mac_cipher items)) (\<lambda>result.
     act (io_of (of_sum Msg (ser (js_results c) result))) k)))))"

definition decrypt_task :: "crates \<Rightarrow> i32 option \<Rightarrow> string \<Rightarrow> bytes \<Rightarrow> (bytes \<Rightarrow> task) \<Rightarrow> task" where
  "decrypt_task c peer_pid caller decrypted k =
     act (io_of (of_sum Msg (de (js_decrypt_req c) decrypted))) (\<lambda>req.
     check_task c peer_pid ''decrypt@vt'' (format_decrypt_prompt req caller) True (\<lambda>approved.
     act (in_world (log_decrypt c peer_pid caller req approved)) (\<lambda>_.
     if \<not> approved then refuse
     else
       act (io_get ag_passphrase) (\<lambda>passphrase.
       act (io_of (aes_new passphrase)) (\<lambda>mac_cipher.
       act (io_get (\<lambda>s. do_decrypt c mac_cipher (unix_time (ag_world s)) (dr_items req))) (\<lambda>r.
       act (io_of r) (\<lambda>result.
       act (io_of (of_sum Msg (ser (js_results c) result))) k)))))))"

definition auth_task :: "crates \<Rightarrow> i32 option \<Rightarrow> string \<Rightarrow> bytes \<Rightarrow> (bytes \<Rightarrow> task) \<Rightarrow> task" where
  "auth_task c peer_pid caller decrypted k =
     act (io_of (of_sum Msg (de (js_auth_req c) decrypted))) (\<lambda>req.
     act (verify_yubikey_presence c (format_auth_prompt req caller)) (\<lambda>approved.
     act (in_world (log_auth c peer_pid caller req approved)) (\<lambda>_.
     if \<not> approved then refuse
     else act (io_of (of_sum Msg (ser (js_auth_res c) \<lparr>as_approved = True\<rparr>))) k)))"

definition extension_body :: "crates \<Rightarrow> i32 option \<Rightarrow> extension \<Rightarrow> task" where
  "extension_body c peer_pid ext =
     (if ex_name ext \<notin> {''encrypt@vt'', ''decrypt@vt'', ''auth@vt''} then answer (ExtensionReply None)
     else
       touch_task (
       act (io_get ag_auth_token) (\<lambda>auth_token.
       act (io_of (aes_new auth_token)) (\<lambda>auth_cipher.
       act (io_map_err (\<lambda>_. AgentFailure) (io_of (aes_decrypt c auth_cipher (ex_details ext)))) (\<lambda>decrypted.
       act (io_get (\<lambda>s. peer_caller peer_pid (ag_world s))) (\<lambda>caller.
       (if ex_name ext = ''encrypt@vt'' then encrypt_task c peer_pid caller decrypted
        else if ex_name ext = ''decrypt@vt'' then decrypt_task c peer_pid caller decrypted
        else auth_task c peer_pid caller decrypted) (\<lambda>response_bytes.
       act (in_world (aes_encrypt c auth_cipher response_bytes)) (\<lambda>encrypted_response.
       answer (ExtensionReply (Some \<lparr>ex_name = ex_name ext, ex_details = encrypted_response\<rparr>))))))))))"

definition extension_task :: "crates \<Rightarrow> i32 option \<Rightarrow> extension \<Rightarrow> task" where
  "extension_task c peer_pid ext = unless_locked refuse (extension_body c peer_pid ext)"

section \<open>Adding and removing keys\<close>

text \<open>
  The key file is behind no lock: reading it and writing it are two accesses.
\<close>

definition add_store_task :: "crates \<Rightarrow> string \<Rightarrow> ssh_key_entry \<Rightarrow> private_key \<Rightarrow> aes_gcm_crypto \<Rightarrow> task" where
  "add_store_task c fp_str entry private_key cipher =
     act (in_world (io_or [] (load_ssh_keys_from_file c cipher))) (\<lambda>entries.
     act (io_when (\<not> (\<exists>e \<in> set entries. ke_fingerprint e = fp_str))
           (in_world (save_ssh_keys_to_file c cipher (entries @ [entry])))) (\<lambda>_.
     Acquire KeysLock WriteLock (
     act (io_upd (\<lambda>s. s\<lparr>ag_keys := AList.update fp_str private_key (ag_keys s)\<rparr>)) (\<lambda>_.
     touch_task (answer UnitReply)))))"

definition add_task :: "crates \<Rightarrow> credential \<Rightarrow> task" where
  "add_task c cred =
     unless_locked refuse (
     case cred of
       OtherCredential \<Rightarrow> refuse
     | KeyCredential privkey comment \<Rightarrow>
         act (io_of (of_sum Msg (private_key_new c privkey comment))) (\<lambda>private_key.
         act (io_of (ensure (supported_key private_key) AgentFailure)) (\<lambda>_.
         let fp_str = fingerprint_str c (public_key_data c private_key) in
         act (io_of (of_sum Msg (openssh_print c private_key))) (\<lambda>key_openssh.
         act (io_get ag_passphrase) (\<lambda>passphrase.
         act (io_of (aes_new passphrase)) (\<lambda>cipher.
         add_store_task c fp_str
           \<lparr>ke_fingerprint = fp_str, ke_algorithm = key_algorithm c private_key,
            ke_comment = comment, ke_key_data = key_openssh\<rparr> private_key cipher))))))"

definition remove_task :: "crates \<Rightarrow> bytes \<Rightarrow> task" where
  "remove_task c pubkey =
     (let fp_str = fingerprint_str c pubkey;
          from_memory = Acquire KeysLock WriteLock (
            act (io_upd (\<lambda>s. s\<lparr>ag_keys := AList.delete fp_str (ag_keys s)\<rparr>)) (\<lambda>_. answer UnitReply)) in
     act (io_get ag_passphrase) (\<lambda>passphrase.
     case aes_new passphrase of
       Ok cipher \<Rightarrow>
         act (in_world (io_or [] (load_ssh_keys_from_file c cipher))) (\<lambda>entries.
         act (in_world (io_attempt (save_ssh_keys_to_file c cipher
                (filter (\<lambda>e. ke_fingerprint e \<noteq> fp_str) entries)))) (\<lambda>_.
         from_memory))
     | _ \<Rightarrow> from_memory))"

definition remove_all_task :: "crates \<Rightarrow> task" where
  "remove_all_task c =
     (let from_memory = Acquire KeysLock WriteLock (
            act (io_upd (\<lambda>s. s\<lparr>ag_keys := []\<rparr>)) (\<lambda>_. answer UnitReply)) in
     act (io_get ag_passphrase) (\<lambda>passphrase.
     case aes_new passphrase of
       Ok cipher \<Rightarrow> act (in_world (io_attempt (save_ssh_keys_to_file c cipher []))) (\<lambda>_. from_memory)
     | _ \<Rightarrow> from_memory))"

section \<open>Locking and unlocking\<close>

definition lock_task :: "crates \<Rightarrow> string \<Rightarrow> task" where
  "lock_task c passphrase =
     Acquire LockedLock WriteLock (
     act (io_get ag_locked) (\<lambda>locked.
     if locked then refuse
     else
       act (io_upd (\<lambda>s. s\<lparr>ag_locked := True\<rparr>)) (\<lambda>_.
       Acquire PassLock WriteLock (
       act (io_upd (\<lambda>s. s\<lparr>ag_lock_passphrase := Some (hash_lock_passphrase c passphrase)\<rparr>)) (\<lambda>_.
       Acquire KeysLock WriteLock (
       act (io_upd (\<lambda>s. s\<lparr>ag_keys := []\<rparr>)) (\<lambda>_.
       Acquire CacheLock WriteLock (
       act (io_upd (\<lambda>s. s\<lparr>ag_auth_cache := cache_clear (ag_auth_cache s)\<rparr>)) (\<lambda>_.
       answer UnitReply)))))))))"

definition unlock_task :: "crates \<Rightarrow> string \<Rightarrow> task" where
  "unlock_task c passphrase =
     Acquire LockedLock WriteLock (
     act (io_get ag_locked) (\<lambda>locked.
     if \<not> locked then refuse
     else
       let candidate = hash_lock_passphrase c passphrase in
       Acquire PassLock ReadLock (
       act (io_get ag_lock_passphrase) (\<lambda>lp.
       let matches = (case lp of Some saved_hash \<Rightarrow> saved_hash = candidate | None \<Rightarrow> False) in
       Release PassLock (
       if \<not> matches then refuse
       else
         act (io_upd (\<lambda>s. s\<lparr>ag_locked := False\<rparr>)) (\<lambda>_.
         Acquire PassLock WriteLock (
         act (io_upd (\<lambda>s. s\<lparr>ag_lock_passphrase := None\<rparr>)) (\<lambda>_.
         act (io_get ag_passphrase) (\<lambda>key.
         act (io_attempt (in_world (load_all_keys c key))) (\<lambda>r.
         case r of
           Inr loaded \<Rightarrow>
             Acquire KeysLock WriteLock (
             act (io_upd (\<lambda>s. s\<lparr>ag_keys := loaded\<rparr>)) (\<lambda>_.
             Release KeysLock (answer UnitReply)))
         | Inl _ \<Rightarrow> answer UnitReply))))))))))"

section \<open>The sweepers\<close>

definition idle_sweep_task :: "u64 \<Rightarrow> task" where
  "idle_sweep_task timeout =
     Acquire ActivityLock ReadLock (
     act (io_get ag_last_activity) (\<lambda>last.
     Release ActivityLock (
     act (io_get (\<lambda>s. agent_now s - last)) (\<lambda>elapsed.
     if nanos timeout \<le> elapsed then
       Acquire KeysLock WriteLock (
       act (io_get ag_keys) (\<lambda>keys.
       if keys \<noteq> [] then
         act (io_upd (\<lambda>s. s\<lparr>ag_keys := []\<rparr>)) (\<lambda>_.
         Acquire IdleLock WriteLock (
         act (io_upd (\<lambda>s. s\<lparr>ag_idle_cleared := True\<rparr>)) (\<lambda>_.
         answer UnitReply)))
       else answer UnitReply))
     else answer UnitReply))))"

definition cache_sweep_task :: "task" where
  "cache_sweep_task =
     act (io_get ag_cache_mode) (\<lambda>mode.
     if mode = CacheNone then answer UnitReply
     else
       Acquire CacheLock WriteLock (
       act (io_upd (\<lambda>s. s\<lparr>ag_auth_cache := sweep_expired (agent_now s) (ag_auth_cache s)\<rparr>)) (\<lambda>_.
       answer UnitReply)))"

section \<open>Every task\<close>

text \<open>
  Besides the requests of the connections and the two sweepers: time that passes, a wall clock that moves, and what other programs
  do to the files and the process table, each at whatever moment the schedule puts it.
\<close>

datatype job =
    Handle "i32 option" request
  | SweepIdle u64
  | SweepCache
  | TimePasses nat
  | ClockMoves string string nat
  | FilesChange "string \<rightharpoonup> bytes"
  | ProcsChange "int \<Rightarrow> string option" "int \<Rightarrow> string option"

definition outside_task :: "(world \<Rightarrow> world) \<Rightarrow> task" where
  "outside_task f = act (io_upd (\<lambda>s. s\<lparr>ag_world := f (ag_world s)\<rparr>)) (\<lambda>_. answer UnitReply)"

fun job_task :: "crates \<Rightarrow> job \<Rightarrow> task" where
  "job_task c (Handle p ReqIdentities) = identities_task c"
| "job_task c (Handle p (ReqSign r)) = sign_task c p r"
| "job_task c (Handle p (ReqExtension e)) = extension_task c p e"
| "job_task c (Handle p (ReqAdd cred)) = add_task c cred"
| "job_task c (Handle p (ReqRemove pub)) = remove_task c pub"
| "job_task c (Handle p ReqRemoveAll) = remove_all_task c"
| "job_task c (Handle p (ReqLock pw)) = lock_task c pw"
| "job_task c (Handle p (ReqUnlock pw)) = unlock_task c pw"
| "job_task c (SweepIdle timeout) = idle_sweep_task timeout"
| "job_task c SweepCache = cache_sweep_task"
| "job_task c (TimePasses n) = outside_task (\<lambda>w. w\<lparr>instant := instant w + n\<rparr>)"
| "job_task c (ClockMoves date time secs) = outside_task (\<lambda>w. w\<lparr>today := date, timestamp := time, unix_time := secs\<rparr>)"
| "job_task c (FilesChange fs) = outside_task (\<lambda>w. w\<lparr>files := fs\<rparr>)"
| "job_task c (ProcsChange st ex) = outside_task (\<lambda>w. w\<lparr>proc_stat := st, proc_exe := ex\<rparr>)"

text \<open>The specification: the handlers of \<open>Vt_Agent\<close>, which run in one step, with their replies.\<close>

definition replies :: "('a \<Rightarrow> reply) \<Rightarrow> 'a aio \<Rightarrow> reply aio" where
  "replies f m = io_bind m (\<lambda>x. io_ret (f x))"

fun job_atomic :: "crates \<Rightarrow> job \<Rightarrow> reply aio" where
  "job_atomic c (Handle p ReqIdentities) = replies IdentitiesReply (request_identities c)"
| "job_atomic c (Handle p (ReqSign r)) = replies SignReply (sign_op c p r)"
| "job_atomic c (Handle p (ReqExtension e)) = replies ExtensionReply (extension_op c p e)"
| "job_atomic c (Handle p (ReqAdd cred)) = replies (\<lambda>_. UnitReply) (add_identity c cred)"
| "job_atomic c (Handle p (ReqRemove pub)) = replies (\<lambda>_. UnitReply) (remove_identity c pub)"
| "job_atomic c (Handle p ReqRemoveAll) = replies (\<lambda>_. UnitReply) (remove_all_identities c)"
| "job_atomic c (Handle p (ReqLock pw)) = replies (\<lambda>_. UnitReply) (lock c pw)"
| "job_atomic c (Handle p (ReqUnlock pw)) = replies (\<lambda>_. UnitReply) (unlock c pw)"
| "job_atomic c (SweepIdle timeout) = replies (\<lambda>_. UnitReply) (io_upd (idle_sweep timeout))"
| "job_atomic c SweepCache = replies (\<lambda>_. UnitReply) (io_upd cache_sweep)"
| "job_atomic c (TimePasses n) = replies (\<lambda>_. UnitReply) (io_upd (\<lambda>s. agent_step c 0 s (Wait n)))"
| "job_atomic c (ClockMoves date time secs) =
     replies (\<lambda>_. UnitReply) (io_upd (\<lambda>s. agent_step c 0 s (ClockReads date time secs)))"
| "job_atomic c (FilesChange fs) = replies (\<lambda>_. UnitReply) (io_upd (\<lambda>s. agent_step c 0 s (FilesChanged fs)))"
| "job_atomic c (ProcsChange st ex) =
     replies (\<lambda>_. UnitReply) (io_upd (\<lambda>s. agent_step c 0 s (ProcsChanged st ex)))"

section \<open>A task alone is its handler\<close>

lemma run_act: "run_alone (act m k) = io_bind m (\<lambda>x. run_alone (k x))"
  by (rule ext) (simp add: act_def io_bind_def split: prod.splits outcome.splits)

lemma run_if: "run_alone (if b then j else k) = (if b then run_alone j else run_alone k)"
  by simp

lemma io_bind_if: "io_bind (if b then m else n) f = (if b then io_bind m f else io_bind n f)"
  by simp

lemma io_bind_fail: "io_bind (io_fail e) f = io_of (Err e)"
  by (rule ext) simp

lemmas alone = run_act run_if io_bind_if io_bind_fail io_bind_assoc io_bind_ret io_seq_def

lemma ensure_alone: "run_alone (ensure_task c k) = io_bind (ensure_keys_loaded c) (\<lambda>_. run_alone k)"
  by (simp add: ensure_task_def ensure_keys_loaded_def alone cong: if_cong)

lemma touch_alone: "run_alone (touch_task k) = io_bind touch_activity (\<lambda>_. run_alone k)"
  by (simp add: touch_task_def alone)

lemma check_alone:
  "run_alone (check_task c p fp m d k) = io_bind (check_or_prompt_auth c p fp m d) (\<lambda>b. run_alone (k b))"
  by (simp add: check_task_def cached_task_def prompt_task_def check_or_prompt_auth_def alone if_distrib [of "\<lambda>m. io_bind m _"]
      option.case_distrib [of run_alone] option.case_distrib [of "\<lambda>m. io_bind m _"] cong: if_cong option.case_cong)

lemma unless_locked_alone:
  "run_alone (unless_locked j k) = io_bind (io_get ag_locked) (\<lambda>b. if b then run_alone j else run_alone k)"
  by (simp add: unless_locked_def alone cong: if_cong)

lemmas alone_steps = ensure_alone touch_alone check_alone unless_locked_alone

lemma bind_option: "io_bind (case v of None \<Rightarrow> m | Some x \<Rightarrow> f x) g =
    (case v of None \<Rightarrow> io_bind m g | Some x \<Rightarrow> io_bind (f x) g)"
  by (cases v) simp_all

lemma alone_option: "run_alone (case v of None \<Rightarrow> j | Some x \<Rightarrow> k x) =
    (case v of None \<Rightarrow> run_alone j | Some x \<Rightarrow> run_alone (k x))"
  by (cases v) simp_all

lemma io_bind_of_Ok: "io_bind (io_of (Ok x)) f = f x"
  by (rule ext) simp

lemma io_bind_of_Err: "io_bind (io_of (Err e)) f = io_of (Err e)"
  by (rule ext) simp

lemma io_ret_of: "io_ret x = io_of (Ok x)"
  by (rule ext) simp

lemma io_fail_of: "io_fail e = io_of (Err e)"
  by (rule ext) simp

lemmas alone_eval = alone alone_steps bind_option alone_option io_bind_of_Ok io_bind_of_Err

lemma bind_outcome: "io_bind (case v of Ok x \<Rightarrow> f x | Err e \<Rightarrow> g e | Panic q \<Rightarrow> h q) k =
    (case v of Ok x \<Rightarrow> io_bind (f x) k | Err e \<Rightarrow> io_bind (g e) k | Panic q \<Rightarrow> io_bind (h q) k)"
  by (cases v) simp_all

lemma alone_outcome: "run_alone (case v of Ok x \<Rightarrow> f x | Err e \<Rightarrow> g e | Panic q \<Rightarrow> h q) =
    (case v of Ok x \<Rightarrow> run_alone (f x) | Err e \<Rightarrow> run_alone (g e) | Panic q \<Rightarrow> run_alone (h q))"
  by (cases v) simp_all

lemma bind_sum: "io_bind (case v of Inl x \<Rightarrow> f x | Inr e \<Rightarrow> g e) k =
    (case v of Inl x \<Rightarrow> io_bind (f x) k | Inr e \<Rightarrow> io_bind (g e) k)"
  by (cases v) simp_all

lemma alone_sum: "run_alone (case v of Inl x \<Rightarrow> f x | Inr e \<Rightarrow> g e) =
    (case v of Inl x \<Rightarrow> run_alone (f x) | Inr e \<Rightarrow> run_alone (g e))"
  by (cases v) simp_all

lemmas alone_cases = bind_outcome alone_outcome bind_sum alone_sum

lemma sign_alone: "run_alone (sign_task c p r) = replies SignReply (sign_op c p r)"
  by (simp add: sign_task_def sign_found_def sign_op_def sign_unlocked_def replies_def Let_def alone_eval io_ret_of io_fail_of
      cong: if_cong option.case_cong del: io_prim_simps)

lemma identities_alone: "run_alone (identities_task c) = replies IdentitiesReply (request_identities c)"
  by (simp add: identities_task_def request_identities_def replies_def alone_eval io_ret_of cong: if_cong del: io_prim_simps)

lemma encrypt_alone: "run_alone (encrypt_task c p cl d k) = io_bind (handle_encrypt c p cl d) (\<lambda>b. run_alone (k b))"
  by (simp add: encrypt_task_def handle_encrypt_def alone_eval)

lemma decrypt_alone: "run_alone (decrypt_task c p cl d k) = io_bind (handle_decrypt c p cl d) (\<lambda>b. run_alone (k b))"
  by (simp add: decrypt_task_def handle_decrypt_def alone_eval io_fail_of Let_def cong: if_cong del: io_prim_simps)

lemma auth_alone: "run_alone (auth_task c p cl d k) = io_bind (handle_auth c p cl d) (\<lambda>b. run_alone (k b))"
  by (simp add: auth_task_def handle_auth_def alone_eval io_fail_of cong: if_cong del: io_prim_simps)

lemma extension_body_alone: "run_alone (extension_body c p e) = replies ExtensionReply (extension_unlocked c p e)"
  by (simp add: extension_body_def extension_unlocked_def replies_def alone_eval encrypt_alone
      decrypt_alone auth_alone io_ret_of io_fail_of if_distrib [of "\<lambda>f. f _"] cong: if_cong del: io_prim_simps)

lemma extension_alone: "run_alone (extension_task c p e) = replies ExtensionReply (extension_op c p e)"
  by (simp add: extension_task_def extension_op_def extension_body_alone replies_def alone_eval io_ret_of io_fail_of
      cong: if_cong del: io_prim_simps)

lemma add_alone: "run_alone (add_task c cred) = replies (\<lambda>_. UnitReply) (add_identity c cred)"
  by (cases cred) (simp_all add: add_task_def add_store_task_def add_identity_def add_identity_unlocked_def replies_def
      Let_def alone_eval io_ret_of io_fail_of cong: if_cong del: io_prim_simps)

lemma remove_alone: "run_alone (remove_task c pub) = replies (\<lambda>_. UnitReply) (remove_identity c pub)"
  by (simp add: remove_task_def remove_identity_def replies_def Let_def alone_eval alone_cases io_ret_of
      cong: outcome.case_cong del: io_prim_simps)

lemma remove_all_alone: "run_alone (remove_all_task c) = replies (\<lambda>_. UnitReply) (remove_all_identities c)"
  by (simp add: remove_all_task_def remove_all_identities_def replies_def Let_def alone_eval alone_cases io_ret_of
      cong: outcome.case_cong del: io_prim_simps)

lemma lock_alone: "run_alone (lock_task c pw) = replies (\<lambda>_. UnitReply) (lock c pw)"
  by (simp add: lock_task_def lock_def replies_def alone_eval io_ret_of io_fail_of cong: if_cong del: io_prim_simps)

lemma unlock_alone: "run_alone (unlock_task c pw) = replies (\<lambda>_. UnitReply) (unlock c pw)"
  by (simp add: unlock_task_def unlock_def replies_def Let_def alone_eval alone_cases io_ret_of io_fail_of
      cong: if_cong sum.case_cong del: io_prim_simps)

lemma idle_sweep_alone: "run_alone (idle_sweep_task timeout) = replies (\<lambda>_. UnitReply) (io_upd (idle_sweep timeout))"
  by (rule ext) (simp add: idle_sweep_task_def idle_sweep_def replies_def alone_eval)

lemma cache_sweep_alone: "run_alone cache_sweep_task = replies (\<lambda>_. UnitReply) (io_upd cache_sweep)"
  by (rule ext) (simp add: cache_sweep_task_def cache_sweep_def replies_def alone_eval)

lemma outside_alone:
  "run_alone (outside_task f) = replies (\<lambda>_. UnitReply) (io_upd (\<lambda>s. s\<lparr>ag_world := f (ag_world s)\<rparr>))"
  by (rule ext) (simp add: outside_task_def replies_def alone_eval)

lemma job_alone: "run_alone (job_task c j) s = job_atomic c j s"
proof -
  have "run_alone (job_task c j) = job_atomic c j"
    by (cases "(c, j)" rule: job_task.cases)
      (simp_all add: sign_alone identities_alone extension_alone add_alone remove_alone remove_all_alone lock_alone
        unlock_alone idle_sweep_alone cache_sweep_alone outside_alone)
  then show ?thesis by simp
qed

end
