(* ===== verification/Vt_Interleave.thy ===== *)
theory Vt_Interleave
  imports Vt_Tasks "HOL-Library.Multiset"
begin

text \<open>
  Many tasks at once: the locks of \<open>tokio\<close>, which serve those who wait in the order they came, and a
  scheduler that picks the next task to move.  No choice of it stops the agent: the handlers take their
  guards in one order, so some task can always move, and every run comes to its end with
  every request answered.
\<close>

section \<open>The pool\<close>

text \<open>
  A lock has the guards held and a queue.  Tasks are numbered by their place in the list; an answered task
  has left the pool.
\<close>

record pool =
  po_agent :: agent
  po_tasks :: "task list"
  po_held :: "lock_id \<Rightarrow> (nat \<times> lock_mode) list"
  po_queue :: "lock_id \<Rightarrow> (nat \<times> lock_mode) list"
  po_answers :: "nat \<rightharpoonup> reply outcome"

definition start_pool :: "agent \<Rightarrow> task list \<Rightarrow> pool" where
  "start_pool s ts =
     \<lparr>po_agent = s, po_tasks = ts, po_held = (\<lambda>_. []), po_queue = (\<lambda>_. []), po_answers = Map.empty\<rparr>"

definition free_for :: "lock_mode \<Rightarrow> (nat \<times> lock_mode) list \<Rightarrow> bool" where
  "free_for m hs = (case m of ReadLock \<Rightarrow> list_all (\<lambda>h. snd h = ReadLock) hs | WriteLock \<Rightarrow> hs = [])"

definition drop_guard :: "nat \<Rightarrow> (nat \<times> lock_mode) list \<Rightarrow> (nat \<times> lock_mode) list" where
  "drop_guard i hs = filter (\<lambda>h. fst h \<noteq> i) hs"

text \<open>
  The next step of task \<open>i\<close>, if it can take one: it asks for a guard, which puts it at the end of the queue, and
  gets it when it is first in the queue and the guards held allow it.
\<close>

definition move :: "nat \<Rightarrow> pool \<Rightarrow> pool option" where
  "move i P =
     (if length (po_tasks P) \<le> i \<or> po_answers P i \<noteq> None then None
      else case po_tasks P ! i of
        Done r \<Rightarrow> Some (P\<lparr>po_held := (\<lambda>l. drop_guard i (po_held P l)),
                          po_answers := (po_answers P)(i \<mapsto> r)\<rparr>)
      | Acquire l m k \<Rightarrow>
          (if (i, m) \<notin> set (po_queue P l)
           then Some (P\<lparr>po_queue := (po_queue P)(l := po_queue P l @ [(i, m)])\<rparr>)
           else if hd (po_queue P l) = (i, m) \<and> free_for m (po_held P l)
           then Some (P\<lparr>po_queue := (po_queue P)(l := tl (po_queue P l)),
                        po_held := (po_held P)(l := (i, m) # po_held P l),
                        po_tasks := (po_tasks P)[i := k]\<rparr>)
           else None)
      | Release l k \<Rightarrow> Some (P\<lparr>po_held := (po_held P)(l := drop_guard i (po_held P l)),
                                po_tasks := (po_tasks P)[i := k]\<rparr>)
      | Act upd next \<Rightarrow> Some (P\<lparr>po_agent := upd (po_agent P),
                                 po_tasks := (po_tasks P)[i := next (po_agent P)]\<rparr>))"

text \<open>A schedule names the task to move next; naming one that waits changes nothing.\<close>

definition nudge :: "pool \<Rightarrow> nat \<Rightarrow> pool" where
  "nudge P i = (case move i P of Some Q \<Rightarrow> Q | None \<Rightarrow> P)"

definition pool_run :: "pool \<Rightarrow> nat list \<Rightarrow> pool" where
  "pool_run P sched = foldl nudge P sched"

lemma pool_run_simps [simp]:
  "pool_run P [] = P"
  "pool_run P (sched @ [i]) = nudge (pool_run P sched) i"
  "pool_run P (i # sched) = pool_run (nudge P i) sched"
  by (simp_all add: pool_run_def)

lemma pool_run_append: "pool_run P (as @ bs) = pool_run (pool_run P as) bs"
  by (simp add: pool_run_def)

text \<open>The four ways to move.\<close>

lemma move_cases:
  assumes "move i P = Some Q"
  obtains (finish) r where "i < length (po_tasks P)" and "po_answers P i = None" and "po_tasks P ! i = Done r"
      and "Q = P\<lparr>po_held := (\<lambda>l. drop_guard i (po_held P l)), po_answers := (po_answers P)(i \<mapsto> r)\<rparr>"
    | (ask) l m k where "i < length (po_tasks P)" and "po_answers P i = None" and "po_tasks P ! i = Acquire l m k"
      and "(i, m) \<notin> set (po_queue P l)" and "Q = P\<lparr>po_queue := (po_queue P)(l := po_queue P l @ [(i, m)])\<rparr>"
    | (grant) l m k ws where "i < length (po_tasks P)" and "po_answers P i = None" and "po_tasks P ! i = Acquire l m k"
      and "po_queue P l = (i, m) # ws" and "free_for m (po_held P l)"
      and "Q = P\<lparr>po_queue := (po_queue P)(l := ws), po_held := (po_held P)(l := (i, m) # po_held P l),
             po_tasks := (po_tasks P)[i := k]\<rparr>"
    | (drop) l k where "i < length (po_tasks P)" and "po_answers P i = None" and "po_tasks P ! i = Release l k"
      and "Q = P\<lparr>po_held := (po_held P)(l := drop_guard i (po_held P l)), po_tasks := (po_tasks P)[i := k]\<rparr>"
    | (run) upd nxt where "i < length (po_tasks P)" and "po_answers P i = None" and "po_tasks P ! i = Act upd nxt"
      and "Q = P\<lparr>po_agent := upd (po_agent P), po_tasks := (po_tasks P)[i := nxt (po_agent P)]\<rparr>"
proof -
  have i: "i < length (po_tasks P)" "po_answers P i = None"
    using assms by (auto simp: move_def split: if_splits)
  show thesis
  proof (cases "po_tasks P ! i")
    case (Acquire l m k)
    show thesis
    proof (cases "(i, m) \<in> set (po_queue P l)")
      case True
      then obtain ws where "po_queue P l = (i, m) # ws"
        using assms i Acquire by (cases "po_queue P l") (auto simp: move_def split: if_splits)
      with assms i Acquire True show thesis by (intro grant) (auto simp: move_def split: if_splits)
    qed (use assms i Acquire ask in \<open>simp add: move_def\<close>)
  qed (use assms i finish drop run in \<open>simp_all add: move_def\<close>)
qed

text \<open>An answer stays, and comes from a task that was done.\<close>

lemma answer_kept: "po_answers P i = Some r \<Longrightarrow> po_answers (nudge P j) i = Some r"
proof (cases "move j P")
  case (Some Q)
  assume a: "po_answers P i = Some r"
  from Some have "po_answers Q i = Some r" by (cases rule: move_cases) (use a in auto)
  with Some show ?thesis by (simp add: nudge_def)
qed (simp add: nudge_def)

lemma answered_stays: "po_answers P i = Some r \<Longrightarrow> po_answers (pool_run P sched) i = Some r"
  by (induction sched arbitrary: P) (simp_all add: answer_kept)

lemma answering_move:
  assumes "move j P = Some Q" and "po_answers P i = None" and "po_answers Q i = Some r"
  shows "j = i \<and> po_tasks P ! i = Done r"
  using assms(1) by (cases rule: move_cases) (use assms(2,3) in \<open>auto split: if_splits\<close>)

lemma answer_point:
  assumes "po_answers P i = None" and "po_answers (pool_run P sched) i = Some r"
  obtains as bs where "sched = as @ i # bs" and "po_answers (pool_run P as) i = None"
    and "po_tasks (pool_run P as) ! i = Done r"
  using assms
proof (induction sched arbitrary: thesis rule: rev_induct)
  case (snoc j sched)
  let ?P = "pool_run P sched"
  show ?case
  proof (cases "po_answers ?P i")
    case None
    with snoc.prems(3) obtain Q where Q: "move j ?P = Some Q" "po_answers Q i = Some r"
      by (cases "move j ?P") (simp_all add: nudge_def)
    with answering_move [OF Q(1) None Q(2)] None snoc.prems(1) [of sched "[]"] show ?thesis by simp
  next
    case (Some r')
    with answer_kept [OF Some, of j] snoc.prems(3) have "r' = r" by simp
    with Some snoc.IH [OF _ snoc.prems(2)] snoc.prems(1) show ?thesis
      by (metis append_Cons append_assoc)
  qed
qed simp

section \<open>Every run ends\<close>

text \<open>
  A step makes the task smaller, or puts it into the queue, or answers it; the others stay as they are.
\<close>

definition task_less :: "(task \<times> task) set" where
  "task_less = {(k, t). (\<exists>l m. t = Acquire l m k) \<or> (\<exists>l. t = Release l k) \<or> (\<exists>u n s. t = Act u n \<and> k = n s)}"

lemma task_less_wf: "wf task_less"
proof (rule wfUNIVI)
  fix P and x :: task
  assume step: "\<forall>x. (\<forall>y. (y, x) \<in> task_less \<longrightarrow> P y) \<longrightarrow> P x"
  show "P x"
    by (induction x; rule step [rule_format]) (auto simp: task_less_def)
qed

fun pending :: "task \<Rightarrow> nat \<Rightarrow> (lock_id \<Rightarrow> (nat \<times> lock_mode) list) \<Rightarrow> nat" where
  "pending (Acquire l m k) i q = (if (i, m) \<in> set (q l) then 1 else 2)"
| "pending _ i q = 1"

definition stage :: "pool \<Rightarrow> nat \<Rightarrow> task \<times> nat" where
  "stage P i = (po_tasks P ! i,
     if po_answers P i \<noteq> None then 0 else pending (po_tasks P ! i) i (po_queue P))"

definition stages :: "pool \<Rightarrow> (task \<times> nat) multiset" where
  "stages P = image_mset (stage P) (mset [0..<length (po_tasks P)])"

abbreviation stage_less :: "((task \<times> nat) \<times> (task \<times> nat)) set" where
  "stage_less \<equiv> task_less <*lex*> less_than"

lemma move_stage:
  assumes "move i P = Some Q"
  shows "i < length (po_tasks P)" and "length (po_tasks Q) = length (po_tasks P)"
    and "(stage Q i, stage P i) \<in> stage_less" and "\<And>j. j \<noteq> i \<Longrightarrow> stage Q j = stage P j"
proof -
  have other: "pending t j (q(l := xs)) = pending t j q"
    if "\<And>m. (j, m) \<in> set xs \<longleftrightarrow> (j, m) \<in> set (q l)" for t j q l xs
    using that by (cases t) auto
  have pos: "0 < pending t j q" for t j q by (cases t) auto
  show "i < length (po_tasks P)" "length (po_tasks Q) = length (po_tasks P)"
    using assms by (cases rule: move_cases; simp)+
  show "(stage Q i, stage P i) \<in> stage_less"
    using assms by (cases rule: move_cases) (auto simp: stage_def task_less_def pos)
  show "stage Q j = stage P j" if "j \<noteq> i" for j
    using assms that by (cases rule: move_cases) (auto simp: stage_def other)
qed

lemma stages_split:
  assumes "i < length (po_tasks P)"
  shows "stages P = image_mset (stage P) (mset ([0..<i] @ [Suc i..<length (po_tasks P)])) + {#stage P i#}"
proof -
  have "[0..<length (po_tasks P)] = [0..<i] @ i # [Suc i..<length (po_tasks P)]"
    using assms upt_add_eq_append [of 0 i "length (po_tasks P) - i"] by (simp add: upt_conv_Cons)
  then show ?thesis by (simp add: stages_def)
qed

lemma stages_decrease:
  assumes "move i P = Some Q"
  shows "(stages Q, stages P) \<in> mult stage_less"
proof -
  note s = move_stage [OF assms]
  let ?I = "mset ([0..<i] @ [Suc i..<length (po_tasks P)])"
  have "image_mset (stage Q) ?I = image_mset (stage P) ?I"
    by (rule image_mset_cong) (auto intro: s(4))
  moreover have "(image_mset (stage P) ?I + {#stage Q i#}, image_mset (stage P) ?I + {#stage P i#}) \<in> mult stage_less"
    by (rule one_step_implies_mult) (use s(3) in simp_all)
  ultimately show ?thesis
    using stages_split [OF s(1)] stages_split [of i Q] s(1,2) by simp
qed

lemma moves_wf: "wf {(Q, P). \<exists>i. move i P = Some Q}"
proof (rule wf_subset)
  show "wf (inv_image (mult stage_less) stages)"
    by (intro wf_inv_image wf_mult wf_lex_prod task_less_wf wf_less_than)
  show "{(Q, P). \<exists>i. move i P = Some Q} \<subseteq> inv_image (mult stage_less) stages"
    by (auto simp: stages_decrease)
qed

lemma no_endless_run: "\<not> (\<exists>f. \<forall>n. \<exists>i. move i (f n) = Some (f (Suc n)))"
  using moves_wf by (simp add: wf_iff_no_infinite_down_chain)

section \<open>Guards are taken in order\<close>

text \<open>The order in which the code takes its guards: of the last three it never holds two.\<close>

fun lock_place :: "lock_id \<Rightarrow> nat" where
  "lock_place LockedLock = 0"
| "lock_place PassLock = 1"
| "lock_place KeysLock = 2"
| "lock_place ActivityLock = 3"
| "lock_place IdleLock = 4"
| "lock_place CacheLock = 5"

instantiation lock_id :: linorder
begin

definition less_eq_lock_id :: "lock_id \<Rightarrow> lock_id \<Rightarrow> bool" where
  "less_eq_lock_id l k \<longleftrightarrow> lock_place l \<le> lock_place k"

definition less_lock_id :: "lock_id \<Rightarrow> lock_id \<Rightarrow> bool" where
  "less_lock_id l k \<longleftrightarrow> lock_place l < lock_place k"

instance
proof
  fix l k :: lock_id
  assume "l \<le> k" and "k \<le> l"
  then show "l = k" by (cases l; cases k) (simp_all add: less_eq_lock_id_def)
qed (auto simp: less_eq_lock_id_def less_lock_id_def)

end

lemma lock_less [simp]: "(l < k) = (lock_place l < lock_place k)"
  by (simp add: less_lock_id_def)

text \<open>
  A task with the guards \<open>H\<close> is ordered when every lock it asks for comes after all it holds then, on
  every path through its code.
\<close>

primrec ordered :: "lock_id set \<Rightarrow> task \<Rightarrow> bool" where
  "ordered H (Done r) \<longleftrightarrow> True"
| "ordered H (Acquire l m k) \<longleftrightarrow> (\<forall>h \<in> H. h < l) \<and> ordered (insert l H) k"
| "ordered H (Release l k) \<longleftrightarrow> ordered (H - {l}) k"
| "ordered H (Act upd next) \<longleftrightarrow> (\<forall>s. ordered H (next s))"

lemma ordered_act: "(\<And>x. ordered H (k x)) \<Longrightarrow> ordered H (act m k)"
  by (simp add: act_def split: outcome.splits)

definition holds :: "pool \<Rightarrow> nat \<Rightarrow> lock_id set" where
  "holds P i = {l. \<exists>m. (i, m) \<in> set (po_held P l)}"

text \<open>Who holds a guard or waits is still in the pool, and who waits is at that point of its code.\<close>

definition guards_ok :: "pool \<Rightarrow> bool" where
  "guards_ok P \<longleftrightarrow>
     (\<forall>l i m. (i, m) \<in> set (po_held P l) \<longrightarrow> i < length (po_tasks P) \<and> po_answers P i = None)"

definition waits_at :: "pool \<Rightarrow> lock_id \<Rightarrow> nat \<Rightarrow> lock_mode \<Rightarrow> bool" where
  "waits_at P l i m \<longleftrightarrow> i < length (po_tasks P) \<and> po_answers P i = None \<and> (\<exists>k. po_tasks P ! i = Acquire l m k)"

definition queue_ok :: "pool \<Rightarrow> bool" where
  "queue_ok P \<longleftrightarrow> (\<forall>l. distinct (po_queue P l) \<and> (\<forall>i m. (i, m) \<in> set (po_queue P l) \<longrightarrow> waits_at P l i m))"

text \<open>The promise of the locks: readers together, or one writer alone.\<close>

definition exclusive :: "pool \<Rightarrow> bool" where
  "exclusive P \<longleftrightarrow> (\<forall>l. free_for ReadLock (po_held P l) \<or> (\<exists>i. po_held P l = [(i, WriteLock)]))"

definition pool_inv :: "pool \<Rightarrow> bool" where
  "pool_inv P \<longleftrightarrow> guards_ok P \<and> queue_ok P \<and> exclusive P \<and>
     (\<forall>i < length (po_tasks P). ordered (holds P i) (po_tasks P ! i))"

lemma set_drop_guard [simp]: "set (drop_guard i hs) = {h \<in> set hs. fst h \<noteq> i}"
  by (auto simp: drop_guard_def)

lemma guards_step: "guards_ok P \<Longrightarrow> move i P = Some Q \<Longrightarrow> guards_ok Q"
  by (erule move_cases) (auto simp: guards_ok_def)

lemma waits_other:
  assumes "waits_at P l j m" and "move i P = Some Q" and "i \<noteq> j"
  shows "waits_at Q l j m"
  using assms(2) by (cases rule: move_cases) (use assms(1,3) in \<open>simp_all add: waits_at_def\<close>)

lemma queue_step:
  assumes q: "queue_ok P" and "move i P = Some Q"
  shows "queue_ok Q"
proof -
  have w: "waits_at P l j m" if "(j, m) \<in> set (po_queue P l)" for l j m
    using q that by (simp add: queue_ok_def)
  have d: "distinct (po_queue P l)" for l
    using q by (simp add: queue_ok_def)
  have other: "waits_at Q l j m" if "(j, m) \<in> set (po_queue P l)" "j \<noteq> i" for l j m
    by (rule waits_other [OF w [OF that(1)] assms(2)]) (use that(2) in simp)
  from assms(2) show ?thesis
  proof (cases rule: move_cases)
    case (finish r)
    have "j \<noteq> i" if "(j, m) \<in> set (po_queue P l)" for l j m
      using w [OF that] finish(3) by (auto simp: waits_at_def)
    with other d finish(4) show ?thesis by (simp add: queue_ok_def)
  next
    case (ask l m k)
    have keep: "waits_at Q l' j m'" if "waits_at P l' j m'" for l' j m'
      using that ask by (simp add: waits_at_def)
    have "waits_at P l i m" using ask by (simp add: waits_at_def)
    with keep w d ask(4,5) show ?thesis by (auto simp: queue_ok_def)
  next
    case (grant l m k ws)
    have ws: "(i, m) \<notin> set ws" "distinct ws" using d [of l] grant(4) by simp_all
    have "j \<noteq> i" if "(j, m') \<in> set (po_queue P l')" "(l', m') \<noteq> (l, m)" for l' j m'
      using w [OF that(1)] that(2) grant(3) by (auto simp: waits_at_def)
    moreover have "j \<noteq> i" if "(j, m') \<in> set ws" for j m'
      using that ws(1) w [of j m' l] grant(3,4) by (auto simp: waits_at_def)
    ultimately have "j \<noteq> i" if "(j, m') \<in> set (po_queue Q l')" for l' j m'
      using that grant(6) by (auto split: if_splits)
    moreover have "(j, m') \<in> set (po_queue P l')" if "(j, m') \<in> set (po_queue Q l')" for l' j m'
      using that grant(4,6) by (auto split: if_splits)
    ultimately have "waits_at Q l' j m'" if "(j, m') \<in> set (po_queue Q l')" for l' j m'
      using that by (intro other)
    moreover have "distinct (po_queue Q l')" for l' using d ws(2) grant(6) by simp
    ultimately show ?thesis by (simp add: queue_ok_def)
  next
    case (drop l k)
    have "j \<noteq> i" if "(j, m) \<in> set (po_queue P l)" for l j m
      using w [OF that] drop(3) by (auto simp: waits_at_def)
    with other d drop(4) show ?thesis by (simp add: queue_ok_def)
  next
    case (run upd nxt)
    have "j \<noteq> i" if "(j, m) \<in> set (po_queue P l)" for l j m
      using w [OF that] run(3) by (auto simp: waits_at_def)
    with other d run(4) show ?thesis by (simp add: queue_ok_def)
  qed
qed

lemma free_drop: "free_for ReadLock hs \<Longrightarrow> free_for ReadLock (drop_guard i hs)"
  by (auto simp: free_for_def list_all_iff)

lemma exclusive_step:
  assumes "exclusive P" and "move i P = Some Q"
  shows "exclusive Q"
proof -
  have drop: "free_for ReadLock (drop_guard i (po_held P l)) \<or> (\<exists>j. drop_guard i (po_held P l) = [(j, WriteLock)])" for l
  proof (cases "free_for ReadLock (po_held P l)")
    case False
    then obtain j where "po_held P l = [(j, WriteLock)]" using assms(1) by (auto simp: exclusive_def)
    then show ?thesis by (simp add: drop_guard_def free_for_def)
  qed (simp add: free_drop)
  show ?thesis
    using assms(2)
  proof (cases rule: move_cases)
    case (grant l m k ws)
    with assms(1) show ?thesis by (cases m) (auto simp: exclusive_def free_for_def)
  qed (use assms(1) drop in \<open>auto simp: exclusive_def\<close>)
qed

lemma ordered_step:
  assumes "\<forall>i < length (po_tasks P). ordered (holds P i) (po_tasks P ! i)" and "move i P = Some Q"
  shows "\<forall>i < length (po_tasks Q). ordered (holds Q i) (po_tasks Q ! i)"
proof (intro allI impI)
  fix j
  assume j: "j < length (po_tasks Q)"
  note s = move_stage [OF assms(2)]
  have P: "ordered (holds P i) (po_tasks P ! i)" "ordered (holds P j) (po_tasks P ! j)"
    using assms(1) j s(1,2) by simp_all
  show "ordered (holds Q j) (po_tasks Q ! j)"
  proof (cases "j = i")
    case True
    from assms(2) show ?thesis
    proof (cases rule: move_cases)
      case (finish r)
      then show ?thesis using True by simp
    next
      case (ask l m k)
      with P True show ?thesis by (simp add: holds_def)
    next
      case (grant l m k ws)
      moreover have "holds Q i = insert l (holds P i)" using grant by (auto simp: holds_def)
      ultimately show ?thesis using P True by simp
    next
      case (drop l k)
      moreover have "holds Q i = holds P i - {l}" using drop by (auto simp: holds_def)
      ultimately show ?thesis using P True by simp
    next
      case (run upd nxt)
      then show ?thesis using P True by (simp add: holds_def)
    qed
  next
    case False
    from assms(2) have "holds Q j = holds P j"
      by (cases rule: move_cases) (use False in \<open>auto simp: holds_def\<close>)
    moreover have "po_tasks Q ! j = po_tasks P ! j"
      using s(4) [OF False] by (simp add: stage_def)
    ultimately show ?thesis using P(2) by simp
  qed
qed

lemma pool_inv_step: "pool_inv P \<Longrightarrow> move i P = Some Q \<Longrightarrow> pool_inv Q"
  unfolding pool_inv_def using guards_step queue_step exclusive_step ordered_step by blast

lemma pool_inv_nudge: "pool_inv P \<Longrightarrow> pool_inv (nudge P i)"
  by (auto simp: nudge_def pool_inv_step split: option.split)

lemma pool_inv_run: "pool_inv P \<Longrightarrow> pool_inv (pool_run P sched)"
  by (induction sched arbitrary: P) (simp_all add: pool_inv_nudge)

lemma pool_inv_start: "(\<And>t. t \<in> set ts \<Longrightarrow> ordered {} t) \<Longrightarrow> pool_inv (start_pool s ts)"
  by (auto simp: pool_inv_def start_pool_def guards_ok_def queue_ok_def exclusive_def free_for_def holds_def)

section \<open>Some task can move\<close>

lemma blocked_waits:
  assumes "move i P = None" and "i < length (po_tasks P)" and "po_answers P i = None"
  obtains l m k where "po_tasks P ! i = Acquire l m k" and "(i, m) \<in> set (po_queue P l)"
    and "hd (po_queue P l) = (i, m) \<Longrightarrow> po_held P l \<noteq> []"
proof (cases "po_tasks P ! i")
  case (Acquire l m k)
  then have "(i, m) \<in> set (po_queue P l)" "hd (po_queue P l) = (i, m) \<longrightarrow> \<not> free_for m (po_held P l)"
    using assms by (auto simp: move_def split: if_splits)
  moreover have "free_for m []" by (cases m) (simp_all add: free_for_def)
  ultimately show ?thesis by (intro that [OF Acquire]) auto
qed (use assms in \<open>simp_all add: move_def\<close>)

lemma lock_ids: "l \<in> {LockedLock, PassLock, KeysLock, ActivityLock, IdleLock, CacheLock}"
  by (cases l) simp_all

lemma highest_lock:
  fixes l0 :: lock_id
  assumes "W l0"
  obtains l where "W l" and "\<And>l'. W l' \<Longrightarrow> l' \<le> l"
proof -
  have "finite (Collect W)"
    by (rule finite_subset [of _ "{LockedLock, PassLock, KeysLock, ActivityLock, IdleLock, CacheLock}"])
      (use lock_ids in auto)
  with that [of "Max (Collect W)"] Max_in [of "Collect W"] Max_ge [of "Collect W"] assms show thesis by auto
qed

lemma some_task_moves:
  assumes inv: "pool_inv P" and i: "i < length (po_tasks P)" "po_answers P i = None"
  shows "\<exists>j Q. move j P = Some Q"
proof (rule ccontr)
  assume "\<not> (\<exists>j Q. move j P = Some Q)"
  then have stuck: "move j P = None" for j by (cases "move j P") auto
  have g: "guards_ok P" and q: "queue_ok P"
    and o: "\<And>j. j < length (po_tasks P) \<Longrightarrow> ordered (holds P j) (po_tasks P ! j)"
    using inv by (auto simp: pool_inv_def)
  have waits: "\<exists>l m k. po_tasks P ! j = Acquire l m k \<and> (j, m) \<in> set (po_queue P l)"
    if "j < length (po_tasks P)" "po_answers P j = None" for j
    using blocked_waits [OF stuck that] by blast
  have "\<exists>l. po_queue P l \<noteq> []" using waits [OF i] by (metis empty_iff empty_set)
  then obtain l where l: "po_queue P l \<noteq> []" and max: "\<And>l'. po_queue P l' \<noteq> [] \<Longrightarrow> l' \<le> l"
    using highest_lock [of "\<lambda>l. po_queue P l \<noteq> []"] by metis
  obtain j m where hd: "hd (po_queue P l) = (j, m)" "(j, m) \<in> set (po_queue P l)"
    using l by (metis hd_in_set prod.collapse)
  with q have j: "j < length (po_tasks P)" "po_answers P j = None" "\<exists>k. po_tasks P ! j = Acquire l m k"
    by (auto simp: queue_ok_def waits_at_def)
  have "po_held P l \<noteq> []"
    by (rule blocked_waits [OF stuck j(1,2)]) (use j(3) hd in auto)
  then obtain h n where h: "(h, n) \<in> set (po_held P l)" by (metis hd_in_set prod.collapse)
  with g have h2: "h < length (po_tasks P)" "po_answers P h = None" by (auto simp: guards_ok_def)
  obtain l' m' k' where w: "po_tasks P ! h = Acquire l' m' k'" "(h, m') \<in> set (po_queue P l')"
    using waits [OF h2] by blast
  have "l < l'"
    using o [OF h2(1)] w(1) h by (auto simp: holds_def)
  moreover have "l' \<le> l" by (rule max) (use w(2) in auto)
  ultimately show False using leD by blast
qed

lemma rest_answers:
  assumes "pool_inv P"
  shows "\<exists>sched. \<forall>i < length (po_tasks P). po_answers (pool_run P sched) i \<noteq> None"
  using moves_wf assms
proof (induction P rule: wf_induct_rule)
  case (less P)
  show ?case
  proof (cases "\<exists>i < length (po_tasks P). po_answers P i = None")
    case True
    then obtain j Q where m: "move j P = Some Q" using some_task_moves [OF less.prems] by blast
    then obtain sched where "\<forall>i < length (po_tasks Q). po_answers (pool_run Q sched) i \<noteq> None"
      using less.IH [of Q] pool_inv_step [OF less.prems m] by auto
    then have "\<forall>i < length (po_tasks P). po_answers (pool_run P (j # sched)) i \<noteq> None"
      using m move_stage(2) [OF m] by (simp add: nudge_def)
    then show ?thesis by blast
  next
    case False
    then show ?thesis by (intro exI [of _ "[]"]) auto
  qed
qed

section \<open>One task after the other\<close>

text \<open>A task whose turn it is while nobody else holds or waits for a guard runs as it does alone.\<close>

definition to_itself :: "nat \<Rightarrow> pool \<Rightarrow> bool" where
  "to_itself i P \<longleftrightarrow> i < length (po_tasks P) \<and> po_answers P i = None \<and>
     (\<forall>l. po_queue P l = [] \<and> (po_held P l = [] \<or> (\<exists>m. po_held P l = [(i, m)])))"

definition finished :: "nat \<Rightarrow> reply outcome \<times> agent \<Rightarrow> pool \<Rightarrow> pool" where
  "finished i a P = P\<lparr>po_agent := snd a, po_tasks := (po_tasks P)[i := Done (fst a)], po_held := (\<lambda>_. []),
     po_answers := (po_answers P)(i \<mapsto> fst a)\<rparr>"

lemma solo_next:
  assumes "finished i (run_alone k (po_agent Q)) Q = finished i a P" and "nudge P i = Q \<or> nudge (nudge P i) i = Q"
    and "\<exists>n. pool_run Q (replicate n i) = finished i (run_alone k (po_agent Q)) Q"
  shows "\<exists>n. pool_run P (replicate n i) = finished i a P"
proof -
  obtain n where n: "pool_run Q (replicate n i) = finished i a P" using assms(1,3) by auto
  from assms(2) show ?thesis
  proof
    assume "nudge P i = Q"
    with n show ?thesis by (intro exI [of _ "Suc n"]) simp
  next
    assume "nudge (nudge P i) i = Q"
    with n show ?thesis by (intro exI [of _ "Suc (Suc n)"]) simp
  qed
qed

lemma solo_run:
  assumes "to_itself i P" and "po_tasks P ! i = t" and "ordered (holds P i) t"
  shows "\<exists>n. pool_run P (replicate n i) = finished i (run_alone t (po_agent P)) P"
  using assms
proof (induction t arbitrary: P)
  case (Done r)
  have i: "i < length (po_tasks P)" "po_answers P i = None"
    and one: "po_held P l = [] \<or> (\<exists>m. po_held P l = [(i, m)])" for l
    using Done.prems(1) by (simp_all add: to_itself_def)
  have d: "drop_guard i (po_held P l) = []" for l
    using one [of l] by (auto simp: drop_guard_def)
  have u: "(po_tasks P)[i := Done r] = po_tasks P"
    using Done.prems(2) by (metis list_update_id)
  have "nudge P i = finished i (r, po_agent P) P"
    using i Done.prems(2) by (simp add: nudge_def move_def finished_def d u)
  then show ?case by (intro exI [of _ 1]) simp
next
  case (Acquire l m k)
  then have i: "i < length (po_tasks P)" "po_answers P i = None" "\<And>l. po_queue P l = []"
    by (auto simp: to_itself_def)
  have "po_held P l = []"
  proof (rule ccontr)
    assume "po_held P l \<noteq> []"
    with Acquire.prems(1) obtain n where "po_held P l = [(i, n)]" unfolding to_itself_def by blast
    then have "l \<in> holds P i" by (simp add: holds_def)
    with Acquire.prems(3) show False by auto
  qed
  then have free: "free_for m (po_held P l)" by (cases m) (simp_all add: free_for_def)
  have q: "(po_queue P)(l := []) = po_queue P" using i(3) by (simp add: fun_upd_idem)
  let ?R = "P\<lparr>po_queue := (po_queue P)(l := [(i, m)])\<rparr>"
  let ?Q = "P\<lparr>po_held := (po_held P)(l := [(i, m)]), po_tasks := (po_tasks P)[i := k]\<rparr>"
  have "nudge P i = ?R" using i(1,2) i(3) [of l] Acquire.prems(2) by (simp add: nudge_def move_def)
  moreover have "nudge ?R i = ?Q"
    using i(1,2) Acquire.prems(2) free \<open>po_held P l = []\<close> by (simp add: nudge_def move_def q)
  ultimately have n: "nudge (nudge P i) i = ?Q" by simp
  have "to_itself i ?Q" using Acquire.prems(1) by (simp add: to_itself_def)
  moreover have "holds ?Q i = insert l (holds P i)" by (auto simp: holds_def \<open>po_held P l = []\<close>)
  ultimately have "\<exists>n. pool_run ?Q (replicate n i) = finished i (run_alone k (po_agent ?Q)) ?Q"
    using Acquire.prems(3) i(1) by (intro Acquire.IH) simp_all
  then show ?case
    by (rule solo_next [rotated 2]) (simp add: finished_def, rule disjI2, rule n)
next
  case (Release l k)
  then have i: "i < length (po_tasks P)" "po_answers P i = None" by (auto simp: to_itself_def)
  let ?Q = "P\<lparr>po_held := (po_held P)(l := drop_guard i (po_held P l)), po_tasks := (po_tasks P)[i := k]\<rparr>"
  have n: "nudge P i = ?Q" using i Release.prems(2) by (simp add: nudge_def move_def)
  have "to_itself i ?Q"
    unfolding to_itself_def
  proof (intro conjI allI)
    fix l'
    have "po_held P l' = [] \<or> (\<exists>m. po_held P l' = [(i, m)])" "po_queue P l' = []"
      using Release.prems(1) by (simp_all add: to_itself_def)
    then show "po_held ?Q l' = [] \<or> (\<exists>m. po_held ?Q l' = [(i, m)])" "po_queue ?Q l' = []"
      by (auto simp: drop_guard_def)
  qed (use i in simp_all)
  moreover have "holds ?Q i = holds P i - {l}" by (auto simp: holds_def)
  ultimately have "\<exists>n. pool_run ?Q (replicate n i) = finished i (run_alone k (po_agent ?Q)) ?Q"
    using Release.prems(3) i(1) by (intro Release.IH) simp_all
  then show ?case
    by (rule solo_next [rotated 2]) (simp add: finished_def, rule disjI1, rule n)
next
  case (Act upd nxt)
  then have i: "i < length (po_tasks P)" "po_answers P i = None" by (auto simp: to_itself_def)
  let ?Q = "P\<lparr>po_agent := upd (po_agent P), po_tasks := (po_tasks P)[i := nxt (po_agent P)]\<rparr>"
  have n: "nudge P i = ?Q" using i Act.prems(2) by (simp add: nudge_def move_def)
  have "to_itself i ?Q" "holds ?Q i = holds P i"
    using Act.prems(1) by (simp_all add: to_itself_def holds_def)
  then have "\<exists>n. pool_run ?Q (replicate n i) = finished i (run_alone (nxt (po_agent P)) (po_agent ?Q)) ?Q"
    using Act.prems(3) i(1) by (intro Act.IH [OF rangeI]) simp_all
  then show ?case
    by (rule solo_next [rotated 2]) (simp add: finished_def, rule disjI1, rule n)
qed

definition locks_free :: "pool \<Rightarrow> bool" where
  "locks_free P \<longleftrightarrow> (\<forall>l. po_queue P l = [] \<and> po_held P l = [])"

lemma finished_simps [simp]:
  "po_agent (finished i a P) = snd a"
  "length (po_tasks (finished i a P)) = length (po_tasks P)"
  "po_answers (finished i a P) = (po_answers P)(i \<mapsto> fst a)"
  "j \<noteq> i \<Longrightarrow> po_tasks (finished i a P) ! j = po_tasks P ! j"
  "locks_free P \<Longrightarrow> locks_free (finished i a P)"
  by (simp_all add: finished_def locks_free_def)

lemma start_pool_simps [simp]:
  "po_agent (start_pool s ts) = s"
  "po_tasks (start_pool s ts) = ts"
  "po_answers (start_pool s ts) = Map.empty"
  "locks_free (start_pool s ts)"
  by (simp_all add: start_pool_def locks_free_def)

section \<open>The order of the agent's locks\<close>

text \<open>
  The interface between the scheduler and the code that runs under it: every task that may be started
  takes its guards in the order of the locks.  Then no schedule ends in a deadlock.
\<close>

locale lock_order =
  fixes task_of :: "'j \<Rightarrow> task"
  assumes in_order: "ordered {} (task_of j)"
begin

lemma reachable: "pool_inv (pool_run (start_pool s (map task_of js)) sched)"
  by (intro pool_inv_run pool_inv_start) (auto simp: in_order)

lemma length_tasks [simp]: "length (po_tasks (pool_run (start_pool s (map task_of js)) sched)) = length js"
proof -
  have "length (po_tasks (nudge P i)) = length (po_tasks P)" for P i
    using move_stage(2) by (auto simp: nudge_def split: option.split)
  then have "length (po_tasks (pool_run P sched)) = length (po_tasks P)" for P
    by (induction sched arbitrary: P) simp_all
  then show ?thesis by (simp add: start_pool_def)
qed

lemma not_stuck:
  assumes "i < length js" and "po_answers (pool_run (start_pool s (map task_of js)) sched) i = None"
  shows "\<exists>j Q. move j (pool_run (start_pool s (map task_of js)) sched) = Some Q"
  by (rule some_task_moves [OF reachable]) (use assms in simp_all)

lemma all_answered:
  "\<exists>more. \<forall>i < length js. po_answers (pool_run (start_pool s (map task_of js)) (sched @ more)) i \<noteq> None"
  using rest_answers [OF reachable [of s js sched]] by (simp add: pool_run_append)

lemma turn:
  assumes "locks_free P" and "i < length (po_tasks P)" and "po_answers P i = None" and "po_tasks P ! i = task_of j"
  shows "\<exists>n. pool_run P (replicate n i) = finished i (run_alone (task_of j) (po_agent P)) P"
proof (rule solo_run)
  show "to_itself i P" using assms by (simp add: locks_free_def to_itself_def)
  show "ordered (holds P i) (task_of j)" using assms(1) in_order by (simp add: locks_free_def holds_def)
qed (rule assms(4))

lemma readers_or_writer: "exclusive (pool_run (start_pool s (map task_of js)) sched)"
  using reachable by (simp add: pool_inv_def)

end

abbreviation in_lock_order :: "lock_id set \<Rightarrow> task \<Rightarrow> bool" where
  "in_lock_order H t \<equiv> ordered H t"

named_theorems order_intros \<open>tasks take their guards in order\<close>

lemmas [order_intros] = ordered_act

lemma order_steps [order_intros]:
  "in_lock_order H (Done r)"
  "\<forall>h \<in> H. h < l \<Longrightarrow> in_lock_order (insert l H) k \<Longrightarrow> in_lock_order H (Acquire l m k)"
  "in_lock_order (H - {l}) k \<Longrightarrow> in_lock_order H (Release l k)"
  "in_lock_order H j \<Longrightarrow> in_lock_order H k \<Longrightarrow> in_lock_order H (if b then j else k)"
  "in_lock_order H j \<Longrightarrow> (\<And>x. in_lock_order H (f x)) \<Longrightarrow> in_lock_order H (case_option j f v)"
  "(\<And>x. in_lock_order H (g x)) \<Longrightarrow> (\<And>x. in_lock_order H (f x)) \<Longrightarrow> in_lock_order H (case_sum g f w)"
  "(\<And>x. in_lock_order H (f' x)) \<Longrightarrow> (\<And>x. in_lock_order H (g' x)) \<Longrightarrow> (\<And>x. in_lock_order H (h' x)) \<Longrightarrow>
     in_lock_order H (case_outcome f' g' h' u)"
  by (auto split: option.split sum.split outcome.split)

lemma touch_order [order_intros]:
  assumes "\<forall>h \<in> H. h < ActivityLock" and "in_lock_order H k"
  shows "in_lock_order H (touch_task k)"
proof -
  have "insert ActivityLock H - {ActivityLock} = H" using assms(1) by fastforce
  with assms show ?thesis unfolding touch_task_def by (intro order_intros) simp_all
qed

lemma check_order [order_intros]:
  assumes "\<forall>h \<in> H. h < CacheLock" and "\<And>b. in_lock_order H (k b)"
  shows "in_lock_order H (check_task c p fp m d k)"
proof -
  have "insert CacheLock H - {CacheLock} = H" using assms(1) by fastforce
  with assms show ?thesis unfolding check_task_def cached_task_def prompt_task_def by (intro order_intros) simp_all
qed

lemma ensure_order [order_intros]: "in_lock_order {} k \<Longrightarrow> in_lock_order {} (ensure_task c k)"
  unfolding ensure_task_def by (intro order_intros) (simp_all add: insert_Diff_if)

lemma unless_order [order_intros]: "in_lock_order {LockedLock} j \<Longrightarrow> in_lock_order {} k \<Longrightarrow> in_lock_order {} (unless_locked j k)"
  unfolding unless_locked_def by (intro order_intros) simp_all

lemma handler_order:
  "in_lock_order {} (identities_task c)"
  "in_lock_order {} (sign_task c p r)"
  unfolding identities_task_def sign_task_def sign_found_def Let_def by (intro order_intros; simp)+

lemma extension_order:
  "in_lock_order {} (extension_body c p e)"
  "in_lock_order {} (extension_task c p e)"
  unfolding extension_task_def extension_body_def encrypt_task_def decrypt_task_def auth_task_def
    if_distrib [of "\<lambda>f. f _"] by (intro order_intros; simp)+

lemma key_order:
  "in_lock_order {} (add_task c cred)"
  "in_lock_order {} (remove_task c pub)"
  "in_lock_order {} (remove_all_task c)"
proof -
  show "in_lock_order {} (add_task c cred)"
    unfolding add_task_def add_store_task_def Let_def
    by (cases cred) (simp_all only: credential.case, (intro order_intros; simp)+)
  show "in_lock_order {} (remove_task c pub)" "in_lock_order {} (remove_all_task c)"
    unfolding remove_task_def remove_all_task_def Let_def by (intro order_intros; simp)+
qed

lemma lock_unlock_order:
  "in_lock_order {} (lock_task c pw)"
  "in_lock_order {} (unlock_task c pw)"
  unfolding lock_task_def unlock_task_def Let_def by (intro order_intros; simp)+

lemma sweep_order:
  "in_lock_order {} (idle_sweep_task timeout)"
  "in_lock_order {} cache_sweep_task"
  "in_lock_order {} (outside_task f)"
  unfolding idle_sweep_task_def cache_sweep_task_def outside_task_def by (intro order_intros; simp)+

interpretation agent_locks: lock_order "job_task c" for c
proof
  fix j
  show "in_lock_order {} (job_task c j)"
    by (cases "(c, j)" rule: job_task.cases)
      (simp_all add: handler_order extension_order key_order lock_unlock_order sweep_order)
qed

abbreviation job_pool :: "crates \<Rightarrow> agent \<Rightarrow> job list \<Rightarrow> pool" where
  "job_pool c s js \<equiv> start_pool s (map (job_task c) js)"

text \<open>
  C11. Every request is answered.  However the handlers of any number of connections and the sweepers interleave
  at their locks, no run goes on forever; whatever has happened, as long as a request is unanswered some
  task can move (no deadlock), and the rest of the run can answer them all.
\<close>

theorem every_request_answered:
  "\<not> (\<exists>f. f 0 = job_pool c s js \<and> (\<forall>n. \<exists>i. move i (f n) = Some (f (Suc n)))) \<and>
   (let P = pool_run (job_pool c s js) sched in
     ((\<forall>i. move i P = None) \<longrightarrow> (\<forall>i < length js. po_answers P i \<noteq> None)) \<and>
     (\<exists>more. \<forall>i < length js. po_answers (pool_run P more) i \<noteq> None))"
proof -
  have "\<not> (\<exists>f. f 0 = job_pool c s js \<and> (\<forall>n. \<exists>i. move i (f n) = Some (f (Suc n))))"
    using no_endless_run by blast
  moreover have "po_answers (pool_run (job_pool c s js) sched) i \<noteq> None"
    if "\<forall>i. move i (pool_run (job_pool c s js) sched) = None" "i < length js" for i
    using agent_locks.not_stuck [OF that(2), of s c sched] that(1) by fastforce
  ultimately show ?thesis
    using agent_locks.all_answered [of js s c sched] by (auto simp: Let_def pool_run_append)
qed

theorem every_request_answered_witness:
  "\<exists>more. let P = pool_run (start_pool demo_agent
      (map (job_task demo_crates) [Handle None (ReqLock ''a''), Handle None ReqRemoveAll])) ([0, 1, 0] @ more) in
    po_answers P 0 \<noteq> None \<and> po_answers P 1 \<noteq> None"
proof -
  let ?js = "[Handle None (ReqLock ''a''), Handle None ReqRemoveAll]"
  obtain more where "\<forall>i < length ?js. po_answers (pool_run (pool_run (start_pool demo_agent
      (map (job_task demo_crates) ?js)) [0, 1, 0]) more) i \<noteq> None"
    using every_request_answered [of demo_agent demo_crates ?js "[0, 1, 0]"] unfolding Let_def by blast
  then show ?thesis
    unfolding Let_def pool_run_append by (intro exI [of _ more]) simp
qed

text \<open>The task that is served first runs as its handler.\<close>

lemma first_turn:
  assumes "i < length js"
  shows "\<exists>n. pool_run (job_pool c s js) (replicate n i) = finished i (job_atomic c (js ! i) s) (job_pool c s js)"
  using agent_locks.turn [of "job_pool c s js" i c "js ! i"] assms unfolding job_alone by simp

section \<open>The atomic runs are schedules\<close>

abbreviation handles :: "(i32 option \<times> request) list \<Rightarrow> job list" where
  "handles rs \<equiv> map (\<lambda>(p, r). Handle p r) rs"

abbreviation requests :: "(i32 option \<times> request) list \<Rightarrow> agent_event list" where
  "requests rs \<equiv> map (\<lambda>(p, r). Request p r) rs"

lemma replies_state: "snd (replies f m s) = snd (m s)"
  by (simp add: replies_def io_bind_def split: prod.split outcome.split)

lemma atomic_step: "snd (job_atomic c (Handle p r) s) = agent_step c T s (Request p r)"
  by (cases r) (simp_all add: replies_state)

text \<open>After \<open>k\<close> turns, in the order of the list.\<close>

definition served :: "crates \<Rightarrow> u64 \<Rightarrow> agent \<Rightarrow> (i32 option \<times> request) list \<Rightarrow> nat \<Rightarrow> pool \<Rightarrow> bool" where
  "served c T s rs k P \<longleftrightarrow> locks_free P \<and> length (po_tasks P) = length rs \<and>
     po_agent P = agent_run c T s (requests (take k rs)) \<and>
     (\<forall>i < k. po_answers P i =
        Some (fst (job_atomic c (handles rs ! i) (agent_run c T s (requests (take i rs)))))) \<and>
     (\<forall>i < length rs. k \<le> i \<longrightarrow> po_answers P i = None \<and> po_tasks P ! i = job_task c (handles rs ! i))"

lemma serve_next:
  assumes "served c T s rs k P" and k: "k < length rs"
  shows "\<exists>n. served c T s rs (Suc k) (pool_run P (replicate n k))"
proof -
  let ?j = "handles rs ! k"
  have P: "locks_free P" "length (po_tasks P) = length rs" "po_agent P = agent_run c T s (requests (take k rs))"
    "po_answers P k = None" "po_tasks P ! k = job_task c ?j"
    using assms by (simp_all add: served_def)
  have "k < length (po_tasks P)" using P(2) k by simp
  from agent_locks.turn [OF P(1) this P(4,5)] obtain n where
    n: "pool_run P (replicate n k) = finished k (job_atomic c ?j (po_agent P)) P"
    by (auto simp: job_alone)
  have "requests (take (Suc k) rs) = requests (take k rs) @ [case rs ! k of (p, r) \<Rightarrow> Request p r]"
    using k by (simp add: take_Suc_conv_app_nth)
  then have "snd (job_atomic c ?j (po_agent P)) = agent_run c T s (requests (take (Suc k) rs))"
    using k P(3) atomic_step [of c _ _ "po_agent P" T] by (simp split: prod.split)
  with assms P(1,2,3) have "served c T s rs (Suc k) (finished k (job_atomic c ?j (po_agent P)) P)"
    by (auto simp: served_def less_Suc_eq)
  with n show ?thesis by metis
qed

text \<open>
  The other theories run one handler after the other.  Those runs are among the schedules: for any requests
  some schedule answers each as the atomic handler does in its turn, and leaves the agent of that run.
\<close>

theorem atomic_runs_are_schedules:
  "\<exists>sched. let P = pool_run (job_pool c s (handles rs)) sched in
     po_agent P = agent_run c T s (requests rs) \<and>
     (\<forall>i < length rs. po_answers P i =
        Some (fst (job_atomic c (handles rs ! i) (agent_run c T s (requests (take i rs))))))"
proof -
  have "\<exists>sched. served c T s rs k (pool_run (job_pool c s (handles rs)) sched)" if "k \<le> length rs" for k
    using that
  proof (induction k)
    case 0
    have "served c T s rs 0 (pool_run (job_pool c s (handles rs)) [])" by (simp add: served_def)
    then show ?case by blast
  next
    case (Suc k)
    then obtain sched n where "served c T s rs (Suc k) (pool_run (pool_run (job_pool c s (handles rs)) sched) (replicate n k))"
      using serve_next [of c T s rs k] by (metis Suc_leD Suc_le_lessD)
    then show ?case by (metis pool_run_append)
  qed
  from this [of "length rs"] show ?thesis by (auto simp: served_def Let_def)
qed

end
