(* ===== verification/Vt_Barrier.thy ===== *)
theory Vt_Barrier
  imports Vt_Interleave
begin

text \<open>
  What a lock guarantees while requests overlap.  \<open>sign\<close> keeps its guard of the keys from the look-up to the
  signature, and \<open>lock\<close> needs that lock exclusively to clear the keys: so a lock waits for the
  signatures in progress, and after its answer there are no more.
\<close>

section \<open>Tasks that can only be refused\<close>

text \<open>With no key in memory, and none to be loaded again, the task does not answer with a value.\<close>

definition emptied :: "agent \<Rightarrow> bool" where
  "emptied s \<longleftrightarrow> ag_keys s = [] \<and> \<not> ag_idle_cleared s"

primrec doomed :: "task \<Rightarrow> bool" where
  "doomed (Done r) \<longleftrightarrow> \<not> is_ok r"
| "doomed (Acquire l m k) \<longleftrightarrow> doomed k"
| "doomed (Release l k) \<longleftrightarrow> doomed k"
| "doomed (Act upd next) \<longleftrightarrow> (\<forall>s. emptied s \<longrightarrow> doomed (next s))"

text \<open>At every point of the task, either the guard of the keys is held or the task is doomed.\<close>

primrec guarded :: "lock_id set \<Rightarrow> task \<Rightarrow> bool" where
  "guarded H (Done r) \<longleftrightarrow> KeysLock \<in> H \<or> doomed (Done r)"
| "guarded H (Acquire l m k) \<longleftrightarrow> (KeysLock \<in> H \<or> doomed (Acquire l m k)) \<and> guarded (insert l H) k"
| "guarded H (Release l k) \<longleftrightarrow> (KeysLock \<in> H \<or> doomed (Release l k)) \<and> guarded (H - {l}) k"
| "guarded H (Act upd next) \<longleftrightarrow> (KeysLock \<in> H \<or> doomed (Act upd next)) \<and> (\<forall>s. guarded H (next s))"

lemma guarded_now: "guarded H t \<Longrightarrow> KeysLock \<in> H \<or> doomed t"
  by (cases t) simp_all

text \<open>
  A task leaves an agent without keys as it is; \<open>idle_cleared\<close> is never set here, so nothing is loaded again.
\<close>

primrec keeps_empty :: "task \<Rightarrow> bool" where
  "keeps_empty (Done r) \<longleftrightarrow> True"
| "keeps_empty (Acquire l m k) \<longleftrightarrow> keeps_empty k"
| "keeps_empty (Release l k) \<longleftrightarrow> keeps_empty k"
| "keeps_empty (Act upd next) \<longleftrightarrow> (\<forall>s. \<not> ag_idle_cleared s \<longrightarrow>
     \<not> ag_idle_cleared (upd s) \<and> (ag_keys s = [] \<longrightarrow> ag_keys (upd s) = []) \<and> keeps_empty (next s))"

text \<open>Every way to a value clears the keys under a writer's guard.\<close>

primrec clears :: "(lock_id \<times> lock_mode) set \<Rightarrow> task \<Rightarrow> bool" where
  "clears G (Done r) \<longleftrightarrow> \<not> is_ok r"
| "clears G (Acquire l m k) \<longleftrightarrow> clears (insert (l, m) G) k"
| "clears G (Release l k) \<longleftrightarrow> clears (G - {l} \<times> UNIV) k"
| "clears G (Act upd next) \<longleftrightarrow>
     (\<forall>s. (KeysLock, WriteLock) \<in> G \<and> ag_keys (upd s) = [] \<or> clears G (next s))"

section \<open>The handlers\<close>

named_theorems task_rules \<open>predicates on tasks, by the form of the task\<close>

lemma doomed_rules [task_rules]:
  "\<not> is_ok r \<Longrightarrow> doomed (Done r)"
  "doomed k \<Longrightarrow> doomed (Acquire l m k)"
  "doomed k \<Longrightarrow> doomed (Release l k)"
  "doomed j \<Longrightarrow> doomed k \<Longrightarrow> doomed (if b then j else k)"
  by simp_all

lemma doomed_act [task_rules]: "(\<And>x. doomed (k x)) \<Longrightarrow> doomed (act m k)"
  by (simp add: act_def split: outcome.split)

lemma doomed_get: "(\<And>s. emptied s \<Longrightarrow> doomed (k (f s))) \<Longrightarrow> doomed (act (io_get f) k)"
  by (simp add: act_def)

lemma doomed_steps [task_rules]:
  "doomed k \<Longrightarrow> doomed (ensure_task c k)"
  "doomed k \<Longrightarrow> doomed (touch_task k)"
  "doomed j \<Longrightarrow> doomed k \<Longrightarrow> doomed (unless_locked j k)"
  unfolding ensure_task_def touch_task_def unless_locked_def by (intro task_rules; assumption)+

definition find_key :: "crates \<Rightarrow> i32 option \<Rightarrow> sign_request \<Rightarrow> task" where
  "find_key c p r = Acquire KeysLock ReadLock (
     act (io_get (\<lambda>s. map_of (ag_keys s) (fingerprint_str c (sr_pubkey r)))) (\<lambda>found.
     case found of None \<Rightarrow> refuse | Some privkey \<Rightarrow> sign_found c p r privkey))"

lemma sign_task_find: "sign_task c p r = unless_locked refuse (ensure_task c (touch_task (find_key c p r)))"
  by (simp add: sign_task_def find_key_def)

lemma look_up_doomed:
  "doomed (act (io_get (\<lambda>s. map_of (ag_keys s) (fingerprint_str c (sr_pubkey r)))) (case_option refuse (sign_found c p r)))"
  by (rule doomed_get) (simp add: emptied_def)

lemma find_key_doomed [task_rules]: "doomed (find_key c p r)"
  unfolding find_key_def by (intro task_rules look_up_doomed)

lemma guarded_rules:
  "\<not> is_ok r \<or> KeysLock \<in> H \<Longrightarrow> guarded H (Done r)"
  "KeysLock \<in> H \<or> doomed (Acquire l m k) \<Longrightarrow> guarded (insert l H) k \<Longrightarrow> guarded H (Acquire l m k)"
  "KeysLock \<in> H \<or> doomed (Release l k) \<Longrightarrow> guarded (H - {l}) k \<Longrightarrow> guarded H (Release l k)"
  "guarded H j \<Longrightarrow> guarded H k \<Longrightarrow> guarded H (if b then j else k)"
  "guarded H j \<Longrightarrow> (\<And>x. guarded H (f x)) \<Longrightarrow> guarded H (case_option j f v)"
  by (auto split: option.split)

lemma guarded_act:
  "KeysLock \<in> H \<or> doomed (act m k) \<Longrightarrow> (\<And>x. guarded H (k x)) \<Longrightarrow> guarded H (act m k)"
  by (auto simp: act_def split: outcome.split)

lemmas guard_intros = guarded_rules guarded_act

lemma guarded_ensure: "doomed k \<Longrightarrow> guarded {} k \<Longrightarrow> guarded {} (ensure_task c k)"
  unfolding ensure_task_def
  by (intro guard_intros) (simp; fail | rule disjI2, intro task_rules; (assumption | simp))+

lemma guarded_touch: "doomed k \<Longrightarrow> guarded {} k \<Longrightarrow> guarded {} (touch_task k)"
  unfolding touch_task_def by (intro guard_intros) (simp; fail | rule disjI2, intro task_rules; (assumption | simp))+

lemma guarded_unless:
  "\<not> is_ok r \<Longrightarrow> doomed k \<Longrightarrow> guarded {} k \<Longrightarrow> guarded {} (unless_locked (Done r) k)"
  unfolding unless_locked_def by (intro guard_intros) (simp; fail | rule disjI2, intro task_rules; (assumption | simp))+

lemma guarded_found: "guarded {KeysLock} (sign_found c p r k)"
  unfolding sign_found_def check_task_def cached_task_def prompt_task_def Let_def by (intro guard_intros; simp)+

lemma sign_guarded: "guarded {} (sign_task c p r)"
proof -
  have "guarded {} (find_key c p r)"
    unfolding find_key_def
    by (intro guard_intros) (simp_all add: look_up_doomed guarded_found)
  then show ?thesis
    unfolding sign_task_find by (intro guarded_unless guarded_ensure guarded_touch task_rules) simp_all
qed

text \<open>Requests that bring no key into the memory: all but \<open>add\<close> and \<open>unlock\<close>.\<close>

fun no_new_keys :: "job \<Rightarrow> bool" where
  "no_new_keys (Handle p (ReqAdd cred)) = False"
| "no_new_keys (Handle p (ReqUnlock pw)) = False"
| "no_new_keys (SweepIdle timeout) = False"
| "no_new_keys _ = True"

lemma keeps_rules [task_rules]:
  "keeps_empty (Done r)"
  "keeps_empty k \<Longrightarrow> keeps_empty (Acquire l m k)"
  "keeps_empty k \<Longrightarrow> keeps_empty (Release l k)"
  "keeps_empty j \<Longrightarrow> keeps_empty k \<Longrightarrow> keeps_empty (if b then j else k)"
  "keeps_empty j \<Longrightarrow> (\<And>x. keeps_empty (f x)) \<Longrightarrow> keeps_empty (case_option j f v)"
  "(\<And>x. keeps_empty (f' x)) \<Longrightarrow> (\<And>x. keeps_empty (g' x)) \<Longrightarrow> (\<And>x. keeps_empty (h' x)) \<Longrightarrow>
     keeps_empty (case_outcome f' g' h' u)"
  by (auto split: option.split outcome.split)

definition leaves_empty :: "agent \<Rightarrow> agent \<Rightarrow> bool" where
  "leaves_empty s t \<longleftrightarrow> (\<not> ag_idle_cleared s \<longrightarrow>
     \<not> ag_idle_cleared t \<and> (ag_keys s = [] \<longrightarrow> ag_keys t = []))"

interpretation leavesf: frame_rel leaves_empty
  by unfold_locales (auto simp: leaves_empty_def)

lemma keeps_act [task_rules]:
  "within leaves_empty m \<Longrightarrow> (\<And>x. keeps_empty (k x)) \<Longrightarrow> keeps_empty (act m k)"
  by (auto simp: act_def within_def leaves_empty_def split: outcome.split)

lemma keeps_ensure [task_rules]:
  assumes "keeps_empty k"
  shows "keeps_empty (ensure_task c k)"
  using assms by (simp add: ensure_task_def act_def)

lemma leaves_in_world [task_rules]: "within leaves_empty (in_world m)"
  by (simp add: within_def in_world_def leaves_empty_def split: prod.split)

lemma leaves_upds [task_rules]:
  "within leaves_empty touch_activity"
  "within leaves_empty (io_upd (\<lambda>s. s\<lparr>ag_keys := []\<rparr>))"
  "within leaves_empty (io_upd (\<lambda>s. s\<lparr>ag_locked := b\<rparr>))"
  "within leaves_empty (io_upd (\<lambda>s. s\<lparr>ag_lock_passphrase := lp\<rparr>))"
  "within leaves_empty (io_upd (\<lambda>s. s\<lparr>ag_auth_cache := f s\<rparr>))"
  "within leaves_empty (io_upd (\<lambda>s. s\<lparr>ag_keys := AList.delete fp (ag_keys s)\<rparr>))"
  "within leaves_empty (io_upd (\<lambda>s. s\<lparr>ag_world := g s\<rparr>))"
  by (simp_all add: within_def leaves_empty_def touch_activity_def)

lemma leaves_presence [task_rules]: "within leaves_empty (verify_yubikey_presence c m)"
  unfolding verify_yubikey_presence_def by (intro leavesf.all task_rules)

lemma leaves_grant [task_rules]: "within leaves_empty (cache_grant ctx fp d)"
  unfolding cache_grant_def by (intro leavesf.all task_rules)

lemmas [task_rules] = leavesf.all

lemma keeps_steps [task_rules]:
  "keeps_empty k' \<Longrightarrow> keeps_empty (touch_task k')"
  "(\<And>b. keeps_empty (k b)) \<Longrightarrow> keeps_empty (check_task c p fp m d k)"
  "keeps_empty j \<Longrightarrow> keeps_empty k' \<Longrightarrow> keeps_empty (unless_locked j k')"
  unfolding touch_task_def check_task_def cached_task_def prompt_task_def unless_locked_def by (intro task_rules; assumption)+

lemma keeps_requests:
  "keeps_empty (identities_task c)"
  "keeps_empty (sign_task c p r)"
  "keeps_empty (remove_task c pub)"
  "keeps_empty (remove_all_task c)"
  "keeps_empty (lock_task c pw)"
  "keeps_empty cache_sweep_task"
  "keeps_empty (outside_task f)"
  unfolding identities_task_def sign_task_def sign_found_def remove_task_def remove_all_task_def lock_task_def
    cache_sweep_task_def outside_task_def Let_def
  by (intro task_rules)+

lemma keeps_extension: "keeps_empty (extension_task c p e)"
  unfolding extension_task_def extension_body_def encrypt_task_def decrypt_task_def auth_task_def if_distrib [of "\<lambda>f. f _"]
  by (intro task_rules)

lemma keeps_job: "no_new_keys j \<Longrightarrow> keeps_empty (job_task c j)"
  by (cases "(c, j)" rule: job_task.cases) (simp_all add: keeps_requests keeps_extension)

lemma lock_clears: "clears {} (lock_task c pw)"
  by (simp add: lock_task_def act_def)

section \<open>Through a run\<close>

definition modes :: "pool \<Rightarrow> nat \<Rightarrow> (lock_id \<times> lock_mode) set" where
  "modes P i = {(l, m). (i, m) \<in> set (po_held P l)}"

text \<open>
  The signatures in \<open>S\<close> are over: the keys are gone, and whoever is still unanswered will be refused.
\<close>

definition sealed_off :: "nat set \<Rightarrow> pool \<Rightarrow> bool" where
  "sealed_off S P \<longleftrightarrow> emptied (po_agent P) \<and> (\<forall>i \<in> S. po_answers P i = None \<longrightarrow> doomed (po_tasks P ! i))"

definition calm :: "pool \<Rightarrow> bool" where
  "calm P \<longleftrightarrow> \<not> ag_idle_cleared (po_agent P) \<and> (\<forall>i < length (po_tasks P). keeps_empty (po_tasks P ! i))"

definition signing :: "nat set \<Rightarrow> pool \<Rightarrow> bool" where
  "signing S P \<longleftrightarrow> (\<forall>i \<in> S. i < length (po_tasks P) \<and> guarded (holds P i) (po_tasks P ! i) \<or> po_answers P i \<noteq> None)"

definition locking :: "nat set \<Rightarrow> nat \<Rightarrow> pool \<Rightarrow> bool" where
  "locking S k P \<longleftrightarrow> (case po_answers P k of
       None \<Rightarrow> clears (modes P k) (po_tasks P ! k) \<or> sealed_off S P
     | Some r \<Rightarrow> \<not> is_ok r \<or> sealed_off S P)"

lemma others_step:
  assumes "move i P = Some Q" and "j \<noteq> i"
  shows "po_tasks Q ! j = po_tasks P ! j" and "po_answers Q j = po_answers P j"
    and "holds Q j = holds P j" and "modes Q j = modes P j"
proof -
  have "po_tasks Q ! j = po_tasks P ! j \<and> po_answers Q j = po_answers P j \<and>
      (\<forall>l m. (j, m) \<in> set (po_held Q l) \<longleftrightarrow> (j, m) \<in> set (po_held P l))"
    using assms(1) by (cases rule: move_cases) (use assms(2) in simp_all)
  then show "po_tasks Q ! j = po_tasks P ! j" "po_answers Q j = po_answers P j" "holds Q j = holds P j"
    "modes Q j = modes P j"
    by (simp_all add: holds_def modes_def)
qed

lemma calm_step:
  assumes "calm P" and "move i P = Some Q"
  shows "calm Q"
  using assms(2)
proof (cases rule: move_cases)
  case (run upd nxt)
  then have "keeps_empty (Act upd nxt)" using assms(1) by (auto simp: calm_def)
  with run assms(1) show ?thesis by (auto simp: calm_def nth_list_update)
next
  case (grant l m k ws)
  then have "keeps_empty (Acquire l m k)" using assms(1) by (auto simp: calm_def)
  with grant assms(1) show ?thesis by (auto simp: calm_def nth_list_update)
next
  case (drop l k)
  then have "keeps_empty (Release l k)" using assms(1) by (auto simp: calm_def)
  with drop assms(1) show ?thesis by (auto simp: calm_def nth_list_update)
qed (use assms(1) in \<open>auto simp: calm_def\<close>)

lemma signing_step:
  assumes "signing S P" and m: "move i P = Some Q"
  shows "signing S Q"
  unfolding signing_def
proof
  fix j
  assume j: "j \<in> S"
  note s = move_stage(1,2) [OF m]
  show "j < length (po_tasks Q) \<and> guarded (holds Q j) (po_tasks Q ! j) \<or> po_answers Q j \<noteq> None"
  proof (cases "j = i")
    case False
    with assms(1) j s others_step [OF m] show ?thesis by (auto simp: signing_def)
  next
    case True
    with assms(1) j have g: "po_answers P i = None \<Longrightarrow> guarded (holds P i) (po_tasks P ! i)"
      by (auto simp: signing_def)
    from m show ?thesis
    proof (cases rule: move_cases)
      case (grant l m k ws)
      moreover have "holds Q i = insert l (holds P i)" using grant by (auto simp: holds_def)
      ultimately show ?thesis using g True by simp
    next
      case (drop l k)
      moreover have "holds Q i = holds P i - {l}" using drop by (auto simp: holds_def)
      ultimately show ?thesis using g True by simp
    qed (use g True in \<open>auto simp: holds_def\<close>)
  qed
qed

lemma sealed_off_step:
  assumes "sealed_off S P" and "calm P" and m: "move i P = Some Q"
  shows "sealed_off S Q"
proof -
  have e: "emptied (po_agent Q)"
    using m
  proof (cases rule: move_cases)
    case (run upd nxt)
    then have "keeps_empty (Act upd nxt)" using assms(2) by (auto simp: calm_def)
    with run assms(1) show ?thesis by (simp add: sealed_off_def emptied_def)
  qed (use assms(1) in \<open>simp_all add: sealed_off_def\<close>)
  have "doomed (po_tasks Q ! j)" if j: "j \<in> S" "po_answers Q j = None" for j
  proof (cases "j = i")
    case False
    with assms(1) j others_step [OF m] show ?thesis by (auto simp: sealed_off_def)
  next
    case True
    with assms(1) j have d: "po_answers P i = None \<Longrightarrow> doomed (po_tasks P ! i)" and "emptied (po_agent P)"
      by (auto simp: sealed_off_def)
    with m j(2) True show ?thesis by (cases rule: move_cases) auto
  qed
  with e show ?thesis by (simp add: sealed_off_def)
qed

lemma clearing_seals:
  assumes "calm Q" and "signing S P" and "exclusive P" and "move k P = Some Q" and "k \<notin> S"
    and held: "(KeysLock, WriteLock) \<in> modes P k" and empty: "ag_keys (po_agent Q) = []"
  shows "sealed_off S Q"
proof -
  have one: "po_held P KeysLock = [(k, WriteLock)]"
    using assms(3) [unfolded exclusive_def, THEN spec [of _ KeysLock]] held
    by (auto simp: modes_def free_for_def list_all_iff)
  have "doomed (po_tasks Q ! j)" if j: "j \<in> S" "po_answers Q j = None" for j
  proof -
    have "j \<noteq> k" using j(1) assms(5) by blast
    note o = others_step [OF assms(4) this]
    have "KeysLock \<notin> holds P j" using one \<open>j \<noteq> k\<close> by (simp add: holds_def)
    moreover have "guarded (holds P j) (po_tasks P ! j)" using assms(2) j o by (auto simp: signing_def)
    ultimately show ?thesis using guarded_now o by metis
  qed
  with assms(1) empty show ?thesis by (simp add: sealed_off_def emptied_def calm_def)
qed

lemma locking_step:
  assumes "locking S k P" and "calm P" and "signing S P" and "exclusive P" and m: "move i P = Some Q" and "k \<notin> S"
  shows "locking S k Q"
proof (cases "sealed_off S P")
  case True
  then have "sealed_off S Q" by (rule sealed_off_step [OF _ assms(2) m])
  then show ?thesis by (simp add: locking_def split: option.split)
next
  case unsealed: False
  show ?thesis
  proof (cases "i = k")
    case False
    then have "k \<noteq> i" by simp
    from assms(1) unsealed others_step [OF m this] show ?thesis by (simp add: locking_def split: option.splits)
  next
    case True
    with m have c: "clears (modes P k) (po_tasks P ! k)"
      using assms(1) unsealed by (auto simp: locking_def move_def split: if_splits)
    from m show ?thesis
    proof (cases rule: move_cases)
      case (run upd nxt)
      show ?thesis
      proof (cases "(KeysLock, WriteLock) \<in> modes P k \<and> ag_keys (upd (po_agent P)) = []")
        case True
        then have "sealed_off S Q"
          using \<open>i = k\<close> m run(4) calm_step [OF assms(2) m] assms(3,4,6) by (intro clearing_seals [of Q S P k]) simp_all
        then show ?thesis by (simp add: locking_def split: option.split)
      next
        case False
        with c run True have "clears (modes P k) (nxt (po_agent P))" by fastforce
        with run True show ?thesis by (simp add: locking_def modes_def)
      qed
    next
      case (grant l m k' ws)
      moreover have "modes Q k = insert (l, m) (modes P k)" using grant True by (auto simp: modes_def split: if_splits)
      ultimately show ?thesis using c True by (simp add: locking_def)
    next
      case (drop l k')
      moreover have "modes Q k = modes P k - {l} \<times> UNIV" using drop True by (auto simp: modes_def split: if_splits)
      ultimately show ?thesis using c True by (simp add: locking_def)
    qed (use c True in \<open>simp_all add: locking_def modes_def\<close>)
  qed
qed

definition barrier_inv :: "nat set \<Rightarrow> nat \<Rightarrow> pool \<Rightarrow> bool" where
  "barrier_inv S k P \<longleftrightarrow> pool_inv P \<and> calm P \<and> signing S P \<and> locking S k P"

lemma barrier_nudge: "k \<notin> S \<Longrightarrow> barrier_inv S k P \<Longrightarrow> barrier_inv S k (nudge P i)"
proof (cases "move i P")
  case (Some Q)
  assume "k \<notin> S" and b: "barrier_inv S k P"
  then have "exclusive P" by (simp add: barrier_inv_def pool_inv_def)
  with b Some \<open>k \<notin> S\<close> have "barrier_inv S k Q"
    unfolding barrier_inv_def by (blast intro: pool_inv_step calm_step signing_step locking_step)
  with Some show ?thesis by (simp add: nudge_def)
qed (simp add: nudge_def)

lemma barrier_run: "k \<notin> S \<Longrightarrow> barrier_inv S k P \<Longrightarrow> barrier_inv S k (pool_run P sched)"
  by (induction sched arbitrary: P) (simp_all add: barrier_nudge)

lemma barrier_start:
  assumes "\<forall>j \<in> set js. no_new_keys j" and "\<not> ag_idle_cleared s"
    and "k < length js" and "js ! k = Handle q (ReqLock pw)"
    and "\<And>i. i \<in> S \<Longrightarrow> i < length js \<and> (\<exists>p r. js ! i = Handle p (ReqSign r))"
  shows "barrier_inv S k (job_pool c s js)"
proof -
  have "pool_inv (job_pool c s js)" using agent_locks.reachable [of s c js "[]"] by simp
  moreover have "calm (job_pool c s js)"
    using assms(1,2) by (simp add: calm_def start_pool_def keeps_job)
  moreover have "signing S (job_pool c s js)"
    using assms(5) by (fastforce simp: signing_def start_pool_def holds_def sign_guarded)
  moreover have "locking S k (job_pool c s js)"
    using assms(3,4) lock_clears by (simp add: locking_def start_pool_def modes_def)
  ultimately show ?thesis by (simp add: barrier_inv_def)
qed

lemma sealed_off_run:
  "sealed_off S P \<Longrightarrow> calm P \<Longrightarrow> sealed_off S (pool_run P sched)"
proof (induction sched arbitrary: P)
  case (Cons j sched)
  have "sealed_off S (nudge P j)" "calm (nudge P j)"
    using sealed_off_step [OF Cons.prems] calm_step [OF Cons.prems(2)] Cons.prems
    by (simp_all add: nudge_def split: option.split)
  with Cons.IH show ?case by simp
qed simp

text \<open>
  C14. A lock is a barrier for signatures, however requests overlap.  Let any requests that bring no key into the
  memory run against each other, with keys that were not cleared for idleness.  Once a lock has been answered,
  every signature still unanswered is refused, even if it had passed its own check of the lock, found its
  key, or had the touch; one in progress with its key makes the lock wait instead.
\<close>

theorem lock_waits_for_signatures:
  assumes "\<forall>j \<in> set js. no_new_keys j" and "\<not> ag_idle_cleared s"
    and "k < length js" and "js ! k = Handle q (ReqLock pw)"
    and "i < length js" and "js ! i = Handle p (ReqSign req)"
    and "po_answers (pool_run (job_pool c s js) before) k = Some (Ok x)"
    and "po_answers (pool_run (job_pool c s js) before) i = None"
    and "po_answers (pool_run (job_pool c s js) (before @ after)) i = Some r"
  shows "\<not> is_ok r"
proof -
  let ?P = "pool_run (job_pool c s js) before"
  have "k \<notin> {i}" using assms(4,6) by auto
  then have "barrier_inv {i} k ?P"
    using assms(1-6) by (intro barrier_run barrier_start) simp_all
  then have s: "sealed_off {i} ?P" "calm ?P" using assms(7) by (simp_all add: barrier_inv_def locking_def)
  obtain as bs where "po_answers (pool_run ?P as) i = None" "po_tasks (pool_run ?P as) ! i = Done r"
    using answer_point [OF assms(8) assms(9) [unfolded pool_run_append]] by blast
  with sealed_off_run [OF s, of as] show ?thesis by (simp add: sealed_off_def)
qed

text \<open>A lock that is answered before a signature starts, which is then refused.\<close>

theorem lock_waits_for_signatures_witness:
  "\<exists>before after r. let P = job_pool demo_crates demo_agent
       [Handle None (ReqSign \<lparr>sr_pubkey = [7], sr_data = []\<rparr>), Handle None (ReqLock ''a'')] in
     po_answers (pool_run P before) 1 = Some (Ok UnitReply) \<and> po_answers (pool_run P before) 0 = None \<and>
     po_answers (pool_run P (before @ after)) 0 = Some r \<and> \<not> is_ok r"
proof -
  let ?r = "\<lparr>sr_pubkey = [7], sr_data = []\<rparr>"
  let ?js = "[Handle None (ReqSign ?r), Handle None (ReqLock ''a'')]"
  let ?P = "job_pool demo_crates demo_agent ?js"
  obtain n where n: "pool_run ?P (replicate n 1) =
      finished 1 (job_atomic demo_crates (Handle None (ReqLock ''a'')) demo_agent) ?P"
    using first_turn [of 1 ?js demo_agent demo_crates] by auto
  obtain u where "lock demo_crates ''a'' demo_agent = (Ok (), u)" by (simp add: lock_def)
  then have l: "job_atomic demo_crates (Handle None (ReqLock ''a'')) demo_agent = (Ok UnitReply, u)"
    by (simp add: replies_def io_bind_eval)
  have a: "po_answers (pool_run ?P (replicate n 1)) 1 = Some (Ok UnitReply)" "po_answers (pool_run ?P (replicate n 1)) 0 = None"
    unfolding n l by simp_all
  obtain after where "po_answers (pool_run ?P (replicate n 1 @ after)) 0 \<noteq> None"
    using agent_locks.all_answered [of ?js demo_agent demo_crates "replicate n 1"] by force
  then obtain r where r: "po_answers (pool_run ?P (replicate n 1 @ after)) 0 = Some r" by blast
  have "\<not> is_ok r"
    by (rule lock_waits_for_signatures [where k = 1 and i = 0, OF _ _ _ _ _ _ a r])
      (simp_all add: demo_agent_def agent_new_def)
  with a r show ?thesis unfolding Let_def by blast
qed

end
