(* ===== verification/Vt_Overlap.thy ===== *)
theory Vt_Overlap
  imports Vt_Barrier
begin

text \<open>
  Consent while requests overlap: whatever the schedule, a signature or a decryption is answered only if
  its own task saw the touch or found a live grant for its caller, and every grant in the cache was made
  by a task that had seen a touch itself.
\<close>

section \<open>What a task may do with consent\<close>

text \<open>
  The predicates walk through the code of a task with what it has seen so far: \<open>X\<close>, the contexts its caller had
  at its own steps, \<open>touch\<close>, whether the key was touched at one of them, and \<open>hit\<close>, whether one of them found a
  live grant for such a context.
\<close>

definition caller_context :: "i32 option \<Rightarrow> agent \<Rightarrow> u64 option" where
  "caller_context p s = context_id (ag_cache_mode s) p (ag_world s)"

definition live_grant_in :: "u64 set \<Rightarrow> string \<Rightarrow> agent \<Rightarrow> bool" where
  "live_grant_in X fp s \<longleftrightarrow> (\<exists>ctx \<in> X. is_authorized (agent_now s) (ag_auth_cache s) ctx fp)"

primrec answers_with_consent :: "i32 option \<Rightarrow> string \<Rightarrow> u64 set \<Rightarrow> bool \<Rightarrow> bool \<Rightarrow> task \<Rightarrow> bool" where
  "answers_with_consent p fp X touch hit (Done r) \<longleftrightarrow> is_ok r \<longrightarrow> touch \<or> hit"
| "answers_with_consent p fp X touch hit (Acquire l m k) \<longleftrightarrow> answers_with_consent p fp X touch hit k"
| "answers_with_consent p fp X touch hit (Release l k) \<longleftrightarrow> answers_with_consent p fp X touch hit k"
| "answers_with_consent p fp X touch hit (Act upd next) \<longleftrightarrow>
     (\<forall>s. answers_with_consent p fp (X \<union> set_option (caller_context p s)) (touch \<or> touched s (upd s))
        (hit \<or> live_grant_in X fp s) (next s))"

text \<open>The entries of the cache that a step may add, for the key \<open>g\<close> of its request.\<close>

definition consented_entry ::
  "(string \<times> bool) option \<Rightarrow> u64 set \<Rightarrow> bool \<Rightarrow> agent \<Rightarrow> u64 \<times> string \<Rightarrow> nat \<Rightarrow> bool" where
  "consented_entry g X touch s q e \<longleftrightarrow> touch \<and> fst q \<in> X \<and>
     (\<exists>d. g = Some (snd q, d) \<and> e = agent_now s + cache_ttl (ag_auth_cache s) d)"

definition new_entries_allowed :: "(string \<times> bool) option \<Rightarrow> u64 set \<Rightarrow> bool \<Rightarrow> agent \<Rightarrow> agent \<Rightarrow> bool" where
  "new_entries_allowed g X touch s t \<longleftrightarrow> cache_ttl (ag_auth_cache t) = cache_ttl (ag_auth_cache s) \<and>
     (\<forall>q e. ac_entries (ag_auth_cache t) q = Some e \<longrightarrow>
        ac_entries (ag_auth_cache s) q = Some e \<or> consented_entry g X touch s q e)"

primrec grants_with_consent ::
  "i32 option \<Rightarrow> (string \<times> bool) option \<Rightarrow> u64 set \<Rightarrow> bool \<Rightarrow> task \<Rightarrow> bool" where
  "grants_with_consent p g X touch (Done r) \<longleftrightarrow> True"
| "grants_with_consent p g X touch (Acquire l m k) \<longleftrightarrow> grants_with_consent p g X touch k"
| "grants_with_consent p g X touch (Release l k) \<longleftrightarrow> grants_with_consent p g X touch k"
| "grants_with_consent p g X touch (Act upd next) \<longleftrightarrow>
     (\<forall>s. new_entries_allowed g X touch s (upd s) \<and>
        grants_with_consent p g (X \<union> set_option (caller_context p s)) (touch \<or> touched s (upd s)) (next s))"

lemma answers_mono:
  "answers_with_consent p fp X touch hit t \<Longrightarrow> X \<subseteq> X' \<Longrightarrow> (touch \<longrightarrow> touch') \<Longrightarrow> (hit \<longrightarrow> hit') \<Longrightarrow>
     answers_with_consent p fp X' touch' hit' t"
proof (induction t arbitrary: X X' touch touch' hit hit')
  case (Act upd nxt)
  have "answers_with_consent p fp (X' \<union> set_option (caller_context p s)) (touch' \<or> touched s (upd s))
      (hit' \<or> live_grant_in X' fp s) (nxt s)" for s
    by (rule Act.IH [OF rangeI, of "X \<union> set_option (caller_context p s)" "touch \<or> touched s (upd s)" "hit \<or> live_grant_in X fp s"])
      (use Act.prems in \<open>auto simp: live_grant_in_def\<close>)
  then show ?case by simp
next
  case (Acquire l m k)
  from Acquire.IH [of X touch hit X' touch' hit'] Acquire.prems show ?case by simp
next
  case (Release l k)
  from Release.IH [of X touch hit X' touch' hit'] Release.prems show ?case by simp
qed auto

lemma consented_mono:
  "consented_entry g X touch s q e \<Longrightarrow> X \<subseteq> X' \<Longrightarrow> (touch \<longrightarrow> touch') \<Longrightarrow> consented_entry g X' touch' s q e"
  by (auto simp: consented_entry_def)

lemma new_entries_mono:
  "new_entries_allowed g X touch s t \<Longrightarrow> X \<subseteq> X' \<Longrightarrow> (touch \<longrightarrow> touch') \<Longrightarrow> new_entries_allowed g X' touch' s t"
  unfolding new_entries_allowed_def using consented_mono by metis

lemma grants_mono:
  "grants_with_consent p g X touch t \<Longrightarrow> X \<subseteq> X' \<Longrightarrow> (touch \<longrightarrow> touch') \<Longrightarrow> grants_with_consent p g X' touch' t"
proof (induction t arbitrary: X X' touch touch')
  case (Act upd nxt)
  have "grants_with_consent p g (X' \<union> set_option (caller_context p s)) (touch' \<or> touched s (upd s)) (nxt s)" for s
    by (rule Act.IH [OF rangeI, of "X \<union> set_option (caller_context p s)" "touch \<or> touched s (upd s)"])
      (use Act.prems in auto)
  moreover have "new_entries_allowed g X' touch' s (upd s)" for s
    by (rule new_entries_mono [of g X touch]) (use Act.prems in auto)
  ultimately show ?case by simp
next
  case (Acquire l m k)
  from Acquire.IH [of X touch X' touch'] Acquire.prems show ?case by simp
next
  case (Release l k)
  from Release.IH [of X touch X' touch'] Release.prems show ?case by simp
qed simp

lemma answers_done: "touch \<or> hit \<Longrightarrow> answers_with_consent p fp X touch hit t"
proof (induction t arbitrary: X touch hit)
  case (Act upd nxt)
  have "answers_with_consent p fp (X \<union> set_option (caller_context p s)) (touch \<or> touched s (upd s))
      (hit \<or> live_grant_in X fp s) (nxt s)" for s
    by (rule Act.IH [OF rangeI]) (use Act.prems in blast)
  then show ?case by simp
qed simp_all

section \<open>The handlers\<close>

lemma answers_rules [task_rules]:
  "\<not> is_ok r \<Longrightarrow> answers_with_consent p fp X touch hit (Done r)"
  "answers_with_consent p fp X touch hit k \<Longrightarrow> answers_with_consent p fp X touch hit (Acquire l m k)"
  "answers_with_consent p fp X touch hit k \<Longrightarrow> answers_with_consent p fp X touch hit (Release l k)"
  "(b \<Longrightarrow> answers_with_consent p fp X touch hit j) \<Longrightarrow> (\<not> b \<Longrightarrow> answers_with_consent p fp X touch hit k) \<Longrightarrow>
     answers_with_consent p fp X touch hit (if b then j else k)"
  "answers_with_consent p fp X touch hit j \<Longrightarrow> (\<And>x. answers_with_consent p fp X touch hit (f x)) \<Longrightarrow>
     answers_with_consent p fp X touch hit (case_option j f v)"
  by (simp_all split: option.split)

text \<open>A step needs a look only at what follows it; a step of use gives what follows more.\<close>

lemma answers_step:
  assumes "\<And>s x. fst (m s) = Ok x \<Longrightarrow> answers_with_consent p fp (X \<union> set_option (caller_context p s))
      (touch \<or> touched s (snd (m s))) (hit \<or> live_grant_in X fp s) (k x)"
  shows "answers_with_consent p fp X touch hit (act m k)"
  using assms by (simp add: act_def split: outcome.split)

lemma answers_act [task_rules]:
  assumes "\<And>x. answers_with_consent p fp X touch hit (k x)"
  shows "answers_with_consent p fp X touch hit (act m k)"
  by (rule answers_step, rule answers_mono [OF assms]) auto

lemma answers_presence:
  assumes "answers_with_consent p fp X touch hit (k False)"
  shows "answers_with_consent p fp X touch hit (act (verify_yubikey_presence c m) k)"
proof (rule answers_step)
  fix s x
  assume v: "fst (verify_yubikey_presence c m s) = Ok x"
  show "answers_with_consent p fp (X \<union> set_option (caller_context p s)) (touch \<or> touched s (snd (verify_yubikey_presence c m s)))
      (hit \<or> live_grant_in X fp s) (k x)"
  proof (cases x)
    case True
    with v verify_presence_True [of c m s "snd (verify_yubikey_presence c m s)"] show ?thesis
      by (intro answers_done) (simp add: prod_eq_iff)
  next
    case False
    then show ?thesis by (simp add: answers_mono [OF assms] subset_iff)
  qed
qed

lemma answers_prompt:
  assumes "answers_with_consent p fp X touch hit (k False)"
  shows "answers_with_consent p fp X touch hit (prompt_task c ctx fp m d k)"
  unfolding prompt_task_def by (rule answers_presence) (use assms in simp)

lemma answers_cached:
  assumes no: "answers_with_consent p fp X touch hit (k False)" and "ctx \<in> X"
  shows "answers_with_consent p fp X touch hit (cached_task c ctx fp m d k)"
  unfolding cached_task_def
proof (rule answers_rules(2), rule answers_step, rule answers_rules(3), rule answers_rules(4))
  fix s :: agent and x
  assume x: "fst (io_get (\<lambda>s. is_authorized (agent_now s) (ag_auth_cache s) ctx fp) s) = Ok x"
  let ?u = "snd (io_get (\<lambda>s. is_authorized (agent_now s) (ag_auth_cache s) ctx fp) s)"
  show "answers_with_consent p fp (X \<union> set_option (caller_context p s)) (touch \<or> touched s ?u)
      (hit \<or> live_grant_in X fp s) (k True)" if x
    by (rule answers_done) (use x that assms(2) in \<open>auto simp: live_grant_in_def\<close>)
  show "answers_with_consent p fp (X \<union> set_option (caller_context p s)) (touch \<or> touched s ?u)
      (hit \<or> live_grant_in X fp s) (prompt_task c ctx fp m d k)"
    by (rule answers_prompt, rule answers_mono [OF no]) auto
qed

lemma answers_check [task_rules]:
  assumes no: "answers_with_consent p fp X touch hit (k False)"
  shows "answers_with_consent p fp X touch hit (check_task c p fp m d k)"
  unfolding check_task_def
proof (rule answers_step)
  fix s :: agent and x
  let ?m = "io_get (\<lambda>s. context_id (ag_cache_mode s) p (ag_world s))"
  assume "fst (?m s) = Ok x"
  then have x: "x = caller_context p s" by (simp add: caller_context_def)
  have no': "answers_with_consent p fp (X \<union> set_option (caller_context p s)) (touch \<or> touched s (snd (?m s)))
      (hit \<or> live_grant_in X fp s) (k False)"
    by (rule answers_mono [OF no]) auto
  show "answers_with_consent p fp (X \<union> set_option (caller_context p s)) (touch \<or> touched s (snd (?m s)))
      (hit \<or> live_grant_in X fp s)
      (case x of None \<Rightarrow> act (verify_yubikey_presence c m) k | Some ctx \<Rightarrow> cached_task c ctx fp m d k)"
    by (cases x) (use no' x in \<open>simp_all add: answers_presence answers_cached\<close>)
qed

lemma answers_ensure [task_rules]:
  "answers_with_consent p fp X touch hit k \<Longrightarrow> answers_with_consent p fp X touch hit (ensure_task c k)"
  unfolding ensure_task_def by (intro task_rules)

lemma answers_touch [task_rules]:
  "answers_with_consent p fp X touch hit k \<Longrightarrow> answers_with_consent p fp X touch hit (touch_task k)"
  unfolding touch_task_def by (intro task_rules)

lemma answers_unless [task_rules]:
  "answers_with_consent p fp X touch hit j \<Longrightarrow> answers_with_consent p fp X touch hit k \<Longrightarrow>
     answers_with_consent p fp X touch hit (unless_locked j k)"
  unfolding unless_locked_def by (intro task_rules)

lemma answers_request:
  assumes "grant_key c r = Some (fp, d)"
  shows "answers_with_consent p fp {} False False (job_task c (Handle p r))"
proof (cases r)
  case (ReqSign q)
  with assms have "fp = fingerprint_str c (sr_pubkey q)" by simp
  with ReqSign show ?thesis
    by (simp only: job_task.simps sign_task_def sign_found_def Let_def) (intro task_rules; simp)
next
  case (ReqExtension e)
  with assms have "fp = ''decrypt@vt''" "ex_name e = ''decrypt@vt''" by (simp_all split: if_splits)
  with ReqExtension show ?thesis
    by (simp add: extension_task_def extension_body_def decrypt_task_def) (intro task_rules; simp)
qed (use assms in simp_all)

section \<open>Who writes to the cache\<close>

definition cache_shrinks :: "agent \<Rightarrow> agent \<Rightarrow> bool" where
  "cache_shrinks s t \<longleftrightarrow> cache_ttl (ag_auth_cache t) = cache_ttl (ag_auth_cache s) \<and>
     ac_entries (ag_auth_cache t) \<subseteq>\<^sub>m ac_entries (ag_auth_cache s)"

interpretation shrinkf: frame_rel cache_shrinks
  by unfold_locales (auto simp: cache_shrinks_def intro: map_le_trans)

lemma shrinks_allowed: "cache_shrinks s t \<Longrightarrow> new_entries_allowed g X touch s t"
  by (auto simp: cache_shrinks_def new_entries_allowed_def map_le_def dom_def)

lemma grants_rules [task_rules]:
  "grants_with_consent p g X touch (Done r)"
  "grants_with_consent p g X touch k \<Longrightarrow> grants_with_consent p g X touch (Acquire l m k)"
  "grants_with_consent p g X touch k \<Longrightarrow> grants_with_consent p g X touch (Release l k)"
  "grants_with_consent p g X touch j \<Longrightarrow> grants_with_consent p g X touch k \<Longrightarrow>
     grants_with_consent p g X touch (if b then j else k)"
  "grants_with_consent p g X touch j \<Longrightarrow> (\<And>x. grants_with_consent p g X touch (f x)) \<Longrightarrow>
     grants_with_consent p g X touch (case_option j f v)"
  "(\<And>x. grants_with_consent p g X touch (f x)) \<Longrightarrow> (\<And>x. grants_with_consent p g X touch (h x)) \<Longrightarrow>
     grants_with_consent p g X touch (case_sum f h w)"
  "(\<And>x. grants_with_consent p g X touch (f' x)) \<Longrightarrow> (\<And>x. grants_with_consent p g X touch (g' x)) \<Longrightarrow>
     (\<And>x. grants_with_consent p g X touch (h' x)) \<Longrightarrow> grants_with_consent p g X touch (case_outcome f' g' h' u)"
  by (simp_all split: option.split sum.split outcome.split)

lemma grants_step:
  assumes "\<And>s. new_entries_allowed g X touch s (snd (m s))"
    and "\<And>s x. fst (m s) = Ok x \<Longrightarrow> grants_with_consent p g (X \<union> set_option (caller_context p s))
      (touch \<or> touched s (snd (m s))) (k x)"
  shows "grants_with_consent p g X touch (act m k)"
  using assms by (simp add: act_def split: outcome.split)

lemma grants_act [task_rules]:
  assumes "within cache_shrinks m" and "\<And>x. grants_with_consent p g X touch (k x)"
  shows "grants_with_consent p g X touch (act m k)"
proof (rule grants_step)
  show "new_entries_allowed g X touch s (snd (m s))" for s
    using assms(1) by (simp add: within_def shrinks_allowed)
  show "grants_with_consent p g (X \<union> set_option (caller_context p s)) (touch \<or> touched s (snd (m s))) (k x)" for s x
    by (rule grants_mono [OF assms(2)]) auto
qed

lemma shrinks_in_world [task_rules]: "within cache_shrinks (in_world m)"
  by (simp add: within_def in_world_def cache_shrinks_def split: prod.split)

lemma shrinks_upds [task_rules]:
  "within cache_shrinks touch_activity"
  "within cache_shrinks (io_upd (\<lambda>s. s\<lparr>ag_keys := f1 s\<rparr>))"
  "within cache_shrinks (io_upd (\<lambda>s. s\<lparr>ag_locked := b\<rparr>))"
  "within cache_shrinks (io_upd (\<lambda>s. s\<lparr>ag_lock_passphrase := lp\<rparr>))"
  "within cache_shrinks (io_upd (\<lambda>s. s\<lparr>ag_idle_cleared := b\<rparr>))"
  "within cache_shrinks (io_upd (\<lambda>s. s\<lparr>ag_world := f2 s\<rparr>))"
  "within cache_shrinks (io_upd (\<lambda>s. s\<lparr>ag_auth_cache := cache_clear (ag_auth_cache s)\<rparr>))"
  "within cache_shrinks (io_upd (\<lambda>s. s\<lparr>ag_auth_cache := sweep_expired (agent_now s) (ag_auth_cache s)\<rparr>))"
  by (auto simp: within_def cache_shrinks_def touch_activity_def cache_clear_def sweep_expired_def map_le_def
      split: option.splits if_splits)

lemma shrinks_presence [task_rules]: "within cache_shrinks (verify_yubikey_presence c m)"
  unfolding verify_yubikey_presence_def by (intro shrinkf.all task_rules)

lemmas [task_rules] = shrinkf.all

lemma grants_prompt:
  assumes k: "\<And>b. grants_with_consent p (Some (fp, d)) X touch (k b)" and ctx: "ctx \<in> X"
  shows "grants_with_consent p (Some (fp, d)) X touch (prompt_task c ctx fp m d k)"
  unfolding prompt_task_def
proof (rule grants_step)
  show "new_entries_allowed (Some (fp, d)) X touch s (snd (verify_yubikey_presence c m s))" for s
    using shrinks_presence [of c m] by (simp add: within_def shrinks_allowed)
  fix s x
  assume v: "fst (verify_yubikey_presence c m s) = Ok x"
  let ?X = "X \<union> set_option (caller_context p s)" and ?t = "touch \<or> touched s (snd (verify_yubikey_presence c m s))"
  have k': "grants_with_consent p (Some (fp, d)) ?X ?t (k b)" for b
    by (rule grants_mono [OF k]) auto
  have grant: "grants_with_consent p (Some (fp, d)) ?X ?t (act (cache_grant ctx fp d) (\<lambda>_. Release CacheLock (k True)))"
    if x
  proof (rule grants_step)
    have touch: ?t using v that verify_presence_True [of c m s] by (simp add: prod_eq_iff)
    show "new_entries_allowed (Some (fp, d)) ?X ?t u (snd (cache_grant ctx fp d u))" for u
      using touch ctx
      by (auto simp: new_entries_allowed_def consented_entry_def cache_grant_def io_bind_def grant_eq_Ok
          split: outcome.split)
    show "grants_with_consent p (Some (fp, d)) (?X \<union> set_option (caller_context p u))
        (?t \<or> touched u (snd (cache_grant ctx fp d u))) (Release CacheLock (k True))" for u x
      by (rule grants_rules(3), rule grants_mono [OF k']) auto
  qed
  show "grants_with_consent p (Some (fp, d)) ?X ?t (if \<not> x then k False
      else Acquire CacheLock WriteLock (act (cache_grant ctx fp d) (\<lambda>_. Release CacheLock (k True))))"
    using k' grant by simp
qed

lemma grants_cached:
  assumes "\<And>b. grants_with_consent p (Some (fp, d)) X touch (k b)" and "ctx \<in> X"
  shows "grants_with_consent p (Some (fp, d)) X touch (cached_task c ctx fp m d k)"
  unfolding cached_task_def using assms by (intro task_rules grants_prompt)

lemma check_grants_consented [task_rules]:
  assumes k: "\<And>b. grants_with_consent p (Some (fp, d)) X touch (k b)"
  shows "grants_with_consent p (Some (fp, d)) X touch (check_task c p fp m d k)"
  unfolding check_task_def
proof (rule grants_step)
  fix s :: agent and x
  let ?m = "io_get (\<lambda>s. context_id (ag_cache_mode s) p (ag_world s))"
  show "new_entries_allowed (Some (fp, d)) X touch s (snd (?m s))"
    by (simp add: new_entries_allowed_def)
  assume "fst (?m s) = Ok x"
  then have x: "x = caller_context p s" by (simp add: caller_context_def)
  have k': "grants_with_consent p (Some (fp, d)) (X \<union> set_option (caller_context p s)) (touch \<or> touched s (snd (?m s))) (k b)"
    for b by (rule grants_mono [OF k]) auto
  show "grants_with_consent p (Some (fp, d)) (X \<union> set_option (caller_context p s)) (touch \<or> touched s (snd (?m s)))
      (case x of None \<Rightarrow> act (verify_yubikey_presence c m) k | Some ctx \<Rightarrow> cached_task c ctx fp m d k)"
  proof (cases x)
    case None
    show ?thesis unfolding None option.case by (intro task_rules k')
  next
    case (Some ctx)
    then have "ctx \<in> X \<union> set_option (caller_context p s)" using x by simp
    then show ?thesis unfolding Some option.case by (intro grants_cached k')
  qed
qed

lemma grants_steps [task_rules]:
  "grants_with_consent p g X touch k \<Longrightarrow> grants_with_consent p g X touch (ensure_task c k)"
  "grants_with_consent p g X touch k \<Longrightarrow> grants_with_consent p g X touch (touch_task k)"
  "grants_with_consent p g X touch j \<Longrightarrow> grants_with_consent p g X touch k \<Longrightarrow>
     grants_with_consent p g X touch (unless_locked j k)"
  unfolding ensure_task_def touch_task_def unless_locked_def by (intro task_rules; assumption)+

fun job_peer :: "job \<Rightarrow> i32 option" where
  "job_peer (Handle p r) = p"
| "job_peer _ = None"

fun job_key :: "crates \<Rightarrow> job \<Rightarrow> (string \<times> bool) option" where
  "job_key c (Handle p r) = grant_key c r"
| "job_key c _ = None"

lemma grants_extension:
  "grants_with_consent p (grant_key c (ReqExtension e)) X touch (extension_task c p e)"
proof (cases "ex_name e = ''decrypt@vt''")
  case True
  then show ?thesis
    by (simp add: extension_task_def extension_body_def decrypt_task_def) (intro task_rules)
next
  case False
  then have e: "(if ex_name e = ''encrypt@vt'' then f else if ex_name e = ''decrypt@vt'' then g else h) k =
      (if ex_name e = ''encrypt@vt'' then f k else h k)" for f g h :: "(bytes \<Rightarrow> task) \<Rightarrow> task" and k
    by simp
  show ?thesis
    unfolding extension_task_def extension_body_def e encrypt_task_def auth_task_def by (intro task_rules)
qed

lemma grants_plain:
  "grants_with_consent p g X touch (identities_task c)"
  "grants_with_consent p g X touch (remove_task c pub)"
  "grants_with_consent p g X touch (remove_all_task c)"
  "grants_with_consent p g X touch (lock_task c pw)"
  "grants_with_consent p g X touch (unlock_task c pw)"
  "grants_with_consent p g X touch (idle_sweep_task timeout)"
  "grants_with_consent p g X touch cache_sweep_task"
  "grants_with_consent p g X touch (outside_task f)"
  unfolding identities_task_def remove_task_def remove_all_task_def lock_task_def unlock_task_def idle_sweep_task_def
    cache_sweep_task_def outside_task_def Let_def
  by (intro task_rules)+

lemma grants_add: "grants_with_consent p g X touch (add_task c cred)"
  by (cases cred) (simp_all only: add_task_def add_store_task_def Let_def credential.case, (intro task_rules)+)

lemma grants_sign: "grants_with_consent p (grant_key c (ReqSign r)) X touch (sign_task c p r)"
  by (simp only: sign_task_def sign_found_def Let_def grant_key.simps) (intro task_rules)

lemma grants_job: "grants_with_consent (job_peer j) (job_key c j) {} False (job_task c j)"
  by (cases "(c, j)" rule: job_task.cases)
    (simp_all only: job_task.simps job_peer.simps job_key.simps grants_plain grants_add grants_sign grants_extension prod.inject)

section \<open>The history of a run\<close>

text \<open>The pool before step \<open>n\<close> of the schedule, and the steps that moved task \<open>i\<close>.\<close>

definition at_step :: "pool \<Rightarrow> nat list \<Rightarrow> nat \<Rightarrow> pool" where
  "at_step P sched n = pool_run P (take n sched)"

definition own_step :: "pool \<Rightarrow> nat list \<Rightarrow> nat \<Rightarrow> nat \<Rightarrow> bool" where
  "own_step P sched i n \<longleftrightarrow> n < length sched \<and> sched ! n = i \<and> move i (at_step P sched n) \<noteq> None"

text \<open>
  What task \<open>i\<close> has met in its own steps: the contexts of its caller, a touch, and a live grant for a context
  it had met before.
\<close>

definition seen :: "pool \<Rightarrow> nat list \<Rightarrow> nat \<Rightarrow> i32 option \<Rightarrow> u64 set" where
  "seen P sched i p = {ctx. \<exists>n. own_step P sched i n \<and> caller_context p (po_agent (at_step P sched n)) = Some ctx}"

definition felt :: "pool \<Rightarrow> nat list \<Rightarrow> nat \<Rightarrow> bool" where
  "felt P sched i \<longleftrightarrow> (\<exists>n. own_step P sched i n \<and>
     touched (po_agent (at_step P sched n)) (po_agent (at_step P sched (Suc n))))"

definition found :: "pool \<Rightarrow> nat list \<Rightarrow> nat \<Rightarrow> i32 option \<Rightarrow> string \<Rightarrow> bool" where
  "found P sched i p fp \<longleftrightarrow> (\<exists>n. own_step P sched i n \<and>
     live_grant_in (seen P (take n sched) i p) fp (po_agent (at_step P sched n)))"

text \<open>
  A grant: some task for the same key wrote it, after the touch it felt itself, for a context of its own
  caller, with the time of the writing and the configured duration.
\<close>

definition granted :: "crates \<Rightarrow> job list \<Rightarrow> pool \<Rightarrow> nat list \<Rightarrow> u64 \<Rightarrow> string \<Rightarrow> nat \<Rightarrow> bool" where
  "granted c js P sched ctx fp e \<longleftrightarrow> (\<exists>n i d. own_step P sched i n \<and> i < length js \<and>
     job_key c (js ! i) = Some (fp, d) \<and> felt P (take n sched) i \<and>
     ctx \<in> seen P (take n sched) i (job_peer (js ! i)) \<and>
     e = agent_now (po_agent (at_step P sched n)) + cache_ttl (ag_auth_cache (po_agent (at_step P sched n))) d)"

lemma at_step_snoc:
  "n \<le> length sched \<Longrightarrow> at_step P (sched @ [j]) n = at_step P sched n"
  "at_step P sched (length sched) = pool_run P sched"
  "at_step P (sched @ [j]) (Suc (length sched)) = nudge (pool_run P sched) j"
  by (simp_all add: at_step_def)

lemma own_step_bound: "own_step P sched i n \<Longrightarrow> n < length sched"
  by (simp add: own_step_def)

lemma own_step_snoc:
  "own_step P (sched @ [j]) i n \<longleftrightarrow> own_step P sched i n \<or>
     n = length sched \<and> j = i \<and> move i (pool_run P sched) \<noteq> None"
proof (cases "n < length sched")
  case True
  then show ?thesis by (simp add: own_step_def at_step_snoc nth_append)
next
  case False
  then show ?thesis by (cases "n = length sched") (simp_all add: own_step_def at_step_def)
qed

lemma own_step_take:
  assumes "own_step P sched i n"
  shows "own_step P (sched @ [j]) i n" and "at_step P (sched @ [j]) n = at_step P sched n"
    and "at_step P (sched @ [j]) (Suc n) = at_step P sched (Suc n)" and "take n (sched @ [j]) = take n sched"
  using own_step_bound [OF assms] assms by (simp_all add: own_step_snoc at_step_snoc)

text \<open>What was met in a longer run was met before, or in the last step.\<close>

lemma ex_own_step_snoc:
  assumes "\<And>n. n < length sched \<Longrightarrow> F (sched @ [j]) n = F sched n"
  shows "(\<exists>n. own_step P (sched @ [j]) i n \<and> F (sched @ [j]) n) \<longleftrightarrow> (\<exists>n. own_step P sched i n \<and> F sched n) \<or>
    j = i \<and> move i (pool_run P sched) \<noteq> None \<and> F (sched @ [j]) (length sched)"
  using assms own_step_bound unfolding own_step_snoc by metis

lemma seen_snoc: "seen P (sched @ [j]) i p = seen P sched i p \<union>
    (if j = i \<and> move i (pool_run P sched) \<noteq> None then set_option (caller_context p (po_agent (pool_run P sched))) else {})"
proof (rule set_eqI)
  fix ctx
  show "ctx \<in> seen P (sched @ [j]) i p \<longleftrightarrow> ctx \<in> seen P sched i p \<union>
      (if j = i \<and> move i (pool_run P sched) \<noteq> None then set_option (caller_context p (po_agent (pool_run P sched))) else {})"
    using ex_own_step_snoc [where F = "\<lambda>sched n. caller_context p (po_agent (at_step P sched n)) = Some ctx"
        and P = P and sched = sched and j = j and i = i]
    by (auto simp: seen_def at_step_snoc)
qed

lemma felt_snoc: "felt P (sched @ [j]) i \<longleftrightarrow> felt P sched i \<or>
    j = i \<and> move i (pool_run P sched) \<noteq> None \<and>
      touched (po_agent (pool_run P sched)) (po_agent (nudge (pool_run P sched) j))"
  using ex_own_step_snoc [where F = "\<lambda>sched n. touched (po_agent (at_step P sched n)) (po_agent (at_step P sched (Suc n)))"
      and P = P and sched = sched and j = j and i = i]
  by (simp add: felt_def at_step_snoc)

lemma found_snoc: "found P (sched @ [j]) i p fp \<longleftrightarrow> found P sched i p fp \<or>
    j = i \<and> move i (pool_run P sched) \<noteq> None \<and> live_grant_in (seen P sched i p) fp (po_agent (pool_run P sched))"
  using ex_own_step_snoc [where F = "\<lambda>sched n. live_grant_in (seen P (take n sched) i p) fp (po_agent (at_step P sched n))"
      and P = P and sched = sched and j = j and i = i]
  by (simp add: found_def at_step_snoc)

lemma granted_later: "granted c js P sched ctx fp e \<Longrightarrow> granted c js P (sched @ [j]) ctx fp e"
  unfolding granted_def using own_step_take by metis

section \<open>Through a run\<close>

text \<open>One step of task \<open>i\<close> keeps what the predicates say about it.\<close>

lemma consent_own:
  assumes "move i P = Some Q" and "po_answers Q i = None"
  shows "answers_with_consent p fp X touch hit (po_tasks P ! i) \<Longrightarrow>
      answers_with_consent p fp (X \<union> set_option (caller_context p (po_agent P)))
        (touch \<or> touched (po_agent P) (po_agent Q)) (hit \<or> live_grant_in X fp (po_agent P)) (po_tasks Q ! i)"
    (is "?A \<Longrightarrow> ?A'")
    and "grants_with_consent p g X touch (po_tasks P ! i) \<Longrightarrow>
      grants_with_consent p g (X \<union> set_option (caller_context p (po_agent P)))
        (touch \<or> touched (po_agent P) (po_agent Q)) (po_tasks Q ! i)"
    (is "?G \<Longrightarrow> ?G'")
proof -
  have "(?A \<longrightarrow> ?A') \<and> (?G \<longrightarrow> ?G')"
    using assms(1)
  proof (cases rule: move_cases)
    case (finish r)
    with assms(2) show ?thesis by simp
  qed (auto intro: answers_mono [of p fp X touch hit] grants_mono [of p g X touch])
  then show "?A \<Longrightarrow> ?A'" and "?G \<Longrightarrow> ?G'" by simp_all
qed

lemma entries_own:
  assumes "move i P = Some Q" and "grants_with_consent p g X touch (po_tasks P ! i)"
    and "ac_entries (ag_auth_cache (po_agent Q)) q = Some e"
  shows "ac_entries (ag_auth_cache (po_agent P)) q = Some e \<or> consented_entry g X touch (po_agent P) q e"
  using assms(1)
proof (cases rule: move_cases)
  case (run upd nxt)
  with assms(2) have "new_entries_allowed g X touch (po_agent P) (po_agent Q)" by simp
  with assms(3) show ?thesis unfolding new_entries_allowed_def by blast
qed (use assms(3) in simp_all)

text \<open>What holds in every state of a run from an agent with an empty cache.\<close>

definition consent_inv :: "crates \<Rightarrow> job list \<Rightarrow> pool \<Rightarrow> nat list \<Rightarrow> bool" where
  "consent_inv c js P sched \<longleftrightarrow>
     (\<forall>i < length js. po_answers (pool_run P sched) i = None \<longrightarrow>
        grants_with_consent (job_peer (js ! i)) (job_key c (js ! i)) (seen P sched i (job_peer (js ! i))) (felt P sched i)
          (po_tasks (pool_run P sched) ! i)) \<and>
     (\<forall>i fp d. i < length js \<longrightarrow> job_key c (js ! i) = Some (fp, d) \<longrightarrow> (case po_answers (pool_run P sched) i of
        None \<Rightarrow> answers_with_consent (job_peer (js ! i)) fp (seen P sched i (job_peer (js ! i))) (felt P sched i)
          (found P sched i (job_peer (js ! i)) fp) (po_tasks (pool_run P sched) ! i)
      | Some r \<Rightarrow> is_ok r \<longrightarrow> felt P sched i \<or> found P sched i (job_peer (js ! i)) fp)) \<and>
     (\<forall>ctx fp e. ac_entries (ag_auth_cache (po_agent (pool_run P sched))) (ctx, fp) = Some e \<longrightarrow>
        granted c js P sched ctx fp e)"

lemma consent_start:
  assumes "ac_entries (ag_auth_cache s) = Map.empty"
  shows "consent_inv c js (job_pool c s js) []"
proof -
  have e: "seen (job_pool c s js) [] i p = {}" "\<not> felt (job_pool c s js) [] i" "\<not> found (job_pool c s js) [] i p fp"
    for i p fp by (simp_all add: seen_def felt_def found_def own_step_def)
  have "answers_with_consent (job_peer j) fp {} False False (job_task c j)" if "job_key c j = Some (fp, d)" for j fp d
    using that answers_request by (cases j) auto
  with assms show ?thesis by (simp add: consent_inv_def e grants_job)
qed

lemma history_still:
  assumes "move j (pool_run P sched) = None"
  shows "seen P (sched @ [j]) i p = seen P sched i p" "felt P (sched @ [j]) i = felt P sched i"
    "found P (sched @ [j]) i p fp = found P sched i p fp" "pool_run P (sched @ [j]) = pool_run P sched"
  using assms by (auto simp: seen_snoc felt_snoc found_snoc nudge_def)

lemma history_other:
  assumes "j \<noteq> i"
  shows "seen P (sched @ [j]) i p = seen P sched i p" "felt P (sched @ [j]) i = felt P sched i"
    "found P (sched @ [j]) i p fp = found P sched i p fp"
  using assms by (auto simp: seen_snoc felt_snoc found_snoc)

lemma history_own:
  assumes "move j (pool_run P sched) = Some Q"
  shows "seen P (sched @ [j]) j p = seen P sched j p \<union> set_option (caller_context p (po_agent (pool_run P sched)))"
    "felt P (sched @ [j]) j = (felt P sched j \<or> touched (po_agent (pool_run P sched)) (po_agent Q))"
    "found P (sched @ [j]) j p fp = (found P sched j p fp \<or> live_grant_in (seen P sched j p) fp (po_agent (pool_run P sched)))"
    "pool_run P (sched @ [j]) = Q"
  using assms by (simp_all add: seen_snoc felt_snoc found_snoc nudge_def)

lemma answered_own:
  assumes "move i P = Some Q" and "po_answers Q i = Some r"
  shows "po_tasks P ! i = Done r" and "po_answers P i = None"
proof -
  show n: "po_answers P i = None" using assms(1) by (auto simp: move_def split: if_splits)
  show "po_tasks P ! i = Done r" using answering_move [OF assms(1) n assms(2)] by simp
qed

lemma consent_step:
  assumes inv: "consent_inv c js P sched" and len: "length (po_tasks (pool_run P sched)) = length js"
  shows "consent_inv c js P (sched @ [j])"
proof (cases "move j (pool_run P sched)")
  case None
  have "granted c js P (sched @ [j]) ctx fp e" if "granted c js P sched ctx fp e" for ctx fp e
    using that by (rule granted_later)
  with inv show ?thesis unfolding consent_inv_def history_still [OF None] by blast
next
  case (Some Q)
  note own = history_own [OF Some] and others = others_step [OF Some]
  have j: "j < length js" using move_stage(1) [OF Some] len by simp
  have unanswered: "po_answers (pool_run P sched) j = None" using Some by (auto simp: move_def split: if_splits)
  let ?p = "\<lambda>i. job_peer (js ! i)"
  have g: "grants_with_consent (?p i) (job_key c (js ! i)) (seen P sched i (?p i)) (felt P sched i) (po_tasks (pool_run P sched) ! i)"
    if "i < length js" "po_answers (pool_run P sched) i = None" for i
    using inv that by (simp add: consent_inv_def)
  have a: "case po_answers (pool_run P sched) i of
        None \<Rightarrow> answers_with_consent (?p i) fp (seen P sched i (?p i)) (felt P sched i) (found P sched i (?p i) fp)
          (po_tasks (pool_run P sched) ! i)
      | Some r \<Rightarrow> is_ok r \<longrightarrow> felt P sched i \<or> found P sched i (?p i) fp"
    if "i < length js" "job_key c (js ! i) = Some (fp, d)" for i fp d
    using inv that by (simp add: consent_inv_def)
  have G: "grants_with_consent (?p i) (job_key c (js ! i)) (seen P (sched @ [j]) i (?p i)) (felt P (sched @ [j]) i) (po_tasks Q ! i)"
    if i: "i < length js" "po_answers Q i = None" for i
  proof (cases "i = j")
    case True
    show ?thesis unfolding True own by (rule consent_own(2) [OF Some]) (use True i g [of j] j unanswered in simp_all)
  next
    case False
    with i g [of i] others [of i] show ?thesis by (simp add: history_other)
  qed
  have A: "case po_answers Q i of
        None \<Rightarrow> answers_with_consent (?p i) fp (seen P (sched @ [j]) i (?p i)) (felt P (sched @ [j]) i)
          (found P (sched @ [j]) i (?p i) fp) (po_tasks Q ! i)
      | Some r \<Rightarrow> is_ok r \<longrightarrow> felt P (sched @ [j]) i \<or> found P (sched @ [j]) i (?p i) fp"
    if i: "i < length js" "job_key c (js ! i) = Some (fp, d)" for i fp d
  proof (cases "i = j")
    case True
    have before: "answers_with_consent (?p j) fp (seen P sched j (?p j)) (felt P sched j) (found P sched j (?p j) fp)
        (po_tasks (pool_run P sched) ! j)"
      using a [OF i] True unanswered by simp
    show ?thesis
    proof (cases "po_answers Q j")
      case None
      with consent_own(1) [OF Some None before] show ?thesis unfolding True own by simp
    next
      case (Some r)
      with answered_own(1) [OF \<open>move j (pool_run P sched) = Some Q\<close> Some] before show ?thesis
        unfolding True own by auto
    qed
  next
    case False
    with a [OF i] others [of i] show ?thesis by (simp add: history_other split: option.splits)
  qed
  have E: "granted c js P (sched @ [j]) ctx fp e" if e: "ac_entries (ag_auth_cache (po_agent Q)) (ctx, fp) = Some e" for ctx fp e
  proof (cases "ac_entries (ag_auth_cache (po_agent (pool_run P sched))) (ctx, fp) = Some e")
    case True
    with inv granted_later show ?thesis by (simp add: consent_inv_def)
  next
    case False
    with entries_own [OF Some g [OF j unanswered] e]
    have ce: "consented_entry (job_key c (js ! j)) (seen P sched j (?p j)) (felt P sched j) (po_agent (pool_run P sched)) (ctx, fp) e"
      by blast
    then obtain d where "job_key c (js ! j) = Some (fp, d)" "felt P sched j" "ctx \<in> seen P sched j (?p j)"
      "e = agent_now (po_agent (pool_run P sched)) + cache_ttl (ag_auth_cache (po_agent (pool_run P sched))) d"
      by (auto simp: consented_entry_def)
    then show ?thesis
      unfolding granted_def
      by (intro exI [of _ "length sched"] exI [of _ j] exI [of _ d])
        (simp add: own_step_snoc at_step_snoc j Some)
  qed
  show ?thesis
    unfolding consent_inv_def own(4) using G A E by blast
qed

lemma consent_run:
  assumes "ac_entries (ag_auth_cache s) = Map.empty"
  shows "consent_inv c js (job_pool c s js) sched"
  by (induction sched rule: rev_induct)
    (use assms in \<open>simp_all add: consent_start consent_step\<close>)

lemma consent_answered:
  assumes "consent_inv c js P sched" and "i < length js" and "job_key c (js ! i) = Some (fp, d)"
    and "po_answers (pool_run P sched) i = Some r" and "is_ok r"
  shows "felt P sched i \<or> found P sched i (job_peer (js ! i)) fp"
  using assms(1) [unfolded consent_inv_def, THEN conjunct2, THEN conjunct1, rule_format, OF assms(2,3)] assms(4,5)
  by simp

text \<open>
  C10. Consent survives any overlap of requests.  Whenever a signature or a decryption is answered, in any
  schedule, the key was touched at a step of that very task; or a step of it found a live grant for
  the context its caller had at an earlier step, and that grant had been written by a task for the same key after a
  touch of its own, for the context of its own caller, and was within the configured duration of that writing.
\<close>

theorem uses_covered_in_any_schedule:
  assumes "ac_entries (ag_auth_cache s) = Map.empty" and "i < length js" and "js ! i = Handle p r"
    and "grant_key c r = Some (fp, d)" and "P = job_pool c s js"
    and "po_answers (pool_run P sched) i = Some (Ok x)"
  shows "felt P sched i \<or> (\<exists>n ctx e. own_step P sched i n \<and> ctx \<in> seen P (take n sched) i p \<and>
    granted c js P (take n sched) ctx fp e \<and> agent_now (po_agent (at_step P sched n)) < e)"
proof -
  have inv: "consent_inv c js P as" for as using consent_run [OF assms(1)] by (simp add: assms(5))
  have "felt P sched i \<or> found P sched i p fp"
    using consent_answered [OF inv assms(2) _ assms(6), of fp d] assms(3,4) by simp
  then show ?thesis
  proof
    assume "found P sched i p fp"
    then obtain n ctx where n: "own_step P sched i n" "ctx \<in> seen P (take n sched) i p"
      "is_authorized (agent_now (po_agent (at_step P sched n))) (ag_auth_cache (po_agent (at_step P sched n))) ctx fp"
      by (auto simp: found_def live_grant_in_def)
    then obtain e where e: "ac_entries (ag_auth_cache (po_agent (at_step P sched n))) (ctx, fp) = Some e"
      "agent_now (po_agent (at_step P sched n)) < e"
      by (auto simp: is_authorized_def split: option.splits)
    have "granted c js P (take n sched) ctx fp e"
      using inv [of "take n sched"] e(1) by (simp add: consent_inv_def at_step_def)
    with n e(2) show ?thesis by blast
  qed simp
qed

theorem uses_covered_in_any_schedule_witness:
  "\<exists>sched sg. let P = job_pool demo_crates demo_agent [Handle None (ReqSign demo_sign_request), Handle None (ReqLock ''a'')] in
     po_answers (pool_run P sched) 0 = Some (Ok (SignReply sg)) \<and> felt P sched 0"
proof -
  let ?js = "[Handle None (ReqSign demo_sign_request), Handle None (ReqLock ''a'')]"
  let ?P = "job_pool demo_crates demo_agent ?js"
  obtain sg t where "sign_op demo_crates None demo_sign_request demo_agent = (Ok sg, t)"
    using demo_sign by blast
  then have "job_atomic demo_crates (?js ! 0) demo_agent = (Ok (SignReply sg), t)"
    by (simp add: replies_def io_bind_eval)
  then obtain n where n: "pool_run ?P (replicate n 0) = finished 0 (Ok (SignReply sg), t) ?P"
    using first_turn [of 0 ?js demo_agent demo_crates] by auto
  have a: "po_answers (pool_run ?P (replicate n 0)) 0 = Some (Ok (SignReply sg))" unfolding n by simp
  have "ac_entries (ag_auth_cache demo_agent) = Map.empty" using demo_fresh by (simp add: fresh_agent_def)
  from uses_covered_in_any_schedule [OF this _ _ _ refl a]
  have "felt ?P (replicate n 0) 0 \<or> (\<exists>n' ctx. ctx \<in> seen ?P (take n' (replicate n 0)) 0 None)"
    by fastforce
  moreover have "seen P sched i None = {}" for P sched i
    by (auto simp: seen_def caller_context_def context_id_def split: auth_cache_mode.splits)
  ultimately show ?thesis using a unfolding Let_def by blast
qed

end
