(* ===== verification/Vt_No_Panic.thy ===== *)
theory Vt_No_Panic
  imports Vt_Consent
begin

text \<open>
  Operations that cannot panic: the compositional rules, and the operations of \<open>yk_backend.rs\<close> and
  \<open>security.rs\<close> the commands are made of.  \<open>inert\<close> is the frame of an operation that changes no
  file and prints nothing, the first phase of every key management command.
\<close>

named_theorems safe_intros \<open>operations that never panic\<close>

definition safe :: "('s, 'a) io \<Rightarrow> bool" where
  "safe m \<longleftrightarrow> (\<forall>s p. fst (m s) \<noteq> Panic p)"

lemma safeD: "safe m \<Longrightarrow> m s = (r, t) \<Longrightarrow> r \<noteq> Panic p"
  by (metis safe_def fst_conv)

lemma safeI: "(\<And>s p t. m s \<noteq> (Panic p, t)) \<Longrightarrow> safe m"
  by (metis safe_def prod.collapse)

lemma safe_combinators [safe_intros]:
  "safe (io_ret x)" "safe (io_fail e)" "safe (io_get g)" "safe (io_upd h)"
  "safe (io_of (of_sum f r))" "safe (io_of (ensure b e))" "safe (io_of (aes_new k))"
  "safe (io_of (aes_decrypt c a d))"
  by (simp_all add: safe_def ensure_def aes_new_def aes_decrypt_no_panic)

lemma safe_bind [safe_intros]: "safe m \<Longrightarrow> (\<And>x. safe (f x)) \<Longrightarrow> safe (io_bind m f)"
  by (rule safeI) (auto simp: io_bind_def split: prod.splits outcome.splits dest: safeD)

text \<open>When the rest is safe only on the results the first part can have.\<close>

lemma safe_bind_run:
  assumes "safe m" and "\<And>x s t. m s = (Ok x, t) \<Longrightarrow> safe (f x)"
  shows "safe (io_bind m f)"
proof (rule safeI)
  fix s p t
  show "io_bind m f s \<noteq> (Panic p, t)"
  proof
    assume "io_bind m f s = (Panic p, t)"
    then consider "m s = (Panic p, t)" | x u where "m s = (Ok x, u)" and "f x u = (Panic p, t)"
      by (auto simp: io_bind_def split: prod.splits outcome.splits)
    then show False
      using safeD [OF assms(1)] safeD [OF assms(2)] by cases blast+
  qed
qed

lemma safe_wrappers [safe_intros]:
  "safe m \<Longrightarrow> safe (io_attempt m)" "safe m \<Longrightarrow> safe (io_or d m)"
  "safe m \<Longrightarrow> safe (io_map_err h m)" "safe m \<Longrightarrow> safe (io_context msg m)"
  "safe m \<Longrightarrow> safe n' \<Longrightarrow> safe (io_seq m n')"
proof -
  assume m: "safe m"
  then have np: "m s \<noteq> (Panic p, t)" for s p t by (auto dest: safeD)
  show "safe (io_attempt m)" "safe (io_or d m)" "safe (io_map_err h m)" "safe (io_context msg m)"
    using np by (auto intro!: safeI
        simp: io_attempt_def io_or_def io_map_err_def io_context_def split: prod.splits outcome.splits)
  show "safe n' \<Longrightarrow> safe (io_seq m n')"
    using m by (simp add: io_seq_def safe_bind)
qed

lemma safe_when [safe_intros]: "safe m \<Longrightarrow> safe (io_when b m)"
  by (cases b) (simp_all add: safe_combinators)

lemma safe_cases [safe_intros]:
  "safe m \<Longrightarrow> safe n' \<Longrightarrow> safe (if b then m else n')"
  "safe m \<Longrightarrow> (\<And>x. safe (f x)) \<Longrightarrow> safe (case_option m f v)"
  "(\<And>x. safe (f x)) \<Longrightarrow> safe (Let y f)"
  by (auto split: option.split)

lemma safe_mapM [safe_intros]: "(\<And>x. safe (f x)) \<Longrightarrow> safe (io_mapM f xs)"
  by (induction xs) (auto intro: safe_combinators safe_bind)

lemma safe_prims [safe_intros]:
  "safe home_dir" "safe (fs_exists p)" "safe (fs_read p)" "safe (fs_write p bs)"
  "safe (create_dir_all p)" "safe (println s)" "safe (print_str s)" "safe (fill_bytes n')"
  "safe (ephemeral_secret c)" "safe (prompt_password q)" "safe (dev_call ev f)" "safe read_stdin"
  "safe read_stdin_line" "safe (notify_touch m)" "safe (fs_remove p)"
  by (auto intro!: safeI simp: fs_defs fs_remove_def notify_touch_def prompt_password_def ephemeral_secret_def
      dev_call_def Let_def read_stdin_def read_stdin_line_def utf8_or_fail_def
      split: if_splits option.splits write_fault.splits list.splits sum.splits prod.splits)

lemma safe_fs_read_to_string [safe_intros]: "safe (fs_read_to_string p)"
  unfolding fs_read_to_string_def by (intro safe_intros)

lemma safe_aes [safe_intros]: "safe (aes_encrypt c a p)"
  by (simp add: safe_def aes_encrypt_no_panic)

lemma safe_config [safe_intros]: "safe (load_config c)"
  unfolding load_config_def path_defs by (intro safe_intros)

lemma safe_ecies [safe_intros]: "safe (ecies_decrypt c e)" "safe (read_ecies_file c p)"
  unfolding ecies_decrypt_def read_ecies_file_def yk_prim_defs aes_init_def by (intro safe_intros)+

lemma safe_backend [safe_intros]:
  "safe (open_and_verify_pin c)" "safe (load_passphrase c)" "safe (load_auth_token c)"
  "safe (load_ssh_keys_from_file c a)" "safe (save_ssh_keys_to_file c a es)"
  unfolding open_and_verify_pin_def load_passphrase_def load_auth_token_def
    load_ssh_keys_from_file_def save_ssh_keys_to_file_def path_defs ensure_dir_def yk_prim_defs
  by (intro safe_intros)+

section \<open>Operations that leave no trace\<close>

definition inert :: "world \<Rightarrow> world \<Rightarrow> bool" where
  "inert w v \<longleftrightarrow> home v = home w \<and> read_err v = read_err w \<and> files v = files w
     \<and> dirs v = dirs w \<and> stdout v = stdout w"

interpretation inert: frame_rel inert
  by unfold_locales (auto simp: inert_def)

lemmas inert_frame [frame_intros] = inert.all

lemma inert_prims [frame_intros]:
  "within inert home_dir" "within inert (fs_exists p)" "within inert (fs_read p)"
  "within inert (fill_bytes n')" "within inert (ephemeral_secret c)" "within inert (prompt_password q)"
  "within inert (dev_call ev f)" "within inert read_stdin" "within inert read_stdin_line"
  "within inert (notify_touch m)"
  by (auto simp: within_def inert_def fs_defs notify_touch_def prompt_password_def ephemeral_secret_def dev_call_def
      read_stdin_def read_stdin_line_def Let_def split: option.splits list.splits sum.splits prod.splits)

lemma inert_read_to_string [frame_intros]: "within inert (fs_read_to_string p)"
  unfolding fs_read_to_string_def by (intro frame_intros)

lemma inert_backend [frame_intros]:
  "within inert (open_and_verify_pin c)" "within inert (load_passphrase c)"
  "within inert (load_auth_token c)" "within inert (load_ssh_keys_from_file c a)"
  unfolding open_and_verify_pin_def load_passphrase_def load_auth_token_def load_config_def
    load_ssh_keys_from_file_def path_defs read_ecies_file_def ecies_decrypt_def yk_prim_defs
  by (intro frame_intros)+

text \<open>What the store of keys holds depends on the files and directories only.\<close>

lemma ssh_content_cong:
  assumes "home v = home w" "read_err v = read_err w" "files v = files w" "dirs v = dirs w"
  shows "fst (load_ssh_keys_from_file c a v) = fst (load_ssh_keys_from_file c a w)"
proof (cases "home w")
  case None
  with assms(1) show ?thesis
    by (simp add: load_ssh_keys_from_file_def io_eval_defs path_defs home_dir_def)
next
  case (Some h)
  with assms show ?thesis
    by (simp add: load_ssh_keys_eval [of v h] load_ssh_keys_eval [of w h])
qed

lemma inert_content:
  "inert w v \<Longrightarrow> fst (load_ssh_keys_from_file c a v) = fst (load_ssh_keys_from_file c a w)"
  by (rule ssh_content_cong) (simp_all add: inert_def)

lemma inert_readable: "inert w v \<Longrightarrow> keys_readable v \<longleftrightarrow> keys_readable w"
  by (simp add: inert_def keys_readable_def)

end
