(* ===== verification/Vt_Ssh_Cli.thy ===== *)
theory Vt_Ssh_Cli
  imports Vt_No_Panic
begin

text \<open>
  \<open>src/ssh_cli.rs\<close>: the key management commands \<open>vt-yubi ssh add\<close>, \<open>list\<close>, \<open>remove\<close>,
  \<open>remove-all\<close>, \<open>comment\<close> and \<open>show\<close>, and their dispatch in \<open>src/main.rs\<close>.  Each first opens
  the YubiKey, verifies the PIN and decrypts the passphrase, which takes a touch, and then works on
  the encrypted store of \<open>Vt_Key_Store\<close>.
\<close>

section \<open>The commands\<close>

definition open_and_load_cipher :: "crates \<Rightarrow> string \<Rightarrow> aes_gcm_crypto wio" where
  "open_and_load_cipher c reason =
     io_bind (open_and_verify_pin c) (\<lambda>_.
     io_bind (load_passphrase c) (\<lambda>passphrase.
     io_of (aes_new passphrase)))"

definition read_key_text :: "string option \<Rightarrow> string wio" where
  "read_key_text file =
     (case file of
        Some path \<Rightarrow> io_context (''Failed to read '' @ path) (fs_read_to_string path)
      | None \<Rightarrow> io_bind read_stdin (\<lambda>buf. io_ret (trim buf)))"

definition is_encrypted :: "private_key \<Rightarrow> bool" where
  "is_encrypted k = (case pk_key_data k of EncryptedKey _ \<Rightarrow> True | _ \<Rightarrow> False)"

text \<open>\<open>from_openssh\<close>, and the passphrase when the key is encrypted.\<close>

definition parse_key :: "crates \<Rightarrow> string \<Rightarrow> private_key wio" where
  "parse_key c key_data =
     io_bind (io_context ''Failed to parse SSH private key''
               (io_of (of_sum Msg (openssh_parse c (as_bytes key_data))))) (\<lambda>privkey.
     if is_encrypted privkey then
       io_bind (io_context ''Failed to read passphrase'' (prompt_password ''Enter key passphrase: ''))
         (\<lambda>passphrase.
       io_context ''Failed to decrypt key (wrong passphrase?)''
         (io_of (of_sum Msg (openssh_decrypt c privkey (as_bytes passphrase)))))
     else io_ret privkey)"

definition only_p256_p384 :: string where
  "only_p256_p384 = ''Only ECDSA P-256 and P-384 keys are supported. Got: ''"

definition check_curve :: "crates \<Rightarrow> private_key \<Rightarrow> unit outcome" where
  "check_curve c privkey =
     (case pk_key_data privkey of
        Ecdsa NistP256 _ _ \<Rightarrow> Ok ()
      | Ecdsa NistP384 _ _ \<Rightarrow> Ok ()
      | Ecdsa NistP521 _ _ \<Rightarrow> Err (Msg (only_p256_p384 @ ''NistP521''))
      | _ \<Rightarrow> Err (Msg (only_p256_p384 @ key_algorithm c privkey)))"

definition key_comment :: "string option \<Rightarrow> bool \<Rightarrow> private_key \<Rightarrow> string wio" where
  "key_comment comment interactive privkey =
     (case comment of
        Some cm \<Rightarrow> io_ret cm
      | None \<Rightarrow>
          if interactive then
            io_bind (io_get tty_line) (\<lambda>l. case l of
              Some input \<Rightarrow>
                if trim input \<noteq> [] then io_ret (trim input) else io_ret (pk_comment privkey)
            | None \<Rightarrow> io_ret (pk_comment privkey))
          else io_ret (pk_comment privkey))"

definition ssh_add :: "crates \<Rightarrow> string option \<Rightarrow> string option \<Rightarrow> unit wio" where
  "ssh_add c file comment =
     io_bind (open_and_load_cipher c ''add SSH key'') (\<lambda>mac_cipher.
     io_bind (read_key_text file) (\<lambda>key_data.
     io_bind (parse_key c key_data) (\<lambda>parsed.
     io_seq (io_of (check_curve c parsed)) (
     io_bind (key_comment comment (file = None) parsed) (\<lambda>comment.
     io_bind (io_context ''Failed to set comment on key''
               (io_of (of_sum Msg (private_key_new c (pk_key_data parsed) comment)))) (\<lambda>privkey.
     let fp_str = fingerprint_sha256 c (public_key_data c privkey);
         algorithm = key_algorithm c privkey in
     io_bind (io_context ''Failed to serialize key'' (io_of (of_sum Msg (openssh_print c privkey))))
       (\<lambda>key_openssh.
     io_bind (load_ssh_keys_from_file c mac_cipher) (\<lambda>entries.
     io_seq (io_when (\<not> (\<exists>e \<in> set entries. ke_fingerprint e = fp_str))
               (save_ssh_keys_to_file c mac_cipher (entries @
                  [\<lparr>ke_fingerprint = fp_str, ke_algorithm = algorithm, ke_comment = comment,
                    ke_key_data = key_openssh\<rparr>])))
       (println (''Added: '' @ algorithm @ '' '' @ fp_str @ '' '' @ comment))))))))))"

definition entry_line :: "ssh_key_entry \<Rightarrow> string" where
  "entry_line e = ke_algorithm e @ '' '' @ ke_fingerprint e @ '' '' @ ke_comment e"

definition pubkey_line :: "crates \<Rightarrow> ssh_key_entry \<Rightarrow> string" where
  "pubkey_line c e =
     (case openssh_parse c (as_bytes (ke_key_data e)) of
        Inl _ \<Rightarrow> []
      | Inr pk \<Rightarrow> (case public_openssh c pk of Inl _ \<Rightarrow> [] | Inr s \<Rightarrow> s))"

definition print_lines :: "string list \<Rightarrow> unit wio" where
  "print_lines ls = io_seq (io_mapM println ls) (io_ret ())"

definition ssh_list :: "crates \<Rightarrow> unit wio" where
  "ssh_list c =
     io_bind (open_and_load_cipher c ''list SSH keys'') (\<lambda>mac_cipher.
     io_bind (load_ssh_keys_from_file c mac_cipher) (\<lambda>entries.
     if entries = [] then println ''No SSH keys stored.''
     else print_lines (map (\<lambda>e. entry_line e @ [CHR 0x0A] @ ''  '' @ pubkey_line c e) entries)))"

text \<open>The entry a fingerprint (any part of it) selects: the same steps in three commands.\<close>

definition unique_match :: "string \<Rightarrow> ssh_key_entry list \<Rightarrow> ssh_key_entry wio" where
  "unique_match fingerprint entries =
     (let matches = filter (\<lambda>e. contains (ke_fingerprint e) fingerprint) entries in
      case matches of
        [] \<Rightarrow> io_fail (Msg (''No key found matching '' @ [CHR 0x27] @ fingerprint @ [CHR 0x27]))
      | [e] \<Rightarrow> io_ret e
      | _ \<Rightarrow>
          io_seq (println (''Multiple keys match '' @ [CHR 0x27] @ fingerprint @ [CHR 0x27] @ '':'')) (
          io_seq (print_lines (map (\<lambda>m. ''  '' @ entry_line m) matches)) (
          io_fail (Msg ''Ambiguous fingerprint, please be more specific''))))"

definition ssh_remove :: "crates \<Rightarrow> string \<Rightarrow> unit wio" where
  "ssh_remove c fingerprint =
     io_bind (open_and_load_cipher c ''remove SSH key'') (\<lambda>mac_cipher.
     io_bind (load_ssh_keys_from_file c mac_cipher) (\<lambda>entries.
     io_bind (unique_match fingerprint entries) (\<lambda>entry.
     io_seq (save_ssh_keys_to_file c mac_cipher
               (filter (\<lambda>e. ke_fingerprint e \<noteq> ke_fingerprint entry) entries))
       (println (''Removed: '' @ entry_line entry)))))"

definition ssh_remove_all :: "crates \<Rightarrow> unit wio" where
  "ssh_remove_all c =
     io_bind (open_and_load_cipher c ''remove all SSH keys'') (\<lambda>mac_cipher.
     io_seq (save_ssh_keys_to_file c mac_cipher [])
       (println ''Removed all SSH keys.''))"

text \<open>\<open>iter_mut().find\<close>: the first entry with the fingerprint is the one changed.\<close>

fun update_first :: "('a \<Rightarrow> bool) \<Rightarrow> ('a \<Rightarrow> 'a) \<Rightarrow> 'a list \<Rightarrow> 'a list" where
  "update_first P f [] = []"
| "update_first P f (x # xs) = (if P x then f x # xs else x # update_first P f xs)"

definition ssh_comment :: "crates \<Rightarrow> string \<Rightarrow> string \<Rightarrow> unit wio" where
  "ssh_comment c fingerprint comment =
     io_bind (open_and_load_cipher c ''change SSH key comment'') (\<lambda>mac_cipher.
     io_bind (load_ssh_keys_from_file c mac_cipher) (\<lambda>entries.
     io_bind (unique_match fingerprint entries) (\<lambda>m.
     io_bind (case find (\<lambda>e. ke_fingerprint e = ke_fingerprint m) entries of
               Some e \<Rightarrow> io_ret e
             | None \<Rightarrow> io_of (Panic ''called `Option::unwrap()` on a `None` value'')) (\<lambda>entry.
     io_bind (io_context ''Failed to parse stored key''
               (io_of (of_sum Msg (openssh_parse c (as_bytes (ke_key_data entry)))))) (\<lambda>parsed.
     io_bind (io_context ''Failed to set comment on key''
               (io_of (of_sum Msg (private_key_new c (pk_key_data parsed) comment)))) (\<lambda>privkey.
     io_bind (io_context ''Failed to serialize key'' (io_of (of_sum Msg (openssh_print c privkey))))
       (\<lambda>key_openssh.
     io_seq (save_ssh_keys_to_file c mac_cipher
               (update_first (\<lambda>e. ke_fingerprint e = ke_fingerprint m)
                  (\<lambda>e. e\<lparr>ke_comment := comment, ke_key_data := key_openssh\<rparr>) entries))
       (println (''Updated: '' @ ke_algorithm m @ '' '' @ ke_fingerprint m @ '' '' @ comment)))))))))"

definition ssh_show :: "crates \<Rightarrow> string \<Rightarrow> unit wio" where
  "ssh_show c fingerprint =
     io_bind (open_and_load_cipher c ''show SSH public key'') (\<lambda>mac_cipher.
     io_bind (load_ssh_keys_from_file c mac_cipher) (\<lambda>entries.
     io_bind (unique_match fingerprint entries) (\<lambda>entry.
     io_bind (io_context ''Failed to parse stored key''
               (io_of (of_sum Msg (openssh_parse c (as_bytes (ke_key_data entry)))))) (\<lambda>privkey.
     io_bind (io_context ''Failed to serialize public key''
               (io_of (of_sum Msg (public_openssh c privkey)))) (\<lambda>pubkey_str.
     println pubkey_str)))))"

text \<open>The subcommands of \<open>vt-yubi ssh\<close> but \<open>agent\<close>, and what \<open>run\<close> calls for each.\<close>

datatype ssh_command =
    SshAdd "string option" "string option"
  | SshList
  | SshRemove string
  | SshRemoveAll
  | SshComment string string
  | SshShow string

fun run_ssh :: "crates \<Rightarrow> ssh_command \<Rightarrow> unit wio" where
  "run_ssh c (SshAdd file comment) = ssh_add c file comment"
| "run_ssh c SshList = ssh_list c"
| "run_ssh c (SshRemove fingerprint) = ssh_remove c fingerprint"
| "run_ssh c SshRemoveAll = ssh_remove_all c"
| "run_ssh c (SshComment fingerprint comment) = ssh_comment c fingerprint comment"
| "run_ssh c (SshShow fingerprint) = ssh_show c fingerprint"


section \<open>The gate: PIN and touch first\<close>

definition pin_and_touch :: "yk_event list" where
  "pin_and_touch = [YkOpen True, YkPin True, YkEcdh True]"

lemma ssh_cipher_frames [frame_intros]:
  "within inert (open_and_load_cipher c reason)" "within same_env (open_and_load_cipher c reason)"
  unfolding open_and_load_cipher_def by (intro frame_intros)+

lemma safe_ssh_cipher [safe_intros]: "safe (open_and_load_cipher c reason)"
  unfolding open_and_load_cipher_def by (intro safe_intros)

lemma dev_call_log:
  "dev_call ev f w = (Ok x, v) \<Longrightarrow> yk_log v = yk_log w @ [ev True]"
  by (auto simp: dev_call_def Let_def split: sum.splits)

lemma open_and_load_cipher_log:
  assumes "open_and_load_cipher c reason w = (Ok a, v)"
  shows "yk_log v = yk_log w @ pin_and_touch"
proof -
  from assms obtain cfg w1 w2 raw w3 w4 w5 enc w6 p w7 u where
    1: "load_config c w = (Ok cfg, w1)" and 2: "yk_open w1 = (Ok (), w2)"
    and 3: "prompt_password ''YubiKey PIN: '' w2 = (Ok raw, w3)"
    and 4: "yk_verify_pin (as_bytes (trim raw)) w3 = (Ok (), w4)"
    and 5: "passphrase_path w4 = (Ok p, w5)" and 6: "read_ecies_file c p w5 = (Ok enc, w6)"
    and 7: "ecies_decrypt c enc w6 = (Ok u, w7)" and v: "v = w7"
    by (auto simp: open_and_load_cipher_def open_and_verify_pin_def load_passphrase_def
        io_bind_eq_Ok Let_def)
  have "within same_device (load_config c)" "within same_device passphrase_path"
    "within same_device (read_ecies_file c p)"
    unfolding load_config_def read_ecies_file_def path_defs fs_read_to_string_def
    by (intro frame_intros)+
  then have "yk_log w1 = yk_log w" "yk_log w3 = yk_log w2" "yk_log w5 = yk_log w4" "yk_log w6 = yk_log w5"
    using 1 3 5 6 by (auto dest!: withinD intro: frame_intros
        simp: same_device_def dest: withinD [OF same_device_prims(11)])
  moreover have "yk_log w2 = yk_log w1 @ [YkOpen True]" "yk_log w4 = yk_log w3 @ [YkPin True]"
    using 2 4 unfolding yk_open_def yk_verify_pin_def by (auto dest: dev_call_log)
  moreover have "yk_log w7 = yk_log w6 @ [YkEcdh True]"
    using ecies_decrypt_log [OF 7] by simp
  ultimately show ?thesis by (simp add: v pin_and_touch_def)
qed

text \<open>What follows the gate in each command uses the device no more.\<close>

lemma print_lines_frame [frame_intros]:
  "within same_env (print_lines ls)" "within same_device (print_lines ls)" "within same_files (print_lines ls)"
  unfolding print_lines_def by (intro frame_intros)+

lemma safe_print_lines [safe_intros]: "safe (print_lines ls)"
  unfolding print_lines_def by (intro safe_intros)

lemma same_device_read_to_string [frame_intros]: "within same_device (fs_read_to_string p)"
  unfolding fs_read_to_string_def by (intro frame_intros)

lemma unique_match_frame [frame_intros]:
  "within same_env (unique_match fp es)" "within same_device (unique_match fp es)"
  "within same_files (unique_match fp es)"
  unfolding unique_match_def Let_def by (auto split: list.split intro!: frame_intros)

lemma safe_unique_match [safe_intros]: "safe (unique_match fp es)"
  unfolding unique_match_def Let_def by (auto split: list.split intro!: safe_intros)

lemma key_text_frames [frame_intros]:
  "within same_device (read_key_text file)" "within same_device (parse_key c s)"
  "within same_device (key_comment cm b k)"
  "within inert (read_key_text file)" "within inert (parse_key c s)" "within inert (key_comment cm b k)"
  "within same_env (read_key_text file)" "within same_env (parse_key c s)"
  "within same_env (key_comment cm b k)"
  unfolding read_key_text_def parse_key_def key_comment_def by (intro frame_intros)+

lemma safe_key_text [safe_intros]:
  "safe (read_key_text file)" "safe (parse_key c s)" "safe (key_comment cm b k)"
  "safe (io_of (check_curve c k))"
proof -
  show "safe (read_key_text file)" "safe (parse_key c s)" "safe (key_comment cm b k)"
    unfolding read_key_text_def parse_key_def key_comment_def by (intro safe_intros)+
  show "safe (io_of (check_curve c k))"
    by (simp add: safe_def check_curve_def split: keypair.split ecdsa_curve.split)
qed

text \<open>A command is its gate followed by the rest; this is the rest.\<close>

definition gated :: "crates \<Rightarrow> unit wio \<Rightarrow> bool" where
  "gated c m \<longleftrightarrow> (\<exists>reason f. m = io_bind (open_and_load_cipher c reason) f
     \<and> (\<forall>a. within same_device (f a) \<and> safe (f a)))"

lemma gatedI:
  "(\<And>a. within same_device (f a)) \<Longrightarrow> (\<And>a. safe (f a)) \<Longrightarrow>
     gated c (io_bind (open_and_load_cipher c reason) f)"
  unfolding gated_def by blast

lemma unique_match_find:
  "unique_match fp es w = (Ok m, v) \<Longrightarrow> v = w \<and> filter (\<lambda>e. contains (ke_fingerprint e) fp) es = [m]"
  by (auto simp: unique_match_def Let_def io_seq_def print_lines_def io_bind_eq_Ok
      split: list.splits)


lemma safe_comment_find [safe_intros]:
  assumes "\<And>m e. safe (k m e)"
  shows "safe (io_bind (unique_match fp es) (\<lambda>m.
    io_bind (case find (\<lambda>e. ke_fingerprint e = ke_fingerprint m) es of
               Some e \<Rightarrow> io_ret e
             | None \<Rightarrow> io_of (Panic ''called `Option::unwrap()` on a `None` value'')) (k m)))"
proof (rule safe_bind_run)
  show "safe (unique_match fp es)" by (rule safe_intros)
next
  fix m s t
  assume "unique_match fp es s = (Ok m, t)"
  then have "filter (\<lambda>e. contains (ke_fingerprint e) fp) es = [m]"
    by (simp add: unique_match_find)
  then have "m \<in> set es" by (metis filter_is_subset list.set_intros(1) subsetD)
  then obtain e where "find (\<lambda>e. ke_fingerprint e = ke_fingerprint m) es = Some e"
    using find_None_iff [of "\<lambda>e. ke_fingerprint e = ke_fingerprint m" es] by auto
  then show "safe (io_bind (case find (\<lambda>e. ke_fingerprint e = ke_fingerprint m) es of
               Some e \<Rightarrow> io_ret e
             | None \<Rightarrow> io_of (Panic ''called `Option::unwrap()` on a `None` value'')) (k m))"
    using assms by (simp add: io_bind_ret)
qed

lemma gated_ssh: "gated c (run_ssh c cmd)"
proof (cases cmd)
  case (SshAdd fl comment)
  then show ?thesis
    by (simp only: run_ssh.simps ssh_add_def Let_def)
      (intro gatedI frame_intros safe_intros)
next
  case SshList
  then show ?thesis
    by (simp only: run_ssh.simps ssh_list_def) (intro gatedI frame_intros safe_intros)
next
  case (SshRemove fp)
  then show ?thesis
    by (simp only: run_ssh.simps ssh_remove_def) (intro gatedI frame_intros safe_intros)
next
  case SshRemoveAll
  then show ?thesis
    by (simp only: run_ssh.simps ssh_remove_all_def) (intro gatedI frame_intros safe_intros)
next
  case (SshComment fp comment)
  show ?thesis
    unfolding SshComment run_ssh.simps ssh_comment_def
  proof (rule gatedI, goal_cases)
    case (1 a)
    show ?case by (intro frame_intros)
  next
    case (2 a)
    show ?case
      by (rule safe_bind [OF safe_backend(4)], rule safe_comment_find) (intro safe_intros)
  qed
next
  case (SshShow fp)
  then show ?thesis
    by (simp only: run_ssh.simps ssh_show_def) (intro gatedI frame_intros safe_intros)
qed

lemma gated_outcome:
  assumes "gated c m" and "m w = (r, v)"
  shows "(\<forall>p. r \<noteq> Panic p) \<and> (yk_log v = yk_log w @ pin_and_touch \<or> (r \<noteq> Ok () \<and> inert w v))"
proof -
  from assms(1) obtain reason f where m: "m = io_bind (open_and_load_cipher c reason) f"
    and f: "\<And>a. within same_device (f a)" "\<And>a. safe (f a)"
    by (auto simp: gated_def)
  obtain r1 u where u: "open_and_load_cipher c reason w = (r1, u)" by fastforce
  show ?thesis
  proof (cases r1)
    case (Ok a)
    with assms(2) m u have "f a u = (r, v)" by (simp add: io_bind_def)
    with open_and_load_cipher_log [of c reason w a u] u Ok withinD [OF f(1)] safeD [OF f(2)]
    show ?thesis by (auto simp: same_device_def)
  next
    case (Err e)
    with assms(2) m u withinD [OF ssh_cipher_frames(1) u] show ?thesis
      by (auto simp: io_bind_def)
  next
    case (Panic p)
    with safeD [OF safe_ssh_cipher u, of p] show ?thesis by simp
  qed
qed

section \<open>What the commands do to the store\<close>

text \<open>The entries as the cipher reads them.\<close>

definition key_entries :: "crates \<Rightarrow> aes_gcm_crypto \<Rightarrow> world \<Rightarrow> ssh_key_entry list outcome" where
  "key_entries c a w = fst (load_ssh_keys_from_file c a w)"

lemma key_entries_load: "load_ssh_keys_from_file c a w = (key_entries c a w, w)"
  by (metis key_entries_def load_ssh_keys_state prod.collapse)

lemma key_entries_println [simp]: "key_entries c a (w\<lparr>stdout := ls\<rparr>) = key_entries c a w"
  unfolding key_entries_def by (rule ssh_content_cong) simp_all

lemma key_entries_saved:
  "aead_ok c \<Longrightarrow> serde_ok (js_ssh_keys c) \<Longrightarrow> keys_readable w \<Longrightarrow>
     save_ssh_keys_to_file c a es w = (Ok (), v) \<Longrightarrow> key_entries c a v = Ok es"
  unfolding key_entries_def using ssh_store.load_after_save [of c w a es v] by simp

lemma key_entries_cipher:
  assumes "open_and_load_cipher c reason w = (Ok a, u)" and "keys_readable w"
  shows "key_entries c b u = key_entries c b w" and "keys_readable u"
  using withinD [OF ssh_cipher_frames(1) assms(1)] assms(2)
  by (simp_all add: key_entries_def inert_content inert_readable)

lemma not_matching_iff:
  assumes "filter P es = [m]" and that: "\<And>e. f e = f m \<Longrightarrow> P e"
  shows "filter (\<lambda>e. f e \<noteq> f m) es = filter (\<lambda>e. \<not> P e) es"
proof (rule filter_cong [OF refl])
  fix e assume "e \<in> set es"
  then have "P e \<Longrightarrow> e \<in> set (filter P es)" by simp
  then have "P e \<Longrightarrow> e = m" by (simp add: assms(1))
  then show "f e \<noteq> f m \<longleftrightarrow> \<not> P e" using that [of e] by auto
qed

lemma ssh_remove_effect:
  assumes "aead_ok c" and "serde_ok (js_ssh_keys c)" and "keys_readable w"
    and "ssh_remove c fp w = (Ok (), v)"
  shows "\<exists>a u es m. open_and_load_cipher c ''remove SSH key'' w = (Ok a, u) \<and>
    key_entries c a w = Ok es \<and> filter (\<lambda>e. contains (ke_fingerprint e) fp) es = [m] \<and>
    key_entries c a v = Ok (filter (\<lambda>e. \<not> contains (ke_fingerprint e) fp) es)"
proof -
  from assms(4) obtain a u es m x t where
    u: "open_and_load_cipher c ''remove SSH key'' w = (Ok a, u)"
    and es: "key_entries c a u = Ok es" and m: "unique_match fp es u = (Ok m, x)"
    and t: "save_ssh_keys_to_file c a (filter (\<lambda>e. ke_fingerprint e \<noteq> ke_fingerprint m) es) x = (Ok (), t)"
    and v: "v = t\<lparr>stdout := stdout t @ [''Removed: '' @ entry_line m @ [CHR 0x0A]]\<rparr>"
    by (auto simp: ssh_remove_def io_bind_eq_Ok key_entries_load)
  have x: "x = u" and one: "filter (\<lambda>e. contains (ke_fingerprint e) fp) es = [m]"
    using unique_match_find [OF m] by simp_all
  have "contains (ke_fingerprint m) fp" using one by (metis filter_eq_ConsD)
  then have "filter (\<lambda>e. ke_fingerprint e \<noteq> ke_fingerprint m) es =
      filter (\<lambda>e. \<not> contains (ke_fingerprint e) fp) es"
    by (intro not_matching_iff [OF one]) simp
  moreover have "key_entries c a v = Ok (filter (\<lambda>e. ke_fingerprint e \<noteq> ke_fingerprint m) es)"
    using key_entries_saved [OF assms(1,2) key_entries_cipher(2) [OF u assms(3)]] t x
    by (simp add: v)
  moreover have "key_entries c a w = Ok es"
    using es key_entries_cipher(1) [OF u assms(3)] by simp
  ultimately show ?thesis using u one by auto
qed

lemma update_first_unique:
  assumes "filter P es = [m]" and "\<And>e. f e = f m \<Longrightarrow> P e"
  shows "update_first (\<lambda>e. f e = f m) g es = map (\<lambda>e. if P e then g e else e) es"
  using assms
proof (induction es)
  case (Cons e es)
  show ?case
  proof (cases "P e")
    case True
    with Cons.prems have e: "e = m" and "filter P es = []" by simp_all
    then have "map (\<lambda>e. if P e then g e else e) es = es"
      by (intro map_idI) (auto simp: filter_empty_conv)
    then show ?thesis using True e by simp
  next
    case False
    then have "f e \<noteq> f m" using Cons.prems(2) by blast
    with False Cons show ?thesis by simp
  qed
qed simp


lemma find_unique:
  assumes "filter P es = [m]" and "\<And>e. f e = f m \<Longrightarrow> P e"
  shows "find (\<lambda>e. f e = f m) es = Some m"
  using assms
proof (induction es)
  case (Cons e es)
  then show ?case
  proof (cases "f e = f m")
    case True
    with Cons.prems show ?thesis by auto
  next
    case False
    with Cons show ?thesis by (auto split: if_splits)
  qed
qed simp

lemma ssh_comment_effect:
  assumes "aead_ok c" and "serde_ok (js_ssh_keys c)" and "keys_readable w"
    and "ssh_comment c fp comment w = (Ok (), v)"
  shows "\<exists>a u es m parsed k text'.
    open_and_load_cipher c ''change SSH key comment'' w = (Ok a, u) \<and>
    key_entries c a w = Ok es \<and> filter (\<lambda>e. contains (ke_fingerprint e) fp) es = [m] \<and>
    openssh_parse c (as_bytes (ke_key_data m)) = Inr parsed \<and>
    private_key_new c (pk_key_data parsed) comment = Inr k \<and> openssh_print c k = Inr text' \<and>
    key_entries c a v = Ok (map (\<lambda>e. if contains (ke_fingerprint e) fp
      then e\<lparr>ke_comment := comment, ke_key_data := text'\<rparr> else e) es)"
proof -
  from assms(4) obtain a u es m x where
    u: "open_and_load_cipher c ''change SSH key comment'' w = (Ok a, u)"
    and es: "key_entries c a u = Ok es" and m: "unique_match fp es u = (Ok m, x)"
    by (auto simp: ssh_comment_def io_bind_eq_Ok key_entries_load)
  have x: "x = u" and one: "filter (\<lambda>e. contains (ke_fingerprint e) fp) es = [m]"
    using unique_match_find [OF m] by simp_all
  then have "contains (ke_fingerprint m) fp" by (metis filter_eq_ConsD)
  then have same: "ke_fingerprint e = ke_fingerprint m \<Longrightarrow> contains (ke_fingerprint e) fp" for e by simp
  have found: "find (\<lambda>e. ke_fingerprint e = ke_fingerprint m) es = Some m"
    by (rule find_unique [OF one same])
  from assms(4) u es m x found obtain parsed k text' t line where
    p: "openssh_parse c (as_bytes (ke_key_data m)) = Inr parsed"
      "private_key_new c (pk_key_data parsed) comment = Inr k" "openssh_print c k = Inr text'"
    and t: "save_ssh_keys_to_file c a (update_first (\<lambda>e. ke_fingerprint e = ke_fingerprint m)
        (\<lambda>e. e\<lparr>ke_comment := comment, ke_key_data := text'\<rparr>) es) u = (Ok (), t)"
    and line: "println line t = (Ok (), v)"
    by (auto simp: ssh_comment_def io_bind_eq_Ok key_entries_load simp del: println_eval)
  have v: "\<exists>ls. v = t\<lparr>stdout := ls\<rparr>" using line by auto
  have "key_entries c a v = Ok (update_first (\<lambda>e. ke_fingerprint e = ke_fingerprint m)
        (\<lambda>e. e\<lparr>ke_comment := comment, ke_key_data := text'\<rparr>) es)"
    using key_entries_saved [OF assms(1,2) key_entries_cipher(2) [OF u assms(3)] t] v by auto
  then have "key_entries c a v = Ok (map (\<lambda>e. if contains (ke_fingerprint e) fp
      then e\<lparr>ke_comment := comment, ke_key_data := text'\<rparr> else e) es)"
    by (simp only: update_first_unique [OF one same])
  moreover have "key_entries c a w = Ok es"
    using es key_entries_cipher(1) [OF u assms(3)] by simp
  ultimately show ?thesis using u one p by blast
qed

lemma ssh_add_effect:
  assumes "aead_ok c" and "serde_ok (js_ssh_keys c)" and "keys_readable w"
    and "ssh_add c file comment w = (Ok (), v)"
  shows "\<exists>a u es e parsed k.
    open_and_load_cipher c ''add SSH key'' w = (Ok a, u) \<and> key_entries c a w = Ok es \<and>
    check_curve c parsed = Ok () \<and> private_key_new c (pk_key_data parsed) (ke_comment e) = Inr k \<and>
    (\<forall>cm. comment = Some cm \<longrightarrow> ke_comment e = cm) \<and>
    e = \<lparr>ke_fingerprint = fingerprint_sha256 c (public_key_data c k), ke_algorithm = key_algorithm c k,
         ke_comment = ke_comment e, ke_key_data = ke_key_data e\<rparr> \<and>
    openssh_print c k = Inr (ke_key_data e) \<and>
    key_entries c a v = Ok (if ke_fingerprint e \<in> ke_fingerprint ` set es then es else es @ [e])"
proof -
  from assms(4) obtain a u key_data u1 parsed u2 cm u3 k out es t line where
    u: "open_and_load_cipher c ''add SSH key'' w = (Ok a, u)"
    and 1: "read_key_text file u = (Ok key_data, u1)" and 2: "parse_key c key_data u1 = (Ok parsed, u2)"
    and 3: "check_curve c parsed = Ok ()" and 4: "key_comment comment (file = None) parsed u2 = (Ok cm, u3)"
    and 5: "private_key_new c (pk_key_data parsed) cm = Inr k" and 6: "openssh_print c k = Inr out"
    and es: "key_entries c a u3 = Ok es"
    and t: "io_when (\<forall>e \<in> set es. ke_fingerprint e \<noteq> fingerprint_sha256 c (public_key_data c k))
        (save_ssh_keys_to_file c a (es @ [\<lparr>ke_fingerprint = fingerprint_sha256 c (public_key_data c k),
           ke_algorithm = key_algorithm c k, ke_comment = cm, ke_key_data = out\<rparr>])) u3 = (Ok (), t)"
    and line: "println line t = (Ok (), v)"
    unfolding ssh_add_def Let_def io_seq_def
    by (auto simp: io_bind_eq_Ok key_entries_load simp del: println_eval)
  have v: "\<exists>ls. v = t\<lparr>stdout := ls\<rparr>" using line by auto
  let ?e = "\<lparr>ke_fingerprint = fingerprint_sha256 c (public_key_data c k),
    ke_algorithm = key_algorithm c k, ke_comment = cm, ke_key_data = out\<rparr>"
  have i: "inert u u3"
    using withinD [OF key_text_frames(4) 1] withinD [OF key_text_frames(5) 2]
      withinD [OF key_text_frames(6) 4] by (auto simp: inert_def)
  have w: "key_entries c a w = Ok es" and rd: "keys_readable u3"
    using es key_entries_cipher [OF u assms(3)] i
    by (simp_all add: key_entries_def inert_content inert_readable)
  have "key_entries c a v = Ok (if ke_fingerprint ?e \<in> ke_fingerprint ` set es then es else es @ [?e])"
  proof (cases "ke_fingerprint ?e \<in> ke_fingerprint ` set es")
    case True
    with t have "t = u3" by (auto simp: io_when_def image_iff split: if_splits)
    with es v True show ?thesis by auto
  next
    case False
    then have "save_ssh_keys_to_file c a (es @ [?e]) u3 = (Ok (), t)"
      using t by (auto simp: io_when_def image_iff split: if_splits)
    with key_entries_saved [OF assms(1,2) rd] v False show ?thesis by auto
  qed
  moreover have "comment = Some x \<Longrightarrow> cm = x" for x
    using 4 by (simp add: key_comment_def)
  ultimately show ?thesis
    using u w 3 5 6 by (intro exI [of _ a] exI [of _ u] exI [of _ es] exI [of _ ?e] exI [of _ parsed] exI [of _ k]) simp
qed


section \<open>A command that fails keeps the store, or its write was cut off\<close>

definition same_entries :: "world \<Rightarrow> world \<Rightarrow> bool" where
  "same_entries w v \<longleftrightarrow> (\<forall>c a. key_entries c a v = key_entries c a w)"

interpretation entries: frame_rel same_entries
  by unfold_locales (auto simp: same_entries_def)

lemmas entries_frame [frame_intros] = entries.all

lemma within_same_entries: "within inert m \<Longrightarrow> within same_entries m"
  unfolding within_def same_entries_def key_entries_def by (blast intro: inert_content)

lemma println_same_entries [frame_intros]: "within same_entries (println s)"
  by (simp add: within_def same_entries_def)

lemma same_entries_ops [frame_intros]:
  "within same_entries (open_and_load_cipher c reason)"
  "within same_entries (load_ssh_keys_from_file c a)"
  "within same_entries (read_key_text file)" "within same_entries (parse_key c s)"
  "within same_entries (key_comment cm b k)"
  by (rule within_same_entries, intro frame_intros)+

lemma same_entries_match [frame_intros]:
  "within same_entries (print_lines ls)" "within same_entries (unique_match fp es)"
proof -
  show print: "within same_entries (print_lines ls)" for ls
    unfolding print_lines_def by (intro frame_intros)
  show "within same_entries (unique_match fp es)"
    unfolding unique_match_def Let_def by (auto split: list.split intro!: frame_intros print)
qed

text \<open>Nothing that a later write depends on has changed, and the store holds what it held.\<close>

definition intact :: "world \<Rightarrow> world \<Rightarrow> bool" where
  "intact w v \<longleftrightarrow> same_env w v \<and> same_files w v \<and> same_entries w v"

interpretation intactf: frame_rel intact
  by unfold_locales (auto simp: intact_def same_entries_def intro: env.frame_refl env.frame_trans fil.frame_refl fil.frame_trans)

lemma within_intact: "within same_env m \<Longrightarrow> within same_files m \<Longrightarrow> within same_entries m \<Longrightarrow> within intact m"
  by (simp add: within_def intact_def)

lemma inert_intact: "within inert m \<Longrightarrow> within same_env m \<Longrightarrow> within intact m"
  by (intro within_intact within_same_entries) (auto simp: within_def inert_def same_files_def)

named_theorems intact_intros \<open>operations that leave the store intact\<close>

lemmas [intact_intros] = intactf.all

lemma intact_ops [intact_intros]:
  "within intact (open_and_load_cipher c reason)" "within intact (load_ssh_keys_from_file c a)"
  "within intact (read_key_text file)" "within intact (parse_key c s)" "within intact (key_comment cm b k)"
  by (rule inert_intact, intro frame_intros, intro frame_intros)+

lemma intact_prints [intact_intros]:
  "within intact (println s)" "within intact (print_lines ls)" "within intact (unique_match fp es)"
  by (rule within_intact, intro frame_intros, intro frame_intros, intro frame_intros)+

named_theorems fails_intros \<open>operations whose failure keeps the store\<close>

definition fails_clean :: "'a wio \<Rightarrow> bool" where
  "fails_clean m \<longleftrightarrow> (\<forall>w e v. m w = (Err e, v) \<longrightarrow> same_entries w v \<or> keys_cut w v)"

lemma fails_clean_within: "within same_entries m \<Longrightarrow> fails_clean m"
  by (auto simp: fails_clean_def dest: withinD)

lemma intact_cut: "intact w u \<Longrightarrow> keys_cut u v \<Longrightarrow> keys_cut w v"
  by (auto simp: intact_def same_env_def same_files_def keys_cut_def cut_off_def)

lemma fails_clean_bind [fails_intros]:
  assumes "within intact m" and "\<And>x. fails_clean (f x)"
  shows "fails_clean (io_bind m f)"
  unfolding fails_clean_def
proof (intro allI impI)
  fix w e v
  assume "io_bind m f w = (Err e, v)"
  then consider "m w = (Err e, v)" | x u where "m w = (Ok x, u)" "f x u = (Err e, v)"
    by (auto simp: io_bind_def split: prod.splits outcome.splits)
  then show "same_entries w v \<or> keys_cut w v"
  proof cases
    case 1
    with assms(1) show ?thesis by (auto simp: intact_def dest: withinD)
  next
    case (2 x u)
    then have "intact w u" using assms(1) by (auto dest: withinD)
    moreover have "same_entries u v \<or> keys_cut u v" using assms(2) 2 by (simp add: fails_clean_def)
    ultimately show ?thesis
      using intact_cut by (auto simp: intact_def intro: entries.frame_trans)
  qed
qed

lemma fails_clean_seq [fails_intros]:
  "within intact m \<Longrightarrow> fails_clean n \<Longrightarrow> fails_clean (io_seq m n)"
  by (simp add: io_seq_def fails_clean_bind)

lemma save_failed_entries:
  assumes run: "save_ssh_keys_to_file c k es s = (Err e, t)"
  shows "same_entries s t \<or> keys_cut s t"
proof (cases "keys_cut s t")
  case False
  then have f: "files t = files s" "same_env s t" "same_key_dir s t"
    using save_ssh_keys_files [OF run] withinD [OF ssh_store_env(2) run]
      withinD [OF same_key_dir_save run] by simp_all
  then have env: "home t = home s" "read_err t = read_err s"
    by (simp_all add: same_env_def)
  have "key_entries c' a t = key_entries c' a s" for c' a
  proof (cases "home s")
    case None
    with env show ?thesis
      by (simp add: key_entries_def load_ssh_keys_from_file_def io_eval_defs path_defs home_dir_def)
  next
    case (Some h)
    with env f show ?thesis
      by (simp add: key_entries_def load_ssh_keys_eval [of s h] load_ssh_keys_eval [of t h] same_key_dir_def)
  qed
  then show ?thesis by (simp add: same_entries_def)
qed simp

lemma fails_clean_save [fails_intros]:
  "fails_clean (io_seq (save_ssh_keys_to_file c a es) (println s))"
  "fails_clean (io_seq (io_when b (save_ssh_keys_to_file c a es)) (println s))"
  by (cases b; auto simp: fails_clean_def io_bind_def split: prod.splits outcome.splits
      dest: save_failed_entries)+

lemma fails_clean_ssh: "fails_clean (run_ssh c cmd)"
proof (cases cmd)
  case (SshAdd fl comment)
  then show ?thesis
    by (simp only: run_ssh.simps ssh_add_def Let_def) (intro fails_intros intact_intros)
next
  case SshList
  then show ?thesis
    by (simp only: run_ssh.simps ssh_list_def) (intro fails_clean_within frame_intros)
next
  case (SshRemove fp)
  then show ?thesis
    by (simp only: run_ssh.simps ssh_remove_def) (intro fails_intros intact_intros)
next
  case SshRemoveAll
  then show ?thesis
    by (simp only: run_ssh.simps ssh_remove_all_def) (intro fails_intros intact_intros)
next
  case (SshComment fp comment)
  then show ?thesis
    by (simp only: run_ssh.simps ssh_comment_def) (intro fails_intros intact_intros)
next
  case (SshShow fp)
  then show ?thesis
    by (simp only: run_ssh.simps ssh_show_def) (intro fails_clean_within frame_intros)
qed


section \<open>Properties\<close>

text \<open>
  A world after initialisation, with the given keys stored: the configuration, the passphrase
  encrypted for the device, and the store encrypted under the passphrase.
\<close>

definition vault_pass :: bytes where
  "vault_pass = replicate 32 9"

definition vault_ecies :: "bytes \<Rightarrow> ecies_ciphertext" where
  "vault_ecies p = \<lparr>ec_ephemeral_pubkey = [1], ec_nonce = replicate 12 0,
     ec_ciphertext = p @ demo_tag (demo_sha [1, 42]) (replicate 12 0)\<rparr>"

definition demo_vault :: "ssh_key_entry list \<Rightarrow> world" where
  "demo_vault es = demo_world\<lparr>typed := [Inr ''123456''], dirs := {''/h/.vt-yubi''},
     files := [''/h/.vt-yubi/config.toml'' \<mapsto>
                 the_ser demo_config \<lparr>cfg_yubikey_serial = 7, cfg_piv_public_key_der = []\<rparr>,
               ''/h/.vt-yubi/passphrase.enc'' \<mapsto> the_ser demo_ecies (vault_ecies vault_pass),
               ''/h/.vt-yubi/ssh_keys.enc'' \<mapsto> demo_box vault_pass (the_ser demo_ssh_keys es),
               ''/k'' \<mapsto> as_bytes ''k'']\<rparr>"

lemma demo_vault_sel [simp]:
  "home (demo_vault es) = Some ''/h''" "read_err (demo_vault es) p = None"
  "write_err (demo_vault es) p = None" "mkdir_err (demo_vault es) p = None"
  "typed (demo_vault es) = [Inr ''123456'']" "dev (demo_vault es) = demo_device"
  "tty_line (demo_vault es) = None" "dirs (demo_vault es) = {''/h/.vt-yubi''}"
  by (simp_all add: demo_vault_def)

lemma the_ser_back: "serde_ok j \<Longrightarrow> ser j x = Inr bs \<Longrightarrow> de j (the_ser j x) = Inr x"
  by (simp add: the_ser_def serde_okD)

lemma demo_back [simp]:
  "de demo_config (the_ser demo_config x) = Inr x"
  "de demo_ecies (the_ser demo_ecies y) = Inr y"
  "de demo_ssh_keys (the_ser demo_ssh_keys z) = Inr z"
  by (rule the_ser_back [OF demo_serde_ok(6)], simp add: demo_config_def,
      rule the_ser_back [OF demo_serde_ok(5)], simp add: demo_ecies_def,
      rule the_ser_back [OF demo_serde_ok(3)], simp add: demo_ssh_keys_def rows_serde_def)


lemma vault_files:
  "files (demo_vault es) ''/h/.vt-yubi/config.toml'' =
     Some (the_ser demo_config \<lparr>cfg_yubikey_serial = 7, cfg_piv_public_key_der = []\<rparr>)"
  "files (demo_vault es) ''/h/.vt-yubi/passphrase.enc'' = Some (the_ser demo_ecies (vault_ecies vault_pass))"
  "files (demo_vault es) ''/h/.vt-yubi/ssh_keys.enc'' =
     Some (demo_box vault_pass (the_ser demo_ssh_keys es))"
  "files (demo_vault es) ''/k'' = Some (as_bytes ''k'')"
  by (simp_all add: demo_vault_def)

lemma vault_config_utf8:
  "utf8_valid (the_ser demo_config \<lparr>cfg_yubikey_serial = 7, cfg_piv_public_key_der = []\<rparr>)"
  by (simp add: the_ser_def demo_config_def show_nat.simps digit_char_def as_bytes_def byte_of_def
      utf8_valid_ascii_Cons del: utf8_valid.simps(2))

text \<open>A world that has the files and the device of the vault.\<close>

definition in_vault :: "world \<Rightarrow> bool" where
  "in_vault w \<longleftrightarrow> home w = Some ''/h'' \<and> (\<exists>es. files w = files (demo_vault es)) \<and> dev w = demo_device \<and>
     read_err w = (\<lambda>p. None)"

lemma in_vault_demo: "in_vault (demo_vault es)" "in_vault ((demo_vault es)\<lparr>typed := ts\<rparr>)"
  by (auto simp: in_vault_def demo_vault_def demo_world_def)

lemma vault_config:
  assumes "in_vault w"
  shows "load_config demo_crates w = (Ok \<lparr>cfg_yubikey_serial = 7, cfg_piv_public_key_der = []\<rparr>, w)"
proof -
  from assms obtain es where "home w = Some ''/h''" "files w = files (demo_vault es)" "read_err w = (\<lambda>p. None)"
    by (auto simp: in_vault_def)
  then show ?thesis
    by (simp add: load_config_def path_defs fs_defs io_eval_defs path_join_def vault_files from_utf8_def
        vault_config_utf8)
qed

lemma vault_passphrase:
  assumes "in_vault w"
  shows "\<exists>v. load_passphrase demo_crates w = (Ok vault_pass, v)"
proof -
  from assms obtain es where "home w = Some ''/h''" "files w = files (demo_vault es)" "dev w = demo_device"
    "read_err w = (\<lambda>p. None)"
    by (auto simp: in_vault_def)
  then show ?thesis
    by (simp add: load_passphrase_def path_defs fs_defs io_eval_defs path_join_def vault_files
        read_ecies_file_def ecies_decrypt_def yk_ecdh_def dev_call_def notify_touch_def Let_def
        vault_ecies_def aes_init_def vault_pass_def)
qed

lemma vault_pin:
  assumes "in_vault w" and "typed w = Inr pin # ts"
  shows "\<exists>p u. open_and_verify_pin demo_crates w = (Ok p, u) \<and> in_vault u"
  using assms(2) assms(1) [unfolded in_vault_def]
  by (auto simp: open_and_verify_pin_def vault_config [OF assms(1)] io_eval_defs Let_def yk_prim_defs dev_call_def
      prompt_password_def in_vault_def)

lemma demo_gate:
  "\<exists>u. open_and_load_cipher demo_crates reason (demo_vault es) = (Ok (AesGcmCrypto vault_pass), u)"
proof -
  obtain p u where "open_and_verify_pin demo_crates (demo_vault es) = (Ok p, u)" "in_vault u"
    using vault_pin [OF in_vault_demo(1)] by fastforce
  with vault_passphrase [OF this(2)] show ?thesis
    by (force simp: open_and_load_cipher_def io_bind_def aes_new_def vault_pass_def)
qed

lemma demo_gate_frames:
  assumes "open_and_load_cipher demo_crates reason (demo_vault es) = (Ok a, u)"
  shows "load_ssh_keys_from_file demo_crates (AesGcmCrypto vault_pass) u = (Ok es, u)"
    and "home u = Some ''/h''" "write_err u = (\<lambda>p. None)" "mkdir_err u = (\<lambda>p. None)"
proof -
  have i: "inert (demo_vault es) u" "same_env (demo_vault es) u"
    using withinD [OF ssh_cipher_frames(1) assms] withinD [OF ssh_cipher_frames(2) assms] by simp_all
  then show "home u = Some ''/h''" "write_err u = (\<lambda>p. None)" "mkdir_err u = (\<lambda>p. None)"
    by (simp_all add: same_env_def demo_vault_def demo_world_def)
  have "fst (load_ssh_keys_from_file demo_crates (AesGcmCrypto vault_pass) (demo_vault es)) = Ok es"
    by (simp add: load_ssh_keys_eval [where h = "''/h''"] vault_files path_join_def)
  then show "load_ssh_keys_from_file demo_crates (AesGcmCrypto vault_pass) u = (Ok es, u)"
    using inert_content [OF i(1)] by (metis load_ssh_keys_state prod.collapse)
qed

lemma demo_save_in:
  assumes "home u = Some ''/h''" "write_err u = (\<lambda>p. None)" "mkdir_err u = (\<lambda>p. None)"
  shows "\<exists>v. save_ssh_keys_to_file demo_crates a es u = (Ok (), v)"
  using assms
  by (simp add: save_ssh_keys_to_file_def aes_encrypt_def generate_nonce_def backend_eval
      demo_ssh_keys_def rows_serde_def demo_seal_def)

lemma demo_vault_readable: "keys_readable (demo_vault es)"
  by (simp add: keys_readable_def)

definition vault_entry :: "string \<Rightarrow> ssh_key_entry" where
  "vault_entry n = \<lparr>ke_fingerprint = ''SHA256:'' @ n, ke_algorithm = ''ecdsa-sha2-nistp256'',
     ke_comment = ''demo'', ke_key_data = n\<rparr>"


text \<open>
  C28. Every key management command of \<open>vt-yubi ssh\<close> is gated by the PIN and a touch: it never panics;
  it either opened the YubiKey, had the PIN accepted and had the key touched, exactly once each,
  or it failed with no file or directory changed and nothing printed; and whenever it fails, at any
  point, the store still holds the entries it held, under every cipher, unless the write of the key file itself was
  cut off after the file had been emptied: then the old entries are gone.
\<close>

theorem ssh_commands_gated:
  assumes "run_ssh c cmd w = (r, v)"
  shows "(\<forall>p. r \<noteq> Panic p) \<and>
    (yk_log v = yk_log w @ [YkOpen True, YkPin True, YkEcdh True] \<or>
     (r \<noteq> Ok () \<and> files v = files w \<and> dirs v = dirs w \<and> stdout v = stdout w)) \<and>
    (\<forall>e. r = Err e \<longrightarrow> keys_cut w v \<or>
       (\<forall>a. fst (load_ssh_keys_from_file c a v) = fst (load_ssh_keys_from_file c a w)))"
proof (intro conjI)
  show "\<forall>p. r \<noteq> Panic p" "yk_log v = yk_log w @ [YkOpen True, YkPin True, YkEcdh True] \<or>
     (r \<noteq> Ok () \<and> files v = files w \<and> dirs v = dirs w \<and> stdout v = stdout w)"
    using gated_outcome [OF gated_ssh assms] by (auto simp: inert_def pin_and_touch_def)
  show "\<forall>e. r = Err e \<longrightarrow> keys_cut w v \<or>
       (\<forall>a. fst (load_ssh_keys_from_file c a v) = fst (load_ssh_keys_from_file c a w))"
  proof (intro allI impI)
    fix e
    assume "r = Err e"
    with assms have "same_entries w v \<or> keys_cut w v" using fails_clean_ssh [of c cmd] by (simp add: fails_clean_def)
    then show "keys_cut w v \<or> (\<forall>a. fst (load_ssh_keys_from_file c a v) = fst (load_ssh_keys_from_file c a w))"
      unfolding same_entries_def key_entries_def by blast
  qed
qed

lemma demo_unique:
  "unique_match ''b'' [vault_entry ''a'', vault_entry ''b''] x = (Ok (vault_entry ''b''), x)"
  "ke_fingerprint (vault_entry n) = ''SHA256:'' @ n"
  by (simp_all add: unique_match_def vault_entry_def starts_with_def)

lemma demo_remove:
  "\<exists>v. ssh_remove demo_crates ''b'' (demo_vault [vault_entry ''a'', vault_entry ''b'']) = (Ok (), v)"
proof -
  let ?es = "[vault_entry ''a'', vault_entry ''b'']"
  obtain u where u: "open_and_load_cipher demo_crates ''remove SSH key'' (demo_vault ?es) =
      (Ok (AesGcmCrypto vault_pass), u)"
    using demo_gate by blast
  note f = demo_gate_frames [OF u]
  obtain v where "save_ssh_keys_to_file demo_crates (AesGcmCrypto vault_pass) [vault_entry ''a''] u = (Ok (), v)"
    using demo_save_in [OF f(2-4)] by blast
  then show ?thesis
    by (simp add: ssh_remove_def io_bind_def u f(1) demo_unique)
qed

theorem ssh_commands_gated_witness:
  "\<exists>v. run_ssh demo_crates (SshRemove ''b'') (demo_vault [vault_entry ''a'', vault_entry ''b'']) = (Ok (), v) \<and>
     yk_log v = [YkOpen True, YkPin True, YkEcdh True]"
proof -
  obtain v where "run_ssh demo_crates (SshRemove ''b'') (demo_vault [vault_entry ''a'', vault_entry ''b'']) = (Ok (), v)"
    using demo_remove by auto
  with ssh_commands_gated [OF this] show ?thesis by (auto simp: demo_vault_def)
qed

text \<open>
  C30. Removing a key removes exactly one: when \<open>vt-yubi ssh remove\<close> succeeds, exactly one stored entry
  had the given text in its fingerprint, and the store now holds the other entries, unchanged and in
  their order, under the cipher the touch released.
\<close>

theorem ssh_remove_exact:
  assumes "aead_ok c" and "serde_ok (js_ssh_keys c)" and "keys_readable w"
    and "ssh_remove c fp w = (Ok (), v)"
  shows "\<exists>a u es m. open_and_load_cipher c ''remove SSH key'' w = (Ok a, u) \<and>
    key_entries c a w = Ok es \<and> filter (\<lambda>e. contains (ke_fingerprint e) fp) es = [m] \<and>
    key_entries c a v = Ok (filter (\<lambda>e. \<not> contains (ke_fingerprint e) fp) es)"
  using assms by (rule ssh_remove_effect)

theorem ssh_remove_exact_witness:
  "\<exists>v a. ssh_remove demo_crates ''b'' (demo_vault [vault_entry ''a'', vault_entry ''b'']) = (Ok (), v) \<and>
     key_entries demo_crates a v = Ok [vault_entry ''a'']"
proof -
  let ?w = "demo_vault [vault_entry ''a'', vault_entry ''b'']"
  obtain v where v: "ssh_remove demo_crates ''b'' ?w = (Ok (), v)"
    using demo_remove by blast
  have "serde_ok (js_ssh_keys demo_crates)" by (simp add: demo_serde_ok)
  from ssh_remove_exact [OF demo_aead_ok this demo_vault_readable v] obtain a u es where
    u: "open_and_load_cipher demo_crates ''remove SSH key'' ?w = (Ok a, u)"
    and es: "key_entries demo_crates a ?w = Ok es"
    and r: "key_entries demo_crates a v = Ok (filter (\<lambda>e. \<not> contains (ke_fingerprint e) ''b'') es)"
    by blast
  have "a = AesGcmCrypto vault_pass"
    using u demo_gate [of "''remove SSH key''" "[vault_entry ''a'', vault_entry ''b'']"] by auto
  then have "es = [vault_entry ''a'', vault_entry ''b'']"
    using es key_entries_cipher(1) [OF u demo_vault_readable, of a] demo_gate_frames(1) [OF u]
    by (simp add: key_entries_def)
  with r v show ?thesis by (auto simp: vault_entry_def starts_with_def)
qed


text \<open>
  Changing a comment changes that comment only: when \<open>vt-yubi ssh comment\<close> succeeds, exactly one
  entry had the given text in its fingerprint; it keeps its fingerprint and algorithm and gets the new
  comment, and its key data is the stored key printed with the new comment; every other entry, and the
  order, is as before.
\<close>

theorem ssh_comment_exact:
  assumes "aead_ok c" and "serde_ok (js_ssh_keys c)" and "keys_readable w"
    and "ssh_comment c fp comment w = (Ok (), v)"
  shows "\<exists>a u es m parsed k text'.
    open_and_load_cipher c ''change SSH key comment'' w = (Ok a, u) \<and>
    key_entries c a w = Ok es \<and> filter (\<lambda>e. contains (ke_fingerprint e) fp) es = [m] \<and>
    openssh_parse c (as_bytes (ke_key_data m)) = Inr parsed \<and>
    private_key_new c (pk_key_data parsed) comment = Inr k \<and> openssh_print c k = Inr text' \<and>
    key_entries c a v = Ok (map (\<lambda>e. if contains (ke_fingerprint e) fp
      then e\<lparr>ke_comment := comment, ke_key_data := text'\<rparr> else e) es)"
  using assms by (rule ssh_comment_effect)

lemma demo_comment:
  "\<exists>v. ssh_comment demo_crates ''b'' ''new'' (demo_vault [vault_entry ''a'', vault_entry ''b'']) = (Ok (), v)"
proof -
  let ?es = "[vault_entry ''a'', vault_entry ''b'']"
  obtain u where u: "open_and_load_cipher demo_crates ''change SSH key comment'' (demo_vault ?es) =
      (Ok (AesGcmCrypto vault_pass), u)"
    using demo_gate by blast
  note f = demo_gate_frames [OF u]
  have print: "openssh_print demo_crates \<lparr>pk_key_data = Ecdsa NistP256 bs bs, pk_comment = cm\<rparr> = Inr (of_bytes bs)"
    for bs cm by (simp add: demo_crates_def)
  obtain sv where "\<And>es. save_ssh_keys_to_file demo_crates (AesGcmCrypto vault_pass) es u = (Ok (), sv es)"
    using demo_save_in [OF f(2-4)] by metis
  then show ?thesis
    by (simp add: ssh_comment_def io_eval_defs u f(1) demo_unique print)
qed

theorem ssh_comment_exact_witness:
  "\<exists>v a es. ssh_comment demo_crates ''b'' ''new'' (demo_vault [vault_entry ''a'', vault_entry ''b'']) = (Ok (), v) \<and>
     key_entries demo_crates a v = Ok es \<and> map ke_comment es = [''demo'', ''new'']"
proof -
  let ?w = "demo_vault [vault_entry ''a'', vault_entry ''b'']"
  obtain v where v: "ssh_comment demo_crates ''b'' ''new'' ?w = (Ok (), v)"
    using demo_comment by blast
  have "serde_ok (js_ssh_keys demo_crates)" by (simp add: demo_serde_ok)
  from ssh_comment_exact [OF demo_aead_ok this demo_vault_readable v] obtain a u es text' where
    u: "open_and_load_cipher demo_crates ''change SSH key comment'' ?w = (Ok a, u)"
    and es: "key_entries demo_crates a ?w = Ok es"
    and r: "key_entries demo_crates a v = Ok (map (\<lambda>e. if contains (ke_fingerprint e) ''b''
      then e\<lparr>ke_comment := ''new'', ke_key_data := text'\<rparr> else e) es)"
    by blast
  have "a = AesGcmCrypto vault_pass"
    using u demo_gate [of "''change SSH key comment''" "[vault_entry ''a'', vault_entry ''b'']"] by auto
  then have "es = [vault_entry ''a'', vault_entry ''b'']"
    using es key_entries_cipher(1) [OF u demo_vault_readable, of a] demo_gate_frames(1) [OF u]
    by (simp add: key_entries_def)
  with r have "key_entries demo_crates a v =
      Ok [vault_entry ''a'', (vault_entry ''b'')\<lparr>ke_comment := ''new'', ke_key_data := text'\<rparr>]"
    by (simp add: demo_unique starts_with_def)
  moreover have "ke_comment (vault_entry n) = ''demo''" for n by (simp add: vault_entry_def)
  ultimately show ?thesis using v by (intro exI conjI) (assumption | simp)+
qed

text \<open>
  Adding a key appends exactly one entry, or none: when \<open>vt-yubi ssh add\<close> succeeds, the key is ECDSA
  on P-256 or P-384, its entry carries the fingerprint and the printed form of the key with the
  chosen comment, and the store holds the former entries followed by it, unless its fingerprint was
  already there, when the store is unchanged (also its comment, although the command prints
  that it added the key).
\<close>

theorem ssh_add_exact:
  assumes "aead_ok c" and "serde_ok (js_ssh_keys c)" and "keys_readable w"
    and "ssh_add c file comment w = (Ok (), v)"
  shows "\<exists>a u es e parsed k.
    open_and_load_cipher c ''add SSH key'' w = (Ok a, u) \<and> key_entries c a w = Ok es \<and>
    check_curve c parsed = Ok () \<and> private_key_new c (pk_key_data parsed) (ke_comment e) = Inr k \<and>
    (\<forall>cm. comment = Some cm \<longrightarrow> ke_comment e = cm) \<and>
    e = \<lparr>ke_fingerprint = fingerprint_sha256 c (public_key_data c k), ke_algorithm = key_algorithm c k,
         ke_comment = ke_comment e, ke_key_data = ke_key_data e\<rparr> \<and>
    openssh_print c k = Inr (ke_key_data e) \<and>
    key_entries c a v = Ok (if ke_fingerprint e \<in> ke_fingerprint ` set es then es else es @ [e])"
  using assms by (rule ssh_add_effect)

lemma demo_add: "\<exists>v. ssh_add demo_crates (Some ''/k'') (Some ''c'') (demo_vault []) = (Ok (), v)"
proof -
  obtain u where u: "open_and_load_cipher demo_crates ''add SSH key'' (demo_vault []) =
      (Ok (AesGcmCrypto vault_pass), u)"
    using demo_gate by blast
  note f = demo_gate_frames [OF u]
  have "files u ''/k'' = Some (as_bytes ''k'')" "read_err u ''/k'' = None"
    using withinD [OF ssh_cipher_frames(1) u] by (simp_all add: inert_def vault_files)
  moreover have "from_utf8 (as_bytes ''k'') = Some ''k''"
    by (rule from_utf8_as_bytes, rule ascii_rust_str) (simp add: ascii_char_def byte_of_def)
  ultimately have key: "fs_read_to_string ''/k'' u = (Ok ''k'', u)"
    by (simp add: fs_defs io_eval_defs)
  have print: "openssh_print demo_crates \<lparr>pk_key_data = Ecdsa NistP256 bs bs, pk_comment = cm\<rparr> = Inr (of_bytes bs)"
    for bs cm by (simp add: demo_crates_def)
  obtain sv where "\<And>es. save_ssh_keys_to_file demo_crates (AesGcmCrypto vault_pass) es u = (Ok (), sv es)"
    using demo_save_in [OF f(2-4)] by metis
  then show ?thesis
    by (simp add: ssh_add_def read_key_text_def parse_key_def is_encrypted_def check_curve_def
        key_comment_def io_eval_defs u f(1) key print Let_def)
qed

theorem ssh_add_exact_witness:
  "\<exists>v a e. ssh_add demo_crates (Some ''/k'') (Some ''c'') (demo_vault []) = (Ok (), v) \<and>
     key_entries demo_crates a v = Ok [e] \<and> ke_comment e = ''c''"
proof -
  obtain v where v: "ssh_add demo_crates (Some ''/k'') (Some ''c'') (demo_vault []) = (Ok (), v)"
    using demo_add by blast
  have "serde_ok (js_ssh_keys demo_crates)" by (simp add: demo_serde_ok)
  from ssh_add_exact [OF demo_aead_ok this demo_vault_readable v] obtain a u es e where
    u: "open_and_load_cipher demo_crates ''add SSH key'' (demo_vault []) = (Ok a, u)"
    and es: "key_entries demo_crates a (demo_vault []) = Ok es" and e: "ke_comment e = ''c''"
    and r: "key_entries demo_crates a v = Ok (if ke_fingerprint e \<in> ke_fingerprint ` set es then es else es @ [e])"
    by blast
  have "a = AesGcmCrypto vault_pass"
    using u demo_gate [of "''add SSH key''" "[]"] by auto
  then have "es = []"
    using es key_entries_cipher(1) [OF u demo_vault_readable, of a] demo_gate_frames(1) [OF u]
    by (simp add: key_entries_def)
  with r v e show ?thesis by auto
qed

end
