(* ===== verification/Vt_Key_Types.thy ===== *)
theory Vt_Key_Types
  imports Vt_Overlap Vt_Ssh_Cli
begin

text \<open>
  The types that the SSH keys keep, in memory and in the key file: every key is a P-256 or P-384 key under
  its own fingerprint, no fingerprint occurs twice, and what an entry says of its key is true.  The
  handlers keep these types in any schedule, so what they answer is of the key that was asked for.
\<close>

section \<open>Types of keys, entries and files\<close>

text \<open>
  The documented behaviour of the \<open>ssh-key\<close> crate: an unencrypted key is parsed back from what it is
  printed as, a new key has the data and the comment it was made of, and the comment is no part of the public key.
\<close>

definition key_codec_ok :: "crates \<Rightarrow> bool" where
  "key_codec_ok c \<longleftrightarrow>
     (\<forall>k s. supported_key k \<longrightarrow> openssh_print c k = Inr s \<longrightarrow> openssh_parse c (as_bytes s) = Inr k) \<and>
     (\<forall>kd cm k. private_key_new c kd cm = Inr k \<longrightarrow> k = \<lparr>pk_key_data = kd, pk_comment = cm\<rparr>) \<and>
     (\<forall>k cm. public_key_data c (k\<lparr>pk_comment := cm\<rparr>) = public_key_data c k \<and>
        key_algorithm c (k\<lparr>pk_comment := cm\<rparr>) = key_algorithm c k)"

definition key_laws :: "crates \<Rightarrow> bool" where
  "key_laws c \<longleftrightarrow> key_codec_ok c \<and> aead_ok c \<and> serde_ok (js_ssh_keys c)"

lemma new_key: "key_laws c \<Longrightarrow> private_key_new c kd cm = Inr k \<Longrightarrow> k = \<lparr>pk_key_data = kd, pk_comment = cm\<rparr>"
  by (simp add: key_laws_def key_codec_ok_def)

definition typed_key :: "crates \<Rightarrow> string \<Rightarrow> private_key \<Rightarrow> bool" where
  "typed_key c fp k \<longleftrightarrow> supported_key k \<and> fp = fingerprint_str c (public_key_data c k)"

definition typed_keys :: "crates \<Rightarrow> (string \<times> private_key) list \<Rightarrow> bool" where
  "typed_keys c ks \<longleftrightarrow> distinct (map fst ks) \<and> (\<forall>fp k. (fp, k) \<in> set ks \<longrightarrow> typed_key c fp k)"

definition typed_entry :: "crates \<Rightarrow> ssh_key_entry \<Rightarrow> bool" where
  "typed_entry c e \<longleftrightarrow>
     (case openssh_parse c (as_bytes (ke_key_data e)) of
        Inr k \<Rightarrow> typed_key c (ke_fingerprint e) k \<and> ke_algorithm e = key_algorithm c k \<and> ke_comment e = pk_comment k
      | Inl _ \<Rightarrow> False)"

definition typed_entries :: "crates \<Rightarrow> ssh_key_entry list \<Rightarrow> bool" where
  "typed_entries c es \<longleftrightarrow> distinct (map ke_fingerprint es) \<and> list_all (typed_entry c) es"

text \<open>A key file that opens under the cipher holds typed entries.\<close>

definition typed_file :: "crates \<Rightarrow> aes_gcm_crypto \<Rightarrow> bytes \<Rightarrow> bool" where
  "typed_file c a ct \<longleftrightarrow>
     (case oc_bind (aes_decrypt c a ct) (\<lambda>d. of_sum Msg (de (js_ssh_keys c) d)) of
        Ok es \<Rightarrow> typed_entries c es | _ \<Rightarrow> True)"

definition typed_files :: "crates \<Rightarrow> aes_gcm_crypto \<Rightarrow> string option \<Rightarrow> (string \<rightharpoonup> bytes) \<Rightarrow> bool" where
  "typed_files c a h fs \<longleftrightarrow>
     (case h of None \<Rightarrow> True
      | Some hm \<Rightarrow> (case fs (vt_file hm ''ssh_keys.enc'') of None \<Rightarrow> True | Some ct \<Rightarrow> typed_file c a ct))"

text \<open>The key file is typed, and the disk does not cut a write to it off.\<close>

definition typed_disk :: "crates \<Rightarrow> aes_gcm_crypto \<Rightarrow> world \<Rightarrow> bool" where
  "typed_disk c a w \<longleftrightarrow> typed_files c a (home w) (files w) \<and> vault_whole w"

definition typed_agent :: "crates \<Rightarrow> agent \<Rightarrow> bool" where
  "typed_agent c s \<longleftrightarrow> typed_keys c (ag_keys s) \<and> typed_disk c (AesGcmCrypto (ag_passphrase s)) (ag_world s)"

section \<open>The key file\<close>

lemma typed_load:
  assumes "typed_disk c a w" and "load_ssh_keys_from_file c a w = (Ok es, v)"
  shows "typed_entries c es"
proof -
  obtain h where h: "home w = Some h"
    using assms(2) by (cases "home w") (simp_all add: load_ssh_keys_from_file_def io_eval_defs path_defs home_dir_def)
  have l: "fst (load_ssh_keys_from_file c a w) = Ok es" using assms(2) by simp
  show ?thesis
    using assms(1) l unfolding load_ssh_keys_eval [OF h] typed_disk_def typed_files_def h
    by (auto simp: typed_file_def typed_entries_def split: if_splits option.splits outcome.splits)
qed

lemma typed_save:
  assumes laws: "key_laws c" and es: "typed_entries c es" and w: "typed_disk c a w"
    and run: "save_ssh_keys_to_file c a es w = (r, v)"
  shows "typed_disk c a v"
proof -
  have env: "home v = home w" "write_err v = write_err w"
    using withinD [OF ssh_store_env(2) run] by (simp_all add: same_env_def)
  have whole: "vault_whole w" "vault_whole v" using w env by (simp_all add: typed_disk_def vault_whole_def)
  show ?thesis
  proof (cases "r = Ok ()")
    case True
    with run have ok: "save_ssh_keys_to_file c a es w = (Ok (), v)" by simp
    obtain h json ct u u' where h: "home w = Some h" and j: "ser (js_ssh_keys c) es = Inr json"
      and e: "aes_encrypt c a json u = (Ok ct, u')" and f: "files v = (files w)(vt_file h ''ssh_keys.enc'' \<mapsto> ct)"
      using ok by (rule save_ssh_keys_OkE)
    have "oc_bind (aes_decrypt c a ct) (\<lambda>d. of_sum Msg (de (js_ssh_keys c) d)) = Ok es"
      using aes.unseal_seal [OF _ e] laws j by (simp add: key_laws_def serde_okD)
    then show ?thesis using es whole by (simp add: typed_disk_def typed_files_def typed_file_def env h f)
  next
    case False
    then show ?thesis using w save_ssh_keys_files [OF run] whole_not_cut [OF whole(1)] whole(2) env by (simp add: typed_disk_def)
  qed
qed

text \<open>What leaves the key file alone.\<close>

definition keeps_store :: "world \<Rightarrow> world \<Rightarrow> bool" where
  "keeps_store w v \<longleftrightarrow> home v = home w \<and> write_err v = write_err w \<and>
     (\<forall>h. home w = Some h \<longrightarrow> files v (vt_file h ''ssh_keys.enc'') = files w (vt_file h ''ssh_keys.enc''))"

interpretation keepstore: frame_rel keeps_store
  by unfold_locales (auto simp: keeps_store_def)

lemma keeps_store_typed: "keeps_store w v \<Longrightarrow> typed_disk c a v \<longleftrightarrow> typed_disk c a w"
  by (cases "home w") (auto simp: keeps_store_def typed_disk_def typed_files_def vault_whole_def)

lemma keeps_store_frames:
  "within same_env m \<Longrightarrow> within same_files m \<Longrightarrow> within keeps_store m"
  "within only_audit m \<Longrightarrow> within keeps_store m"
proof -
  show "within same_env m \<Longrightarrow> within same_files m \<Longrightarrow> within keeps_store m"
    by (simp add: within_def keeps_store_def same_env_def same_files_def)
  have "keeps_store w v" if a: "only_audit w v" for w v
    unfolding keeps_store_def
  proof (intro conjI allI impI)
    show "home v = home w" "write_err v = write_err w" using a by (rule only_audit_keeps)+
    fix h
    assume h: "home w = Some h"
    have "\<forall>g. home w = Some g \<longrightarrow> vt_file h ''ssh_keys.enc'' \<noteq> audit_file g (today w)"
      using h audit_not_vault(1) by (simp add: not_sym)
    with a show "files v (vt_file h ''ssh_keys.enc'') = files w (vt_file h ''ssh_keys.enc'')"
      by (simp add: only_audit_def)
  qed
  then show "within only_audit m \<Longrightarrow> within keeps_store m" by (simp add: within_def)
qed

lemma set_alist_update: "set (AList.update k v xs) \<subseteq> insert (k, v) (set xs)"
  by (induction xs) auto

lemma typed_keys_simps [simp]:
  "typed_keys c []"
  "typed_keys c ks \<Longrightarrow> typed_key c fp k \<Longrightarrow> typed_keys c (AList.update fp k ks)"
  "typed_keys c ks \<Longrightarrow> typed_keys c (AList.delete fp ks)"
proof -
  show "typed_keys c []" by (simp add: typed_keys_def)
  show "typed_keys c ks \<Longrightarrow> typed_key c fp k \<Longrightarrow> typed_keys c (AList.update fp k ks)"
    using set_alist_update [of fp k ks] by (auto simp: typed_keys_def distinct_update)
  have "set (AList.delete fp ks) \<subseteq> set ks" by (auto simp: AList.delete_eq)
  then show "typed_keys c ks \<Longrightarrow> typed_keys c (AList.delete fp ks)"
    by (auto simp: typed_keys_def distinct_delete)
qed

lemma typed_keys_lookup: "typed_keys c ks \<Longrightarrow> map_of ks fp = Some k \<Longrightarrow> typed_key c fp k"
  unfolding typed_keys_def using map_of_SomeD by metis

lemma typed_entries_simps [simp]:
  "typed_entries c []"
  "typed_entries c es \<Longrightarrow> typed_entries c (filter q es)"
  "typed_entries c es \<Longrightarrow> typed_entry c e \<Longrightarrow> \<not> (\<exists>x \<in> set es. ke_fingerprint x = ke_fingerprint e) \<Longrightarrow>
     typed_entries c (es @ [e])"
  by (auto simp: typed_entries_def distinct_map_filter list_all_iff)

lemma typed_load_all:
  assumes "typed_disk c (AesGcmCrypto K) w" and "load_all_keys c K w = (Ok ks, v)"
  shows "typed_keys c ks"
proof -
  obtain es where es: "load_ssh_keys_from_file c (AesGcmCrypto K) w = (Ok es, v)" and ks: "ks = foldl (insert_entry c) [] es"
    using assms(2) by (auto simp: load_all_keys_def io_bind_eq_Ok aes_new_eq_Ok)
  have "list_all (typed_entry c) es" using typed_load [OF assms(1) es] by (simp add: typed_entries_def)
  then have "typed_keys c zs \<Longrightarrow> typed_keys c (foldl (insert_entry c) zs es)" for zs
  proof (induction es arbitrary: zs)
    case (Cons e es)
    then have "typed_keys c (insert_entry c zs e)"
      by (auto simp: insert_entry_def typed_entry_def split: sum.splits)
    with Cons show ?case by simp
  qed simp
  from this [of "[]"] ks show ?thesis by simp
qed

section \<open>Tasks that keep the types\<close>

text \<open>
  A task keeps the types of an agent with passphrase \<open>K\<close> and home directory \<open>h\<close>, and answers with what \<open>R\<close>
  allows: at each of its steps, from any agent of these types it may meet there.
\<close>

definition typed_at :: "crates \<Rightarrow> bytes \<Rightarrow> string option \<Rightarrow> agent \<Rightarrow> bool" where
  "typed_at c K h s \<longleftrightarrow> ag_passphrase s = K \<and> home (ag_world s) = h \<and> typed_agent c s"

primrec typed_task :: "crates \<Rightarrow> bytes \<Rightarrow> string option \<Rightarrow> (reply \<Rightarrow> bool) \<Rightarrow> task \<Rightarrow> bool" where
  "typed_task c K h R (Done r) \<longleftrightarrow> (\<forall>x. r = Ok x \<longrightarrow> R x)"
| "typed_task c K h R (Acquire l m k) \<longleftrightarrow> typed_task c K h R k"
| "typed_task c K h R (Release l k) \<longleftrightarrow> typed_task c K h R k"
| "typed_task c K h R (Act upd next) \<longleftrightarrow>
     (\<forall>s. typed_at c K h s \<longrightarrow> typed_at c K h (upd s) \<and> typed_task c K h R (next s))"

named_theorems typing_rules \<open>tasks keep the types of the keys\<close>

lemma typed_rules [typing_rules]:
  "R x \<Longrightarrow> typed_task c K h R (answer x)"
  "typed_task c K h R refuse"
  "typed_task c K h R k \<Longrightarrow> typed_task c K h R (Acquire l m k)"
  "typed_task c K h R k \<Longrightarrow> typed_task c K h R (Release l k)"
  "(b \<Longrightarrow> typed_task c K h R j) \<Longrightarrow> (\<not> b \<Longrightarrow> typed_task c K h R k) \<Longrightarrow> typed_task c K h R (if b then j else k)"
  "(v = None \<Longrightarrow> typed_task c K h R j) \<Longrightarrow> (\<And>x. v = Some x \<Longrightarrow> typed_task c K h R (f x)) \<Longrightarrow>
     typed_task c K h R (case_option j f v)"
  by (simp_all split: option.split)

lemma typed_step:
  assumes "\<And>s. typed_at c K h s \<Longrightarrow> typed_at c K h (snd (m s))"
    and "\<And>s x. typed_at c K h s \<Longrightarrow> fst (m s) = Ok x \<Longrightarrow> typed_task c K h R (k x)"
  shows "typed_task c K h R (act m k)"
  using assms by (simp add: act_def split: outcome.split)

lemma typed_get:
  assumes "\<And>s. typed_at c K h s \<Longrightarrow> typed_task c K h R (k (f s))"
  shows "typed_task c K h R (act (io_get f) k)"
  by (rule typed_step) (use assms in auto)

text \<open>Steps that touch neither the keys nor the key file.\<close>

definition keeps_keys :: "agent \<Rightarrow> agent \<Rightarrow> bool" where
  "keeps_keys s t \<longleftrightarrow> ag_passphrase t = ag_passphrase s \<and> ag_keys t = ag_keys s \<and> keeps_store (ag_world s) (ag_world t)"

interpretation keepkeys: frame_rel keeps_keys
  by unfold_locales (auto simp: keeps_keys_def intro: keepstore.frame_refl keepstore.frame_trans)

lemmas [typing_rules] = keepkeys.all

lemma typed_act:
  assumes "within keeps_keys m" and "\<And>x. typed_task c K h R (k x)"
  shows "typed_task c K h R (act m k)"
proof (rule typed_step)
  fix s
  assume s: "typed_at c K h s"
  have "keeps_keys s (snd (m s))" using assms(1) by (simp add: within_def)
  then have k: "ag_passphrase (snd (m s)) = ag_passphrase s" "ag_keys (snd (m s)) = ag_keys s"
    "keeps_store (ag_world s) (ag_world (snd (m s)))" by (simp_all add: keeps_keys_def)
  then have "home (ag_world (snd (m s))) = home (ag_world s)" by (simp add: keeps_store_def)
  with s show "typed_at c K h (snd (m s))"
    by (auto simp: typed_at_def typed_agent_def k(1,2) keeps_store_typed [OF k(3)])
qed (rule assms(2))

lemma keeps_in_world: "within keeps_store m \<Longrightarrow> within keeps_keys (in_world m)"
  by (auto simp: within_def in_world_def keeps_keys_def split: prod.split) (metis snd_conv)

lemma keeps_presence [typing_rules]: "within keeps_keys (verify_yubikey_presence c m)"
proof -
  have "within keeps_store (verify_presence_with_pin c pin m)" for pin
    by (rule keeps_store_frames(1)) (intro frame_intros)+
  then show ?thesis unfolding verify_yubikey_presence_def by (intro typing_rules keeps_in_world)
qed

lemma keeps_keys_steps [typing_rules]:
  "within keeps_keys touch_activity"
  "within keeps_keys (cache_grant ctx fp d)"
  "within keeps_keys (in_world (log_decrypt c p cl req ok))"
  "within keeps_keys (in_world (log_encrypt c p cl n))"
  "within keeps_keys (in_world (log_auth c p cl areq ok))"
  "within keeps_keys (in_world (log_sign c p exe cl lbl fp ok))"
  "within keeps_keys (in_world (do_encrypt c a items))"
  "within keeps_keys (in_world (aes_encrypt c a bs))"
  "within keeps_keys (in_world (io_or [] (load_ssh_keys_from_file c a)))"
  "within keeps_keys (io_upd (\<lambda>s. s\<lparr>ag_locked := b\<rparr>))"
  "within keeps_keys (io_upd (\<lambda>s. s\<lparr>ag_lock_passphrase := lp\<rparr>))"
  "within keeps_keys (io_upd (\<lambda>s. s\<lparr>ag_idle_cleared := b\<rparr>))"
  "within keeps_keys (io_upd (\<lambda>s. s\<lparr>ag_auth_cache := f s\<rparr>))"
proof -
  have r: "within keeps_store (io_or [] (load_ssh_keys_from_file c a))"
    using load_ssh_keys_state [of c a]
    by (intro keepstore.or_default withinI) (metis keepstore.frame_refl)
  show "within keeps_keys (in_world (io_or [] (load_ssh_keys_from_file c a)))" by (rule keeps_in_world [OF r])
  show "within keeps_keys touch_activity" "within keeps_keys (cache_grant ctx fp d)"
    "within keeps_keys (io_upd (\<lambda>s. s\<lparr>ag_locked := b\<rparr>))" "within keeps_keys (io_upd (\<lambda>s. s\<lparr>ag_lock_passphrase := lp\<rparr>))"
    "within keeps_keys (io_upd (\<lambda>s. s\<lparr>ag_idle_cleared := b\<rparr>))" "within keeps_keys (io_upd (\<lambda>s. s\<lparr>ag_auth_cache := f s\<rparr>))"
    unfolding touch_activity_def cache_grant_def
    by (intro keepkeys.all keepkeys.upd; simp add: keeps_keys_def keepstore.frame_refl)+
qed (intro keeps_in_world keeps_store_frames frame_intros)+

lemma typed_check [typing_rules]:
  "(\<And>b. typed_task c K h R (k b)) \<Longrightarrow> typed_task c K h R (check_task c' p fp m d k)"
  unfolding check_task_def cached_task_def prompt_task_def by (intro typing_rules typed_act)

lemma typed_touch [typing_rules]: "typed_task c K h R k \<Longrightarrow> typed_task c K h R (touch_task k)"
  unfolding touch_task_def by (intro typing_rules typed_act)

lemma typed_unless [typing_rules]:
  "typed_task c K h R j \<Longrightarrow> typed_task c K h R k \<Longrightarrow> typed_task c K h R (unless_locked j k)"
  unfolding unless_locked_def by (intro typing_rules typed_act)

lemma in_world_snd: "snd (in_world m s) = s\<lparr>ag_world := snd (m (ag_world s))\<rparr>"
  by (simp add: in_world_def split: prod.split)

lemma attempt_snd: "snd (io_attempt m s) = snd (m s)"
  by (simp add: io_attempt_def split: prod.split outcome.split)

text \<open>Steps that bring keys into the memory or write the key file.\<close>

lemma typed_set_keys:
  "typed_keys c ks \<Longrightarrow> typed_task c K h R k \<Longrightarrow> typed_task c K h R (act (io_upd (\<lambda>s. s\<lparr>ag_keys := ks\<rparr>)) (\<lambda>_. k))"
  "typed_key c fp key \<Longrightarrow> typed_task c K h R k \<Longrightarrow>
     typed_task c K h R (act (io_upd (\<lambda>s. s\<lparr>ag_keys := AList.update fp key (ag_keys s)\<rparr>)) (\<lambda>_. k))"
  "typed_task c K h R k \<Longrightarrow>
     typed_task c K h R (act (io_upd (\<lambda>s. s\<lparr>ag_keys := AList.delete fp (ag_keys s)\<rparr>)) (\<lambda>_. k))"
  by (rule typed_step; auto simp: typed_at_def typed_agent_def)+

lemma typed_loaded:
  assumes "typed_at c K h s" and "in_world (load_all_keys c K) s = (r, t)"
  shows "t = s" and "r = Ok ks \<Longrightarrow> typed_keys c ks"
proof -
  obtain w where run: "load_all_keys c K (ag_world s) = (r, w)" and t: "t = s\<lparr>ag_world := w\<rparr>"
    using assms(2) by (auto simp: in_world_eq)
  have "w = ag_world s" using run by (rule load_all_keys_state)
  then show "t = s" using t by simp
  assume "r = Ok ks"
  with run have "load_all_keys c K (ag_world s) = (Ok ks, w)" by simp
  with assms(1) show "typed_keys c ks"
    by (intro typed_load_all) (auto simp: typed_at_def typed_agent_def)
qed

lemma typed_reload:
  assumes "\<And>ks. typed_keys c ks \<Longrightarrow> typed_task c K h R (k ks)"
  shows "typed_task c K h R (act (io_bind (io_get ag_passphrase) (\<lambda>p. in_world (load_all_keys c p))) k)"
proof (rule typed_step)
  fix s
  assume s: "typed_at c K h s"
  obtain r t where run: "in_world (load_all_keys c K) s = (r, t)" by fastforce
  have p: "io_bind (io_get ag_passphrase) (\<lambda>p. in_world (load_all_keys c p)) s = (r, t)"
    using s run by (simp add: typed_at_def)
  show "typed_at c K h (snd (io_bind (io_get ag_passphrase) (\<lambda>p. in_world (load_all_keys c p)) s))"
    using typed_loaded(1) [OF s run] s by (simp only: p snd_conv)
  show "typed_task c K h R (k ks)" if "fst (io_bind (io_get ag_passphrase) (\<lambda>p. in_world (load_all_keys c p)) s) = Ok ks" for ks
    using that by (intro assms typed_loaded(2) [OF s run]) (simp only: p fst_conv)
qed

lemma typed_reload_attempt:
  assumes "\<And>ks. typed_keys c ks \<Longrightarrow> typed_task c K h R (k (Inr ks))" and "\<And>e. typed_task c K h R (k (Inl e))"
  shows "typed_task c K h R (act (io_attempt (in_world (load_all_keys c K))) k)"
proof (rule typed_step)
  fix s
  assume s: "typed_at c K h s"
  obtain r t where run: "in_world (load_all_keys c K) s = (r, t)" by fastforce
  note l = typed_loaded [OF s run]
  show "typed_at c K h (snd (io_attempt (in_world (load_all_keys c K)) s))" using l(1) s run by (simp add: attempt_snd)
  show "typed_task c K h R (k x)" if "fst (io_attempt (in_world (load_all_keys c K)) s) = Ok x" for x
    using that assms l(2) run by (auto simp: io_attempt_def split: outcome.splits)
qed

lemma typed_saving:
  assumes "key_laws c" and "typed_entries c es" and "typed_at c K h s"
  shows "typed_at c K h (s\<lparr>ag_world := snd (save_ssh_keys_to_file c (AesGcmCrypto K) es (ag_world s))\<rparr>)"
proof -
  obtain r v where run: "save_ssh_keys_to_file c (AesGcmCrypto K) es (ag_world s) = (r, v)" by fastforce
  have "home v = home (ag_world s)" using withinD [OF ssh_store_env(2) run] by (simp add: same_env_def)
  moreover have "typed_disk c (AesGcmCrypto K) v"
    using assms(3) by (intro typed_save [OF assms(1,2) _ run]) (auto simp: typed_at_def typed_agent_def)
  ultimately show ?thesis using assms(3) by (simp add: run typed_at_def typed_agent_def)
qed

lemma typed_save_when:
  assumes "key_laws c" and "b \<Longrightarrow> typed_entries c es" and "\<And>x. typed_task c K h R (k x)"
  shows "typed_task c K h R (act (io_when b (in_world (save_ssh_keys_to_file c (AesGcmCrypto K) es))) k)"
proof (rule typed_step)
  fix s
  assume "typed_at c K h s"
  then show "typed_at c K h (snd (io_when b (in_world (save_ssh_keys_to_file c (AesGcmCrypto K) es)) s))"
    using typed_saving [OF assms(1) assms(2)] by (simp add: io_when_def in_world_snd)
qed (rule assms(3))

lemma typed_save_attempt:
  assumes "key_laws c" and "typed_entries c es" and "\<And>x. typed_task c K h R (k x)"
  shows "typed_task c K h R (act (in_world (io_attempt (save_ssh_keys_to_file c (AesGcmCrypto K) es))) k)"
proof (rule typed_step)
  fix s
  assume "typed_at c K h s"
  then show "typed_at c K h (snd (in_world (io_attempt (save_ssh_keys_to_file c (AesGcmCrypto K) es)) s))"
    using typed_saving [OF assms(1,2)] by (simp add: in_world_snd attempt_snd)
qed (rule assms(3))

lemma typed_load_lenient:
  assumes "\<And>es. typed_entries c es \<Longrightarrow> typed_task c K h R (k es)"
  shows "typed_task c K h R (act (in_world (io_or [] (load_ssh_keys_from_file c (AesGcmCrypto K)))) k)"
proof (rule typed_step)
  fix s
  assume s: "typed_at c K h s"
  then have l: "in_world (io_or [] (load_ssh_keys_from_file c (AesGcmCrypto K))) s = (Ok (assumed_keys c s), s)"
    using lenient_load [of c s] by (simp add: typed_at_def)
  with s show "typed_at c K h (snd (in_world (io_or [] (load_ssh_keys_from_file c (AesGcmCrypto K))) s))" by simp
  obtain r v where run: "load_ssh_keys_from_file c (AesGcmCrypto K) (ag_world s) = (r, v)" by fastforce
  have "typed_disk c (AesGcmCrypto K) (ag_world s)" using s by (auto simp: typed_at_def typed_agent_def)
  then have "typed_entries c (assumed_keys c s)"
    using typed_load [of c "AesGcmCrypto K" "ag_world s"] s run
    by (auto simp: assumed_keys_def stored_keys_def typed_at_def split: outcome.split)
  with assms l show "typed_task c K h R (k es)"
    if "fst (in_world (io_or [] (load_ssh_keys_from_file c (AesGcmCrypto K))) s) = Ok es" for es
    using that by simp
qed

lemma typed_passphrase:
  "typed_task c K h R (k K) \<Longrightarrow> typed_task c K h R (act (io_get ag_passphrase) k)"
  by (rule typed_get) (simp add: typed_at_def)

lemma typed_cipher:
  "(length K = 32 \<Longrightarrow> typed_task c K h R (k (AesGcmCrypto K))) \<Longrightarrow> typed_task c K h R (act (io_of (aes_new K)) k)"
  by (rule typed_step) (auto simp: aes_new_eq_Ok)

section \<open>The handlers\<close>

text \<open>What a request may be answered with.\<close>

fun reply_typed :: "crates \<Rightarrow> job \<Rightarrow> reply \<Rightarrow> bool" where
  "reply_typed c (Handle p ReqIdentities) x \<longleftrightarrow>
     (\<exists>ids. x = IdentitiesReply ids \<and> distinct (map (\<lambda>i. fingerprint_str c (id_pubkey i)) ids))"
| "reply_typed c (Handle p (ReqSign r)) x \<longleftrightarrow>
     (\<exists>k sg. x = SignReply sg \<and> typed_key c (fingerprint_str c (sr_pubkey r)) k \<and> sign_with_key c k (sr_data r) = Ok sg)"
| "reply_typed c (Handle p (ReqExtension e)) x \<longleftrightarrow>
     (\<exists>o'. x = ExtensionReply o' \<and> (\<forall>e'. o' = Some e' \<longrightarrow> ex_name e' = ex_name e))"
| "reply_typed c _ x \<longleftrightarrow> x = UnitReply"

lemma typed_ensure [typing_rules]: "typed_task c K h R k \<Longrightarrow> typed_task c K h R (ensure_task c k)"
  unfolding ensure_task_def by (intro typing_rules typed_reload typed_set_keys; (assumption | rule typed_act, intro typing_rules))+

lemma identities_typed: "typed_task c K h (reply_typed c (Handle p ReqIdentities)) (identities_task c)"
  unfolding identities_task_def
proof (intro typing_rules typed_get)
  fix s :: agent
  let ?ids = "map (\<lambda>(_, privkey). \<lparr>id_pubkey = public_key_data c privkey, id_comment = pk_comment privkey\<rparr>) (ag_keys s)"
  assume "typed_at c K h s"
  then have ks: "typed_keys c (ag_keys s)" by (simp add: typed_at_def typed_agent_def)
  then have "map (\<lambda>i. fingerprint_str c (id_pubkey i)) ?ids = map fst (ag_keys s)"
    by (auto simp: typed_keys_def typed_key_def)
  with ks have "distinct (map (\<lambda>i. fingerprint_str c (id_pubkey i)) ?ids)"
    by (simp only: typed_keys_def)
  then show "reply_typed c (Handle p ReqIdentities) (IdentitiesReply ?ids)"
    unfolding reply_typed.simps by blast
qed simp

lemma sign_typed: "typed_task c K h (reply_typed c (Handle p (ReqSign r))) (sign_task c q r)"
  unfolding sign_task_def
proof (intro typing_rules typed_get)
  fix s k
  assume "typed_at c K h s" and k: "map_of (ag_keys s) (fingerprint_str c (sr_pubkey r)) = Some k"
  then have t: "typed_key c (fingerprint_str c (sr_pubkey r)) k"
    by (auto simp: typed_at_def typed_agent_def dest: typed_keys_lookup)
  have sg: "typed_task c K h (reply_typed c (Handle p (ReqSign r)))
      (act (io_of (sign_with_key c k (sr_data r))) (\<lambda>sg. answer (SignReply sg)))"
    by (rule typed_step) (use t in auto)
  show "typed_task c K h (reply_typed c (Handle p (ReqSign r))) (sign_found c q r k)"
    unfolding sign_found_def Let_def by (rule sg | rule typing_rules | rule typed_act)+
qed

lemma extension_typed: "typed_task c K h (reply_typed c (Handle p (ReqExtension e))) (extension_task c q e)"
  unfolding extension_task_def extension_body_def encrypt_task_def decrypt_task_def auth_task_def
    if_distrib [of "\<lambda>f. f _"]
  by (intro typing_rules typed_act; simp)

lemmas typing_first = typed_passphrase typed_cipher typed_reload_attempt typed_load_lenient typed_set_keys

lemma typed_of:
  "(\<And>x. r = Ok x \<Longrightarrow> typed_task c K h R (k x)) \<Longrightarrow> typed_task c K h R (act (io_of r) k)"
  by (rule typed_step) auto

lemma new_entry_typed:
  assumes "key_laws c" and "private_key_new c kd cm = Inr k" and "supported_key k" and "openssh_print c k = Inr enc"
  shows "typed_entry c \<lparr>ke_fingerprint = fingerprint_str c (public_key_data c k), ke_algorithm = key_algorithm c k,
      ke_comment = cm, ke_key_data = enc\<rparr>"
proof -
  have "openssh_parse c (as_bytes enc) = Inr k" using assms(1,3,4) by (simp add: key_laws_def key_codec_ok_def)
  moreover have "pk_comment k = cm" using new_key [OF assms(1,2)] by simp
  ultimately show ?thesis using assms(3) by (simp add: typed_entry_def typed_key_def)
qed

lemma add_typed:
  assumes laws: "key_laws c"
  shows "typed_task c K h (\<lambda>x. x = UnitReply) (add_task c cred)"
proof (cases cred)
  case (KeyCredential kd cm)
  have store: "typed_task c K h (\<lambda>x. x = UnitReply) (add_store_task c fp e k (AesGcmCrypto K))"
    if t: "typed_key c fp k" "typed_entry c e" "ke_fingerprint e = fp" for fp e k
  proof -
    have more: "typed_entries c (es @ [e])" if "typed_entries c es" "\<not> (\<exists>x \<in> set es. ke_fingerprint x = fp)" for es
      using that t by simp
    show ?thesis
      unfolding add_store_task_def
      by (rule typing_first typed_save_when laws more t typing_rules refl typed_act | assumption)+
  qed
  show ?thesis
    unfolding add_task_def KeyCredential credential.case Let_def
  proof (rule typing_first typing_rules typed_of | assumption)+
    fix k u enc
    assume "of_sum Msg (private_key_new c kd cm) = Ok k" "ensure (supported_key k) AgentFailure = Ok u"
      "of_sum Msg (openssh_print c k) = Ok enc"
    then have k: "private_key_new c kd cm = Inr k" "supported_key k" "openssh_print c k = Inr enc"
      by (simp_all add: ensure_def split: if_splits)
    show "typed_task c K h (\<lambda>x. x = UnitReply) (add_store_task c (fingerprint_str c (public_key_data c k))
        \<lparr>ke_fingerprint = fingerprint_str c (public_key_data c k), ke_algorithm = key_algorithm c k,
          ke_comment = cm, ke_key_data = enc\<rparr> k (AesGcmCrypto K))"
      by (rule store) (simp_all add: new_entry_typed [OF laws k] typed_key_def k(2))
  qed
qed (simp add: add_task_def typing_rules)

lemma removals_typed:
  assumes laws: "key_laws c"
  shows "typed_task c K h (\<lambda>x. x = UnitReply) (remove_task c pub)"
    and "typed_task c K h (\<lambda>x. x = UnitReply) (remove_all_task c)"
proof -
  have cases: "typed_task c K h R (case aes_new K of Ok a \<Rightarrow> f a | Err e \<Rightarrow> g | Panic m \<Rightarrow> g)"
    if "typed_task c K h R (f (AesGcmCrypto K))" "typed_task c K h R g" for R f g
    using that by (auto simp: aes_new_eq_Ok split: outcome.split)
  show "typed_task c K h (\<lambda>x. x = UnitReply) (remove_task c pub)"
    "typed_task c K h (\<lambda>x. x = UnitReply) (remove_all_task c)"
    unfolding remove_task_def remove_all_task_def Let_def
    by ((rule typing_first cases typed_save_attempt laws typed_entries_simps(1,2) typed_keys_simps(1) typing_rules refl | assumption)+)
qed

lemma locks_typed:
  "typed_task c K h (\<lambda>x. x = UnitReply) (lock_task c' pw)"
  "typed_task c K h (\<lambda>x. x = UnitReply) (unlock_task c pw)"
  "typed_task c K h (\<lambda>x. x = UnitReply) (idle_sweep_task timeout)"
  "typed_task c K h (\<lambda>x. x = UnitReply) cache_sweep_task"
  unfolding lock_task_def unlock_task_def idle_sweep_task_def cache_sweep_task_def Let_def
  by ((simp only: sum.case | rule typing_first typed_keys_simps typing_rules refl typed_act | assumption)+)

text \<open>What other programs do keeps the types if what they leave in the key file is typed.\<close>

fun brings_typed :: "crates \<Rightarrow> bytes \<Rightarrow> string option \<Rightarrow> job \<Rightarrow> bool" where
  "brings_typed c K h (FilesChange fs) \<longleftrightarrow> typed_files c (AesGcmCrypto K) h fs"
| "brings_typed c K h _ \<longleftrightarrow> True"

lemma outside_typed:
  assumes "\<And>w. home (f w) = home w" and "\<And>w. home w = h \<Longrightarrow> typed_disk c (AesGcmCrypto K) w \<Longrightarrow> typed_disk c (AesGcmCrypto K) (f w)"
  shows "typed_task c K h (\<lambda>x. x = UnitReply) (outside_task f)"
  unfolding outside_task_def
  by (rule typed_step) (use assms in \<open>auto simp: typed_at_def typed_agent_def\<close>)

lemma reply_unit:
  "reply_typed c (Handle p (ReqAdd cred)) = (\<lambda>x. x = UnitReply)"
  "reply_typed c (Handle p (ReqRemove pub)) = (\<lambda>x. x = UnitReply)"
  "reply_typed c (Handle p ReqRemoveAll) = (\<lambda>x. x = UnitReply)"
  "reply_typed c (Handle p (ReqLock pw)) = (\<lambda>x. x = UnitReply)"
  "reply_typed c (Handle p (ReqUnlock pw)) = (\<lambda>x. x = UnitReply)"
  "reply_typed c (SweepIdle n) = (\<lambda>x. x = UnitReply)"
  "reply_typed c SweepCache = (\<lambda>x. x = UnitReply)"
  "reply_typed c (TimePasses n') = (\<lambda>x. x = UnitReply)"
  "reply_typed c (FilesChange fs) = (\<lambda>x. x = UnitReply)"
  "reply_typed c (ProcsChange st ex) = (\<lambda>x. x = UnitReply)"
  "reply_typed c (ClockMoves d t u) = (\<lambda>x. x = UnitReply)"
  by (rule ext, simp)+

lemma outside_steps_typed:
  "typed_task c K h (\<lambda>x. x = UnitReply) (outside_task (\<lambda>w. w\<lparr>instant := instant w + n\<rparr>))"
  "typed_task c K h (\<lambda>x. x = UnitReply) (outside_task (\<lambda>w. w\<lparr>today := d, timestamp := t, unix_time := u\<rparr>))"
  "typed_task c K h (\<lambda>x. x = UnitReply) (outside_task (\<lambda>w. w\<lparr>proc_stat := st, proc_exe := ex\<rparr>))"
  "typed_files c (AesGcmCrypto K) h fs \<Longrightarrow>
     typed_task c K h (\<lambda>x. x = UnitReply) (outside_task (\<lambda>w. w\<lparr>files := fs\<rparr>))"
  by (rule outside_typed; simp add: typed_disk_def vault_whole_def)+

lemma job_typed:
  assumes "key_laws c" and "brings_typed c K h j"
  shows "typed_task c K h (reply_typed c j) (job_task c j)"
proof (cases j)
  case (Handle p r)
  then show ?thesis
    using assms(1) by (cases r) (simp_all add: identities_typed sign_typed extension_typed add_typed removals_typed locks_typed
      reply_unit del: reply_typed.simps)
qed (use assms in \<open>simp_all add: locks_typed outside_steps_typed reply_unit del: reply_typed.simps\<close>)

section \<open>Any schedule\<close>

definition typed_pool :: "crates \<Rightarrow> bytes \<Rightarrow> string option \<Rightarrow> job list \<Rightarrow> pool \<Rightarrow> bool" where
  "typed_pool c K h js P \<longleftrightarrow> typed_at c K h (po_agent P) \<and> length (po_tasks P) = length js \<and>
     (\<forall>i < length js. case po_answers P i of
        None \<Rightarrow> typed_task c K h (reply_typed c (js ! i)) (po_tasks P ! i)
      | Some r \<Rightarrow> \<forall>x. r = Ok x \<longrightarrow> reply_typed c (js ! i) x)"

lemma typed_pool_move:
  assumes P: "typed_pool c K h js P" and m: "move i P = Some Q"
  shows "typed_pool c K h js Q"
proof -
  have len: "length (po_tasks P) = length js" and a: "typed_at c K h (po_agent P)"
    using P by (simp_all add: typed_pool_def)
  have i: "i < length js" "po_answers P i = None"
    using m len by (auto simp: move_def split: if_splits)
  then have t: "typed_task c K h (reply_typed c (js ! i)) (po_tasks P ! i)"
    using P by (auto simp: typed_pool_def)
  have next_task: "typed_pool c K h js Q'"
    if "typed_at c K h (po_agent Q')" "typed_task c K h (reply_typed c (js ! i)) k"
      "po_tasks Q' = (po_tasks P)[i := k]" "po_answers Q' = po_answers P" for Q' k
    using P i that by (auto simp: typed_pool_def nth_list_update split: option.split)
  show ?thesis
    using m
  proof (cases rule: move_cases)
    case (finish r)
    then show ?thesis using P i t by (auto simp: typed_pool_def split: option.split)
  next
    case (run upd nxt)
    with t a show ?thesis by (intro next_task [of _ "nxt (po_agent P)"]) simp_all
  next
    case (ask l m k)
    with P show ?thesis by (simp add: typed_pool_def cong: option.case_cong)
  next
    case (grant l m k ws)
    with t a show ?thesis by (intro next_task [of _ k]) simp_all
  next
    case (drop l k)
    with t a show ?thesis by (intro next_task [of _ k]) simp_all
  qed
qed

lemma typed_pool_run: "typed_pool c K h js P \<Longrightarrow> typed_pool c K h js (pool_run P sched)"
  by (induction sched arbitrary: P) (auto simp: nudge_def typed_pool_move split: option.split)

lemma typed_pool_start:
  "typed_at c K h s \<Longrightarrow> key_laws c \<Longrightarrow> \<forall>j \<in> set js. brings_typed c K h j \<Longrightarrow> typed_pool c K h js (job_pool c s js)"
  by (simp add: typed_pool_def job_typed)

text \<open>Starting leaves the key file as it is, and the agent that starts on a typed one is typed.\<close>

definition keeps_file :: "string \<Rightarrow> world \<Rightarrow> world \<Rightarrow> bool" where
  "keeps_file p w v \<longleftrightarrow> home v = home w \<and> read_err v = read_err w \<and> write_err v = write_err w \<and>
     mkdir_err v = mkdir_err w \<and> files v p = files w p \<and> (p \<in> dirs v \<longleftrightarrow> p \<in> dirs w)"

interpretation keepfile: frame_rel "keeps_file p" for p
  by unfold_locales (auto simp: keeps_file_def)

lemma keeps_file_prims:
  "within (keeps_file p) home_dir"
  "within (keeps_file p) (fs_exists q)"
  "within (keeps_file p) (println s)"
  "q \<noteq> p \<Longrightarrow> within (keeps_file p) (create_dir_all q)"
  "q \<noteq> p \<Longrightarrow> within (keeps_file p) (fs_remove q)"
  by (auto simp: within_def keeps_file_def fs_defs fs_remove_def split: option.splits)

lemma startup_keeps_file:
  assumes run: "run_ssh_agent_inner c pid pe mode sd dd K token pin w = (Ok s, v)"
  obtains ks h where "home w = Some h" and "load_all_keys c K w = (Ok ks, w)"
    and "s = agent_new ks mode sd dd K token pin v" and "keeps_file (vt_file h ''ssh_keys.enc'') w v"
proof -
  let ?rest = "\<lambda>h. io_bind (fs_exists (path_join (path_join h ''.ssh'') ''vt-yubi.sock'')) (\<lambda>ex.
      io_seq (io_when ex (fs_remove (path_join (path_join h ''.ssh'') ''vt-yubi.sock''))) (
      io_bind home_dir (\<lambda>hm.
      io_seq (create_dir_all (path_join hm ''.ssh'')) (
      io_when pe (io_seq (println (''export SSH_AUTH_SOCK='' @ path_join (path_join h ''.ssh'') ''vt-yubi.sock'' @ '';''))
        (println (''echo Agent pid '' @ pid @ '';'')))))))"
  obtain ks u where ks: "load_all_keys c K w = (Ok ks, u)"
    using run by (auto simp: run_ssh_agent_inner_def io_bind_eq_Ok)
  have u: "u = w" using ks by (rule load_all_keys_state)
  obtain h where h: "home w = Some h"
    using run ks u by (cases "home w") (auto simp: run_ssh_agent_inner_def io_bind_def socket_path_def home_dir_def)
  have r: "?rest h w = (Ok (), v)" and s: "s = agent_new ks mode sd dd K token pin v"
    using run ks u h by (auto simp: run_ssh_agent_inner_def io_bind_eq_Ok io_seq_def socket_path_def home_dir_def)
  have "within (keeps_file (vt_file h ''ssh_keys.enc'')) (?rest h)"
    by (intro keepfile.all keeps_file_prims) (auto simp: path_join_def dest: arg_cong [of _ _ last])
  from withinD [OF this r] show thesis using that h ks s u by blast
qed

lemma startup_typed:
  assumes run: "run_ssh_agent_inner c pid pe mode sd dd K token pin w = (Ok s, v)" and w: "typed_disk c (AesGcmCrypto K) w"
  shows "typed_agent c s"
proof -
  obtain ks h where h: "home w = Some h" and ks: "load_all_keys c K w = (Ok ks, w)"
    and s: "s = agent_new ks mode sd dd K token pin v" and f: "keeps_file (vt_file h ''ssh_keys.enc'') w v"
    using run by (rule startup_keeps_file)
  then have "keeps_store w v" by (simp add: keeps_file_def keeps_store_def)
  then have "typed_disk c (AesGcmCrypto K) v" using w keeps_store_typed by blast
  moreover have "typed_keys c ks" by (rule typed_load_all [OF w ks])
  ultimately show ?thesis by (simp add: s typed_agent_def agent_new_def)
qed

section \<open>The commands on the key file\<close>

definition typed_under :: "crates \<Rightarrow> aes_gcm_crypto \<Rightarrow> world \<Rightarrow> bool" where
  "typed_under c a w \<longleftrightarrow> (\<forall>es. key_entries c a w = Ok es \<longrightarrow> typed_entries c es)"

lemma curve_supported: "check_curve c k = Ok () \<Longrightarrow> supported_key k"
  by (auto simp: check_curve_def supported_key_def split: keypair.splits ecdsa_curve.splits)

lemma supported_data: "pk_key_data k = pk_key_data k' \<Longrightarrow> supported_key k \<longleftrightarrow> supported_key k'"
  by (simp add: supported_key_def)

lemma commented_entry_typed:
  assumes laws: "key_laws c" and m: "typed_entry c m" "openssh_parse c (as_bytes (ke_key_data m)) = Inr parsed"
    and k: "private_key_new c (pk_key_data parsed) cm = Inr k" "openssh_print c k = Inr enc"
  shows "typed_entry c (m\<lparr>ke_comment := cm, ke_key_data := enc\<rparr>)"
proof -
  have "k = parsed\<lparr>pk_comment := cm\<rparr>" using new_key [OF laws k(1)] by simp
  moreover have "supported_key parsed" using m by (simp add: typed_entry_def typed_key_def)
  ultimately have "supported_key k" "public_key_data c k = public_key_data c parsed"
    "key_algorithm c k = key_algorithm c parsed" "pk_comment k = cm"
    using laws supported_data [of k parsed] by (auto simp: key_laws_def key_codec_ok_def)
  moreover have "openssh_parse c (as_bytes enc) = Inr k"
    using laws k(2) \<open>supported_key k\<close> by (auto simp: key_laws_def key_codec_ok_def)
  ultimately show ?thesis using m by (simp add: typed_entry_def typed_key_def)
qed

text \<open>
  The other programs that write the key file are the commands of \<open>ssh_cli.rs\<close>: each of them, successful or not (but not cut off),
  leaves a typed file to the cipher of the vault typed, \<open>ssh comment\<close> with its new entry included.
\<close>

theorem commands_keep_types:
  assumes laws: "key_laws c" and rd: "keys_readable w" and wh: "vault_whole w" and run: "run_ssh c cmd w = (r, v)"
    and a: "\<And>reason b u. open_and_load_cipher c reason w = (Ok b, u) \<Longrightarrow> b = a" and t: "typed_under c a w"
  shows "typed_under c a v"
proof (cases r)
  case (Ok x)
  then have ok: "run_ssh c cmd w = (Ok (), v)" using run by simp
  have l: "aead_ok c" "serde_ok (js_ssh_keys c)" using laws by (simp_all add: key_laws_def)
  show ?thesis
  proof (cases cmd)
    case (SshAdd fl comment)
    then obtain es e k parsed where e: "key_entries c a w = Ok es" "check_curve c parsed = Ok ()"
      "private_key_new c (pk_key_data parsed) (ke_comment e) = Inr k" "openssh_print c k = Inr (ke_key_data e)"
      "e = \<lparr>ke_fingerprint = fingerprint_sha256 c (public_key_data c k), ke_algorithm = key_algorithm c k,
         ke_comment = ke_comment e, ke_key_data = ke_key_data e\<rparr>"
      "key_entries c a v = Ok (if ke_fingerprint e \<in> ke_fingerprint ` set es then es else es @ [e])"
      using ssh_add_effect [OF l rd, of fl comment v] ok a by (simp only: run_ssh.simps) metis
    have "pk_key_data k = pk_key_data parsed" using new_key [OF laws e(3)] by simp
    then have "supported_key k" using curve_supported [OF e(2)] supported_data by blast
    then have te: "typed_entry c e"
      using new_entry_typed [OF laws e(3) _ e(4)] e(5) by (simp add: fingerprint_str_def)
    have es: "typed_entries c es" using t e(1) by (simp add: typed_under_def)
    have "typed_entries c (es @ [e])" if "ke_fingerprint e \<notin> ke_fingerprint ` set es"
      by (rule typed_entries_simps(3) [OF es te]) (metis image_eqI that)
    with es e(6) show ?thesis by (simp add: typed_under_def)
  next
    case (SshRemove fp)
    then obtain es where "key_entries c a w = Ok es" "key_entries c a v = Ok (filter (\<lambda>e. \<not> contains (ke_fingerprint e) fp) es)"
      using ssh_remove_effect [OF l rd, of fp v] ok a by (simp only: run_ssh.simps) metis
    with t show ?thesis by (simp add: typed_under_def)
  next
    case SshRemoveAll
    then obtain b u t ls where u: "open_and_load_cipher c ''remove all SSH keys'' w = (Ok b, u)"
      and sv: "save_ssh_keys_to_file c b [] u = (Ok (), t)" and v: "v = t\<lparr>stdout := ls\<rparr>"
      using ok by (auto simp: ssh_remove_all_def io_bind_eq_Ok)
    have "key_entries c b v = Ok []"
      using key_entries_saved [OF l key_entries_cipher(2) [OF u rd] sv] by (simp add: v)
    then show ?thesis using a [OF u] by (simp add: typed_under_def)
  next
    case (SshComment fp comment)
    let ?q = "\<lambda>e. contains (ke_fingerprint e) fp"
    have eff: "ssh_comment c fp comment w = (Ok (), v)" using ok SshComment by simp
    obtain b u es m parsed k enc where u: "open_and_load_cipher c ''change SSH key comment'' w = (Ok b, u)"
      and es': "key_entries c b w = Ok es" and es: "filter ?q es = [m]"
      and p: "openssh_parse c (as_bytes (ke_key_data m)) = Inr parsed"
        "private_key_new c (pk_key_data parsed) comment = Inr k" "openssh_print c k = Inr enc"
      and v': "key_entries c b v = Ok (map (\<lambda>e. if ?q e then e\<lparr>ke_comment := comment, ke_key_data := enc\<rparr> else e) es)"
      using ssh_comment_effect [OF l rd eff] by blast
    have ba: "b = a" using u by (rule a)
    note v = v' [unfolded ba]
    have typed: "typed_entries c es" using t es' by (simp add: typed_under_def ba)
    have m: "e = m" if "e \<in> set es" "?q e" for e
    proof -
      have "e \<in> set (filter ?q es)" using that by simp
      then show ?thesis by (simp add: es)
    qed
    have "m \<in> set (filter ?q es)" by (simp add: es)
    then have "m \<in> set es" by simp
    then have "typed_entry c (m\<lparr>ke_comment := comment, ke_key_data := enc\<rparr>)"
      using commented_entry_typed [OF laws _ p] typed by (simp add: typed_entries_def list_all_iff)
    with m typed have "list_all (typed_entry c) (map (\<lambda>e. if ?q e then e\<lparr>ke_comment := comment, ke_key_data := enc\<rparr> else e) es)"
      by (auto simp: typed_entries_def list_all_iff)
    moreover have "map ke_fingerprint (map (\<lambda>e. if ?q e then e\<lparr>ke_comment := comment, ke_key_data := enc\<rparr> else e) es)
        = map ke_fingerprint es" by simp
    ultimately have "typed_entries c (map (\<lambda>e. if ?q e then e\<lparr>ke_comment := comment, ke_key_data := enc\<rparr> else e) es)"
      using typed by (simp only: typed_entries_def)
    then show ?thesis using v by (simp only: typed_under_def outcome.inject) blast
  next
    case SshList
    have "within same_entries (run_ssh c cmd)"
      by (simp only: SshList run_ssh.simps ssh_list_def) (intro frame_intros)
    from withinD [OF this run] t show ?thesis by (simp add: same_entries_def typed_under_def)
  next
    case (SshShow fp)
    have "within same_entries (run_ssh c cmd)"
      by (simp only: SshShow run_ssh.simps ssh_show_def) (intro frame_intros)
    from withinD [OF this run] t show ?thesis by (simp add: same_entries_def typed_under_def)
  qed
next
  case (Err e)
  then have "same_entries w v \<or> keys_cut w v" using fails_clean_ssh [of c cmd] run by (simp add: fails_clean_def)
  with whole_not_cut [OF wh] have "same_entries w v" by blast
  with t show ?thesis by (simp add: same_entries_def typed_under_def)
next
  case (Panic p)
  with gated_outcome [OF gated_ssh run] show ?thesis by blast
qed

text \<open>
  C12. The keys stay well typed in any schedule.  From an agent and a key file in which every key is a P-256 or P-384
  key under its own fingerprint, without duplicates and with truthful entries, on a disk that does not cut a write of
  that file off, any requests, sweeps and typed changes of the files by others lead, however they overlap, to an agent and a key file of the same
  types, and each answer has the type of its request: an identity listed has a fingerprint no other has, and a
  signature is made with a key whose fingerprint is that of the public key it was asked for.
\<close>

theorem keys_stay_typed:
  assumes "key_laws c" and "typed_agent c s"
    and "\<forall>fs. FilesChange fs \<in> set js \<longrightarrow> typed_files c (AesGcmCrypto (ag_passphrase s)) (home (ag_world s)) fs"
    and "P = pool_run (job_pool c s js) sched"
  shows "typed_agent c (po_agent P) \<and>
    (\<forall>i x. i < length js \<longrightarrow> po_answers P i = Some (Ok x) \<longrightarrow> reply_typed c (js ! i) x)"
proof -
  let ?K = "ag_passphrase s" and ?h = "home (ag_world s)"
  have "brings_typed c ?K ?h j" if "j \<in> set js" for j
    using assms(3) that by (cases j) auto
  then have "typed_pool c ?K ?h js P"
    unfolding assms(4) using assms(1,2) by (intro typed_pool_run typed_pool_start) (simp_all add: typed_at_def)
  then show ?thesis by (auto simp: typed_pool_def typed_at_def)
qed

text \<open>A concrete \<open>ssh-key\<close> with the laws: the fields of a key, escaped.\<close>

fun demo_key_text :: "private_key \<Rightarrow> string + string" where
  "demo_key_text \<lparr>pk_key_data = Ecdsa NistP256 a b, pk_comment = cm\<rparr> = Inr (of_bytes (esc_list [[0], a, b, as_bytes cm]))"
| "demo_key_text \<lparr>pk_key_data = Ecdsa NistP384 a b, pk_comment = cm\<rparr> = Inr (of_bytes (esc_list [[1], a, b, as_bytes cm]))"
| "demo_key_text _ = Inl ''unsupported''"

definition demo_key_parse :: "bytes \<Rightarrow> string + private_key" where
  "demo_key_parse bs = (case unesc_list bs of
     Some [t, a, b, cm] \<Rightarrow> Inr \<lparr>pk_key_data = Ecdsa (if t = [0] then NistP256 else NistP384) a b, pk_comment = of_bytes cm\<rparr>
   | _ \<Rightarrow> Inl ''malformed'')"

definition codec_crates :: crates where
  "codec_crates = demo_crates\<lparr>openssh_print := demo_key_text, openssh_parse := demo_key_parse\<rparr>"

lemma codec_crates_laws: "key_laws codec_crates"
proof -
  have "demo_key_parse (as_bytes s) = Inr k" if "demo_key_text k = Inr s" for k s
    using that by (cases k rule: demo_key_text.cases) (auto simp: demo_key_parse_def simp del: esc_list.simps)
  moreover have "aead_ok codec_crates" using demo_aead_ok by (simp add: aead_ok_def codec_crates_def)
  ultimately show ?thesis
    using demo_serde_ok(3) by (simp add: key_laws_def key_codec_ok_def codec_crates_def demo_crates_def)
qed

theorem keys_stay_typed_witness:
  "\<exists>sched. let P = pool_run (job_pool codec_crates demo_agent [Handle None ReqIdentities, Handle None (ReqLock ''a'')]) sched in
    po_answers P 0 = Some (Ok (IdentitiesReply [\<lparr>id_pubkey = [7], id_comment = pk_comment demo_key\<rparr>])) \<and>
    typed_agent codec_crates (po_agent P) \<and>
    reply_typed codec_crates (Handle None ReqIdentities)
      (IdentitiesReply [\<lparr>id_pubkey = [7], id_comment = pk_comment demo_key\<rparr>])"
proof -
  let ?js = "[Handle None ReqIdentities, Handle None (ReqLock ''a'')]"
  let ?x = "IdentitiesReply [\<lparr>id_pubkey = [7], id_comment = pk_comment demo_key\<rparr>]"
  let ?P = "job_pool codec_crates demo_agent ?js"
  have c: "public_key_data codec_crates = public_key_data demo_crates"
    "fingerprint_sha256 codec_crates = fingerprint_sha256 demo_crates" by (simp_all add: codec_crates_def)
  have "job_atomic codec_crates (?js ! 0) demo_agent = (Ok ?x, demo_agent)"
    by (simp add: replies_def io_bind_eval request_identities_eval ensure_eval identity_of_def c demo_public)
  then obtain n where n: "pool_run ?P (replicate n 0) = finished 0 (Ok ?x, demo_agent) ?P"
    using first_turn [of 0 ?js demo_agent codec_crates] by auto
  have "typed_agent codec_crates demo_agent"
    using demo_supported demo_public
    by (simp add: typed_agent_def typed_keys_def typed_key_def typed_disk_def typed_files_def vault_whole_def fingerprint_str_def c)
  then have "typed_agent codec_crates (po_agent (pool_run ?P (replicate n 0))) \<and>
      (\<forall>i x. i < length ?js \<longrightarrow> po_answers (pool_run ?P (replicate n 0)) i = Some (Ok x) \<longrightarrow> reply_typed codec_crates (?js ! i) x)"
    by (rule keys_stay_typed [OF codec_crates_laws _ _ refl]) simp
  then have "typed_agent codec_crates (po_agent (pool_run ?P (replicate n 0)))"
    and "reply_typed codec_crates (?js ! 0) ?x" unfolding n by fastforce+
  moreover have "po_answers (pool_run ?P (replicate n 0)) 0 = Some (Ok ?x)" unfolding n by simp
  ultimately show ?thesis unfolding Let_def by (intro exI [of _ "replicate n 0"]) simp
qed

end
