(* ===== verification/Vt_Serve.thy ===== *)
theory Vt_Serve
  imports Vt_Agent_Run Vt_No_Panic
begin

text \<open>
  \<open>src/serve.rs\<close>: the start of \<open>vt-yubi serve\<close> and its optional HTTP server, two handlers under the
  middleware that opens requests and seals responses with the transport key.  The framework \<open>axum\<close> is
  a record of functions: which content types its \<open>Json\<close> extractor takes, what it answers when it
  rejects a request, and what it answers on other routes.
\<close>

section \<open>Requests, responses and the framework\<close>

record http_request =
  hq_method :: string
  hq_path :: string
  hq_content_type :: "string option"
  hq_body :: bytes

record http_response =
  hs_status :: nat
  hs_body :: bytes

record axum =
  ax_json_type :: "string option \<Rightarrow> bool"
  ax_unsupported :: string
  ax_json_reject :: "string \<Rightarrow> nat \<times> string"
  ax_fallback :: "string \<Rightarrow> string \<Rightarrow> http_response"
  ax_parse_addr :: "string \<Rightarrow> string + string"
  ax_bind_err :: "string \<Rightarrow> string option"

definition max_body_size :: nat where
  "max_body_size = 1024 * 1024"

definition text_response :: "nat \<Rightarrow> string \<Rightarrow> http_response" where
  "text_response status body = \<lparr>hs_status = status, hs_body = as_bytes body\<rparr>"

definition json_response :: "'a serde \<Rightarrow> 'a \<Rightarrow> http_response" where
  "json_response j x = (case ser j x of
     Inr bs \<Rightarrow> \<lparr>hs_status = 200, hs_body = bs\<rparr>
   | Inl e \<Rightarrow> text_response 500 e)"

text \<open>The extractor: the content type first, then the body.\<close>

definition json_extract :: "axum \<Rightarrow> 'a serde \<Rightarrow> http_request \<Rightarrow> http_response + 'a" where
  "json_extract ax j req =
     (if \<not> ax_json_type ax (hq_content_type req) then Inl (text_response 415 (ax_unsupported ax))
      else case de j (hq_body req) of
        Inl e \<Rightarrow> Inl (case ax_json_reject ax e of (status, body) \<Rightarrow> text_response status body)
      | Inr x \<Rightarrow> Inr x)"

section \<open>Handlers\<close>

record app_state =
  st_passphrase :: bytes
  st_pin :: string

definition handler_decrypt :: "crates \<Rightarrow> app_state \<Rightarrow> decrypt_req \<Rightarrow> http_response wio" where
  "handler_decrypt c state payload =
     (let local_auth_message = format_decrypt_prompt payload [] in
      io_bind (io_or False (verify_presence_with_pin c (st_pin state) local_auth_message)) (\<lambda>approved.
      io_seq (log_decrypt c None [] payload approved) (
      if \<not> approved then io_ret (text_response 403 ''User Rejected'')
      else case aes_new (st_passphrase state) of
        Ok cipher \<Rightarrow>
          io_bind (io_get (\<lambda>w. do_decrypt c cipher (unix_time w) (dr_items payload))) (\<lambda>r.
          io_bind (io_of r) (\<lambda>res. io_ret (json_response (js_results c) res)))
      | _ \<Rightarrow> io_ret (text_response 500 ''Failed to load passphrase cipher''))))"

definition handler_encrypt :: "crates \<Rightarrow> app_state \<Rightarrow> encrypt_item list \<Rightarrow> http_response wio" where
  "handler_encrypt c state payload =
     io_seq (log_encrypt c None [] (length payload)) (
     case aes_new (st_passphrase state) of
       Ok cipher \<Rightarrow>
         io_bind (do_encrypt c cipher payload) (\<lambda>res. io_ret (json_response (js_results c) res))
     | _ \<Rightarrow> io_ret (text_response 500 ''Failed to load passphrase cipher''))"

definition routes :: "crates \<Rightarrow> axum \<Rightarrow> app_state \<Rightarrow> http_request \<Rightarrow> http_response wio" where
  "routes c ax state req =
     (if hq_method req = ''POST'' \<and> hq_path req = ''/decrypt'' then
        (case json_extract ax (js_decrypt_req c) req of
           Inl rejection \<Rightarrow> io_ret rejection
         | Inr payload \<Rightarrow> handler_decrypt c state payload)
      else if hq_method req = ''POST'' \<and> hq_path req = ''/encrypt'' then
        (case json_extract ax (js_encrypt_items c) req of
           Inl rejection \<Rightarrow> io_ret rejection
         | Inr payload \<Rightarrow> handler_encrypt c state payload)
      else io_ret (ax_fallback ax (hq_method req) (hq_path req)))"

section \<open>Middleware\<close>

text \<open>
  The redaction of logged bodies: every match of the regular expression made of the quoted field name, a
  colon, a quote, characters that are not quotes, and a quote.
\<close>

definition quote_mark :: char where
  "quote_mark = CHR 0x22"

definition field_prefix :: "string \<Rightarrow> string" where
  "field_prefix field = [quote_mark] @ field @ [quote_mark, CHR '':'', quote_mark]"

function redact :: "string \<Rightarrow> string \<Rightarrow> string" where
  "redact field [] = []"
| "redact field (x # s) =
     (let p = field_prefix field;
          r = drop (length p) (x # s);
          v = takeWhile (\<lambda>y. y \<noteq> quote_mark) r in
      if starts_with (x # s) p \<and> v \<noteq> r
      then p @ ''****'' @ [quote_mark] @ redact field (drop (Suc (length v)) r)
      else x # redact field s)"
  by pat_completeness auto
termination
  by (relation "measure (\<lambda>(field, s). length s)") auto

declare redact.simps(2) [simp del]

definition request_line :: "bytes \<Rightarrow> string" where
  "request_line body =
     (case from_utf8 body of
        Some s \<Rightarrow> ''request body: '' @ redact ''plaintext'' s
      | None \<Rightarrow> ''Decrypted request body: <non-UTF8 data>'')"

definition response_line :: "string \<Rightarrow> bytes \<Rightarrow> string" where
  "response_line request_path body =
     (case from_utf8 body of
        Some s \<Rightarrow> ''response body: '' @ (if request_path = ''/decrypt'' then redact ''result'' s else s)
      | None \<Rightarrow> ''raw response body: <non-UTF8 data>'')"

text \<open>The way back, from the handler's response to the sealed one.\<close>

definition seal_response ::
  "crates \<Rightarrow> aes_gcm_crypto \<Rightarrow> string \<Rightarrow> http_response \<Rightarrow> http_response wio" where
  "seal_response c auth_cipher request_path response =
     (if max_body_size < length (hs_body response) then io_ret (text_response 500 ''Request failed'')
      else
        io_seq (log_info (response_line request_path (hs_body response))) (
        io_bind (io_attempt (aes_encrypt c auth_cipher (hs_body response))) (\<lambda>r.
        case r of
          Inr encrypted \<Rightarrow> io_ret (response\<lparr>hs_body := encrypted\<rparr>)
        | Inl _ \<Rightarrow> io_ret (text_response 500 ''Request failed''))))"

definition auth_middleware ::
  "crates \<Rightarrow> aes_gcm_crypto \<Rightarrow> (http_request \<Rightarrow> http_response wio) \<Rightarrow> http_request \<Rightarrow> http_response wio"
  where
  "auth_middleware c auth_cipher handle request =
     (if max_body_size < length (hq_body request) then io_ret (text_response 500 ''Request failed'')
      else case aes_decrypt c auth_cipher (hq_body request) of
        Ok decrypted \<Rightarrow>
          io_seq (log_info (request_line decrypted)) (
          io_bind (handle (request\<lparr>hq_body := decrypted\<rparr>)) (seal_response c auth_cipher (hq_path request)))
      | _ \<Rightarrow> io_ret (text_response 403 ''Request failed''))"

text \<open>The outer middleware logs a line (not kept here) and drops the body of an oversized error.\<close>

definition log_middleware ::
  "(http_request \<Rightarrow> http_response wio) \<Rightarrow> http_request \<Rightarrow> http_response wio" where
  "log_middleware handle request =
     io_bind (handle request) (\<lambda>response.
     io_ret (if hs_status response = 200 then response
       else if max_body_size < length (hs_body response) then response\<lparr>hs_body := []\<rparr>
       else response))"

definition http_app ::
  "crates \<Rightarrow> axum \<Rightarrow> aes_gcm_crypto \<Rightarrow> app_state \<Rightarrow> http_request \<Rightarrow> http_response wio" where
  "http_app c ax auth_cipher state =
     log_middleware (auth_middleware c auth_cipher (routes c ax state))"

section \<open>Starting\<close>

text \<open>
  \<open>serve\<close>: the agent is started in a task of its own, and its failure is only a warning; the HTTP
  server, when enabled, gets the same secrets.
\<close>

record server =
  sv_agent :: "error + agent"
  sv_http :: "(string \<times> aes_gcm_crypto \<times> app_state) option"

definition serve ::
  "crates \<Rightarrow> axum \<Rightarrow> string \<Rightarrow> string \<Rightarrow> bool \<Rightarrow> auth_cache_mode \<Rightarrow> u64 \<Rightarrow> u64 \<Rightarrow> server wio" where
  "serve c ax pid addr enable_http mode sign_secs decrypt_secs =
     io_bind (open_and_verify_pin c) (\<lambda>pin.
     io_bind (load_auth_token c) (\<lambda>auth_token.
     io_bind (load_passphrase c) (\<lambda>passphrase.
     io_bind (io_of (aes_new auth_token)) (\<lambda>auth_cipher.
     io_bind (io_attempt (run_ssh_agent_with_secrets c pid False mode sign_secs decrypt_secs
                passphrase auth_token pin)) (\<lambda>agent.
     if enable_http then
       io_bind (io_of (of_sum Msg (ax_parse_addr ax addr))) (\<lambda>socket_addr.
       io_seq (io_of (of_sum Msg (opt_sum (ax_bind_err ax socket_addr)))) (
       io_ret \<lparr>sv_agent = agent,
         sv_http = Some (socket_addr, auth_cipher, \<lparr>st_passphrase = passphrase, st_pin = pin\<rparr>)\<rparr>))
     else io_ret \<lparr>sv_agent = agent, sv_http = None\<rparr>)))))"


section \<open>The documented laws of the framework\<close>

text \<open>
  The extractor takes \<open>application/json\<close> and not \<open>application/octet-stream\<close>; it rejects a body
  with 400 or 422.
\<close>

definition axum_ok :: "axum \<Rightarrow> bool" where
  "axum_ok ax \<longleftrightarrow> ax_json_type ax (Some ''application/json'')
     \<and> \<not> ax_json_type ax (Some ''application/octet-stream'')
     \<and> (\<forall>e. fst (ax_json_reject ax e) = 400 \<or> fst (ax_json_reject ax e) = 422)"

section \<open>Redaction\<close>

lemma redact_prefixed:
  assumes "quote_mark \<notin> set v"
  shows "redact field (field_prefix field @ v @ quote_mark # rest) =
    field_prefix field @ ''****'' @ [quote_mark] @ redact field rest"
proof -
  obtain y ys where p: "field_prefix field = y # ys" by (simp add: field_prefix_def)
  have "takeWhile (\<lambda>y. y \<noteq> quote_mark) (v @ quote_mark # rest) = v"
    using assms by (intro takeWhile_append_stop) auto
  moreover have "starts_with (field_prefix field @ v @ quote_mark # rest) (field_prefix field)" by simp
  moreover have "drop (length (field_prefix field)) (field_prefix field @ v @ quote_mark # rest) = v @ quote_mark # rest"
    by simp
  ultimately show ?thesis
    using redact.simps(2) [of field y "ys @ v @ quote_mark # rest"]
    by (simp add: p Let_def)
qed

lemma redact_skip:
  assumes "\<not> starts_with (x # s) (field_prefix field)"
  shows "redact field (x # s) = x # redact field s"
  using assms by (simp add: redact.simps(2) Let_def)

lemma redact_before:
  assumes "quote_mark \<notin> set pre"
  shows "redact field (pre @ s) = pre @ redact field s"
  using assms
proof (induction pre)
  case (Cons x pre)
  then have "\<not> starts_with (x # pre @ s) (field_prefix field)"
    by (auto simp: starts_with_def field_prefix_def)
  with Cons show ?case by (simp add: redact_skip)
qed simp

lemma redact_absent: "\<not> contains s (field_prefix field) \<Longrightarrow> redact field s = s"
proof (induction s)
  case (Cons x s)
  then have "\<not> starts_with (x # s) (field_prefix field)" "\<not> contains s (field_prefix field)"
    by simp_all
  with Cons.IH show ?case by (simp add: redact_skip)
qed simp

section \<open>Frames of the handlers\<close>

definition logs_grow :: "world \<Rightarrow> world \<Rightarrow> bool" where
  "logs_grow w v \<longleftrightarrow> (\<exists>ls. logged v = logged w @ ls)"

interpretation logs: frame_rel logs_grow
  by unfold_locales (auto simp: logs_grow_def)

lemmas logs_frame [frame_intros] = logs.all

lemma logs_prims [frame_intros]:
  "within logs_grow (log_info s)" "within logs_grow (notify_touch m)" "within logs_grow (ephemeral_secret c)"
  "within logs_grow (dev_call ev f)" "within logs_grow (aes_encrypt c a p)"
  by (auto simp: within_def logs_grow_def notify_touch_def ephemeral_secret_def dev_call_def Let_def
      aes_encrypt_state split: prod.splits)

lemma only_audit_logged:
  assumes "only_audit w v"
  shows "logged v = logged w"
proof -
  have "v = w\<lparr>dirs := dirs v, files := files v\<rparr>" using assms by (simp add: only_audit_def)
  then have "logged v = logged (w\<lparr>dirs := dirs v, files := files v\<rparr>)" by (rule arg_cong)
  then show ?thesis by simp
qed

lemma logs_audit: "within only_audit m \<Longrightarrow> within logs_grow m"
  by (auto simp: within_def logs_grow_def) (metis append_Nil2 only_audit_logged)

lemma logs_handlers [frame_intros]:
  "within logs_grow (verify_presence_with_pin c pin m)"
  "within logs_grow (do_encrypt c b items)"
  "within logs_grow (log_decrypt c p cl req ok)"
  "within logs_grow (log_encrypt c p cl n)"
  unfolding verify_presence_with_pin_def open_with_pin_def yk_prim_defs do_encrypt_def encrypt_item_one_def
  by (intro frame_intros logs_audit audit_logs)+

lemma outcome_frame:
  assumes "within R (io_ret d)" and "\<And>x. within R (f x)"
  shows "within R (case r of Ok x \<Rightarrow> f x | _ \<Rightarrow> io_ret d)"
  using assms by (cases r) simp_all

lemma logs_routes [frame_intros]: "within logs_grow (routes c ax st req)"
  unfolding routes_def handler_decrypt_def handler_encrypt_def Let_def
  by (intro frame_intros outcome_frame)

definition drop_oversized :: "http_response \<Rightarrow> http_response" where
  "drop_oversized response =
     (if hs_status response = 200 then response
      else if max_body_size < length (hs_body response) then response\<lparr>hs_body := []\<rparr>
      else response)"

lemma http_app_opened:
  assumes "length (hq_body req) \<le> max_body_size" and "aes_decrypt c a (hq_body req) = Ok d"
  shows "http_app c ax a st req w =
    io_bind (routes c ax st (req\<lparr>hq_body := d\<rparr>)) (\<lambda>r.
    io_bind (seal_response c a (hq_path req) r) (\<lambda>r'. io_ret (drop_oversized r')))
      (w\<lparr>logged := logged w @ [request_line d]\<rparr>)"
  using assms
  by (simp add: http_app_def log_middleware_def auth_middleware_def io_seq_def io_bind_assoc
      drop_oversized_def [abs_def] io_bind_eval)

lemma http_app_refused:
  assumes "max_body_size < length (hq_body req) \<or> (\<forall>d. aes_decrypt c a (hq_body req) \<noteq> Ok d)"
  shows "http_app c ax a st req w = (Ok (text_response
    (if max_body_size < length (hq_body req) then 500 else 403) ''Request failed''), w)"
  using assms
  by (cases "aes_decrypt c a (hq_body req)")
    (auto simp: http_app_def log_middleware_def auth_middleware_def text_response_def max_body_size_def
      aes_decrypt_no_panic io_bind_def)

lemma http_logs_request:
  assumes "length (hq_body req) \<le> max_body_size" and "aes_decrypt c a (hq_body req) = Ok d"
  shows "\<exists>ls. logged (snd (http_app c ax a st req w)) = logged w @ request_line d # ls"
proof -
  have "within logs_grow (io_bind (routes c ax st (req\<lparr>hq_body := d\<rparr>)) (\<lambda>r.
    io_bind (seal_response c a (hq_path req) r) (\<lambda>r'. io_ret (drop_oversized r'))))"
    unfolding seal_response_def by (intro frame_intros)
  then have "\<exists>ls. logged (snd (http_app c ax a st req w)) =
      logged (w\<lparr>logged := logged w @ [request_line d]\<rparr>) @ ls"
    unfolding http_app_opened [OF assms] within_def logs_grow_def by blast
  then show ?thesis by simp
qed

section \<open>Properties\<close>

lemma seal_response_200:
  assumes "aead_ok c" and "seal_response c a path r w = (Ok r', v)" and "hs_status r' = 200"
  shows "hs_status r = 200 \<and> aes_decrypt c a (hs_body r') = Ok (hs_body r) \<and> same_device w v \<and> same_files w v"
proof -
  have w: "within same_device (seal_response c a path r)" "within same_files (seal_response c a path r)"
    unfolding seal_response_def by (intro frame_intros)+
  from assms(2,3) obtain u x where "aes_encrypt c a (hs_body r) u = (Ok x, v)"
    and "r' = r\<lparr>hs_body := x\<rparr>"
    by (auto simp: seal_response_def io_bind_eq_Ok io_attempt_eq_Ok text_response_def
        split: if_splits sum.splits)
  with assms withinD [OF w(1) assms(2)] withinD [OF w(2) assms(2)] show ?thesis
    by (auto dest: aes_decrypt_encrypt)
qed

lemma handler_decrypt_200:
  assumes "handler_decrypt c st payload w = (Ok r, v)" and "hs_status r = 200"
  shows "yk_log v = yk_log w @ [YkOpen True, YkPin True, YkEcdh True] \<and>
    (\<exists>rs. do_decrypt c (AesGcmCrypto (st_passphrase st)) (unix_time w) (dr_items payload) = Ok rs \<and>
       ser (js_results c) rs = Inr (hs_body r))"
proof -
  from assms obtain u u2 m rs where
    p: "io_or False (verify_presence_with_pin c (st_pin st) (format_decrypt_prompt payload [])) w = (Ok True, u)"
    and lg: "log_decrypt c None [] payload True u = (Ok (), u2)"
    and m: "aes_new (st_passphrase st) = Ok m"
    and rs: "do_decrypt c m (unix_time u2) (dr_items payload) = Ok rs"
    and r: "r = json_response (js_results c) rs" and v: "v = u2"
    by (auto simp: handler_decrypt_def io_bind_eq_Ok Let_def text_response_def
        split: if_splits outcome.splits)
  have "verify_presence_with_pin c (st_pin st) (format_decrypt_prompt payload []) w = (Ok True, u)"
    using p by (auto simp: io_or_def split: prod.splits outcome.splits)
  then have "yk_log u = yk_log w @ [YkOpen True, YkPin True, YkEcdh True]" "same_env w u"
    using presence_outcomes withinD [OF presence_frames(1)] by blast+
  moreover have "yk_log u2 = yk_log u" "same_env u u2"
    using withinD [OF log_device(1) lg] withinD [OF log_env(1) lg] by (simp_all add: same_device_def)
  ultimately show ?thesis
    using rs r m v assms(2)
    by (auto simp: same_env_def aes_new_eq_Ok json_response_def text_response_def split: sum.splits)
qed


lemma json_reject_status:
  "axum_ok ax \<Longrightarrow> json_extract ax j req = Inl resp \<Longrightarrow> hs_status resp \<in> {400, 415, 422}"
  by (auto simp: json_extract_def axum_ok_def text_response_def split: if_splits sum.splits prod.splits)
    (metis fst_conv)+

lemma routes_rejected:
  assumes "\<not> ax_json_type ax (hq_content_type req)" and "hq_method req = ''POST''"
    and "hq_path req = ''/decrypt'' \<or> hq_path req = ''/encrypt''"
  shows "routes c ax st req w = (Ok (text_response 415 (ax_unsupported ax)), w)"
  using assms by (auto simp: routes_def json_extract_def)

lemma seal_response_status:
  assumes "seal_response c a path r w = (x, v)"
  shows "\<exists>r'. x = Ok r' \<and> hs_status r' \<in> {hs_status r, 500} \<and> yk_log v = yk_log w \<and> files v = files w"
proof -
  have w: "within same_device (seal_response c a path r)" "within same_files (seal_response c a path r)"
    unfolding seal_response_def by (intro frame_intros)+
  obtain e u where e: "aes_encrypt c a (hs_body r) (w\<lparr>logged := logged w @ [response_line path (hs_body r)]\<rparr>) = (e, u)"
    by fastforce
  have "\<exists>r'. x = Ok r' \<and> hs_status r' \<in> {hs_status r, 500}"
    using assms e aes_encrypt_no_panic
    by (cases e) (auto simp: seal_response_def io_bind_def io_attempt_def text_response_def
        split: if_splits, metis fst_conv)
  with withinD [OF w(1) assms] withinD [OF w(2) assms] show ?thesis
    by (auto simp: same_device_def same_files_def)
qed

lemma http_octet_rejected:
  assumes "\<not> ax_json_type ax (hq_content_type req)" and "http_app c ax a st req w = (r, v)"
    and "hq_method req = ''POST''" and "hq_path req = ''/decrypt'' \<or> hq_path req = ''/encrypt''"
  shows "\<exists>resp. r = Ok resp \<and> hs_status resp \<in> {403, 415, 500} \<and> yk_log v = yk_log w \<and> files v = files w"
proof (cases "length (hq_body req) \<le> max_body_size \<and> (\<exists>d. aes_decrypt c a (hq_body req) = Ok d)")
  case False
  then have "http_app c ax a st req w = (Ok (text_response
      (if max_body_size < length (hq_body req) then 500 else 403) ''Request failed''), w)"
    by (intro http_app_refused) auto
  with assms(2) show ?thesis by (auto simp: text_response_def)
next
  case True
  then obtain d where small: "length (hq_body req) \<le> max_body_size" and d: "aes_decrypt c a (hq_body req) = Ok d"
    by blast
  let ?w = "w\<lparr>logged := logged w @ [request_line d]\<rparr>"
  have h: "routes c ax st (req\<lparr>hq_body := d\<rparr>) ?w = (Ok (text_response 415 (ax_unsupported ax)), ?w)"
    using assms by (intro routes_rejected) simp_all
  obtain x u where x: "seal_response c a (hq_path req) (text_response 415 (ax_unsupported ax)) ?w = (x, u)"
    by fastforce
  from seal_response_status [OF x] obtain r' where r': "x = Ok r'" "hs_status r' \<in> {415, 500}"
    and u: "yk_log u = yk_log w" "files u = files w"
    by (auto simp: text_response_def)
  have "r = Ok (drop_oversized r')" "v = u"
    using assms(2) unfolding http_app_opened [OF small d] by (auto simp: io_bind_def h x r'(1))
  with r'(2) u show ?thesis by (auto simp: drop_oversized_def)
qed

text \<open>
  C36. The HTTP server decrypts only for a client that holds the transport key, and only with a touch: a
  successful answer to \<open>POST /decrypt\<close> means that the request body opened under the transport key,
  that the device was opened, took the PIN and was touched while the request was served (no grant is
  ever reused on this path), and that the answer opens to the results of \<open>do_decrypt\<close> on the
  items of the request.
\<close>

theorem http_decrypt_needs_touch:
  assumes "aead_ok c" and "axum_ok ax" and "http_app c ax a st req w = (Ok resp, v)"
    and "hs_status resp = 200" and "hq_method req = ''POST''" and "hq_path req = ''/decrypt''"
  shows "yk_log v = yk_log w @ [YkOpen True, YkPin True, YkEcdh True] \<and>
    (\<exists>plain payload rs bs. aes_decrypt c a (hq_body req) = Ok plain \<and>
      de (js_decrypt_req c) plain = Inr payload \<and>
      do_decrypt c (AesGcmCrypto (st_passphrase st)) (unix_time w) (dr_items payload) = Ok rs \<and>
      ser (js_results c) rs = Inr bs \<and> aes_decrypt c a (hs_body resp) = Ok bs)"
proof (cases "length (hq_body req) \<le> max_body_size \<and> (\<exists>d. aes_decrypt c a (hq_body req) = Ok d)")
  case False
  then have "http_app c ax a st req w = (Ok (text_response
      (if max_body_size < length (hq_body req) then 500 else 403) ''Request failed''), w)"
    by (intro http_app_refused) auto
  with assms(3,4) show ?thesis by (auto simp: text_response_def split: if_splits)
next
  case True
  then obtain d where small: "length (hq_body req) \<le> max_body_size" and d: "aes_decrypt c a (hq_body req) = Ok d"
    by blast
  let ?w = "w\<lparr>logged := logged w @ [request_line d]\<rparr>"
  from assms(3,4) obtain r u r' where h: "routes c ax st (req\<lparr>hq_body := d\<rparr>) ?w = (Ok r, u)"
    and r': "seal_response c a (hq_path req) r u = (Ok r', v)" and resp: "resp = drop_oversized r'"
    unfolding http_app_opened [OF small d] by (auto simp: io_bind_eq_Ok)
  have ok: "hs_status r' = 200" using resp assms(4) by (simp add: drop_oversized_def split: if_splits)
  then have r'': "resp = r'" using resp by (simp add: drop_oversized_def)
  note s = seal_response_200 [OF assms(1) r' ok]
  have route: "routes c ax st (req\<lparr>hq_body := d\<rparr>) = (case json_extract ax (js_decrypt_req c) (req\<lparr>hq_body := d\<rparr>) of
      Inl rejection \<Rightarrow> io_ret rejection | Inr payload \<Rightarrow> handler_decrypt c st payload)"
    using assms(5,6) by (simp add: routes_def)
  obtain payload where e: "json_extract ax (js_decrypt_req c) (req\<lparr>hq_body := d\<rparr>) = Inr payload"
    using h s json_reject_status [OF assms(2), of "js_decrypt_req c" "req\<lparr>hq_body := d\<rparr>"]
    by (cases "json_extract ax (js_decrypt_req c) (req\<lparr>hq_body := d\<rparr>)") (auto simp: route)
  then have p: "de (js_decrypt_req c) d = Inr payload"
    by (auto simp: json_extract_def split: if_splits sum.splits)
  have hd: "handler_decrypt c st payload ?w = (Ok r, u)" using h by (simp add: route e)
  from handler_decrypt_200 [OF hd] s p d r'' show ?thesis
    by (auto simp: same_device_def)
qed

text \<open>
  The routes of the HTTP server take JSON only: a request to \<open>/decrypt\<close> or \<open>/encrypt\<close> whose content
  type the extractor does not take is never answered with success, whoever sends it and whatever is in
  it, and it neither uses the device nor writes a file.
\<close>

theorem http_only_json:
  assumes "\<not> ax_json_type ax (hq_content_type req)" and "http_app c ax a st req w = (r, v)"
    and "hq_method req = ''POST''" and "hq_path req = ''/decrypt'' \<or> hq_path req = ''/encrypt''"
  shows "\<exists>resp. r = Ok resp \<and> hs_status resp \<in> {403, 415, 500} \<and> yk_log v = yk_log w \<and> files v = files w"
  by (rule http_octet_rejected [OF assms])

text \<open>
  C35. What the server logs of a request: of a body with the field name \<open>"plaintext"\<close>, the part of its
  value up to the first quote is replaced by asterisks, and everything after that quote is
  logged as it is.  A secret with a quote in it, which JSON escapes with a backslash, is therefore
  logged from that quote on.
\<close>

theorem http_log_shows_after_quote:
  assumes "length (hq_body req) \<le> max_body_size" and "aes_decrypt c a (hq_body req) = Ok d"
    and "from_utf8 d = Some (pre @ field_prefix ''plaintext'' @ hidden @ quote_mark # shown)"
    and "quote_mark \<notin> set pre" and "quote_mark \<notin> set hidden"
    and "\<not> contains shown (field_prefix ''plaintext'')"
  shows "\<exists>ls. logged (snd (http_app c ax a st req w)) = logged w @
    (''request body: '' @ pre @ field_prefix ''plaintext'' @ ''****'' @ [quote_mark] @ shown) # ls"
proof -
  have "redact ''plaintext'' (pre @ field_prefix ''plaintext'' @ hidden @ quote_mark # shown) =
      pre @ field_prefix ''plaintext'' @ ''****'' @ [quote_mark] @ shown"
    using redact_before [OF assms(4)] redact_prefixed [OF assms(5)] redact_absent [OF assms(6)] by simp
  with http_logs_request [OF assms(1,2)] assms(3) show ?thesis
    by (auto simp: request_line_def)
qed


section \<open>Witnesses\<close>

definition demo_axum :: axum where
  "demo_axum = \<lparr>ax_json_type = (\<lambda>t. t = Some ''application/json''), ax_unsupported = ''unsupported'',
     ax_json_reject = (\<lambda>e. (400, e)), ax_fallback = (\<lambda>m p. \<lparr>hs_status = 404, hs_body = []\<rparr>),
     ax_parse_addr = Inr, ax_bind_err = (\<lambda>a. None)\<rparr>"

lemma demo_axum_ok: "axum_ok demo_axum"
  by (simp add: axum_ok_def demo_axum_def)

definition demo_app_state :: app_state where
  "demo_app_state = \<lparr>st_passphrase = replicate 32 1, st_pin = ''1234''\<rparr>"

definition demo_post :: "string \<Rightarrow> string \<Rightarrow> bytes \<Rightarrow> http_request" where
  "demo_post path ct body = \<lparr>hq_method = ''POST'', hq_path = path, hq_content_type = Some ct,
     hq_body = demo_box (replicate 32 2) body\<rparr>"

lemma demo_post_sel [simp]:
  "hq_method (demo_post path ct body) = ''POST''" "hq_path (demo_post path ct body) = path"
  "hq_content_type (demo_post path ct body) = Some ct"
  "hq_body (demo_post path ct body) = demo_box (replicate 32 2) body"
  by (simp_all add: demo_post_def)

lemma length_demo_box: "length (demo_box k p) = length p + 28"
  by (simp add: demo_box_def demo_tag_def)

lemma demo_seal_response:
  assumes "length (hs_body r) \<le> max_body_size"
  shows "\<exists>x v. seal_response demo_crates a path r w = (Ok (r\<lparr>hs_body := x\<rparr>), v)"
proof -
  obtain x v where "aes_encrypt demo_crates a (hs_body r)
      (w\<lparr>logged := logged w @ [response_line path (hs_body r)]\<rparr>) = (Ok x, v)"
    using demo_aes_encrypt by blast
  with assms show ?thesis
    by (auto simp: seal_response_def io_bind_def io_attempt_def)
qed

lemma demo_http_decrypt:
  "\<exists>resp v. http_app demo_crates demo_axum (AesGcmCrypto (replicate 32 2)) demo_app_state
      (demo_post ''/decrypt'' ''application/json'' (the_ser demo_decrypt_req demo_request)) demo_world = (Ok resp, v)
     \<and> hs_status resp = 200"
proof -
  let ?d = "the_ser demo_decrypt_req demo_request"
  let ?req = "demo_post ''/decrypt'' ''application/json'' ?d"
  let ?w = "demo_world\<lparr>logged := logged demo_world @ [request_line ?d]\<rparr>"
  let ?rs = "[\<lparr>cr_result = [], cr_err_message = ''not a vt item''\<rparr>]"
  have small: "length (hq_body ?req) \<le> max_body_size"
    by (simp add: length_demo_box the_ser_def demo_decrypt_req_def demo_request_def max_body_size_def as_bytes_def)
  obtain u where u: "verify_presence_with_pin demo_crates ''1234'' (format_decrypt_prompt demo_request []) ?w = (Ok True, u)"
    using demo_presence [of ?w] by auto
  obtain u2 where u2: "log_decrypt demo_crates None [] demo_request True u = (Ok (), u2)"
    using log_Ok(1) by (metis prod.collapse)
  have d: "do_decrypt demo_crates a now (dr_items demo_request) = Ok ?rs" for a now
    by (simp add: demo_request_def do_decrypt_def decrypt_item_def starts_with_def vt_prefix_def)
  have h: "routes demo_crates demo_axum demo_app_state (?req\<lparr>hq_body := ?d\<rparr>) ?w =
      (Ok \<lparr>hs_status = 200, hs_body = the_ser demo_results ?rs\<rparr>, u2)"
    using u u2
    by (simp add: routes_def json_extract_def demo_axum_def demo_de_the_ser handler_decrypt_def
        demo_app_state_def io_bind_def io_or_def aes_new_32 d json_response_def demo_ser_results)
  have "length (the_ser demo_results ?rs) \<le> max_body_size"
    by (simp add: the_ser_def demo_results_def rows_serde_def max_body_size_def as_bytes_def)
  then obtain x v where x: "seal_response demo_crates (AesGcmCrypto (replicate 32 2)) ''/decrypt''
      \<lparr>hs_status = 200, hs_body = the_ser demo_results ?rs\<rparr> u2 =
      (Ok \<lparr>hs_status = 200, hs_body = x\<rparr>, v)"
    using demo_seal_response [of "\<lparr>hs_status = 200, hs_body = the_ser demo_results ?rs\<rparr>"] by fastforce
  have "http_app demo_crates demo_axum (AesGcmCrypto (replicate 32 2)) demo_app_state ?req demo_world =
      (Ok \<lparr>hs_status = 200, hs_body = x\<rparr>, v)"
    by (subst http_app_opened [OF small, of demo_crates _ ?d])
      (simp_all add: io_bind_def h x drop_oversized_def del: demo_world_sel)
  then show ?thesis by auto
qed


theorem http_decrypt_needs_touch_witness:
  "\<exists>resp v. http_app demo_crates demo_axum (AesGcmCrypto (replicate 32 2)) demo_app_state
      (demo_post ''/decrypt'' ''application/json'' (the_ser demo_decrypt_req demo_request)) demo_world = (Ok resp, v)
     \<and> yk_log v = [YkOpen True, YkPin True, YkEcdh True]"
proof -
  obtain resp v where run: "http_app demo_crates demo_axum (AesGcmCrypto (replicate 32 2)) demo_app_state
      (demo_post ''/decrypt'' ''application/json'' (the_ser demo_decrypt_req demo_request)) demo_world = (Ok resp, v)"
    and ok: "hs_status resp = 200"
    using demo_http_decrypt by blast
  from http_decrypt_needs_touch [OF demo_aead_ok demo_axum_ok run ok] run show ?thesis by auto
qed

theorem http_only_json_witness:
  "\<exists>resp v. http_app demo_crates demo_axum (AesGcmCrypto (replicate 32 2)) demo_app_state
      (demo_post ''/decrypt'' ''application/octet-stream'' (the_ser demo_decrypt_req demo_request)) demo_world = (Ok resp, v)
     \<and> hs_status resp \<noteq> 200 \<and> yk_log v = []"
proof -
  let ?req = "demo_post ''/decrypt'' ''application/octet-stream'' (the_ser demo_decrypt_req demo_request)"
  obtain r v where run: "http_app demo_crates demo_axum (AesGcmCrypto (replicate 32 2)) demo_app_state ?req demo_world = (r, v)"
    by fastforce
  have "\<not> ax_json_type demo_axum (hq_content_type ?req)" by (simp add: demo_axum_def)
  from http_only_json [OF this run] run show ?thesis by auto
qed

definition quoted_body :: string where
  "quoted_body = ''[{'' @ field_prefix ''plaintext'' @ ''a'' @ [CHR 0x5C] @ quote_mark # ''bc'' @ [quote_mark] @ ''}]''"

theorem http_log_shows_after_quote_witness:
  "\<exists>line ls. logged (snd (http_app demo_crates demo_axum (AesGcmCrypto (replicate 32 2)) demo_app_state
      (demo_post ''/encrypt'' ''application/json'' (as_bytes quoted_body)) demo_world)) = line # ls
     \<and> contains line ''bc''"
proof -
  let ?req = "demo_post ''/encrypt'' ''application/json'' (as_bytes quoted_body)"
  have str: "from_utf8 (as_bytes quoted_body) = Some (''[{'' @ field_prefix ''plaintext'' @ (''a'' @ [CHR 0x5C])
      @ quote_mark # ''bc'' @ [quote_mark] @ ''}]'')"
    by (subst from_utf8_as_bytes, rule ascii_rust_str)
      (simp_all add: quoted_body_def field_prefix_def quote_mark_def ascii_char_def byte_of_def)
  have small: "length (hq_body ?req) \<le> max_body_size"
    by (simp add: length_demo_box quoted_body_def field_prefix_def max_body_size_def)
  have d: "aes_decrypt demo_crates (AesGcmCrypto (replicate 32 2)) (hq_body ?req) = Ok (as_bytes quoted_body)"
    by simp
  have q: "quote_mark \<notin> set ''[{''" "quote_mark \<notin> set (''a'' @ [CHR 0x5C])"
    by (simp_all add: quote_mark_def)
  have c: "\<not> contains (''bc'' @ [quote_mark] @ ''}]'') (field_prefix ''plaintext'')"
    by (simp add: field_prefix_def quote_mark_def starts_with_def)
  from http_log_shows_after_quote [OF small d str q c, of demo_axum demo_app_state demo_world] obtain ls where
    l: "logged (snd (http_app demo_crates demo_axum (AesGcmCrypto (replicate 32 2)) demo_app_state ?req demo_world)) =
      logged demo_world @ (''request body: '' @ ''[{'' @ field_prefix ''plaintext'' @ ''****'' @ [quote_mark] @
        ''bc'' @ [quote_mark] @ ''}]'') # ls"
    by blast
  have "contains (x @ ''bc'' @ y) ''bc''" for x y
    by (subst contains_iff) blast
  from this [of "''request body: '' @ ''[{'' @ field_prefix ''plaintext'' @ ''****'' @ [quote_mark]"
      "[quote_mark] @ ''}]''"] l show ?thesis by (simp del: contains.simps)
qed

end
