(* ===== verification/Vt_Client.thy ===== *)
theory Vt_Client
  imports Vt_Serve
begin

text \<open>
  \<open>VTClient\<close> of \<open>src/cli.rs\<close>: the client that seals a request with the transport key and sends it to
  the agent over its socket, or, when the socket is not there, over HTTP.  The state is the whole
  system: the client's surroundings, the agent behind the socket (perhaps on another machine,
  through agent forwarding), and the HTTP server.
\<close>

section \<open>The system around a client\<close>

datatype connection = Connected | ConnNotFound | ConnRefused | ConnError string

text \<open>
  \<open>sy_connect\<close> says what connecting to a socket path gives, \<open>sy_peer\<close> which process the agent
  sees, \<open>sy_post\<close> how a request to a URL ends.  \<open>client_lib\<close> holds the texts with which the
  \<open>ssh-agent-lib\<close> client reports a failure response and a closed connection.
\<close>

record system =
  sy_client :: world
  sy_connect :: "string \<Rightarrow> connection"
  sy_peer :: "i32 option"
  sy_agent :: agent
  sy_post :: "string \<Rightarrow> http_request \<Rightarrow> world \<Rightarrow> (string + http_response) \<times> world"
  sy_server :: world

type_synonym 'a sio = "(system, 'a) io"

record client_lib =
  cl_failure_text :: string
  cl_closed_text :: string

record vt_client =
  vc_base_url :: "string option"
  vc_auth_token :: string

definition in_client :: "'a wio \<Rightarrow> 'a sio" where
  "in_client m = (\<lambda>s. case m (sy_client s) of (r, w) \<Rightarrow> (r, s\<lparr>sy_client := w\<rparr>))"

definition env_var :: "string \<Rightarrow> world \<Rightarrow> string option" where
  "env_var k w = map_of (env_vars w) k"

text \<open>\<open>Path::file_name\<close>: the last component, if it is a name.\<close>

definition path_file_name :: "string \<Rightarrow> string option" where
  "path_file_name path =
     (let cs = filter (\<lambda>p. p \<noteq> [] \<and> p \<noteq> ''.'') (split_on (CHR ''/'') path) in
      if cs = [] \<or> last cs = ''..'' then None else Some (last cs))"

section \<open>The agent as a transport\<close>

definition socket_name :: string where
  "socket_name = ''vt-yubi.sock''"

definition wrong_socket :: "string \<Rightarrow> string" where
  "wrong_socket sock = ''SSH_AUTH_SOCK is set to '' @ [CHR 0x27] @ sock @ [CHR 0x27] @ '', but vt-yubi requires ''
     @ [CHR 0x27] @ ''vt-yubi.sock'' @ [CHR 0x27]
     @ ''. Run `export SSH_AUTH_SOCK=~/.ssh/vt-yubi.sock` or source ~/.vt-yubi/env.sh''"

definition agent_socket_path :: "string wio" where
  "agent_socket_path =
     io_bind (io_get (env_var ''SSH_AUTH_SOCK'')) (\<lambda>v. case v of
       Some sock \<Rightarrow>
         if unwrap_or_empty (path_file_name sock) \<noteq> socket_name then io_fail (Msg (wrong_socket sock))
         else io_ret sock
     | None \<Rightarrow> io_bind home_dir (\<lambda>hm. io_ret (path_join (path_join hm ''.ssh'') socket_name)))"

text \<open>A request to the agent; a failed or panicking handler is an error of the client library.\<close>

definition call_extension :: "crates \<Rightarrow> client_lib \<Rightarrow> extension \<Rightarrow> extension option sio" where
  "call_extension c lib ext = (\<lambda>s. case extension_op c (sy_peer s) ext (sy_agent s) of
      (Ok r, g) \<Rightarrow> (Ok r, s\<lparr>sy_agent := g\<rparr>)
    | (Err _, g) \<Rightarrow> (Err (Msg (cl_failure_text lib)), s\<lparr>sy_agent := g\<rparr>)
    | (Panic _, g) \<Rightarrow> (Err (Msg (cl_closed_text lib)), s\<lparr>sy_agent := g\<rparr>))"

definition exchange ::
  "crates \<Rightarrow> client_lib \<Rightarrow> string \<Rightarrow> string \<Rightarrow> bytes \<Rightarrow> bytes option sio" where
  "exchange c lib auth_token name payload =
     io_bind (io_of (decode_auth_cipher_from_b64 c auth_token)) (\<lambda>auth_key.
     io_bind (io_of (aes_new auth_key)) (\<lambda>auth_cipher.
     io_bind (in_client (aes_encrypt c auth_cipher payload)) (\<lambda>encrypted_payload.
     io_bind (call_extension c lib \<lparr>ex_name = name, ex_details = encrypted_payload\<rparr>) (\<lambda>response.
     case response of
       Some resp \<Rightarrow>
         io_bind (io_of (aes_decrypt c auth_cipher (ex_details resp))) (\<lambda>decrypted. io_ret (Some decrypted))
     | None \<Rightarrow> io_fail (Msg ''Agent returned empty extension response'')))))"

definition try_agent_extension ::
  "crates \<Rightarrow> client_lib \<Rightarrow> string \<Rightarrow> string \<Rightarrow> bytes \<Rightarrow> bytes option sio" where
  "try_agent_extension c lib auth_token name payload =
     io_bind (in_client agent_socket_path) (\<lambda>socket_path.
     io_bind (io_get (\<lambda>s. sy_connect s socket_path)) (\<lambda>conn. case conn of
       ConnNotFound \<Rightarrow> io_ret None
     | ConnRefused \<Rightarrow> io_ret None
     | ConnError e \<Rightarrow> io_fail (Msg e)
     | Connected \<Rightarrow> exchange c lib auth_token name payload))"

section \<open>HTTP as a transport\<close>

definition is_ip_address :: "string \<Rightarrow> bool" where
  "is_ip_address addr =
     (let host = hd (split_on (CHR '':'') addr);
          parts = split_on (CHR ''.'') host in
      length parts = 4 \<and> (\<forall>num \<in> set parts. parse_uint 255 num \<noteq> None))"

definition with_protocol :: "string \<Rightarrow> string" where
  "with_protocol base_url =
     (if \<not> starts_with base_url ''http://'' \<and> \<not> starts_with base_url ''https://'' then
        (if is_ip_address base_url then ''http://'' else ''https://'') @ base_url
      else base_url)"

definition http_send :: "string \<Rightarrow> http_request \<Rightarrow> http_response sio" where
  "http_send url req = (\<lambda>s. case sy_post s url req (sy_server s) of
      (Inr resp, w) \<Rightarrow> (Ok resp, s\<lparr>sy_server := w\<rparr>)
    | (Inl e, w) \<Rightarrow> (Err (Msg e), s\<lparr>sy_server := w\<rparr>))"

definition is_success :: "nat \<Rightarrow> bool" where
  "is_success status \<longleftrightarrow> 200 \<le> status \<and> status < 300"

definition authed_request ::
  "crates \<Rightarrow> vt_client \<Rightarrow> string \<Rightarrow> 'a serde \<Rightarrow> 'b serde \<Rightarrow> 'a \<Rightarrow> 'b sio" where
  "authed_request c self path req_serde res_serde req_body =
     (case vc_base_url self of
        None \<Rightarrow> io_fail (Msg ''VT_ADDR not set and SSH agent socket not available'')
      | Some base \<Rightarrow>
          let url = with_protocol base @ path in
          io_bind (io_of (of_sum Msg (ser req_serde req_body))) (\<lambda>body.
          io_bind (io_of (decode_auth_cipher_from_b64 c (vc_auth_token self))) (\<lambda>auth_key.
          io_bind (io_of (aes_new auth_key)) (\<lambda>cipher.
          io_bind (in_client (aes_encrypt c cipher body)) (\<lambda>encrypted_body.
          io_bind (io_context ''Failed to send request'' (http_send url
             \<lparr>hq_method = ''POST'', hq_path = path, hq_content_type = Some ''application/octet-stream'',
              hq_body = encrypted_body\<rparr>)) (\<lambda>res.
          if is_success (hs_status res) then
            io_bind (io_of (aes_decrypt c cipher (hs_body res))) (\<lambda>decrypted_body.
            io_context ''Failed to parse response body'' (io_of (of_sum Msg (de res_serde decrypted_body))))
          else
            let res_str = from_utf8_lossy (case aes_decrypt c cipher (hs_body res) of
                Ok decrypted \<Rightarrow> decrypted | _ \<Rightarrow> hs_body res) in
            io_fail (Msg (''status: '' @ show_nat (hs_status res) @ '' body: '' @ res_str))))))))"

section \<open>Operations\<close>

definition no_transport :: error where
  "no_transport = Msg ''SSH agent socket not available and VT_ADDR not set''"

definition client_encrypt ::
  "crates \<Rightarrow> client_lib \<Rightarrow> vt_client \<Rightarrow> encrypt_item list \<Rightarrow> crypto_res_item list sio" where
  "client_encrypt c lib self items =
     io_bind (io_of (of_sum Msg (ser (js_encrypt_items c) items))) (\<lambda>payload.
     io_bind (try_agent_extension c lib (vc_auth_token self) ''encrypt@vt'' payload) (\<lambda>result.
     case result of
       Some bytes \<Rightarrow> io_of (of_sum Msg (de (js_results c) bytes))
     | None \<Rightarrow>
         if vc_base_url self \<noteq> None
         then authed_request c self ''/encrypt'' (js_encrypt_items c) (js_results c) items
         else io_fail no_transport))"

definition client_decrypt ::
  "crates \<Rightarrow> client_lib \<Rightarrow> vt_client \<Rightarrow> decrypt_req \<Rightarrow> crypto_res_item list sio" where
  "client_decrypt c lib self req =
     io_bind (io_of (of_sum Msg (ser (js_decrypt_req c) req))) (\<lambda>payload.
     io_bind (try_agent_extension c lib (vc_auth_token self) ''decrypt@vt'' payload) (\<lambda>result.
     case result of
       Some bytes \<Rightarrow> io_of (of_sum Msg (de (js_results c) bytes))
     | None \<Rightarrow>
         if vc_base_url self \<noteq> None
         then authed_request c self ''/decrypt'' (js_decrypt_req c) (js_results c) req
         else io_fail no_transport))"

definition client_auth :: "crates \<Rightarrow> client_lib \<Rightarrow> vt_client \<Rightarrow> string \<Rightarrow> unit sio" where
  "client_auth c lib self reason =
     io_bind (io_get (\<lambda>s. host_name (sy_client s))) (\<lambda>host.
     io_bind (io_of (of_sum Msg (ser (js_auth_req c) \<lparr>ar_host = host, ar_reason = reason\<rparr>))) (\<lambda>payload.
     io_bind (try_agent_extension c lib (vc_auth_token self) ''auth@vt'' payload) (\<lambda>result.
     case result of
       Some bytes \<Rightarrow>
         io_bind (io_context ''Failed to parse auth response'' (io_of (of_sum Msg (de (js_auth_res c) bytes))))
           (\<lambda>_. io_ret ())
     | None \<Rightarrow> io_fail (Msg (''SSH agent not available '' @ [CHR 0xE2, CHR 0x80, CHR 0x94]
         @ '' need agent forwarding or ~/.ssh/vt-yubi.sock'')))))"


section \<open>What a successful exchange means\<close>

lemma in_client_Ok: "in_client m s = (Ok x, t) \<longleftrightarrow> (\<exists>w. m (sy_client s) = (Ok x, w) \<and> t = s\<lparr>sy_client := w\<rparr>)"
  by (auto simp: in_client_def split: prod.splits)

lemma call_extension_Ok:
  "call_extension c lib ext s = (Ok r, t) \<longleftrightarrow>
     (\<exists>g. extension_op c (sy_peer s) ext (sy_agent s) = (Ok r, g) \<and> t = s\<lparr>sy_agent := g\<rparr>)"
  by (auto simp: call_extension_def split: prod.splits outcome.splits)

text \<open>The part of the system a request of the client cannot change.\<close>

definition same_wiring :: "system \<Rightarrow> system \<Rightarrow> bool" where
  "same_wiring s t \<longleftrightarrow> sy_connect t = sy_connect s \<and> sy_peer t = sy_peer s \<and> sy_post t = sy_post s"

interpretation wiring: frame_rel same_wiring
  by unfold_locales (auto simp: same_wiring_def)

lemmas wiring_frame [frame_intros] = wiring.all

text \<open>
  A successful exchange: the agent answered, on a payload sealed under the key the token decodes to,
  and what came back was opened under the same key.
\<close>

lemma exchange_OkE:
  assumes "exchange c lib tok name payload s = (Ok r, t)"
  obtains k ct resp plain w g where "decode_auth_cipher_from_b64 c tok = Ok k"
    and "aes_encrypt c (AesGcmCrypto k) payload (sy_client s) = (Ok ct, w)"
    and "extension_op c (sy_peer s) \<lparr>ex_name = name, ex_details = ct\<rparr> (sy_agent s) = (Ok (Some resp), g)"
    and "aes_decrypt c (AesGcmCrypto k) (ex_details resp) = Ok plain" and "r = Some plain"
    and "t = s\<lparr>sy_client := w, sy_agent := g\<rparr>"
  using assms
  by (auto simp: exchange_def io_bind_eq_Ok in_client_Ok call_extension_Ok aes_new_eq_Ok split: option.splits)

lemma socket_path_state: "agent_socket_path w = (r, v) \<Longrightarrow> v = w"
  by (auto simp: agent_socket_path_def io_bind_def home_dir_def split: option.splits if_splits)

lemma in_client_same [simp]: "s\<lparr>sy_client := sy_client s\<rparr> = s"
  by simp

lemma try_agent_OkE:
  assumes "try_agent_extension c lib tok name payload s = (Ok (Some plain), t)"
  shows "exchange c lib tok name payload s = (Ok (Some plain), t)"
proof -
  from assms obtain p w where p: "agent_socket_path (sy_client s) = (Ok p, w)"
    and rest: "(case sy_connect (s\<lparr>sy_client := w\<rparr>) p of
       ConnNotFound \<Rightarrow> io_ret None | ConnRefused \<Rightarrow> io_ret None | ConnError e \<Rightarrow> io_fail (Msg e)
     | Connected \<Rightarrow> exchange c lib tok name payload) (s\<lparr>sy_client := w\<rparr>) = (Ok (Some plain), t)"
    by (auto simp: try_agent_extension_def io_bind_eq_Ok in_client_Ok)
  have "w = sy_client s" using socket_path_state [OF p] .
  with rest show ?thesis by (auto split: connection.splits)
qed

lemma exchange_call:
  assumes "exchange c lib tok name payload s = (Ok r, t)"
  shows "\<exists>ct resp. extension_op c (sy_peer s) \<lparr>ex_name = name, ex_details = ct\<rparr> (sy_agent s) =
      (Ok (Some resp), sy_agent t)"
  using assms by (rule exchange_OkE) auto

text \<open>
  Whenever \<open>vt-yubi auth\<close> reports success, the user touched the YubiKey while the request was being
  served, on the machine of the agent, and no grant was made or used for it.
\<close>

theorem client_auth_touched:
  assumes "client_auth c lib self reason s = (Ok (), t)"
  shows "touched (sy_agent s) (sy_agent t) \<and> ag_auth_cache (sy_agent t) = ag_auth_cache (sy_agent s)"
proof -
  from assms obtain payload plain where
    "try_agent_extension c lib (vc_auth_token self) ''auth@vt'' payload s = (Ok (Some plain), t)"
    by (auto simp: client_auth_def io_bind_eq_Ok split: option.splits)
  then obtain ct resp where
    "extension_op c (sy_peer s) \<lparr>ex_name = ''auth@vt'', ex_details = ct\<rparr> (sy_agent s) = (Ok (Some resp), sy_agent t)"
    using exchange_call [OF try_agent_OkE] by blast
  from auth_consent [OF this] show ?thesis by simp
qed


section \<open>Encrypting and decrypting through the agent\<close>

lemma encrypt_answer:
  assumes "aead_ok c" and "extension_op c p ext s = (Ok (Some resp), t)" and "ex_name ext = ''encrypt@vt''"
    and "aes_decrypt c (AesGcmCrypto (ag_auth_token s)) (ex_details ext) = Ok plain"
    and "de (js_encrypt_items c) plain = Inr items"
  shows "\<exists>rs bs w v. do_encrypt c (AesGcmCrypto (ag_passphrase s)) items w = (Ok rs, v) \<and>
    ser (js_results c) rs = Inr bs \<and> aes_decrypt c (AesGcmCrypto (ag_auth_token s)) (ex_details resp) = Ok bs"
proof -
  obtain a plain' cl bs u v where a: "aes_new (ag_auth_token s) = Ok a"
    and plain': "aes_decrypt c a (ex_details ext) = Ok plain'"
    and u: "u = s\<lparr>ag_last_activity := agent_now s\<rparr>" and h: "handle_encrypt c p cl plain' u = (Ok bs, v)"
    and enc: "aes_encrypt c a bs (ag_world v) = (Ok (ex_details resp), ag_world t)"
    using assms(2) by (rule extension_OkE) (simp add: assms(3))
  have a': "a = AesGcmCrypto (ag_auth_token s)" using a by (simp add: aes_new_eq_Ok)
  then have pl: "plain' = plain" using plain' assms(4) by simp
  from h obtain x m rs y where x: "in_world (log_encrypt c p cl (length items)) u = (Ok (), x)"
    and m: "aes_new (ag_passphrase x) = Ok m"
    and rs: "in_world (do_encrypt c m items) x = (Ok rs, y)" and bs: "ser (js_results c) rs = Inr bs"
    by (auto simp: handle_encrypt_def io_bind_eq_Ok pl assms(5))
  have "ag_passphrase x = ag_passphrase s"
    using withinD [OF in_world_frames(1) [OF log_env(2)] x] u by (simp add: same_config_def)
  then have "m = AesGcmCrypto (ag_passphrase s)" using m by (simp add: aes_new_eq_Ok)
  then show ?thesis
    using rs bs aes_decrypt_response [OF assms(1) a enc] by (auto simp: in_world_eq)
qed

lemma client_encrypt_answer:
  assumes "aead_ok c" and "serde_ok (js_encrypt_items c)" and "serde_ok (js_results c)"
    and "decode_auth_cipher_from_b64 c (vc_auth_token self) = Ok (ag_auth_token (sy_agent s))"
    and "vc_base_url self = None" and "client_encrypt c lib self items s = (Ok rs, t)"
  shows "\<exists>w v. do_encrypt c (AesGcmCrypto (ag_passphrase (sy_agent s))) items w = (Ok rs, v)"
proof -
  from assms(5,6) obtain payload plain where pay: "ser (js_encrypt_items c) items = Inr payload"
    and ex: "try_agent_extension c lib (vc_auth_token self) ''encrypt@vt'' payload s = (Ok (Some plain), t)"
    and rs: "de (js_results c) plain = Inr rs"
    by (auto simp: client_encrypt_def io_bind_eq_Ok no_transport_def split: option.splits)
  from try_agent_OkE [OF ex] obtain ct resp w g where
    ct: "aes_encrypt c (AesGcmCrypto (ag_auth_token (sy_agent s))) payload (sy_client s) = (Ok ct, w)"
    and op: "extension_op c (sy_peer s) \<lparr>ex_name = ''encrypt@vt'', ex_details = ct\<rparr> (sy_agent s) = (Ok (Some resp), g)"
    and plain: "aes_decrypt c (AesGcmCrypto (ag_auth_token (sy_agent s))) (ex_details resp) = Ok plain"
    by (rule exchange_OkE) (simp add: assms(4))
  have "aes_decrypt c (AesGcmCrypto (ag_auth_token (sy_agent s))) ct = Ok payload"
    by (rule aes_decrypt_encrypt [OF assms(1) ct])
  then obtain rs' bs w v where "do_encrypt c (AesGcmCrypto (ag_passphrase (sy_agent s))) items w = (Ok rs', v)"
    and "ser (js_results c) rs' = Inr bs" and "bs = plain"
    using encrypt_answer [OF assms(1) op, of payload items] serde_okD [OF assms(2) pay] plain by auto
  with rs serde_okD [OF assms(3)] show ?thesis by auto
qed

lemma client_decrypt_answer:
  assumes "aead_ok c" and "serde_ok (js_decrypt_req c)" and "serde_ok (js_results c)"
    and "decode_auth_cipher_from_b64 c (vc_auth_token self) = Ok (ag_auth_token (sy_agent s))"
    and "vc_base_url self = None" and "client_decrypt c lib self req s = (Ok out, t)"
  shows "do_decrypt c (AesGcmCrypto (ag_passphrase (sy_agent s))) (unix_time (ag_world (sy_agent s)))
      (dr_items req) = Ok out \<and>
    (cached_grant (sy_agent s) (sy_peer s) ''decrypt@vt'' \<or> touched (sy_agent s) (sy_agent t))"
proof -
  from assms(5,6) obtain payload plain where pay: "ser (js_decrypt_req c) req = Inr payload"
    and ex: "try_agent_extension c lib (vc_auth_token self) ''decrypt@vt'' payload s = (Ok (Some plain), t)"
    and out: "de (js_results c) plain = Inr out"
    by (auto simp: client_decrypt_def io_bind_eq_Ok no_transport_def split: option.splits)
  from try_agent_OkE [OF ex] obtain ct resp w g where
    ct: "aes_encrypt c (AesGcmCrypto (ag_auth_token (sy_agent s))) payload (sy_client s) = (Ok ct, w)"
    and op: "extension_op c (sy_peer s) \<lparr>ex_name = ''decrypt@vt'', ex_details = ct\<rparr> (sy_agent s) = (Ok (Some resp), g)"
    and plain: "aes_decrypt c (AesGcmCrypto (ag_auth_token (sy_agent s))) (ex_details resp) = Ok plain"
    and t: "t = s\<lparr>sy_client := w, sy_agent := g\<rparr>"
    by (rule exchange_OkE) (simp add: assms(4))
  have "aes_decrypt c (AesGcmCrypto (ag_auth_token (sy_agent s))) ct = Ok payload"
    by (rule aes_decrypt_encrypt [OF assms(1) ct])
  with decrypt_consent [OF assms(1) op] obtain rs bs where
    rs: "do_decrypt c (AesGcmCrypto (ag_passphrase (sy_agent s))) (unix_time (ag_world (sy_agent s))) (dr_items req) = Ok rs"
    and bs: "ser (js_results c) rs = Inr bs"
      "aes_decrypt c (AesGcmCrypto (ag_auth_token (sy_agent s))) (ex_details resp) = Ok bs"
    and ok: "cached_grant (sy_agent s) (sy_peer s) ''decrypt@vt'' \<or> touched (sy_agent s) g"
    using serde_okD [OF assms(2) pay] by auto
  from bs plain out serde_okD [OF assms(3) bs(1)] have "rs = out" by simp
  with rs ok t show ?thesis by simp
qed

text \<open>
  C4. The client end to end, through the sealed channel and the agent's vault: for a client that holds the
  agent's transport key, decrypting (at any later time, also after a restart of the agent) the items it
  once encrypted gives back for each item what its type promises, the plaintext or the current code;
  and each such decryption had a live grant of the caller or a touch.
\<close>

theorem client_decrypt_of_encrypt:
  assumes "aead_ok c" and "base64_ok c" and "serde_ok (js_encrypt_items c)"
    and "serde_ok (js_decrypt_req c)" and "serde_ok (js_results c)"
    and "vc_base_url self = None"
    and "decode_auth_cipher_from_b64 c (vc_auth_token self) = Ok (ag_auth_token (sy_agent s))"
    and "ag_auth_token (sy_agent s2) = ag_auth_token (sy_agent s)"
    and "ag_passphrase (sy_agent s2) = ag_passphrase (sy_agent s)"
    and "\<forall>i \<in> set items. rust_str (ei_plaintext i)"
    and "client_encrypt c lib self items s = (Ok rs, t)" and "\<forall>r \<in> set rs. cr_err_message r = []"
    and "dr_items req = map cr_result rs"
    and "client_decrypt c lib self req s2 = (Ok out, t2)"
  shows "oc_mapM (\<lambda>i. to_res_item (reveal c (unix_time (ag_world (sy_agent s2))) i)) items = Ok out \<and>
    (cached_grant (sy_agent s2) (sy_peer s2) ''decrypt@vt'' \<or> touched (sy_agent s2) (sy_agent t2))"
proof -
  obtain w v where "do_encrypt c (AesGcmCrypto (ag_passphrase (sy_agent s))) items w = (Ok rs, v)"
    using client_encrypt_answer [OF assms(1,3,5,7,6,11)] by blast
  from decrypt_after_encrypt [OF assms(1,2,10) this assms(12)]
    client_decrypt_answer [OF assms(1,4,5) _ assms(6,14)] assms(7-9,13)
  show ?thesis by simp
qed


section \<open>Foreign agents and the HTTP fallback\<close>

text \<open>
  The client talks to no agent but vt-yubi's: when \<open>SSH_AUTH_SOCK\<close> names a socket that is not called
  \<open>vt-yubi.sock\<close>, encrypting, decrypting and authenticating all fail before anything is connected,
  sealed or sent, also to the HTTP server, and the system is as it was.
\<close>

theorem client_ignores_foreign_socket:
  assumes "env_var ''SSH_AUTH_SOCK'' (sy_client s) = Some sock"
    and "path_file_name sock \<noteq> Some ''vt-yubi.sock''"
  shows "(\<exists>e. client_encrypt c lib self items s = (Err e, s)) \<and>
    (\<exists>e. client_decrypt c lib self req s = (Err e, s)) \<and>
    (\<exists>e. client_auth c lib self reason s = (Err e, s))"
proof -
  have "try_agent_extension c lib tok name payload s = (Err (Msg (wrong_socket sock)), s)" for tok name payload
    using assms
    by (cases "path_file_name sock")
      (auto simp: try_agent_extension_def agent_socket_path_def in_client_def io_bind_def unwrap_or_empty_def
        socket_name_def)
  then show ?thesis
    by (cases "ser (js_encrypt_items c) items"; cases "ser (js_decrypt_req c) req";
        cases "ser (js_auth_req c) \<lparr>ar_host = host_name (sy_client s), ar_reason = reason\<rparr>")
      (simp_all add: client_encrypt_def client_decrypt_def client_auth_def io_bind_eval)
qed

text \<open>The server of \<open>serve.rs\<close> behind every URL: a panic of a handler closes the connection.\<close>

definition serves :: "crates \<Rightarrow> axum \<Rightarrow> aes_gcm_crypto \<Rightarrow> app_state \<Rightarrow> system \<Rightarrow> bool" where
  "serves c ax a st s \<longleftrightarrow> (\<forall>url req w. sy_post s url req w =
     (case http_app c ax a st req w of
        (Ok resp, v) \<Rightarrow> (Inr resp, v)
      | (_, v) \<Rightarrow> (Inl ''connection closed before message completed'', v)))"

lemma http_send_octet:
  assumes "axum_ok ax" and "serves c ax a st s" and "path = ''/encrypt'' \<or> path = ''/decrypt''"
    and "http_send url \<lparr>hq_method = ''POST'', hq_path = path,
      hq_content_type = Some ''application/octet-stream'', hq_body = body\<rparr> s = (r, t)"
  shows "yk_log (sy_server t) = yk_log (sy_server s) \<and> files (sy_server t) = files (sy_server s) \<and>
    (\<forall>resp. r = Ok resp \<longrightarrow> \<not> is_success (hs_status resp))"
proof -
  let ?req = "\<lparr>hq_method = ''POST'', hq_path = path,
      hq_content_type = Some ''application/octet-stream'', hq_body = body\<rparr>"
  obtain x v where x: "http_app c ax a st ?req (sy_server s) = (x, v)" by fastforce
  have "\<not> ax_json_type ax (hq_content_type ?req)" using assms(1) by (simp add: axum_ok_def)
  from http_octet_rejected [OF this x] assms(3) obtain resp where "x = Ok resp" "hs_status resp \<in> {403, 415, 500}"
    "yk_log v = yk_log (sy_server s)" "files v = files (sy_server s)"
    by auto
  with assms(2,4) x show ?thesis by (auto simp: http_send_def serves_def is_success_def)
qed

lemma authed_request_fails:
  assumes "axum_ok ax" and "serves c ax a st s" and "path = ''/encrypt'' \<or> path = ''/decrypt''"
    and "authed_request c self path jreq jres x s = (r, t)"
  shows "(\<forall>y. r \<noteq> Ok y) \<and> yk_log (sy_server t) = yk_log (sy_server s) \<and> files (sy_server t) = files (sy_server s)"
proof (cases "vc_base_url self")
  case None
  with assms(4) show ?thesis by (auto simp: authed_request_def)
next
  case (Some base)
  show ?thesis
  proof (cases "ser jreq x")
    case (Inl e)
    with assms(4) Some show ?thesis by (auto simp: authed_request_def io_bind_eval)
  next
    case (Inr body)
    note ser_ok = Inr
    show ?thesis
    proof (cases "oc_bind (decode_auth_cipher_from_b64 c (vc_auth_token self)) aes_new")
      case (Ok k)
      then obtain key where key: "decode_auth_cipher_from_b64 c (vc_auth_token self) = Ok key" "aes_new key = Ok k"
        by (auto simp: oc_bind_eq_Ok)
      obtain e w where e: "aes_encrypt c k body (sy_client s) = (e, w)" by fastforce
      show ?thesis
      proof (cases e)
        case (Ok ct)
        let ?req = "\<lparr>hq_method = ''POST'', hq_path = path,
          hq_content_type = Some ''application/octet-stream'', hq_body = ct\<rparr>"
        let ?s = "s\<lparr>sy_client := w\<rparr>"
        obtain q u where q: "http_send (with_protocol base @ path) ?req ?s = (q, u)" by fastforce
        have "serves c ax a st ?s" using assms(2) by (simp add: serves_def)
        note o = http_send_octet [OF assms(1) this assms(3) q]
        from assms(4) Some ser_ok key e Ok q o show ?thesis
          by (cases q) (auto simp: authed_request_def io_bind_def in_client_def io_context_def io_map_err_def Let_def)
      qed (use assms(4) Some ser_ok key e in \<open>auto simp: authed_request_def io_bind_def in_client_def Let_def\<close>)
    qed (use assms(4) Some ser_ok in \<open>auto simp: authed_request_def io_bind_def Let_def oc_bind_def
        split: outcome.splits\<close>)
  qed
qed

lemma try_agent_unreachable:
  assumes "\<forall>p. sy_connect s p \<noteq> Connected"
  shows "\<exists>r. try_agent_extension c lib tok name payload s = (r, s) \<and> (\<forall>x. r \<noteq> Ok (Some x))"
proof -
  obtain r w where p: "agent_socket_path (sy_client s) = (r, w)" by fastforce
  have "w = sy_client s" using socket_path_state [OF p] .
  with p assms show ?thesis
    by (cases r; cases "sy_connect s (case r of Ok q \<Rightarrow> q | _ \<Rightarrow> [])")
      (auto simp: try_agent_extension_def in_client_def io_bind_def)
qed

text \<open>
  The HTTP fallback cannot work: the client labels its sealed body \<open>application/octet-stream\<close> and the
  server's middleware, which opens the body, leaves the label, so the JSON extractor of every route
  rejects it.  Without an agent socket neither encryption nor decryption succeeds against the
  server of this program, with the right key or a wrong one, and the server's device is never asked.
\<close>

theorem client_http_fallback_fails:
  assumes "axum_ok ax" and "serves c ax a st s" and "\<forall>p. sy_connect s p \<noteq> Connected"
    and "client_encrypt c lib self items s = (r, t) \<or> client_decrypt c lib self req s = (r, t)"
  shows "(\<forall>rs. r \<noteq> Ok rs) \<and> yk_log (sy_server t) = yk_log (sy_server s)"
proof -
  obtain r1 where r1: "try_agent_extension c lib (vc_auth_token self) n pl s = (r1 n pl, s)"
    and no: "r1 n pl \<noteq> Ok (Some y)" for n pl y
    using try_agent_unreachable [OF assms(3), of c lib "vc_auth_token self"] by metis
  from assms(4) show ?thesis
  proof
    assume run: "client_encrypt c lib self items s = (r, t)"
    show ?thesis
    proof (cases "ser (js_encrypt_items c) items")
      case (Inr pl)
      then show ?thesis
        using run r1 [of "''encrypt@vt''" pl] no [of "''encrypt@vt''" pl] authed_request_fails [OF assms(1,2), of "''/encrypt''" self]
        by (cases "r1 ''encrypt@vt'' pl")
          (force simp: client_encrypt_def io_bind_eval no_transport_def split: option.splits if_splits)+
    qed (use run in \<open>auto simp: client_encrypt_def io_bind_eval\<close>)
  next
    assume run: "client_decrypt c lib self req s = (r, t)"
    show ?thesis
    proof (cases "ser (js_decrypt_req c) req")
      case (Inr pl)
      then show ?thesis
        using run r1 [of "''decrypt@vt''" pl] no [of "''decrypt@vt''" pl] authed_request_fails [OF assms(1,2), of "''/decrypt''" self]
        by (cases "r1 ''decrypt@vt'' pl")
          (force simp: client_decrypt_def io_bind_eval no_transport_def split: option.splits if_splits)+
    qed (use run in \<open>auto simp: client_decrypt_def io_bind_eval\<close>)
  qed
qed


section \<open>Witnesses\<close>

text \<open>A client on the agent's machine that holds the agent's key, and a way to run its requests.\<close>

definition demo_lib :: client_lib where
  "demo_lib = \<lparr>cl_failure_text = ''Unexpected response'', cl_closed_text = ''unexpected end of file''\<rparr>"

definition demo_client :: vt_client where
  "demo_client = \<lparr>vc_base_url = None, vc_auth_token = demo_b64 (replicate 32 2)\<rparr>"

definition demo_system :: system where
  "demo_system = \<lparr>sy_client = demo_world, sy_connect = (\<lambda>p. Connected), sy_peer = None,
     sy_agent = demo_agent, sy_post = (\<lambda>u r w. (Inl ''refused'', w)), sy_server = demo_world\<rparr>"

lemma demo_system_sel [simp]:
  "sy_client demo_system = demo_world" "sy_connect demo_system p = Connected" "sy_peer demo_system = None"
  "sy_agent demo_system = demo_agent" "sy_server demo_system = demo_world"
  "vc_base_url demo_client = None"
  by (simp_all add: demo_system_def demo_client_def)

lemma demo_token: "decode_auth_cipher_from_b64 demo_crates (vc_auth_token demo_client) = Ok (replicate 32 2)"
  by (simp add: decode_auth_cipher_from_b64_def demo_client_def demo_b64_inverse demo_sha_def)

lemma demo_socket: "agent_socket_path demo_world = (Ok ''/h/.ssh/vt-yubi.sock'', demo_world)"
  by (simp add: agent_socket_path_def env_var_def io_bind_def home_dir_def path_join_def socket_name_def)

text \<open>An agent with the secrets and the device of the demonstration, behind the socket; the rest is left open.\<close>

definition demo_like :: "agent \<Rightarrow> bool" where
  "demo_like g \<longleftrightarrow> \<not> ag_locked g \<and> ag_cache_mode g = CacheNone \<and> ag_passphrase g = replicate 32 1 \<and>
     ag_auth_token g = replicate 32 2 \<and> dev (ag_world g) = demo_device"

lemma demo_like_agent [simp]: "demo_like demo_agent"
  by (simp add: demo_like_def)

definition demo_seat :: "system \<Rightarrow> bool" where
  "demo_seat s \<longleftrightarrow> demo_like (sy_agent s) \<and> sy_peer s = None \<and> (\<forall>p. sy_connect s p = Connected) \<and>
     home (sy_client s) = Some ''/h'' \<and> env_vars (sy_client s) = []"

definition drew_nonce :: "world \<Rightarrow> world" where
  "drew_nonce w = w\<lparr>rng_pos := rng_pos w + 12\<rparr>"

lemma demo_seat_system: "demo_seat demo_system"
  by (simp add: demo_seat_def)

lemma demo_seat_socket: "demo_seat s \<Longrightarrow> agent_socket_path (sy_client s) = (Ok ''/h/.ssh/vt-yubi.sock'', sy_client s)"
  by (simp add: demo_seat_def agent_socket_path_def env_var_def io_bind_def home_dir_def path_join_def socket_name_def)

lemma extension_runs:
  assumes "\<not> ag_locked g" and "ag_auth_token g = replicate 32 2"
    and "aes_decrypt demo_crates (AesGcmCrypto (replicate 32 2)) (ex_details ext) = Ok plain"
    and "(if ex_name ext = ''encrypt@vt'' then handle_encrypt demo_crates None [] plain
          else if ex_name ext = ''decrypt@vt'' then handle_decrypt demo_crates None [] plain
          else handle_auth demo_crates None [] plain) (g\<lparr>ag_last_activity := agent_now g\<rparr>) = (Ok bs, v)"
    and "ex_name ext \<in> {''encrypt@vt'', ''decrypt@vt'', ''auth@vt''}"
  shows "\<exists>resp t. extension_op demo_crates None ext g = (Ok (Some resp), t) \<and>
    aes_decrypt demo_crates (AesGcmCrypto (replicate 32 2)) (ex_details resp) = Ok bs"
proof -
  obtain x y where e: "aes_encrypt demo_crates (AesGcmCrypto (replicate 32 2)) bs (ag_world v) = (Ok x, y)"
    using demo_aes_encrypt by blast
  have "extension_op demo_crates None ext g = (Ok (Some \<lparr>ex_name = ex_name ext, ex_details = x\<rparr>), v\<lparr>ag_world := y\<rparr>)"
    using assms e
    by (simp add: extension_op_def extension_unlocked_def touch_activity_def io_bind_def io_map_err_def
        peer_caller_def unwrap_or_empty_def aes_new_32 in_world_def del: insert_iff cong: if_cong)
  then show ?thesis using aes_decrypt_encrypt [OF demo_aead_ok e] by auto
qed

lemma demo_exchange:
  assumes "\<And>ct. aes_decrypt demo_crates (AesGcmCrypto (replicate 32 2)) ct = Ok payload \<Longrightarrow>
      \<exists>resp t. extension_op demo_crates None \<lparr>ex_name = name, ex_details = ct\<rparr> (sy_agent s) = (Ok (Some resp), t) \<and>
        aes_decrypt demo_crates (AesGcmCrypto (replicate 32 2)) (ex_details resp) = Ok bs"
    and "demo_seat s"
  shows "\<exists>t. try_agent_extension demo_crates demo_lib (vc_auth_token demo_client) name payload s =
    (Ok (Some bs), t) \<and> sy_client t = drew_nonce (sy_client s)"
proof -
  obtain ct w where ct: "aes_encrypt demo_crates (AesGcmCrypto (replicate 32 2)) payload (sy_client s) = (Ok ct, w)"
    using demo_aes_encrypt by blast
  have w: "w = drew_nonce (sy_client s)"
    using arg_cong [OF ct, of snd] by (simp add: aes_encrypt_state drew_nonce_def)
  obtain resp g where "extension_op demo_crates None \<lparr>ex_name = name, ex_details = ct\<rparr> (sy_agent s) = (Ok (Some resp), g)"
    and "aes_decrypt demo_crates (AesGcmCrypto (replicate 32 2)) (ex_details resp) = Ok bs"
    using assms(1) [OF aes_decrypt_encrypt [OF demo_aead_ok ct]] by blast
  with assms(2) show ?thesis
    by (simp add: try_agent_extension_def exchange_def in_client_def demo_seat_socket io_bind_def demo_token
        aes_new_32 ct call_extension_def w demo_seat_def)
qed

lemma demo_client_auth: "\<exists>t. client_auth demo_crates demo_lib demo_client ''sudo'' demo_system = (Ok (), t)"
proof -
  let ?u = "demo_agent\<lparr>ag_last_activity := agent_now demo_agent\<rparr>"
  obtain v where v: "verify_yubikey_presence demo_crates (format_auth_prompt demo_auth_request []) ?u = (Ok True, v)"
    using demo_verify [of ?u] by fastforce
  obtain x where x: "in_world (log_auth demo_crates None [] demo_auth_request True) v = (Ok (), v\<lparr>ag_world := x\<rparr>)"
    using log_run(3) by blast
  obtain bs where bs: "ser demo_auth_res \<lparr>as_approved = True\<rparr> = Inr bs"
    by (simp add: demo_auth_res_def)
  have h: "handle_auth demo_crates None [] (the_ser demo_auth_req demo_auth_request) ?u = (Ok bs, v\<lparr>ag_world := x\<rparr>)"
    using v x bs by (simp add: handle_auth_def io_bind_def demo_de_the_ser)
  have pay: "ser demo_auth_req demo_auth_request = Inr (the_ser demo_auth_req demo_auth_request)"
    by (simp add: the_ser_def demo_auth_req_def)
  have "\<exists>t. try_agent_extension demo_crates demo_lib (vc_auth_token demo_client) ''auth@vt''
      (the_ser demo_auth_req demo_auth_request) demo_system = (Ok (Some bs), t) \<and> sy_client t = drew_nonce demo_world"
    using h demo_exchange [OF extension_runs demo_seat_system] by simp
  moreover have "de demo_auth_res bs = Inr \<lparr>as_approved = True\<rparr>"
    using serde_okD [OF demo_serde_ok(9) bs] .
  ultimately show ?thesis
    using pay by (auto simp: client_auth_def demo_auth_request_def io_bind_def io_context_def io_map_err_def)
qed

theorem client_auth_touched_witness:
  "\<exists>t. client_auth demo_crates demo_lib demo_client ''sudo'' demo_system = (Ok (), t) \<and>
     touched demo_agent (sy_agent t)"
proof -
  obtain t where run: "client_auth demo_crates demo_lib demo_client ''sudo'' demo_system = (Ok (), t)"
    using demo_client_auth by blast
  from client_auth_touched [OF this] run show ?thesis by auto
qed


lemma demo_client_encrypt:
  assumes "demo_seat s"
  shows "\<exists>rs t w v. client_encrypt demo_crates demo_lib demo_client items s = (Ok rs, t) \<and>
     sy_client t = drew_nonce (sy_client s) \<and> do_encrypt demo_crates (AesGcmCrypto (replicate 32 1)) items w = (Ok rs, v) \<and>
     (\<forall>r \<in> set rs. cr_err_message r = [])"
proof -
  let ?g = "sy_agent s"
  let ?u = "?g\<lparr>ag_last_activity := agent_now ?g\<rparr>"
  have g: "\<not> ag_locked ?g" "ag_passphrase ?g = replicate 32 1" "ag_auth_token ?g = replicate 32 2"
    using assms by (simp_all add: demo_seat_def demo_like_def)
  obtain x where x: "log_encrypt demo_crates None [] (length items) (ag_world ?g) = (Ok (), x)"
    using log_Ok(2) by (metis prod.collapse)
  obtain rs v where rs: "do_encrypt demo_crates (AesGcmCrypto (replicate 32 1)) items x = (Ok rs, v)"
    and ok: "\<forall>r \<in> set rs. cr_err_message r = []"
    using demo_encrypt_all by blast
  have pay: "ser demo_encrypt_items items = Inr (the_ser demo_encrypt_items items)"
    by (simp add: the_ser_def demo_encrypt_items_def rows_serde_def)
  have h: "handle_encrypt demo_crates None [] (the_ser demo_encrypt_items items) ?u =
      (Ok (the_ser demo_results rs), ?u\<lparr>ag_world := v\<rparr>)"
    using x rs serde_okD [OF demo_serde_ok(2) pay]
    by (simp add: handle_encrypt_def io_bind_def in_world_def aes_new_32 demo_ser_results g)
  have "\<exists>t. try_agent_extension demo_crates demo_lib (vc_auth_token demo_client) ''encrypt@vt''
      (the_ser demo_encrypt_items items) s = (Ok (Some (the_ser demo_results rs)), t) \<and>
      sy_client t = drew_nonce (sy_client s)"
    using h g by (intro demo_exchange [OF _ assms] extension_runs) simp_all
  moreover have "de demo_results (the_ser demo_results rs) = Inr rs"
    using serde_okD [OF demo_serde_ok(1) demo_ser_results] .
  ultimately have "\<exists>t. client_encrypt demo_crates demo_lib demo_client items s = (Ok rs, t) \<and>
      sy_client t = drew_nonce (sy_client s)"
    using pay by (auto simp: client_encrypt_def io_bind_def)
  with rs ok show ?thesis by blast
qed

lemma demo_client_decrypt:
  assumes "\<And>now. do_decrypt demo_crates (AesGcmCrypto (replicate 32 1)) now (dr_items req) = Ok out"
    and "demo_seat s"
  shows "\<exists>t. client_decrypt demo_crates demo_lib demo_client req s = (Ok out, t) \<and>
    sy_client t = drew_nonce (sy_client s)"
proof -
  let ?g = "sy_agent s"
  let ?u = "?g\<lparr>ag_last_activity := agent_now ?g\<rparr>"
  have g: "\<not> ag_locked ?g" "ag_passphrase ?g = replicate 32 1" "ag_auth_token ?g = replicate 32 2"
    "ag_cache_mode ?g = CacheNone" "dev (ag_world ?g) = demo_device"
    using assms(2) by (simp_all add: demo_seat_def demo_like_def)
  obtain v where v: "check_or_prompt_auth demo_crates None ''decrypt@vt'' (format_decrypt_prompt req []) True ?u = (Ok True, v)"
    using demo_check [of ?u] g by fastforce
  obtain x where x: "in_world (log_decrypt demo_crates None [] req True) v = (Ok (), v\<lparr>ag_world := x\<rparr>)"
    using log_run(2) by blast
  have c: "same_config ?u v" by (rule withinD [OF check_frames(1) v])
  have pay: "ser demo_decrypt_req req = Inr (the_ser demo_decrypt_req req)"
    by (simp add: the_ser_def demo_decrypt_req_def)
  have h: "handle_decrypt demo_crates None [] (the_ser demo_decrypt_req req) ?u =
      (Ok (the_ser demo_results out), v\<lparr>ag_world := x\<rparr>)"
    using v x c assms(1)
    by (simp add: handle_decrypt_def io_bind_def demo_de_the_ser aes_new_32 same_config_def demo_ser_results g)
  have "\<exists>t. try_agent_extension demo_crates demo_lib (vc_auth_token demo_client) ''decrypt@vt''
      (the_ser demo_decrypt_req req) s = (Ok (Some (the_ser demo_results out)), t) \<and>
      sy_client t = drew_nonce (sy_client s)"
    using h g by (intro demo_exchange [OF _ assms(2)] extension_runs) simp_all
  moreover have "de demo_results (the_ser demo_results out) = Inr out"
    using serde_okD [OF demo_serde_ok(1) demo_ser_results] .
  ultimately show ?thesis
    using pay by (auto simp: client_decrypt_def io_bind_def)
qed

definition demo_raw :: encrypt_item where
  "demo_raw = \<lparr>ei_plaintext = ''pw'', ei_t = RAW\<rparr>"

lemma demo_raw_str: "rust_str (ei_plaintext demo_raw)"
  by (rule ascii_rust_str) (simp add: demo_raw_def ascii_char_def byte_of_def)

theorem client_decrypt_of_encrypt_witness:
  "\<exists>rs t req out t2. client_encrypt demo_crates demo_lib demo_client [demo_raw] demo_system = (Ok rs, t) \<and>
     dr_items req = map cr_result rs \<and>
     client_decrypt demo_crates demo_lib demo_client req demo_system = (Ok out, t2) \<and>
     map cr_result out = [''pw''] \<and> touched demo_agent (sy_agent t2)"
proof -
  obtain rs t w v where enc: "client_encrypt demo_crates demo_lib demo_client [demo_raw] demo_system = (Ok rs, t)"
    and rs: "do_encrypt demo_crates (AesGcmCrypto (replicate 32 1)) [demo_raw] w = (Ok rs, v)"
    and ok: "\<forall>r \<in> set rs. cr_err_message r = []"
    using demo_client_encrypt [OF demo_seat_system] by blast
  let ?req = "\<lparr>dr_host = ''h'', dr_command = ''[read]'', dr_items = map cr_result rs, dr_descriptions = []\<rparr>"
  have str: "\<forall>i \<in> set [demo_raw]. rust_str (ei_plaintext i)" using demo_raw_str by simp
  have "do_decrypt demo_crates (AesGcmCrypto (replicate 32 1)) now (dr_items ?req) =
      Ok [\<lparr>cr_result = ''pw'', cr_err_message = []\<rparr>]" for now
    using decrypt_after_encrypt [OF demo_aead_ok demo_base64_ok str rs ok, of now]
    by (simp add: reveal_def demo_raw_def)
  then obtain t2 where dec: "client_decrypt demo_crates demo_lib demo_client ?req demo_system =
      (Ok [\<lparr>cr_result = ''pw'', cr_err_message = []\<rparr>], t2)"
    using demo_client_decrypt [OF _ demo_seat_system] by blast
  have laws: "serde_ok (js_encrypt_items demo_crates)" "serde_ok (js_decrypt_req demo_crates)"
    "serde_ok (js_results demo_crates)"
    by (simp_all add: demo_serde_ok)
  have tok: "decode_auth_cipher_from_b64 demo_crates (vc_auth_token demo_client) = Ok (ag_auth_token (sy_agent demo_system))"
    by (simp add: demo_token)
  have items: "dr_items ?req = map cr_result rs" by simp
  have "vc_base_url demo_client = None" by simp
  from client_decrypt_of_encrypt [OF demo_aead_ok demo_base64_ok laws this tok refl refl str enc ok items dec]
  have "touched demo_agent (sy_agent t2)" by (simp add: cached_grant_def context_id_def)
  with enc dec items show ?thesis
    by (intro exI [of _ rs] exI [of _ t] exI [of _ ?req] exI [of _ t2]
        exI [of _ "[\<lparr>cr_result = ''pw'', cr_err_message = []\<rparr>]"]) simp
qed

theorem client_ignores_foreign_socket_witness:
  "\<exists>e. client_encrypt demo_crates demo_lib demo_client [demo_raw]
      (demo_system\<lparr>sy_client := demo_world\<lparr>env_vars := [(''SSH_AUTH_SOCK'', ''/tmp/ssh/agent.1'')]\<rparr>\<rparr>) =
     (Err e, demo_system\<lparr>sy_client := demo_world\<lparr>env_vars := [(''SSH_AUTH_SOCK'', ''/tmp/ssh/agent.1'')]\<rparr>\<rparr>)"
  by (rule client_ignores_foreign_socket [THEN conjunct1, of _ "''/tmp/ssh/agent.1''"])
    (simp_all add: env_var_def path_file_name_def)

theorem client_http_fallback_fails_witness:
  "\<exists>s r t. serves demo_crates demo_axum (AesGcmCrypto (replicate 32 2)) demo_app_state s \<and>
     client_decrypt demo_crates demo_lib (demo_client\<lparr>vc_base_url := Some ''127.0.0.1:5757''\<rparr>) demo_request s = (r, t) \<and>
     (\<forall>rs. r \<noteq> Ok rs) \<and> yk_log (sy_server t) = []"
proof -
  let ?s = "demo_system\<lparr>sy_connect := (\<lambda>p. ConnNotFound), sy_post := (\<lambda>url req w.
    case http_app demo_crates demo_axum (AesGcmCrypto (replicate 32 2)) demo_app_state req w of
      (Ok resp, v) \<Rightarrow> (Inr resp, v) | (_, v) \<Rightarrow> (Inl ''connection closed before message completed'', v))\<rparr>"
  have srv: "serves demo_crates demo_axum (AesGcmCrypto (replicate 32 2)) demo_app_state ?s"
    by (simp add: serves_def)
  obtain r t where run: "client_decrypt demo_crates demo_lib
      (demo_client\<lparr>vc_base_url := Some ''127.0.0.1:5757''\<rparr>) demo_request ?s = (r, t)"
    by fastforce
  have "\<forall>p. sy_connect ?s p \<noteq> Connected" by simp
  from client_http_fallback_fails [OF demo_axum_ok srv this disjI2 [OF run]] srv run show ?thesis
    by auto
qed

end
