(* ===== verification/Vt_Secrets.thy ===== *)
theory Vt_Secrets
  imports Vt_Client
begin

text \<open>
  The commands of \<open>src/cli.rs\<close> on secrets: \<open>create\<close>, \<open>list\<close>, \<open>delete\<close> and \<open>read\<close>, and the index
  \<open>~/.vt-yubi/secrets.json\<close> they share.  \<open>create\<close> and \<open>read\<close> run in the system of \<open>Vt_Client\<close>, the
  others on the client's world.
\<close>

section \<open>The prompt for a secret\<close>

definition prompt_input_password :: "string \<Rightarrow> string \<Rightarrow> string wio" where
  "prompt_input_password prompt_before prompt_after =
     io_bind (io_context ''Failed to read password'' (prompt_password prompt_before)) (\<lambda>typed_text.
     let secret = trim typed_text in
     if secret = [] then io_fail (Msg ''Secret cannot be empty'')
     else
       io_bind (io_of (slice_to secret 2)) (\<lambda>front.
       io_bind (io_of (slice_from secret (length secret - 2))) (\<lambda>back.
       io_seq (println (prompt_after @ front @ ''****'' @ back)) (
       io_ret secret))))"

section \<open>The index\<close>

definition secrets_index_path :: "string wio" where
  "secrets_index_path = io_bind vt_yubi_dir (\<lambda>d. io_ret (path_join d ''secrets.json''))"

definition load_secrets_index :: "crates \<Rightarrow> secret_entry list wio" where
  "load_secrets_index c =
     io_bind secrets_index_path (\<lambda>path.
     io_bind (fs_exists path) (\<lambda>ex.
     if \<not> ex then io_ret []
     else
       io_bind (io_context ''Failed to read secrets index'' (fs_read_to_string path)) (\<lambda>data.
       io_context ''Failed to parse secrets index'' (io_of (of_sum Msg (de (js_secrets c) (as_bytes data)))))))"

definition save_secrets_index :: "crates \<Rightarrow> secret_entry list \<Rightarrow> unit wio" where
  "save_secrets_index c entries =
     io_bind secrets_index_path (\<lambda>path.
     io_bind vt_yubi_dir (\<lambda>parent.
     io_seq (io_context ''Failed to create ~/.vt-yubi directory'' (create_dir_all parent)) (
     io_bind (io_of (of_sum Msg (ser (js_secrets c) entries))) (\<lambda>data.
     io_context ''Failed to write secrets index'' (fs_write path data)))))"

section \<open>Creating\<close>

definition nonempty_secret :: "string \<Rightarrow> string outcome" where
  "nonempty_secret content =
     (let secret = trim content in
      if secret = [] then Err (Msg ''Secret cannot be empty'') else Ok secret)"

fun secret_type_debug :: "secret_type \<Rightarrow> string" where
  "secret_type_debug RAW = ''RAW''"
| "secret_type_debug TOTP = ''TOTP''"
| "secret_type_debug UNKNOWN = ''UNKNOWN''"

definition create_input :: "string option \<Rightarrow> (secret_type \<times> string) wio" where
  "create_input file =
     io_bind (io_get stdin_tty) (\<lambda>is_tty.
     case file of
       Some file_path \<Rightarrow>
         io_bind (if file_path = ''-'' then read_stdin
                  else io_context (''Failed to read file: '' @ file_path) (fs_read_to_string file_path))
           (\<lambda>content.
         io_bind (io_of (nonempty_secret content)) (\<lambda>secret. io_ret (RAW, secret)))
     | None \<Rightarrow>
         if \<not> is_tty then
           io_bind read_stdin (\<lambda>buf.
           io_bind (io_of (nonempty_secret buf)) (\<lambda>secret. io_ret (RAW, secret)))
         else
           io_seq (print_str ''Enter secret type (raw/totp) [default: raw]: '') (
           io_bind read_stdin_line (\<lambda>line.
           let input = (if trim line = [] then ''raw'' else line);
               secret_type = secret_type_from_str (lower_ascii (trim input)) in
           if secret_type = UNKNOWN then io_fail (Msg (''Invalid secret type: '' @ input))
           else
             io_bind (prompt_input_password ''Enter secret: '' ''Secret entered: '') (\<lambda>secret.
             io_ret (secret_type, secret)))))"

definition create_description :: "string option \<Rightarrow> string option \<Rightarrow> string wio" where
  "create_description description file =
     io_bind (io_get stdin_tty) (\<lambda>is_tty.
     case description of
       Some d \<Rightarrow> io_ret d
     | None \<Rightarrow>
         if is_tty \<and> file = None then
           io_seq (print_str ''Enter description (optional): '') (
           io_bind read_stdin_line (\<lambda>desc. io_ret (trim desc)))
         else io_ret [])"

definition add_to_index :: "crates \<Rightarrow> string \<Rightarrow> string \<Rightarrow> secret_type \<Rightarrow> unit wio" where
  "add_to_index c description vt secret_type =
     io_bind (io_or [] (load_secrets_index c)) (\<lambda>entries.
     io_bind (io_get local_time) (\<lambda>now.
     save_secrets_index c (entries @ [\<lparr>se_description = description, se_vt = vt,
       se_secret_type = secret_type_debug secret_type, se_created_at = now\<rparr>])))"

definition index_panic :: string where
  "index_panic = ''index out of bounds: the len is 0 but the index is 0''"

definition create ::
  "crates \<Rightarrow> client_lib \<Rightarrow> vt_client \<Rightarrow> string option \<Rightarrow> string option \<Rightarrow> unit sio" where
  "create c lib client description file =
     io_bind (in_client (create_input file)) (\<lambda>(secret_type, secret).
     io_bind (in_client (create_description description file)) (\<lambda>description.
     io_bind (client_encrypt c lib client [\<lparr>ei_plaintext = secret, ei_t = secret_type\<rparr>]) (\<lambda>res.
     case res of
       [] \<Rightarrow> io_of (Panic index_panic)
     | r # _ \<Rightarrow>
         if cr_err_message r \<noteq> [] then io_fail (Msg (''Failed to create secret: '' @ cr_err_message r))
         else
           io_seq (in_client (println (''Created item: '' @ cr_result r)))
             (io_when (description \<noteq> []) (in_client (add_to_index c description (cr_result r) secret_type))))))"

section \<open>Listing, deleting, reading\<close>

text \<open>\<open>str::to_lowercase\<close> needs the tables of Unicode; they are the argument \<open>lower\<close>.\<close>

definition listed :: "(string \<Rightarrow> string) \<Rightarrow> string option \<Rightarrow> secret_entry list \<Rightarrow> secret_entry list" where
  "listed lower search entries =
     (case search of
        Some keyword \<Rightarrow> filter (\<lambda>e. contains (lower (se_description e)) (lower keyword)) entries
      | None \<Rightarrow> entries)"

definition number_line :: "nat \<Rightarrow> secret_entry \<Rightarrow> string" where
  "number_line i e = ''['' @ show_nat (i + 1) @ ''] '' @ se_description e"

definition print_entry :: "nat \<times> secret_entry \<Rightarrow> unit wio" where
  "print_entry = (\<lambda>(i, e).
     io_seq (io_when (0 < i) (println [])) (
     io_seq (println (number_line i e)) (
     io_seq (println (''    Type: '' @ se_secret_type e @ ''  Created: '' @ se_created_at e)) (
     println (''    '' @ se_vt e)))))"

definition list_secrets :: "crates \<Rightarrow> (string \<Rightarrow> string) \<Rightarrow> string option \<Rightarrow> unit wio" where
  "list_secrets c lower search =
     io_bind (load_secrets_index c) (\<lambda>entries.
     if entries = [] then
       println ''No secrets stored. Use `vt-yubi create -d <description>` to add secrets with descriptions.''
     else
       let filtered = listed lower search entries in
       if filtered = [] then
         println (''No secrets matching '' @ [CHR 0x22] @ unwrap_or_empty search @ [CHR 0x22] @ ''.'')
       else io_seq (io_mapM print_entry (enumerate 0 filtered)) (io_ret ()))"

definition invalid_number :: "nat \<Rightarrow> nat \<Rightarrow> error" where
  "invalid_number number len = Msg (''Invalid secret number '' @ show_nat number
     @ ''. Use `vt-yubi list` to see valid numbers (1-'' @ show_nat len @ '').'')"

definition remove_at :: "nat \<Rightarrow> 'a list \<Rightarrow> 'a list" where
  "remove_at i xs = take i xs @ drop (Suc i) xs"

definition delete_secret :: "crates \<Rightarrow> nat \<Rightarrow> unit wio" where
  "delete_secret c number =
     io_bind (load_secrets_index c) (\<lambda>entries.
     if entries = [] then println ''No secrets stored.''
     else if number = 0 \<or> number > length entries then io_fail (invalid_number number (length entries))
     else
       let removed = entries ! (number - 1) in
       io_seq (save_secrets_index c (remove_at (number - 1) entries))
         (println (''Deleted secret ['' @ show_nat number @ '']: '' @ se_description removed)))"

definition usize_max :: nat where
  "usize_max = 2 ^ 64 - 1"

definition resolve_read_target :: "crates \<Rightarrow> string \<Rightarrow> string wio" where
  "resolve_read_target c input =
     (if starts_with input ''vt://'' then io_ret input
      else case parse_uint usize_max input of
        Some n \<Rightarrow>
          io_bind (load_secrets_index c) (\<lambda>entries.
          if entries = [] then
            io_fail (Msg ''No secrets indexed. Use `vt-yubi create -d <description>` to add one.'')
          else if n = 0 \<or> n > length entries then io_fail (invalid_number n (length entries))
          else io_ret (se_vt (entries ! (n - 1))))
      | None \<Rightarrow> io_fail (Msg (''Expected a vt:// string or a number shown by `vt-yubi list` (got: ''
          @ input @ '')'')))"

text \<open>
  The clipboard program: one of its steps (starting it, opening its input, writing, waiting) fails, with the
  context of that step, or it takes the text.
\<close>

definition pbcopy :: "string \<Rightarrow> unit wio" where
  "pbcopy s = (\<lambda>w. case pbcopy_err w of
     Some context_text \<Rightarrow> (Err (Msg context_text), w)
   | None \<Rightarrow> (Ok (), w\<lparr>clipboard := Some s\<rparr>))"

definition read_secret :: "crates \<Rightarrow> client_lib \<Rightarrow> vt_client \<Rightarrow> string \<Rightarrow> bool \<Rightarrow> unit sio" where
  "read_secret c lib client target copy =
     io_bind (in_client (resolve_read_target c target)) (\<lambda>vt.
     let is_totp = starts_with vt ''vt://mac/1'' in
     io_bind (io_get (\<lambda>s. host_name (sy_client s))) (\<lambda>host.
     io_bind (client_decrypt c lib client
        \<lparr>dr_host = host, dr_command = ''[read]'', dr_items = [vt], dr_descriptions = []\<rparr>) (\<lambda>res.
     case res of
       [r] \<Rightarrow>
         io_seq (io_of (ensure (cr_err_message r = []) (Msg (''Error decrypting item: '' @ cr_err_message r)))) (
         if copy \<and> is_totp then
           io_seq (in_client (pbcopy (cr_result r)))
             (in_client (println (cr_result r @ '' (copied to clipboard)'')))
         else in_client (print_str (cr_result r)))
     | _ \<Rightarrow> io_fail (Msg ''Expected exactly one item in response''))))"


section \<open>The index as a store\<close>

text \<open>JSON is text: what the serialiser writes is UTF-8.\<close>

definition index_text_ok :: "crates \<Rightarrow> bool" where
  "index_text_ok c \<longleftrightarrow> (\<forall>es bs. ser (js_secrets c) es = Inr bs \<longrightarrow> utf8_valid bs)"

definition index_readable :: "world \<Rightarrow> bool" where
  "index_readable w \<longleftrightarrow> (\<exists>h. home w = Some h \<and> read_err w (vt_file h ''secrets.json'') = None)"

lemma index_path_eval: "home w = Some h \<Longrightarrow> secrets_index_path w = (Ok (vt_file h ''secrets.json''), w)"
  by (simp add: secrets_index_path_def path_defs home_dir_def io_bind_def)

lemma index_path_none: "home w = None \<Longrightarrow> secrets_index_path w = (Err (Msg ''Cannot determine home dir''), w)"
  by (simp add: secrets_index_path_def path_defs home_dir_def io_bind_def)

lemma load_index_eval:
  assumes "home w = Some h"
  shows "load_secrets_index c w =
    ((if files w (vt_file h ''secrets.json'') = None \<and> vt_file h ''secrets.json'' \<notin> dirs w then Ok []
      else case (read_err w (vt_file h ''secrets.json''), Option.bind (files w (vt_file h ''secrets.json'')) from_utf8) of
        (None, Some data) \<Rightarrow>
          (case de (js_secrets c) (as_bytes data) of
             Inr es \<Rightarrow> Ok es | Inl _ \<Rightarrow> Err (Msg ''Failed to parse secrets index''))
      | _ \<Rightarrow> Err (Msg ''Failed to read secrets index'')), w)"
  using assms
  by (auto simp: load_secrets_index_def index_path_eval io_eval_defs fs_defs split: option.split sum.split)

lemma load_index_state:
  assumes "load_secrets_index c w = (r, v)"
  shows "v = w"
proof (cases "home w")
  case None
  with assms show ?thesis by (simp add: load_secrets_index_def index_path_none io_bind_def)
next
  case (Some h)
  have "snd (load_secrets_index c w) = w" unfolding load_index_eval [OF Some] by (rule snd_conv)
  with assms show ?thesis by simp
qed

lemma load_index_no_panic: "fst (load_secrets_index c w) \<noteq> Panic m"
proof (cases "home w")
  case None
  then show ?thesis by (simp add: load_secrets_index_def index_path_none io_bind_def)
next
  case (Some h)
  then show ?thesis by (auto simp: load_index_eval split: option.split sum.split)
qed

lemma save_index_OkE:
  assumes "save_secrets_index c es w = (Ok (), v)"
  obtains h data where "home w = Some h" and "ser (js_secrets c) es = Inr data"
    and "v = w\<lparr>dirs := insert (path_join h ''.vt-yubi'') (dirs w),
           files := (files w)(vt_file h ''secrets.json'' \<mapsto> data)\<rparr>"
proof (cases "home w")
  case None
  with assms show ?thesis by (simp add: save_secrets_index_def index_path_none io_bind_def)
next
  case (Some h)
  with assms that show ?thesis
    by (cases "ser (js_secrets c) es")
      (auto simp: save_secrets_index_def index_path_eval path_defs home_dir_def io_eval_defs
        create_dir_all_def fs_write_def split: option.splits write_fault.splits if_splits)
qed

text \<open>The write of the index was cut off.\<close>

definition index_cut :: "world \<Rightarrow> world \<Rightarrow> bool" where
  "index_cut w v \<longleftrightarrow> (\<exists>h. home w = Some h \<and> cut_off (vt_file h ''secrets.json'') w v)"

lemma save_index_failed:
  assumes "save_secrets_index c es w = (Err e, v)"
  shows "stdout v = stdout w" and "index_cut w v \<or>
    v = w \<or> (\<exists>h. home w = Some h \<and> v = w\<lparr>dirs := insert (path_join h ''.vt-yubi'') (dirs w)\<rparr>)"
proof -
  have "stdout v = stdout w \<and> (index_cut w v \<or>
    v = w \<or> (\<exists>h. home w = Some h \<and> v = w\<lparr>dirs := insert (path_join h ''.vt-yubi'') (dirs w)\<rparr>))"
  proof (cases "home w")
    case None
    with assms show ?thesis by (simp add: save_secrets_index_def index_path_none io_bind_def)
  next
    case (Some h)
    let ?p = "vt_file h ''secrets.json''" and ?u = "w\<lparr>dirs := insert (path_join h ''.vt-yubi'') (dirs w)\<rparr>"
    have run: "save_secrets_index c es w =
      (case mkdir_err w (path_join h ''.vt-yubi'') of
         Some m \<Rightarrow> (Err (Msg ''Failed to create ~/.vt-yubi directory''), w)
       | None \<Rightarrow> (case ser (js_secrets c) es of
           Inl m \<Rightarrow> (Err (Msg m), ?u)
         | Inr data \<Rightarrow> io_context ''Failed to write secrets index'' (fs_write ?p data) ?u))"
      by (simp add: save_secrets_index_def index_path_eval [OF Some] path_defs home_dir_def Some io_eval_defs
          create_dir_all_def split: option.split sum.split)
    show ?thesis
    proof (cases "mkdir_err w (path_join h ''.vt-yubi'')"; cases "ser (js_secrets c) es")
      fix data
      assume "mkdir_err w (path_join h ''.vt-yubi'') = None" "ser (js_secrets c) es = Inr data"
      with run assms obtain x where x: "fs_write ?p data ?u = (x, v)" "x \<noteq> Ok ()"
        by (cases "fs_write ?p data ?u") (auto simp: io_context_def io_map_err_def split: outcome.splits)
      from x(1) show ?thesis
        by (cases rule: fs_write_cases) (use x(2) Some in \<open>auto simp: index_cut_def cut_off_def\<close>)
    qed (use run assms Some in auto)
  qed
  then show "stdout v = stdout w" and "index_cut w v \<or>
    v = w \<or> (\<exists>h. home w = Some h \<and> v = w\<lparr>dirs := insert (path_join h ''.vt-yubi'') (dirs w)\<rparr>)" by blast+
qed

lemma vt_file_not_dir: "vt_file h n \<noteq> path_join h ''.vt-yubi''"
  by (simp add: path_join_def)

interpretation secret_index: key_store
  "\<lambda>_ :: unit. load_secrets_index c" "\<lambda>_. save_secrets_index c" index_readable index_cut
  "serde_ok (js_secrets c) \<and> index_text_ok c" for c
proof
  show "load_secrets_index c s = (r, t) \<Longrightarrow> t = s" for s r t
    by (rule load_index_state)
next
  fix es s t
  assume laws: "serde_ok (js_secrets c) \<and> index_text_ok c" and rd: "index_readable s"
    and run: "save_secrets_index c es s = (Ok (), t)"
  obtain h data where h: "home s = Some h" and d: "ser (js_secrets c) es = Inr data"
    and t: "t = s\<lparr>dirs := insert (path_join h ''.vt-yubi'') (dirs s),
           files := (files s)(vt_file h ''secrets.json'' \<mapsto> data)\<rparr>"
    using run by (rule save_index_OkE)
  have "home t = Some h" "read_err t (vt_file h ''secrets.json'') = None"
    "files t (vt_file h ''secrets.json'') = Some data"
    using h rd by (auto simp: t index_readable_def)
  moreover have "from_utf8 data = Some (of_bytes data)"
    using laws d by (auto simp: from_utf8_def index_text_ok_def)
  moreover have "de (js_secrets c) data = Inr es"
    using laws d by (auto dest: serde_okD)
  ultimately show "load_secrets_index c t = (Ok es, t)"
    by (simp add: load_index_eval)
next
  fix es s e t
  assume run: "save_secrets_index c es s = (Err e, t)"
  show "index_cut s t \<or> fst (load_secrets_index c t) = fst (load_secrets_index c s)"
    using save_index_failed(2) [OF run]
  proof (elim disjE)
    assume "\<exists>h. home s = Some h \<and> t = s\<lparr>dirs := insert (path_join h ''.vt-yubi'') (dirs s)\<rparr>"
    then obtain h where h: "home s = Some h" and t: "t = s\<lparr>dirs := insert (path_join h ''.vt-yubi'') (dirs s)\<rparr>"
      by blast
    have "home t = Some h" "files t = files s" "read_err t = read_err s"
      "vt_file h ''secrets.json'' \<in> dirs t \<longleftrightarrow> vt_file h ''secrets.json'' \<in> dirs s"
      using h vt_file_not_dir by (auto simp: t)
    then show ?thesis by (simp add: load_index_eval h)
  qed simp_all
next
  show "fst (load_secrets_index c s) \<noteq> Panic m" for s m
    by (rule load_index_no_panic)
qed


section \<open>Frames of the client's commands\<close>

text \<open>What the index is read from, and what is printed.\<close>

definition same_index :: "world \<Rightarrow> world \<Rightarrow> bool" where
  "same_index w v \<longleftrightarrow> home v = home w \<and> read_err v = read_err w \<and> files v = files w \<and> dirs v = dirs w"

interpretation sameindex: frame_rel same_index
  by unfold_locales (auto simp: same_index_def)

lemmas sameindex_frame [frame_intros] = sameindex.all

definition same_output :: "world \<Rightarrow> world \<Rightarrow> bool" where
  "same_output w v \<longleftrightarrow> stdout v = stdout w"

interpretation sameoutput: frame_rel same_output
  by unfold_locales (auto simp: same_output_def)

lemmas sameoutput_frame [frame_intros] = sameoutput.all

lemma same_index_load:
  assumes "same_index w v"
  shows "fst (load_secrets_index c v) = fst (load_secrets_index c w)"
proof (cases "home w")
  case None
  with assms show ?thesis
    by (simp add: same_index_def load_secrets_index_def index_path_none io_bind_def)
next
  case (Some h)
  with assms show ?thesis by (simp add: same_index_def load_index_eval)
qed

lemma same_index_prims [frame_intros]:
  "within same_index home_dir" "within same_index (fs_exists p)" "within same_index (fs_read p)"
  "within same_index (println s)" "within same_index (print_str s)" "within same_index read_stdin"
  "within same_index read_stdin_line" "within same_index (prompt_password q)"
  "within same_index (aes_encrypt c a x)"
  by (auto simp: within_def same_index_def fs_defs prompt_password_def read_stdin_def read_stdin_line_def
      aes_encrypt_state Let_def split: option.splits list.splits sum.splits)

lemma same_index_text [frame_intros]: "within same_index (fs_read_to_string p)"
  unfolding fs_read_to_string_def by (intro frame_intros)

lemma same_output_prims [frame_intros]:
  "within same_output home_dir" "within same_output (fs_exists p)" "within same_output (fs_read p)"
  "within same_output (aes_encrypt c a x)"
  by (auto simp: within_def same_output_def fs_defs aes_encrypt_state split: option.splits)

lemma create_frames [frame_intros]:
  "within same_index (prompt_input_password a b)"
  "within same_index (create_input file)"
  "within same_index (create_description d file)"
  unfolding prompt_input_password_def create_input_def create_description_def Let_def
  by (intro frame_intros)+

text \<open>Lifted to the system: what the transports leave alone on the client's side.\<close>

definition client_frame :: "(world \<Rightarrow> world \<Rightarrow> bool) \<Rightarrow> system \<Rightarrow> system \<Rightarrow> bool" where
  "client_frame R s t \<longleftrightarrow> R (sy_client s) (sy_client t)"

lemma client_frame_rel: "frame_rel R \<Longrightarrow> frame_rel (client_frame R)"
  unfolding client_frame_def by (rule frame_rel.intro) (blast intro: frame_rel.frame_refl frame_rel.frame_trans)+

lemma within_in_client:
  "within R m \<Longrightarrow> within (client_frame R) (in_client m)"
  by (auto simp: within_def client_frame_def in_client_def split: prod.split)
    (metis snd_conv)

lemma connection_frame [frame_intros]:
  "within R a \<Longrightarrow> within R b \<Longrightarrow> within R d \<Longrightarrow> (\<And>e. within R (f e)) \<Longrightarrow> within R (case_connection a b d f x)"
  by (cases x) simp_all

lemma list_case_frame [frame_intros]:
  "within R a \<Longrightarrow> (\<And>x xs. within R (f x xs)) \<Longrightarrow> within R (case_list a f v)"
  by (cases v) simp_all

text \<open>
  The interface to the transports: they look up the home directory and draw nonces, so a relation that
  these keep is kept by every operation of the client on its own side.
\<close>

locale client_quiet = frame_rel R for R :: "world \<Rightarrow> world \<Rightarrow> bool" +
  assumes home_kept: "within R home_dir"
    and seal_kept: "within R (aes_encrypt c a x)"

sublocale client_quiet \<subseteq> client: frame_rel "client_frame R"
  by (rule client_frame_rel [OF frame_rel_axioms])

context client_quiet begin

lemma call_kept: "within (client_frame R) (call_extension c lib ext)"
  by (auto simp: within_def client_frame_def call_extension_def frame_refl split: prod.split outcome.split)

lemma http_kept: "within (client_frame R) (http_send url hreq)"
  by (auto simp: within_def client_frame_def http_send_def frame_refl split: prod.split sum.split)

lemma socket_kept: "within R agent_socket_path"
  unfolding agent_socket_path_def by (intro all home_kept frame_intros)

lemma extension_kept: "within (client_frame R) (try_agent_extension c lib tok name payload)"
  unfolding try_agent_extension_def exchange_def
  by (intro client.all call_kept connection_frame within_in_client socket_kept seal_kept)

lemma request_kept: "within (client_frame R) (authed_request c self path jreq jres x)"
  unfolding authed_request_def Let_def
  by (intro client.all http_kept within_in_client seal_kept)

lemma client_kept:
  "within (client_frame R) (client_encrypt c lib self items)"
  "within (client_frame R) (client_decrypt c lib self req)"
  "within (client_frame R) (client_auth c lib self reason)"
  unfolding client_encrypt_def client_decrypt_def client_auth_def
  by (intro client.all extension_kept request_kept)+

end

interpretation clientindex: client_quiet same_index
  by unfold_locales (intro frame_intros)+

interpretation clientoutput: client_quiet same_output
  by unfold_locales (intro frame_intros)+

lemmas client_frames [frame_intros] = clientindex.client.all clientoutput.client.all
lemmas client_op_frames [frame_intros] = clientindex.client_kept clientoutput.client_kept


section \<open>Creating and reading back\<close>

definition index_laws :: "crates \<Rightarrow> bool" where
  "index_laws c \<longleftrightarrow> serde_ok (js_secrets c) \<and> index_text_ok c"

definition index_entries :: "crates \<Rightarrow> world \<Rightarrow> secret_entry list outcome" where
  "index_entries c w = fst (load_secrets_index c w)"

text \<open>\<open>unwrap_or_default\<close>: an index that cannot be read counts as empty.\<close>

definition index_or_empty :: "crates \<Rightarrow> world \<Rightarrow> secret_entry list" where
  "index_or_empty c w = (case index_entries c w of Ok es \<Rightarrow> es | _ \<Rightarrow> [])"

lemma load_index: "load_secrets_index c w = (index_entries c w, w)"
  by (metis index_entries_def load_index_state prod.collapse)

lemma index_entries_cong: "same_index w v \<Longrightarrow> index_entries c v = index_entries c w"
  by (simp add: index_entries_def same_index_load)

lemma index_readable_cong: "same_index w v \<Longrightarrow> index_readable v \<longleftrightarrow> index_readable w"
  by (simp add: same_index_def index_readable_def)

lemma add_to_index_effect:
  assumes "index_laws c" and "index_readable w" and "add_to_index c d vt ty w = (Ok (), v)"
  shows "index_entries c v = Ok (index_or_empty c w @
    [\<lparr>se_description = d, se_vt = vt, se_secret_type = secret_type_debug ty, se_created_at = local_time w\<rparr>])"
proof -
  let ?e = "\<lparr>se_description = d, se_vt = vt, se_secret_type = secret_type_debug ty, se_created_at = local_time w\<rparr>"
  have "io_or [] (load_secrets_index c) w = (Ok (index_or_empty c w), w)"
    using load_index_no_panic [of c w]
    by (cases "index_entries c w") (auto simp: io_or_def load_index index_or_empty_def)
  with assms(3) have run: "save_secrets_index c (index_or_empty c w @ [?e]) w = (Ok (), v)"
    by (simp add: add_to_index_def io_bind_def)
  have "load_secrets_index c v = (Ok (index_or_empty c w @ [?e]), v)"
    using assms(1) by (intro secret_index.load_after_save [OF _ assms(2) run]) (simp add: index_laws_def)
  then show ?thesis by (simp add: index_entries_def)
qed

lemma create_OkE:
  assumes "create c lib client (Some d) file s = (Ok (), t)" and "d \<noteq> []"
    and "create_input file (sy_client s) = (Ok (ty, secret), w1)"
  obtains r rs s3 w4 where
    "client_encrypt c lib client [\<lparr>ei_plaintext = secret, ei_t = ty\<rparr>] (s\<lparr>sy_client := w1\<rparr>) = (Ok (r # rs), s3)"
    and "cr_err_message r = []"
    and "add_to_index c d (cr_result r) ty
      ((sy_client s3)\<lparr>stdout := stdout (sy_client s3) @ [''Created item: '' @ cr_result r @ [CHR 0x0A]]\<rparr>) = (Ok (), w4)"
    and "sy_client t = w4"
proof -
  let ?line = "\<lambda>r. ''Created item: '' @ cr_result r"
  let ?rest = "\<lambda>r. io_seq (in_client (println (?line r))) (in_client (add_to_index c d (cr_result r) ty))"
  have in1: "in_client (create_input file) s = (Ok (ty, secret), s\<lparr>sy_client := w1\<rparr>)"
    using assms(3) by (simp add: in_client_def)
  have in2: "in_client (create_description (Some d) file) u = (Ok d, u)" for u
    by (simp add: in_client_def create_description_def)
  let ?tail = "\<lambda>res. case res of [] \<Rightarrow> io_of (Panic index_panic)
      | r # _ \<Rightarrow> if cr_err_message r \<noteq> [] then io_fail (Msg (''Failed to create secret: '' @ cr_err_message r))
         else io_seq (in_client (println (?line r)))
             (io_when (d \<noteq> []) (in_client (add_to_index c d (cr_result r) ty)))"
  have c: "create c lib client (Some d) file s =
      io_bind (client_encrypt c lib client [\<lparr>ei_plaintext = secret, ei_t = ty\<rparr>]) ?tail (s\<lparr>sy_client := w1\<rparr>)"
    unfolding create_def
    by (subst io_bind_eval(1) [where m = "in_client (create_input file)" and s = s, OF in1],
      simp only: prod.case,
      subst io_bind_eval(1) [where m = "in_client (create_description (Some d) file)", OF in2], rule refl)
  obtain res s3 where
    enc: "client_encrypt c lib client [\<lparr>ei_plaintext = secret, ei_t = ty\<rparr>] (s\<lparr>sy_client := w1\<rparr>) = (Ok res, s3)"
    and tail: "?tail res s3 = (Ok (), t)"
    using assms(1) unfolding c by (rule io_bind_OkE)
  from tail assms(2) obtain r rs where r: "res = r # rs" "cr_err_message r = []" and run: "?rest r s3 = (Ok (), t)"
    by (cases res) (auto split: if_splits)
  from run show thesis
    by (intro that [OF enc [unfolded r(1)] r(2)]) (auto simp: io_bind_eq_Ok in_client_def split: prod.splits)
qed

lemma created_entry:
  assumes "index_laws c" and "index_readable (sy_client s)" and "d \<noteq> []"
    and "create c lib client (Some d) file s = (Ok (), t)"
    and "create_input file (sy_client s) = (Ok (ty, secret), w1)"
  shows "\<exists>r rs s3 at. client_encrypt c lib client [\<lparr>ei_plaintext = secret, ei_t = ty\<rparr>] (s\<lparr>sy_client := w1\<rparr>) =
      (Ok (r # rs), s3) \<and> cr_err_message r = [] \<and>
    index_entries c (sy_client t) = Ok (index_or_empty c (sy_client s) @
      [\<lparr>se_description = d, se_vt = cr_result r, se_secret_type = secret_type_debug ty, se_created_at = at\<rparr>])"
proof -
  obtain r rs s3 w4 where enc: "client_encrypt c lib client [\<lparr>ei_plaintext = secret, ei_t = ty\<rparr>] (s\<lparr>sy_client := w1\<rparr>) = (Ok (r # rs), s3)"
    and ok: "cr_err_message r = []"
    and add: "add_to_index c d (cr_result r) ty
      ((sy_client s3)\<lparr>stdout := stdout (sy_client s3) @ [''Created item: '' @ cr_result r @ [CHR 0x0A]]\<rparr>) = (Ok (), w4)"
    and t: "sy_client t = w4"
    by (rule create_OkE [OF assms(4,3,5)])
  let ?w = "(sy_client s3)\<lparr>stdout := stdout (sy_client s3) @ [''Created item: '' @ cr_result r @ [CHR 0x0A]]\<rparr>"
  have "same_index (sy_client s) w1" by (rule withinD [OF create_frames(2) assms(5)])
  moreover have "same_index w1 (sy_client s3)"
    using withinD [OF clientindex.client_kept(1) enc] by (simp add: client_frame_def)
  ultimately have i: "same_index (sy_client s) ?w" by (simp add: same_index_def)
  have "index_entries c w4 = Ok (index_or_empty c ?w @ [\<lparr>se_description = d, se_vt = cr_result r,
      se_secret_type = secret_type_debug ty, se_created_at = local_time ?w\<rparr>])"
    using i assms(2) by (intro add_to_index_effect [OF assms(1) _ add]) (simp add: index_readable_cong)
  with i ok enc t show ?thesis by (auto simp: index_or_empty_def index_entries_cong)
qed

text \<open>The number printed by \<open>list\<close> without a search, read back.\<close>

lemma not_vt_number: "\<not> starts_with (show_nat n) ''vt://''"
proof
  assume "starts_with (show_nat n) ''vt://''"
  then obtain u where "show_nat n = ''vt://'' @ u" by (auto simp: starts_with_iff)
  then have "parse_digits 0 (show_nat n) = None" by (simp add: digit_val_def)
  then show False by (simp add: parse_digits_show)
qed

lemma resolve_number:
  assumes "index_entries c w = Ok es" and "1 \<le> n" and "n \<le> length es" and "n \<le> usize_max"
  shows "resolve_read_target c (show_nat n) w = (Ok (se_vt (es ! (n - 1))), w)"
  using assms
  by (auto simp: resolve_read_target_def not_vt_number parse_show_nat load_index io_bind_def)

lemma read_secret_prints:
  assumes "read_secret c lib client target False s = (Ok (), t)"
    and "resolve_read_target c target (sy_client s) = (Ok vt, sy_client s)"
  shows "\<exists>r s3. client_decrypt c lib client \<lparr>dr_host = host_name (sy_client s), dr_command = ''[read]'',
      dr_items = [vt], dr_descriptions = []\<rparr> s = (Ok [r], s3) \<and> cr_err_message r = [] \<and>
    stdout (sy_client t) = stdout (sy_client s) @ [cr_result r] \<and> sy_agent t = sy_agent s3"
proof -
  have s: "in_client (resolve_read_target c target) s = (Ok vt, s)"
    using assms(2) by (simp add: in_client_def)
  from assms(1) obtain res s3 where dec: "client_decrypt c lib client \<lparr>dr_host = host_name (sy_client s),
      dr_command = ''[read]'', dr_items = [vt], dr_descriptions = []\<rparr> s = (Ok res, s3)"
    and rest: "(case res of [r] \<Rightarrow>
         io_seq (io_of (ensure (cr_err_message r = []) (Msg (''Error decrypting item: '' @ cr_err_message r))))
          (in_client (print_str (cr_result r)))
     | _ \<Rightarrow> io_fail (Msg ''Expected exactly one item in response'')) s3 = (Ok (), t)"
    by (auto simp: read_secret_def io_bind_eq_Ok s Let_def cong: list.case_cong)
  from rest obtain r where r: "res = [r]" "cr_err_message r = []"
    and t: "t = s3\<lparr>sy_client := (sy_client s3)\<lparr>stdout := stdout (sy_client s3) @ [cr_result r]\<rparr>\<rparr>"
    by (auto simp: io_bind_eq_Ok in_client_def ensure_def split: list.splits if_splits)
  have "stdout (sy_client s3) = stdout (sy_client s)"
    using withinD [OF clientoutput.client_kept(2) dec] by (simp add: client_frame_def same_output_def)
  with dec r t show ?thesis by auto
qed

end
