(* ===== verification/Vt_Commands.thy ===== *)
theory Vt_Commands
  imports Vt_Secrets
begin

text \<open>
  What the commands on secrets promise: reading a created secret by its number, deleting exactly one
  entry, the numbers \<open>list\<close> shows, and the echo of the secret prompt.
\<close>

section \<open>A created secret is read back by its number\<close>

lemma created_sealed:
  assumes "aead_ok c" and "serde_ok (js_encrypt_items c)" and "serde_ok (js_results c)"
    and "decode_auth_cipher_from_b64 c (vc_auth_token client) = Ok (ag_auth_token (sy_agent s))"
    and "vc_base_url client = None"
    and "client_encrypt c lib client [i] s = (Ok (r # rs), t)"
  shows "\<exists>w v. do_encrypt c (AesGcmCrypto (ag_passphrase (sy_agent s))) [i] w = (Ok [r], v)"
proof -
  obtain w v where e: "do_encrypt c (AesGcmCrypto (ag_passphrase (sy_agent s))) [i] w = (Ok (r # rs), v)"
    using client_encrypt_answer [OF assms] by blast
  have "rs = []" using do_encrypt_all2 [OF e] by simp
  with e show ?thesis by blast
qed

lemma revealed:
  assumes "aead_ok c" and "base64_ok c" and "rust_str (ei_plaintext i)"
    and "do_encrypt c a [i] w = (Ok [r], v)" and "cr_err_message r = []"
    and "do_decrypt c a now [cr_result r] = Ok [out]" and "cr_err_message out = []"
  shows "reveal c now i = Ok (cr_result out)"
proof -
  have str: "\<forall>j \<in> set [i]. rust_str (ei_plaintext j)" and ok: "\<forall>x \<in> set [r]. cr_err_message x = []"
    using assms(3,5) by simp_all
  have "to_res_item (reveal c now i) = Ok out"
    using decrypt_after_encrypt [OF assms(1,2) str assms(4) ok, of now] assms(6)
    by (cases "to_res_item (reveal c now i)") auto
  moreover have "error_text e \<noteq> []" if "reveal c now i = Err e" for e
    using that by (auto simp: reveal_def dest: totp_generate_message split: secret_type.splits)
  ultimately show ?thesis using assms(7) to_res_item_no_err by blast
qed

text \<open>
  Keeping a secret and reading it back: after \<open>create -d\<close> has succeeded, \<open>read n\<close>, where \<open>n\<close> is the
  number of the new last entry of the index, run at any later time on the unchanged index against an
  agent with the same keys, prints, when it succeeds, exactly the created secret (for a TOTP secret its
  current code) and nothing else, and had a live grant of the caller or a touch.
\<close>

theorem create_then_read:
  assumes "aead_ok c" and "base64_ok c" and "serde_ok (js_encrypt_items c)"
    and "serde_ok (js_decrypt_req c)" and "serde_ok (js_results c)" and "index_laws c"
    and "vc_base_url client = None"
    and "decode_auth_cipher_from_b64 c (vc_auth_token client) = Ok (ag_auth_token (sy_agent s))"
    and "index_readable (sy_client s)" and "d \<noteq> []" and "rust_str secret"
    and "create_input file (sy_client s) = (Ok (ty, secret), w)"
    and "create c lib client (Some d) file s = (Ok (), t)"
    and "same_index (sy_client t) (sy_client s2)"
    and "ag_auth_token (sy_agent s2) = ag_auth_token (sy_agent s)"
    and "ag_passphrase (sy_agent s2) = ag_passphrase (sy_agent s)"
    and "n = Suc (length (index_or_empty c (sy_client s)))" and "n \<le> usize_max"
    and "read_secret c lib client (show_nat n) False s2 = (Ok (), t2)"
  shows "\<exists>p. reveal c (unix_time (ag_world (sy_agent s2))) \<lparr>ei_plaintext = secret, ei_t = ty\<rparr> = Ok p \<and>
    stdout (sy_client t2) = stdout (sy_client s2) @ [p] \<and>
    (cached_grant (sy_agent s2) (sy_peer s2) ''decrypt@vt'' \<or> touched (sy_agent s2) (sy_agent t2))"
proof -
  let ?i = "\<lparr>ei_plaintext = secret, ei_t = ty\<rparr>"
  let ?es = "index_or_empty c (sy_client s)"
  obtain r rs s3 e where enc: "client_encrypt c lib client [?i] (s\<lparr>sy_client := w\<rparr>) = (Ok (r # rs), s3)"
    and ok: "cr_err_message r = []" and e: "se_vt e = cr_result r"
    and ix: "index_entries c (sy_client t) = Ok (?es @ [e])"
    using created_entry [OF assms(6,9,10,13,12)] by force
  obtain w1 v1 where sealed: "do_encrypt c (AesGcmCrypto (ag_passphrase (sy_agent s))) [?i] w1 = (Ok [r], v1)"
    using created_sealed [OF assms(1,3,5) _ assms(7) enc] assms(8) by auto
  have "index_entries c (sy_client s2) = Ok (?es @ [e])"
    using index_entries_cong [OF assms(14)] ix by simp
  then have "resolve_read_target c (show_nat n) (sy_client s2) = (Ok (se_vt ((?es @ [e]) ! (n - 1))), sy_client s2)"
    using assms(17,18) by (intro resolve_number) simp_all
  then have "resolve_read_target c (show_nat n) (sy_client s2) = (Ok (cr_result r), sy_client s2)"
    by (simp add: assms(17) e)
  from read_secret_prints [OF assms(19) this] obtain out s4 where
    dec: "client_decrypt c lib client \<lparr>dr_host = host_name (sy_client s2), dr_command = ''[read]'',
      dr_items = [cr_result r], dr_descriptions = []\<rparr> s2 = (Ok [out], s4)"
    and fine: "cr_err_message out = []"
    and printed: "stdout (sy_client t2) = stdout (sy_client s2) @ [cr_result out]"
    and agent: "sy_agent t2 = sy_agent s4"
    by blast
  have a: "do_decrypt c (AesGcmCrypto (ag_passphrase (sy_agent s))) (unix_time (ag_world (sy_agent s2)))
      [cr_result r] = Ok [out]"
    and g: "cached_grant (sy_agent s2) (sy_peer s2) ''decrypt@vt'' \<or> touched (sy_agent s2) (sy_agent s4)"
    using client_decrypt_answer [OF assms(1,4,5) _ assms(7) dec] assms(8,15,16) by simp_all
  have "rust_str (ei_plaintext ?i)" using assms(11) by simp
  from revealed [OF assms(1,2) this sealed ok a fine] printed g agent show ?thesis by simp
qed


text \<open>A run of both commands: the secret is piped in, kept, and read back as number 1.\<close>

definition demo_piped :: world where
  "demo_piped = demo_world\<lparr>stdin_data := Inr ''pw'', stdin_tty := False\<rparr>"

lemma demo_create_input: "create_input (Some ''-'') demo_piped = (Ok (RAW, ''pw''), demo_piped\<lparr>stdin_data := Inr []\<rparr>)"
proof -
  have "trim ''pw'' = ''pw''" by code_simp
  moreover have "utf8_or_fail ''pw'' = Ok ''pw''" by code_simp
  ultimately show ?thesis
    by (simp add: create_input_def demo_piped_def io_bind_def read_stdin_def nonempty_secret_def)
qed

lemma demo_index_laws: "index_laws demo_crates"
  using text_serde_utf8
  by (simp add: index_laws_def index_text_ok_def demo_serde_ok) (auto simp: demo_secrets_def)

lemma create_runs:
  assumes "create_input file (sy_client s) = (Ok (ty, secret), w1)" and "d \<noteq> []"
    and "client_encrypt c lib client [\<lparr>ei_plaintext = secret, ei_t = ty\<rparr>] (s\<lparr>sy_client := w1\<rparr>) = (Ok [r], s3)"
    and "cr_err_message r = []"
    and "add_to_index c d (cr_result r) ty
      ((sy_client s3)\<lparr>stdout := stdout (sy_client s3) @ [''Created item: '' @ cr_result r @ [CHR 0x0A]]\<rparr>) = (Ok (), w4)"
  shows "create c lib client (Some d) file s = (Ok (), s3\<lparr>sy_client := w4\<rparr>)"
  using assms by (simp add: create_def create_description_def in_client_def io_bind_def)

lemma read_runs:
  assumes "resolve_read_target c target (sy_client s) = (Ok vt, sy_client s)"
    and "client_decrypt c lib client \<lparr>dr_host = host_name (sy_client s), dr_command = ''[read]'',
      dr_items = [vt], dr_descriptions = []\<rparr> s = (Ok [r], t)" and "cr_err_message r = []"
  shows "\<exists>v. read_secret c lib client target False s = (Ok (), v)"
  using assms by (simp add: read_secret_def in_client_def io_bind_def ensure_def)

lemma demo_add_to_index:
  assumes "home w = Some ''/h''" and "write_err w = (\<lambda>p. None)" and "mkdir_err w = (\<lambda>p. None)"
    and "files w = Map.empty" and "dirs w = {}"
  shows "\<exists>v. add_to_index demo_crates d vt ty w = (Ok (), v) \<and> home v = Some ''/h'' \<and> env_vars v = env_vars w"
proof -
  let ?e = "\<lparr>se_description = d, se_vt = vt, se_secret_type = secret_type_debug ty, se_created_at = local_time w\<rparr>"
  obtain bs where "ser demo_secrets [?e] = Inr bs"
    by (auto simp: demo_secrets_def text_serde_def rows_serde_def)
  with assms show ?thesis
    by (simp add: add_to_index_def load_index_eval io_or_def io_bind_def save_secrets_index_def index_path_eval
        path_defs home_dir_def create_dir_all_def fs_write_def io_eval_defs)
qed

lemma demo_round_trip:
  assumes "demo_like g" and "demo_like g2"
  obtains s t s2 t2 where "sy_agent s = g" and "sy_agent s2 = g2" and "sy_peer s2 = None"
    and "index_readable (sy_client s)" and "index_or_empty demo_crates (sy_client s) = []"
    and "create_input (Some ''-'') (sy_client s) = (Ok (RAW, ''pw''), demo_piped\<lparr>stdin_data := Inr []\<rparr>)"
    and "create demo_crates demo_lib demo_client (Some ''note'') (Some ''-'') s = (Ok (), t)"
    and "same_index (sy_client t) (sy_client s2)"
    and "read_secret demo_crates demo_lib demo_client (show_nat 1) False s2 = (Ok (), t2)"
proof -
  let ?s = "demo_system\<lparr>sy_client := demo_piped, sy_agent := g\<rparr>"
  let ?w1 = "demo_piped\<lparr>stdin_data := Inr []\<rparr>"
  have sel: "demo_seat (?s\<lparr>sy_client := ?w1\<rparr>)" using assms(1) by (simp add: demo_seat_def demo_piped_def)
  have i: "\<lparr>ei_plaintext = ''pw'', ei_t = RAW\<rparr> = demo_raw" by (simp add: demo_raw_def)
  obtain rs s3 w v where enc: "client_encrypt demo_crates demo_lib demo_client [demo_raw] (?s\<lparr>sy_client := ?w1\<rparr>) = (Ok rs, s3)"
    and s3: "sy_client s3 = drew_nonce ?w1"
    and rs: "do_encrypt demo_crates (AesGcmCrypto (replicate 32 1)) [demo_raw] w = (Ok rs, v)"
    and ok: "\<forall>r \<in> set rs. cr_err_message r = []"
    using demo_client_encrypt [OF sel, of "[demo_raw]"] by auto
  obtain r where r: "rs = [r]" using do_encrypt_all2 [OF rs] by (auto simp: list_all2_Cons1)
  let ?w2 = "(sy_client s3)\<lparr>stdout := stdout (sy_client s3) @ [''Created item: '' @ cr_result r @ [CHR 0x0A]]\<rparr>"
  have "\<exists>v. add_to_index demo_crates ''note'' (cr_result r) RAW ?w2 = (Ok (), v) \<and> home v = Some ''/h'' \<and>
      env_vars v = env_vars ?w2"
    by (rule demo_add_to_index) (simp_all add: s3 drew_nonce_def demo_piped_def demo_world_def)
  then obtain w4 where add: "add_to_index demo_crates ''note'' (cr_result r) RAW ?w2 = (Ok (), w4)"
    and w4: "home w4 = Some ''/h''" "env_vars w4 = []"
    by (auto simp: s3 drew_nonce_def demo_piped_def)
  let ?t = "s3\<lparr>sy_client := w4\<rparr>"
  let ?s2 = "demo_system\<lparr>sy_client := w4, sy_agent := g2\<rparr>"
  have inp: "create_input (Some ''-'') (sy_client ?s) = (Ok (RAW, ''pw''), ?w1)" by (simp add: demo_create_input)
  have run: "create demo_crates demo_lib demo_client (Some ''note'') (Some ''-'') ?s = (Ok (), ?t)"
    using ok enc add by (intro create_runs [OF inp]) (simp_all add: r i)
  have rd: "index_readable (sy_client ?s)" by (simp add: index_readable_def demo_piped_def)
  have none: "index_or_empty demo_crates (sy_client ?s) = []"
    by (simp add: index_or_empty_def index_entries_def load_index_eval demo_piped_def)
  obtain e where e: "index_entries demo_crates w4 = Ok [e]" "se_vt e = cr_result r"
    using created_entry [OF demo_index_laws rd _ run inp] none enc by (auto simp: r i)
  have res: "resolve_read_target demo_crates (show_nat 1) (sy_client ?s2) = (Ok (cr_result r), sy_client ?s2)"
    using resolve_number [OF e(1), of 1] e(2) by (simp add: usize_max_def)
  have str: "\<forall>i \<in> set [demo_raw]. rust_str (ei_plaintext i)" using demo_raw_str by simp
  have dd: "do_decrypt demo_crates (AesGcmCrypto (replicate 32 1)) now [cr_result r] =
      Ok [\<lparr>cr_result = ''pw'', cr_err_message = []\<rparr>]" for now
    using decrypt_after_encrypt [OF demo_aead_ok demo_base64_ok str rs ok, of now]
    by (simp add: reveal_def demo_raw_def r)
  have seat: "demo_seat ?s2" using w4 assms(2) by (simp add: demo_seat_def)
  obtain t3 where "client_decrypt demo_crates demo_lib demo_client \<lparr>dr_host = host_name (sy_client ?s2),
      dr_command = ''[read]'', dr_items = [cr_result r], dr_descriptions = []\<rparr> ?s2 =
      (Ok [\<lparr>cr_result = ''pw'', cr_err_message = []\<rparr>], t3)"
    using demo_client_decrypt [OF _ seat] dd by (metis decrypt_req.select_convs(3))
  from read_runs [OF res this] obtain t2 where
    rrun: "read_secret demo_crates demo_lib demo_client (show_nat 1) False ?s2 = (Ok (), t2)"
    by auto
  show thesis by (rule that [OF _ _ _ rd none inp run _ rrun]) (simp_all add: same_index_def)
qed


section \<open>Deleting\<close>

lemma save_index_no_panic: "fst (save_secrets_index c es w) \<noteq> Panic m"
  by (cases "home w"; cases "ser (js_secrets c) es")
    (auto simp: save_secrets_index_def index_path_eval index_path_none path_defs home_dir_def io_eval_defs
      create_dir_all_def fs_write_def split: option.splits write_fault.splits if_splits)

lemma take_filter_prefix:
  "take (length (takeWhile P xs)) (filter P xs) = take (length (takeWhile P xs)) xs"
  by (induction xs) auto

text \<open>
  C31. \<open>delete n\<close> on an index with entries: a number outside 1 to the length fails with the message that
  names the valid numbers and changes nothing at all; otherwise exactly entry \<open>n\<close> is gone, the rest is
  kept in order, and the one line printed names the removed entry, or the new index could not be
  saved: then nothing is printed, and the old index is still there unless its file was cut off while it was written
  (\<open>std::fs::write\<close> empties the file first), which leaves a file of just as many bytes as the disk took.  It never panics.
\<close>

theorem delete_exact:
  assumes "index_laws c" and "index_readable w" and "index_entries c w = Ok es" and "es \<noteq> []"
    and "delete_secret c n w = (r, v)"
  shows "if 1 \<le> n \<and> n \<le> length es then
      (r = Ok () \<and> index_entries c v = Ok (take (n - 1) es @ drop n es) \<and>
        stdout v = stdout w @ [''Deleted secret ['' @ show_nat n @ '']: '' @ se_description (es ! (n - 1)) @ [CHR 0x0A]]) \<or>
      (\<exists>e. r = Err e \<and> stdout v = stdout w \<and> (index_cut w v \<or> index_entries c v = Ok es))
    else r = Err (invalid_number n (length es)) \<and> v = w"
proof (cases "1 \<le> n \<and> n \<le> length es")
  case False
  with assms(3-5) show ?thesis by (auto simp: delete_secret_def load_index io_bind_def)
next
  case True
  let ?new = "remove_at (n - 1) es"
  obtain x u where save: "save_secrets_index c ?new w = (x, u)" by fastforce
  have out: "stdout u = stdout w" if "x = Ok () \<or> (\<exists>e. x = Err e)"
    using that save by (auto elim: save_index_OkE dest: save_index_failed(1))
  show ?thesis
  proof (cases x)
    case (Ok y)
    have "index_entries c u = Ok ?new"
      using secret_index.load_after_save [of c w ?new u] assms(1,2) save Ok
      by (simp add: index_laws_def index_entries_def)
    moreover have "index_entries c (u\<lparr>stdout := l\<rparr>) = index_entries c u" for l
      by (rule index_entries_cong) (simp add: same_index_def)
    moreover have "r = Ok ()" and
      "v = u\<lparr>stdout := stdout u @ [''Deleted secret ['' @ show_nat n @ '']: '' @ se_description (es ! (n - 1)) @ [CHR 0x0A]]\<rparr>"
      using True assms(3-5) save Ok by (auto simp: delete_secret_def load_index io_bind_def Let_def)
    ultimately show ?thesis using True Ok out by (simp add: remove_at_def)
  next
    case (Err e)
    have "index_cut w u \<or> index_entries c u = Ok es"
      using secret_index.failed_save [of c ?new w e u] save Err assms(3) by (simp add: index_entries_def)
    with True assms(3-5) save Err out show ?thesis
      by (auto simp: delete_secret_def load_index io_bind_def Let_def)
  next
    case (Panic m)
    with save_index_no_panic [of c ?new w m] save show ?thesis by simp
  qed
qed

text \<open>An index with two entries on the demo file system.\<close>

definition sample :: "string \<Rightarrow> string \<Rightarrow> secret_entry" where
  "sample d vt = \<lparr>se_description = d, se_vt = vt, se_secret_type = ''RAW'', se_created_at = ''2026''\<rparr>"

definition demo_fs :: "world \<Rightarrow> bool" where
  "demo_fs w \<longleftrightarrow> home w = Some ''/h'' \<and> read_err w = (\<lambda>p. None) \<and> write_err w = (\<lambda>p. None) \<and> mkdir_err w = (\<lambda>p. None)"

lemma demo_fs_world: "demo_fs demo_world" "demo_fs w \<Longrightarrow> index_readable w"
  by (simp_all add: demo_fs_def index_readable_def) (simp_all add: demo_world_def)

lemma demo_save_index:
  assumes "demo_fs w"
  shows "\<exists>v. save_secrets_index demo_crates es w = (Ok (), v) \<and> index_entries demo_crates v = Ok es \<and> demo_fs v"
proof -
  obtain bs where "ser demo_secrets es = Inr bs"
    by (auto simp: demo_secrets_def text_serde_def rows_serde_def)
  with assms obtain v where v: "save_secrets_index demo_crates es w = (Ok (), v)" "demo_fs v"
    by (simp add: demo_fs_def save_secrets_index_def index_path_eval
        path_defs home_dir_def create_dir_all_def fs_write_def io_eval_defs)
  have "load_secrets_index demo_crates v = (Ok es, v)"
    using demo_index_laws demo_fs_world(2) [OF assms] v(1)
    by (intro secret_index.load_after_save) (auto simp: index_laws_def)
  with v show ?thesis by (simp add: index_entries_def)
qed

theorem delete_exact_witness:
  "\<exists>w v. index_entries demo_crates w = Ok [sample ''a'' ''vt://mac/0x'', sample ''b'' ''vt://mac/0y''] \<and>
     delete_secret demo_crates 1 w = (Ok (), v) \<and>
     index_entries demo_crates v = Ok [sample ''b'' ''vt://mac/0y'']"
proof -
  let ?es = "[sample ''a'' ''vt://mac/0x'', sample ''b'' ''vt://mac/0y'']"
  obtain w where w: "index_entries demo_crates w = Ok ?es" "demo_fs w"
    using demo_save_index [OF demo_fs_world(1)] by blast
  obtain u where "save_secrets_index demo_crates (remove_at 0 ?es) w = (Ok (), u)"
    using demo_save_index [OF w(2)] by blast
  then obtain v where v: "delete_secret demo_crates 1 w = (Ok (), v)"
    using w(1) by (simp add: delete_secret_def load_index io_bind_def Let_def)
  from delete_exact [OF demo_index_laws demo_fs_world(2) [OF w(2)] w(1) _ v] w(1) v show ?thesis by auto
qed

section \<open>Listing\<close>

definition entry_lines :: "nat \<Rightarrow> secret_entry \<Rightarrow> string list" where
  "entry_lines i e = map (\<lambda>l. l @ [CHR 0x0A])
     ((if 0 < i then [[]] else []) @
      [number_line i e, ''    Type: '' @ se_secret_type e @ ''  Created: '' @ se_created_at e, ''    '' @ se_vt e])"

lemma print_entry_eval:
  "print_entry (i, e) w = (Ok (), w\<lparr>stdout := stdout w @ entry_lines i e\<rparr>)"
  by (simp add: print_entry_def entry_lines_def io_bind_def)

lemma print_entries_eval:
  "io_mapM print_entry ies w =
     (Ok (replicate (length ies) ()), w\<lparr>stdout := stdout w @ concat (map (\<lambda>(i, e). entry_lines i e) ies)\<rparr>)"
  by (induction ies arbitrary: w) (auto simp: io_bind_def print_entry_eval)

lemma entry_lines_text:
  "entry_lines k e = (if k = 0 then [] else [[CHR 0x0A]]) @
     [''['' @ show_nat (k + 1) @ ''] '' @ se_description e @ [CHR 0x0A],
      ''    Type: '' @ se_secret_type e @ ''  Created: '' @ se_created_at e @ [CHR 0x0A],
      ''    '' @ se_vt e @ [CHR 0x0A]]"
  by (cases k) (simp_all add: entry_lines_def number_line_def)

lemma enumerate_lines:
  "concat (map (\<lambda>(i, e). f i e) (enumerate 0 xs)) = concat (map (\<lambda>k. f k (xs ! k)) [0..<length xs])"
proof -
  have "map (\<lambda>(i, e). f i e) (enumerate 0 xs) = map (\<lambda>k. f k (xs ! k)) [0..<length xs]"
    by (rule nth_equalityI) (simp_all add: nth_enumerate_eq)
  then show ?thesis by (rule arg_cong)
qed

text \<open>
  C32. What \<open>list\<close> prints and what the numbers mean: \<open>list\<close> prints the entries whose description has the
  keyword (all of them without one), in the order of the index, each as three lines, the number in brackets and the
  description, the type and the date, and the item, with an empty line between two entries; the numbers count the
  matches from 1.  But \<open>read k\<close> (and \<open>delete k\<close>) takes entry \<open>k\<close> of the whole index.  The \<open>k\<close>th match and the \<open>k\<close>th entry
  are the same up to the first entry that does not match; if there is a match after that, the number it is printed with
  (and every later one) reads another secret, the first of them one that was not listed at all.
\<close>

theorem list_numbers:
  assumes "index_entries c w = Ok es"
    and "ms = (case search of None \<Rightarrow> es
      | Some kw \<Rightarrow> filter (\<lambda>e. contains (lower (se_description e)) (lower kw)) es)" and "ms \<noteq> []"
  shows "list_secrets c lower search w =
      (Ok (), w\<lparr>stdout := stdout w @ concat (map (\<lambda>k.
         (if k = 0 then [] else [[CHR 0x0A]]) @
         [''['' @ show_nat (k + 1) @ ''] '' @ se_description (ms ! k) @ [CHR 0x0A],
          ''    Type: '' @ se_secret_type (ms ! k) @ ''  Created: '' @ se_created_at (ms ! k) @ [CHR 0x0A],
          ''    '' @ se_vt (ms ! k) @ [CHR 0x0A]]) [0..<length ms])\<rparr>) \<and>
    (\<forall>k < length es. Suc k \<le> usize_max \<longrightarrow>
       resolve_read_target c (show_nat (Suc k)) w = (Ok (se_vt (es ! k)), w)) \<and>
    (\<forall>kw. search = Some kw \<longrightarrow>
       (let p = length (takeWhile (\<lambda>e. contains (lower (se_description e)) (lower kw)) es) in
        take p ms = take p es \<and> (p < length ms \<longrightarrow> p < length es \<and> es ! p \<notin> set ms)))"
proof (intro conjI allI impI)
  have ms: "listed lower search es = ms" using assms(2) by (simp add: listed_def)
  have "list_secrets c lower search w =
      (Ok (), w\<lparr>stdout := stdout w @ concat (map (\<lambda>(i, e). entry_lines i e) (enumerate 0 ms))\<rparr>)"
    using assms(1,3) ms by (auto simp: list_secrets_def load_index io_bind_def print_entries_eval listed_def split: option.splits)
  then show "list_secrets c lower search w =
      (Ok (), w\<lparr>stdout := stdout w @ concat (map (\<lambda>k.
         (if k = 0 then [] else [[CHR 0x0A]]) @
         [''['' @ show_nat (k + 1) @ ''] '' @ se_description (ms ! k) @ [CHR 0x0A],
          ''    Type: '' @ se_secret_type (ms ! k) @ ''  Created: '' @ se_created_at (ms ! k) @ [CHR 0x0A],
          ''    '' @ se_vt (ms ! k) @ [CHR 0x0A]]) [0..<length ms])\<rparr>)"
    by (simp only: enumerate_lines entry_lines_text)
next
  fix k
  assume "k < length es" and "Suc k \<le> usize_max"
  then show "resolve_read_target c (show_nat (Suc k)) w = (Ok (se_vt (es ! k)), w)"
    using resolve_number [OF assms(1), of "Suc k"] by simp
next
  fix kw
  let ?P = "\<lambda>e. contains (lower (se_description e)) (lower kw)"
  let ?p = "length (takeWhile ?P es)"
  assume "search = Some kw"
  then have ms: "ms = filter ?P es" using assms(2) by simp
  have "?p < length es \<and> es ! ?p \<notin> set ms" if "?p < length ms"
  proof -
    have "length ms \<le> length es" by (simp add: ms)
    then have "?p < length es" using that by simp
    moreover from this have "\<not> ?P (es ! ?p)" by (rule nth_length_takeWhile)
    ultimately show ?thesis by (simp add: ms)
  qed
  then show "let p = ?p in take p ms = take p es \<and> (p < length ms \<longrightarrow> p < length es \<and> es ! p \<notin> set ms)"
    by (simp add: ms take_filter_prefix)
qed

text \<open>The keyword \<open>b\<close> lists entry 2 as number 1, and \<open>read 1\<close> takes the other secret.\<close>

theorem list_numbers_witness:
  "\<exists>w v. list_secrets demo_crates (\<lambda>x. x) (Some ''b'') w = (Ok (), v) \<and>
     stdout v = stdout w @ [''[1] b'' @ [CHR 0x0A], ''    Type: RAW  Created: 2026'' @ [CHR 0x0A], ''    vt://mac/0y'' @ [CHR 0x0A]] \<and>
     resolve_read_target demo_crates ''1'' w = (Ok ''vt://mac/0x'', w)"
proof -
  let ?es = "[sample ''a'' ''vt://mac/0x'', sample ''b'' ''vt://mac/0y'']" and ?ms = "[sample ''b'' ''vt://mac/0y'']"
  obtain w where w: "index_entries demo_crates w = Ok ?es"
    using demo_save_index [OF demo_fs_world(1)] by blast
  have l: "?ms = (case Some ''b'' of None \<Rightarrow> ?es
      | Some kw \<Rightarrow> filter (\<lambda>e. contains (se_description e) kw) ?es)" by code_simp
  have one: "''1'' = show_nat (Suc 0)" by code_simp
  note r = list_numbers [OF w, where ms = ?ms and search = "Some ''b''" and lower = "\<lambda>x. x", OF l]
  have "resolve_read_target demo_crates ''1'' w = (Ok ''vt://mac/0x'', w)"
    unfolding one using r by (auto simp: usize_max_def sample_def)
  moreover have "?ms \<noteq> []" by simp
  from r [OF this, THEN conjunct1] obtain v where
    "list_secrets demo_crates (\<lambda>x. x) (Some ''b'') w = (Ok (), v)" and
    "stdout v = stdout w @ [''[1] b'' @ [CHR 0x0A], ''    Type: RAW  Created: 2026'' @ [CHR 0x0A], ''    vt://mac/0y'' @ [CHR 0x0A]]"
    by (simp add: one [symmetric] sample_def)
  ultimately show ?thesis by blast
qed

section \<open>The echo of a typed secret\<close>

text \<open>
  The prompt for a secret, after a nonempty one was typed: it returns the secret exactly when its
  second byte and its second last byte end and begin characters, and prints the first two and the last
  two bytes, so a secret of up to four bytes is shown in full; on every other secret, in particular on
  every secret of one byte, the program panics instead of reporting an error.
\<close>

theorem prompt_echo:
  assumes "typed w = Inr text # rest" and "trim text \<noteq> []" and "trim text = secret"
    and "prompt_input_password before after w = (r, v)"
  shows "if 2 \<le> length secret \<and> is_char_boundary secret 2 \<and> is_char_boundary secret (length secret - 2)
    then r = Ok secret \<and>
      stdout v = stdout w @ [after @ take 2 secret @ ''****'' @ drop (length secret - 2) secret @ [CHR 0x0A]] \<and>
      (length secret \<le> 4 \<longrightarrow> set secret = set (take 2 secret) \<union> set (drop (length secret - 2) secret))
    else (\<exists>m. r = Panic m) \<and> stdout v = stdout w"
proof -
  have whole: "set secret = set (take 2 secret) \<union> set (drop (length secret - 2) secret)" if "length secret \<le> 4"
  proof -
    have "set secret = set (take 2 secret) \<union> set (drop 2 secret)"
      by (metis append_take_drop_id set_append)
    moreover have "set (drop 2 secret) \<subseteq> set (drop (length secret - 2) secret)"
      using that by (intro set_drop_subset_set_drop) simp
    moreover have "set (drop (length secret - 2) secret) \<subseteq> set secret" by (rule set_drop_subset)
    ultimately show ?thesis by blast
  qed
  have "\<not> is_char_boundary secret 2" if "length secret < 2"
    using that by (auto simp: is_char_boundary_def)
  with assms whole show ?thesis
    by (auto simp: prompt_input_password_def prompt_password_def io_eval_defs Let_def slice_to_def slice_from_def
        split: if_splits)
qed

theorem prompt_echo_witness:
  "\<exists>v. prompt_input_password [] ''Secret entered: '' (demo_world\<lparr>typed := [Inr ''1234'']\<rparr>) = (Ok ''1234'', v) \<and>
     stdout v = [''Secret entered: 12****34'' @ [CHR 0x0A]]"
proof -
  let ?w = "demo_world\<lparr>typed := [Inr ''1234'']\<rparr>"
  obtain r v where run: "prompt_input_password [] ''Secret entered: '' ?w = (r, v)" by fastforce
  have t: "trim ''1234'' = ''1234''" by code_simp
  have b: "is_char_boundary ''1234'' (Suc (Suc 0))" by code_simp
  have ty: "typed ?w = [Inr ''1234'']" by simp
  have b2: "is_char_boundary ''1234'' 2" by code_simp
  from prompt_echo [OF ty _ t run] run show ?thesis by (simp add: t b b2)
qed

end
