(* ===== verification/Vt_Progress.thy ===== *)
theory Vt_Progress
  imports Vt_Commands
begin

text \<open>
  Requests are answered: with a client that holds the right token, an unlocked agent, and a user who
  touches the key, \<open>read\<close> prints the secret.  The other theories say what a successful request
  implies; this one says when it succeeds.
\<close>

section \<open>A user who touches the key\<close>

text \<open>The next three calls of the device succeed: opening, the agent's PIN, and the touch.\<close>

definition responds :: "agent \<Rightarrow> bool" where
  "responds g \<longleftrightarrow> (let w = ag_world g; n = dev_tick w in
     dev_open_err (dev w) n = None \<and> dev_pin_err (dev w) (Suc n) (as_bytes (ag_pin g)) = None \<and>
     touch_at (dev w) (Suc (Suc n)))"

text \<open>The time of the touch, and that a grant made then does not overflow \<open>Instant\<close>.\<close>

definition touch_time :: "agent \<Rightarrow> nat" where
  "touch_time g = (let w = ag_world g; n = dev_tick w in
     instant w + dev_delay (dev w) n + dev_delay (dev w) (Suc n) + dev_delay (dev w) (Suc (Suc n)))"

definition grant_fits :: "agent \<Rightarrow> bool" where
  "grant_fits g \<longleftrightarrow> touch_time g div 10 ^ 9 + unat (ac_decrypt_duration (ag_auth_cache g)) < 2 ^ 63"

text \<open>Sealing under a key of 32 bytes and writing JSON do not fail on the values at hand.\<close>

definition seals :: "crates \<Rightarrow> bool" where
  "seals c \<longleftrightarrow> (\<forall>k n p. length k = 32 \<longrightarrow> (\<exists>ct. gcm_seal c k n p = Inr ct))"

lemma seals_aes:
  assumes "seals c" and "length k = 32"
  shows "\<exists>ct v. aes_encrypt c (AesGcmCrypto k) p w = (Ok ct, v)"
proof -
  obtain ct where "gcm_seal c k (map (osrng w) [rng_pos w ..< rng_pos w + 12]) p = Inr ct"
    using assms unfolding seals_def by blast
  then show ?thesis by (simp add: aes_encrypt_def generate_nonce_def io_bind_def)
qed

lemma presence_granted:
  assumes "responds g"
  shows "\<exists>v. verify_yubikey_presence c m g = (Ok True, g\<lparr>ag_world := v\<rparr>) \<and> instant v = touch_time g"
proof -
  let ?w = "ag_world g"
  obtain k pos where k: "eph_keygen c (rng_pos ?w) = (k, pos)" by fastforce
  obtain x where x: "dev_ecdh (dev ?w) (Suc (Suc (dev_tick ?w))) (p256_public c k) = Inr x"
    using assms by (auto simp: responds_def touch_at_def Let_def)
  have d: "dev_open_err (dev ?w) (dev_tick ?w) = None"
    "dev_pin_err (dev ?w) (Suc (dev_tick ?w)) (as_bytes (ag_pin g)) = None"
    using assms by (simp_all add: responds_def Let_def)
  show ?thesis
    by (simp add: verify_yubikey_presence_def verify_presence_with_pin_def open_with_pin_def notify_touch_def
        yk_prim_defs dev_call_def ephemeral_secret_def io_eval_defs io_or_def in_world_def
        touch_time_def Let_def io_attempt_def k x d)
      (intro exI conjI, rule refl, simp)
qed


lemma check_granted:
  assumes "responds g" and "grant_fits g"
  shows "\<exists>t. check_or_prompt_auth c peer fp m True g = (Ok True, t) \<and> same_config g t"
proof -
  obtain v where v: "verify_yubikey_presence c m g = (Ok True, g\<lparr>ag_world := v\<rparr>)" "instant v = touch_time g"
    using presence_granted [OF assms(1)] by blast
  have "\<exists>t. check_or_prompt_auth c peer fp m True g = (Ok True, t)"
  proof (cases "context_id (ag_cache_mode g) peer (ag_world g)")
    case None
    with v(1) show ?thesis by (simp add: check_or_prompt_auth_def)
  next
    case (Some ctx)
    obtain d where "grant (instant v) (ag_auth_cache g) ctx fp True = Ok d"
      using assms(2) v(2) by (simp add: grant_eq_Ok grant_fits_def)
    with Some v(1) show ?thesis
      by (cases "is_authorized (agent_now g) (ag_auth_cache g) ctx fp")
        (simp_all add: check_or_prompt_auth_def cache_grant_def io_bind_def agent_now_def)
  qed
  then obtain t where t: "check_or_prompt_auth c peer fp m True g = (Ok True, t)" ..
  with withinD [OF check_frames(1) t] show ?thesis by blast
qed

section \<open>The agent answers\<close>

lemma extension_unlocked_answers:
  assumes "length (ag_auth_token g) = 32" and "length (ag_passphrase g) = 32"
    and "seals c" and "responds g" and "grant_fits g"
    and "aes_decrypt c (AesGcmCrypto (ag_auth_token g)) ct = Ok payload" and "de (js_decrypt_req c) payload = Inr req"
    and "do_decrypt c (AesGcmCrypto (ag_passphrase g)) (unix_time (ag_world g)) (dr_items req) = Ok out"
    and "ser (js_results c) out = Inr bs"
  shows "\<exists>sealed t w v. extension_unlocked c peer \<lparr>ex_name = ''decrypt@vt'', ex_details = ct\<rparr> g =
      (Ok (Some \<lparr>ex_name = ''decrypt@vt'', ex_details = sealed\<rparr>), t) \<and>
    aes_encrypt c (AesGcmCrypto (ag_auth_token g)) bs w = (Ok sealed, v)"
proof -
  let ?u = "g\<lparr>ag_last_activity := agent_now g\<rparr>"
  let ?caller = "peer_caller peer (ag_world g)"
  have "responds ?u" "grant_fits ?u"
    using assms(4,5) by (simp_all add: responds_def grant_fits_def touch_time_def Let_def)
  then obtain v where v: "check_or_prompt_auth c peer ''decrypt@vt'' (format_decrypt_prompt req ?caller) True ?u = (Ok True, v)"
    and c: "same_config ?u v"
    using check_granted by blast
  obtain x where x: "in_world (log_decrypt c peer ?caller req True) v = (Ok (), v\<lparr>ag_world := x\<rparr>)"
    using log_run(2) by blast
  have "within same_config (in_world (log_decrypt c peer ?caller req True))"
    by (intro frame_intros)
  from withinD [OF this x] c have cfg: "ag_passphrase (v\<lparr>ag_world := x\<rparr>) = ag_passphrase g"
    "unix_time x = unix_time (ag_world g)"
    by (simp_all add: same_config_def same_env_def)
  have h: "handle_decrypt c peer ?caller payload ?u = (Ok bs, v\<lparr>ag_world := x\<rparr>)"
    using v x cfg assms(2,7-9) by (simp add: handle_decrypt_def io_bind_def aes_new_32)
  obtain sealed y where y: "aes_encrypt c (AesGcmCrypto (ag_auth_token g)) bs x = (Ok sealed, y)"
    using seals_aes [OF assms(3,1)] by blast
  have "extension_unlocked c peer \<lparr>ex_name = ''decrypt@vt'', ex_details = ct\<rparr> g =
      (Ok (Some \<lparr>ex_name = ''decrypt@vt'', ex_details = sealed\<rparr>), v\<lparr>ag_world := y\<rparr>)"
    using assms(1,6) h y
    by (simp add: extension_unlocked_def touch_activity_def io_bind_def io_map_err_def
        aes_new_32 in_world_def cong: if_cong)
  with y show ?thesis by blast
qed

lemma extension_op_unlocked: "\<not> ag_locked g \<Longrightarrow> extension_op c peer ext g = extension_unlocked c peer ext g"
  by (simp add: extension_op_def)

section \<open>The client gets its answer\<close>

definition json_total :: "'a serde \<Rightarrow> bool" where
  "json_total j \<longleftrightarrow> (\<forall>x. \<exists>bs. ser j x = Inr bs)"

text \<open>The client is connected to an unlocked agent that has its secrets, and holds its token.\<close>

definition at_agent :: "crates \<Rightarrow> vt_client \<Rightarrow> system \<Rightarrow> bool" where
  "at_agent c self s \<longleftrightarrow>
     (\<exists>path. agent_socket_path (sy_client s) = (Ok path, sy_client s) \<and> sy_connect s path = Connected) \<and>
     decode_auth_cipher_from_b64 c (vc_auth_token self) = Ok (ag_auth_token (sy_agent s)) \<and>
     length (ag_auth_token (sy_agent s)) = 32 \<and> length (ag_passphrase (sy_agent s)) = 32 \<and>
     \<not> ag_locked (sy_agent s)"

lemma client_decrypt_answers:
  assumes "aead_ok c" and "seals c" and "serde_ok (js_decrypt_req c)" and "serde_ok (js_results c)"
    and "json_total (js_decrypt_req c)" and "json_total (js_results c)"
    and "at_agent c self s" and "responds (sy_agent s)" and "grant_fits (sy_agent s)"
    and "do_decrypt c (AesGcmCrypto (ag_passphrase (sy_agent s))) (unix_time (ag_world (sy_agent s))) (dr_items req) = Ok out"
  shows "\<exists>t. client_decrypt c lib self req s = (Ok out, t)"
proof -
  let ?g = "sy_agent s"
  let ?key = "AesGcmCrypto (ag_auth_token ?g)"
  obtain path where path: "agent_socket_path (sy_client s) = (Ok path, sy_client s)" "sy_connect s path = Connected"
    and key: "decode_auth_cipher_from_b64 c (vc_auth_token self) = Ok (ag_auth_token ?g)"
    and len: "length (ag_auth_token ?g) = 32" "length (ag_passphrase ?g) = 32" and unlocked: "\<not> ag_locked ?g"
    using assms(7) by (auto simp: at_agent_def)
  obtain payload bs where pay: "ser (js_decrypt_req c) req = Inr payload" and bs: "ser (js_results c) out = Inr bs"
    using assms(5,6) unfolding json_total_def by blast
  obtain ct w where ct: "aes_encrypt c ?key payload (sy_client s) = (Ok ct, w)"
    using seals_aes [OF assms(2) len(1)] by blast
  obtain sealed g y z where op: "extension_op c (sy_peer s) \<lparr>ex_name = ''decrypt@vt'', ex_details = ct\<rparr> ?g =
      (Ok (Some \<lparr>ex_name = ''decrypt@vt'', ex_details = sealed\<rparr>), g)"
    and sealed: "aes_encrypt c ?key bs y = (Ok sealed, z)"
    using extension_unlocked_answers [OF len assms(2,8,9) aes_decrypt_encrypt [OF assms(1) ct] serde_okD [OF assms(3) pay]
        assms(10) bs] unfolding extension_op_unlocked [OF unlocked] by blast
  have "try_agent_extension c lib (vc_auth_token self) ''decrypt@vt'' payload s =
      (Ok (Some bs), s\<lparr>sy_client := w, sy_agent := g\<rparr>)"
    using path key len ct op aes_decrypt_encrypt [OF assms(1) sealed]
    by (simp add: try_agent_extension_def exchange_def in_client_def io_bind_def aes_new_32 call_extension_def)
  with pay serde_okD [OF assms(4) bs] show ?thesis
    by (simp add: client_decrypt_def io_bind_def)
qed

text \<open>
  C18. A touch is enough: for a client that holds the agent's token and reaches an unlocked agent, \<open>read\<close> of
  an item that opens under the agent's passphrase succeeds whenever the user touches the key (and the
  clock is not near its end), and prints exactly the plaintext; no other state of the agent, the
  cache, the audit log or the files can prevent it.
\<close>

theorem touched_read_succeeds:
  assumes "aead_ok c" and "seals c" and "serde_ok (js_decrypt_req c)" and "serde_ok (js_results c)"
    and "json_total (js_decrypt_req c)" and "json_total (js_results c)"
    and "at_agent c client s" and "responds (sy_agent s)" and "grant_fits (sy_agent s)"
    and "decrypt_item c (AesGcmCrypto (ag_passphrase (sy_agent s))) (unix_time (ag_world (sy_agent s))) vt = Ok plain"
  shows "\<exists>t. read_secret c lib client vt False s = (Ok (), t) \<and>
    stdout (sy_client t) = stdout (sy_client s) @ [plain]"
proof -
  have "starts_with vt vt_prefix" using assms(10) decrypt_item_not_vt by (cases "starts_with vt vt_prefix") force+
  then have "starts_with vt ''vt://''" by (auto simp: starts_with_iff vt_prefix_def)
  then have target: "resolve_read_target c vt (sy_client s) = (Ok vt, sy_client s)"
    by (simp add: resolve_read_target_def)
  let ?req = "\<lparr>dr_host = host_name (sy_client s), dr_command = ''[read]'', dr_items = [vt], dr_descriptions = []\<rparr>"
  let ?r = "\<lparr>cr_result = plain, cr_err_message = []\<rparr>"
  have "do_decrypt c (AesGcmCrypto (ag_passphrase (sy_agent s))) (unix_time (ag_world (sy_agent s))) (dr_items ?req) = Ok [?r]"
    by (simp add: do_decrypt_def assms(10))
  from client_decrypt_answers [OF assms(1-9) this] obtain t where
    dec: "client_decrypt c lib client ?req s = (Ok [?r], t)" by blast
  from read_runs [OF target dec] obtain v where run: "read_secret c lib client vt False s = (Ok (), v)" by auto
  from read_secret_prints [OF this target] dec run show ?thesis by auto
qed

lemma demo_laws: "seals demo_crates" "json_total demo_decrypt_req" "json_total demo_results"
  by (simp_all add: seals_def demo_seal_def json_total_def demo_decrypt_req_def demo_results_def rows_serde_def row_serde_def)

lemma demo_at_agent: "at_agent demo_crates demo_client demo_system" "responds demo_agent" "grant_fits demo_agent"
proof -
  show "at_agent demo_crates demo_client demo_system" by (simp add: at_agent_def demo_socket demo_token)
  show "responds demo_agent" by (simp add: responds_def Let_def demo_piv_matches)
  show "grant_fits demo_agent" by (simp add: grant_fits_def touch_time_def auth_cache_new_def Let_def)
qed

theorem touched_read_succeeds_witness:
  "\<exists>vt t. read_secret demo_crates demo_lib demo_client vt False demo_system = (Ok (), t) \<and>
     stdout (sy_client t) = [''pw'']"
proof -
  obtain rs t w v where rs: "do_encrypt demo_crates (AesGcmCrypto (replicate 32 1)) [demo_raw] w = (Ok rs, v)"
    and ok: "\<forall>r \<in> set rs. cr_err_message r = []"
    using demo_client_encrypt [OF demo_seat_system, of "[demo_raw]"] by blast
  obtain r where r: "rs = [r]" using do_encrypt_all2 [OF rs] by (auto simp: list_all2_Cons1)
  have str: "\<forall>i \<in> set [demo_raw]. rust_str (ei_plaintext i)" using demo_raw_str by simp
  have "do_decrypt demo_crates (AesGcmCrypto (replicate 32 1)) now [cr_result r] = Ok [\<lparr>cr_result = ''pw'', cr_err_message = []\<rparr>]" for now
    using decrypt_after_encrypt [OF demo_aead_ok demo_base64_ok str rs ok, of now]
    by (simp add: reveal_def demo_raw_def r)
  then have "decrypt_item demo_crates (AesGcmCrypto (replicate 32 1)) now (cr_result r) = Ok ''pw''" for now
    using to_res_item_no_err [OF _ decrypt_item_message] by (fastforce simp: do_decrypt_nth)
  then have d: "decrypt_item demo_crates (AesGcmCrypto (ag_passphrase (sy_agent demo_system)))
      (unix_time (ag_world (sy_agent demo_system))) (cr_result r) = Ok ''pw''" by simp
  have laws: "serde_ok (js_decrypt_req demo_crates)" "serde_ok (js_results demo_crates)"
    "json_total (js_decrypt_req demo_crates)" "json_total (js_results demo_crates)"
    by (simp_all add: demo_serde_ok demo_laws)
  have g: "responds (sy_agent demo_system)" "grant_fits (sy_agent demo_system)" using demo_at_agent by simp_all
  from touched_read_succeeds [OF demo_aead_ok demo_laws(1) laws demo_at_agent(1) g d, of demo_lib]
  obtain t where "read_secret demo_crates demo_lib demo_client (cr_result r) False demo_system = (Ok (), t)"
    "stdout (sy_client t) = [''pw'']" by auto
  then show ?thesis by blast
qed

end
