(* ===== verification/Vt_Keyring.thy ===== *)
theory Vt_Keyring
  imports Vt_Key_Types Vt_Progress
begin

text \<open>
  The agent against an abstract keyring: an ordered set of fingerprints and a lock.  As long as the
  key file can be read and written and nobody else changes it, the handlers over memory, file, locks and cache do to it
  exactly what the keyring says, and they answer what it allows.
\<close>

section \<open>The abstract keyring\<close>

record keyring =
  kr_keys :: "string list"
  kr_lock :: "bytes option"

text \<open>The fingerprint of a credential that can be added.\<close>

definition acceptable :: "crates \<Rightarrow> credential \<Rightarrow> string option" where
  "acceptable c cred =
     (case cred of
        OtherCredential \<Rightarrow> None
      | KeyCredential kd cm \<Rightarrow>
          (case private_key_new c kd cm of
             Inl _ \<Rightarrow> None
           | Inr k \<Rightarrow>
               if supported_key k
               then (case openssh_print c k of Inl _ \<Rightarrow> None | Inr _ \<Rightarrow> Some (fingerprint_str c (public_key_data c k)))
               else None))"

fun keyring_request :: "crates \<Rightarrow> request \<Rightarrow> keyring \<Rightarrow> keyring" where
  "keyring_request c (ReqAdd cred) q =
     (case acceptable c cred of
        Some fp \<Rightarrow> if kr_lock q = None \<and> fp \<notin> set (kr_keys q) then q\<lparr>kr_keys := kr_keys q @ [fp]\<rparr> else q
      | None \<Rightarrow> q)"
| "keyring_request c (ReqRemove pub) q = q\<lparr>kr_keys := filter (\<lambda>fp. fp \<noteq> fingerprint_str c pub) (kr_keys q)\<rparr>"
| "keyring_request c ReqRemoveAll q = q\<lparr>kr_keys := []\<rparr>"
| "keyring_request c (ReqLock pw) q = (if kr_lock q = None then q\<lparr>kr_lock := Some (hash_lock_passphrase c pw)\<rparr> else q)"
| "keyring_request c (ReqUnlock pw) q =
     (if kr_lock q = Some (hash_lock_passphrase c pw) then q\<lparr>kr_lock := None\<rparr> else q)"
| "keyring_request c _ q = q"

text \<open>What a request needs to succeed; a signature and an extension need consent besides.\<close>

fun keyring_allows :: "crates \<Rightarrow> request \<Rightarrow> keyring \<Rightarrow> bool" where
  "keyring_allows c (ReqSign r) q \<longleftrightarrow> kr_lock q = None \<and> fingerprint_str c (sr_pubkey r) \<in> set (kr_keys q)"
| "keyring_allows c (ReqExtension e) q \<longleftrightarrow> kr_lock q = None"
| "keyring_allows c (ReqAdd cred) q \<longleftrightarrow> kr_lock q = None \<and> acceptable c cred \<noteq> None"
| "keyring_allows c (ReqLock pw) q \<longleftrightarrow> kr_lock q = None"
| "keyring_allows c (ReqUnlock pw) q \<longleftrightarrow> kr_lock q = Some (hash_lock_passphrase c pw)"
| "keyring_allows c _ q \<longleftrightarrow> True"

definition keyring_event :: "crates \<Rightarrow> keyring \<Rightarrow> agent_event \<Rightarrow> keyring" where
  "keyring_event c q e = (case e of Request p r \<Rightarrow> keyring_request c r q | _ \<Rightarrow> q)"

text \<open>The abstraction: the file has the keys, also of a locked agent.\<close>

definition keyring_of :: "crates \<Rightarrow> agent \<Rightarrow> keyring" where
  "keyring_of c s =
     \<lparr>kr_keys = map ke_fingerprint (assumed_keys c s), kr_lock = (if ag_locked s then ag_lock_passphrase s else None)\<rparr>"

section \<open>Refinement as an interface\<close>

locale refinement =
  fixes abs :: "'s \<Rightarrow> 'a"
    and inv :: "'s \<Rightarrow> bool"
    and step :: "'s \<Rightarrow> 'e \<Rightarrow> 's"
    and spec :: "'a \<Rightarrow> 'e \<Rightarrow> 'a"
    and possible :: "'e \<Rightarrow> bool"
  assumes step_inv: "possible e \<Longrightarrow> inv s \<Longrightarrow> inv (step s e)"
    and step_spec: "possible e \<Longrightarrow> inv s \<Longrightarrow> abs (step s e) = spec (abs s) e"
begin

lemma run_inv: "list_all possible es \<Longrightarrow> inv s \<Longrightarrow> inv (foldl step s es)"
  by (induction es arbitrary: s) (simp_all add: step_inv)

lemma run_spec: "list_all possible es \<Longrightarrow> inv s \<Longrightarrow> abs (foldl step s es) = foldl spec (abs s) es"
  by (induction es arbitrary: s) (simp_all add: step_inv step_spec)

end

section \<open>A key file that works\<close>

text \<open>The crates serialise and seal, and no access to the file is refused.\<close>

definition storage_laws :: "crates \<Rightarrow> bool" where
  "storage_laws c \<longleftrightarrow> key_laws c \<and> seals c \<and> (\<forall>es. \<exists>j. ser (js_ssh_keys c) es = Inr j)"

definition file_works :: "world \<Rightarrow> bool" where
  "file_works w \<longleftrightarrow> (\<exists>h. home w = Some h \<and> read_err w (vt_file h ''ssh_keys.enc'') = None \<and>
     write_err w (vt_file h ''ssh_keys.enc'') = None \<and> mkdir_err w (path_join h ''.vt-yubi'') = None)"

text \<open>
  The first flag says whether the idle sweeper may have cleared the memory: an agent with the flag has not.
\<close>

definition in_step :: "crates \<Rightarrow> bool \<Rightarrow> agent \<Rightarrow> bool" where
  "in_step c awake s \<longleftrightarrow> typed_agent c s \<and> agent_inv s \<and> (awake \<longrightarrow> \<not> ag_idle_cleared s) \<and>
     file_works (ag_world s) \<and> length (ag_passphrase s) = 32 \<and> stored_keys c s = Ok (assumed_keys c s) \<and>
     (\<not> ag_locked s \<longrightarrow> map fst (ag_keys s) = map ke_fingerprint (assumed_keys c s) \<or>
        ag_keys s = [] \<and> ag_idle_cleared s)"

lemma save_works:
  assumes "storage_laws c" and "file_works w" and "length K = 32"
  shows "\<exists>v. save_ssh_keys_to_file c (AesGcmCrypto K) es w = (Ok (), v)"
proof -
  obtain h where h: "home w = Some h" "write_err w (vt_file h ''ssh_keys.enc'') = None"
    "mkdir_err w (path_join h ''.vt-yubi'') = None" using assms(2) by (auto simp: file_works_def)
  obtain j where j: "ser (js_ssh_keys c) es = Inr j" using assms(1) by (auto simp: storage_laws_def)
  obtain r u where u: "ensure_dir w = (r, u)" by fastforce
  have r: "r = Ok ()"
    using u h by (auto simp: ensure_dir_def path_defs io_eval_defs home_dir_def fs_exists_def create_dir_all_def split: if_splits)
  have "seals c" using assms(1) by (simp add: storage_laws_def)
  then obtain ct u' where e: "aes_encrypt c (AesGcmCrypto K) j u = (Ok ct, u')"
    using seals_aes assms(3) by blast
  have "same_env w u'"
    using withinD [OF same_env_ensure_dir u] withinD [OF aes_frames(1) e] by (rule env.frame_trans)
  then have "home u' = Some h" "write_err u' (vt_file h ''ssh_keys.enc'') = None"
    using h by (simp_all add: same_env_def)
  then show ?thesis
    using u r j e by (simp add: save_ssh_keys_to_file_def io_seq_def io_eval_defs paths_eval fs_write_def)
qed

section \<open>Loading\<close>

lemma update_fst: "map fst (AList.update k v xs) = (if k \<in> fst ` set xs then map fst xs else map fst xs @ [k])"
  by (induction xs) auto

lemma loaded_fingerprints:
  "list_all (typed_entry c) es \<Longrightarrow> distinct (map fst zs @ map ke_fingerprint es) \<Longrightarrow>
     map fst (foldl (insert_entry c) zs es) = map fst zs @ map ke_fingerprint es"
proof (induction es arbitrary: zs)
  case (Cons e es)
  then have e: "map fst (insert_entry c zs e) = map fst zs @ [ke_fingerprint e]"
    by (auto simp: insert_entry_def update_fst typed_entry_def split: sum.splits)
  have "list_all (typed_entry c) es" "distinct (map fst (insert_entry c zs e) @ map ke_fingerprint es)"
    using Cons.prems unfolding e by auto
  from Cons.IH [OF this] show ?case unfolding e by (simp add: e)
qed simp

lemma load_all_fst:
  "fst (load_all_keys c K w) =
     oc_bind (aes_new K) (\<lambda>a. oc_bind (fst (load_ssh_keys_from_file c a w)) (\<lambda>es. Ok (foldl (insert_entry c) [] es)))"
proof (cases "aes_new K")
  case (Ok a)
  obtain r v where "load_ssh_keys_from_file c a w = (r, v)" by fastforce
  then show ?thesis using Ok by (cases r) (simp_all add: load_all_keys_def io_bind_def)
qed (simp_all add: load_all_keys_def)

lemma load_in_step:
  assumes "typed_agent c s" and "stored_keys c s = Ok (assumed_keys c s)" and "length (ag_passphrase s) = 32"
  shows "\<exists>ks. fst (load_all_keys c (ag_passphrase s) (ag_world s)) = Ok ks \<and>
    map fst ks = map ke_fingerprint (assumed_keys c s)"
proof -
  obtain v where "load_ssh_keys_from_file c (AesGcmCrypto (ag_passphrase s)) (ag_world s) = (Ok (assumed_keys c s), v)"
    using assms(2) by (metis stored_keys_def prod.collapse)
  then have "typed_entries c (assumed_keys c s)" using typed_load assms(1) by (auto simp: typed_agent_def)
  then show ?thesis
    using assms(2,3) loaded_fingerprints [of c "assumed_keys c s" "[]"]
    by (simp add: load_all_fst aes_new_32 stored_keys_def typed_entries_def)
qed

section \<open>What leaves the keyring alone\<close>

text \<open>As far as the key file goes, the world is the same.\<close>

definition key_view :: "world \<Rightarrow> world \<Rightarrow> bool" where
  "key_view w v \<longleftrightarrow> read_err v = read_err w \<and> write_err v = write_err w \<and> mkdir_err v = mkdir_err w \<and>
     keeps_store w v \<and> same_key_dir w v"

interpretation keyview: frame_rel key_view
  by unfold_locales (auto simp: key_view_def keeps_store_def same_key_dir_def)

lemmas [frame_intros] = keyview.all

lemma key_view_load:
  assumes "key_view w v"
  shows "fst (load_ssh_keys_from_file c a v) = fst (load_ssh_keys_from_file c a w)"
proof (cases "home w")
  case None
  with assms show ?thesis
    by (simp add: load_ssh_keys_from_file_def io_eval_defs path_defs home_dir_def key_view_def keeps_store_def)
next
  case (Some h)
  with assms show ?thesis
    by (simp add: load_ssh_keys_eval [of v h] load_ssh_keys_eval [of w h] key_view_def keeps_store_def same_key_dir_def)
qed

lemma key_view_frames:
  "within same_env m \<Longrightarrow> within inert m \<Longrightarrow> within key_view m"
  "within same_env m \<Longrightarrow> within same_files m \<Longrightarrow> within same_key_dir m \<Longrightarrow> within key_view m"
  "within only_audit m \<Longrightarrow> within key_view m"
proof -
  show "within same_env m \<Longrightarrow> within inert m \<Longrightarrow> within key_view m"
    by (simp add: within_def key_view_def keeps_store_def same_key_dir_def same_env_def inert_def)
  show "within same_env m \<Longrightarrow> within same_files m \<Longrightarrow> within same_key_dir m \<Longrightarrow> within key_view m"
    by (simp add: within_def key_view_def keeps_store_def same_env_def same_files_def)
  assume a: "within only_audit m"
  then have e: "within same_env m" and k: "within keeps_store m"
    using keeps_store_frames(2) [OF a] by (simp_all add: within_def only_audit_frames)
  have "same_key_dir w v" if "only_audit w v" for w v
    unfolding same_key_dir_def
  proof (intro conjI allI impI)
    show "home v = home w" using that by (rule only_audit_keeps)
    fix h
    assume "home w = Some h"
    then have "\<forall>g. home w = Some g \<longrightarrow> vt_file h ''ssh_keys.enc'' \<noteq> path_join g ''.vt-yubi/audit''"
      using audit_not_vault(2) by (simp add: not_sym)
    with that show "vt_file h ''ssh_keys.enc'' \<in> dirs v \<longleftrightarrow> vt_file h ''ssh_keys.enc'' \<in> dirs w"
      by (simp add: only_audit_def)
  qed
  with a e k show "within key_view m" by (simp add: within_def key_view_def same_env_def)
qed

text \<open>The agent may load the keys that the idle sweeper cleared.\<close>

definition holds_still :: "crates \<Rightarrow> agent \<Rightarrow> agent \<Rightarrow> bool" where
  "holds_still c s t \<longleftrightarrow> ag_passphrase t = ag_passphrase s \<and> key_view (ag_world s) (ag_world t) \<and> same_lock s t \<and>
     (ag_keys t = ag_keys s \<and> ag_idle_cleared t = ag_idle_cleared s \<or>
      ag_keys s = [] \<and> ag_idle_cleared s \<and> \<not> ag_idle_cleared t \<and>
        fst (load_all_keys c (ag_passphrase s) (ag_world s)) = Ok (ag_keys t))"

interpretation stillf: frame_rel "holds_still c" for c
proof
  fix s t u
  show "holds_still c s s" by (simp add: holds_still_def keyview.frame_refl same_lock_def)
  assume st: "holds_still c s t" and tu: "holds_still c t u"
  then have "key_view (ag_world s) (ag_world u)" "same_lock s u"
    by (auto simp: holds_still_def same_lock_def intro: keyview.frame_trans)
  moreover have "fst (load_all_keys c (ag_passphrase s) (ag_world t)) = fst (load_all_keys c (ag_passphrase s) (ag_world s))"
    using st key_view_load [of "ag_world s" "ag_world t"] by (simp add: holds_still_def load_all_fst)
  ultimately show "holds_still c s u" using st tu by (auto simp: holds_still_def)
qed

lemmas [frame_intros] = stillf.all

lemma still_in_world: "within key_view m \<Longrightarrow> within (holds_still c) (in_world m)"
  by (simp add: within_def holds_still_def in_world_snd same_lock_def)

lemma still_presence [frame_intros]: "within (holds_still c) (verify_yubikey_presence c m)"
  unfolding verify_yubikey_presence_def
  by (intro frame_intros still_in_world key_view_frames(1))
    (auto simp: verify_presence_with_pin_def open_with_pin_def yk_prim_defs intro!: frame_intros)

lemma still_steps [frame_intros]:
  "within (holds_still c) touch_activity"
  "within (holds_still c) (cache_grant ctx fp d)"
  "within (holds_still c) (in_world (log_decrypt c p cl req ok))"
  "within (holds_still c) (in_world (log_encrypt c p cl n))"
  "within (holds_still c) (in_world (log_auth c p cl areq ok))"
  "within (holds_still c) (in_world (log_sign c p exe cl lbl fp ok))"
  "within (holds_still c) (in_world (do_encrypt c a items))"
  "within (holds_still c) (in_world (aes_encrypt c a bs))"
  "within (holds_still c) (ensure_keys_loaded c)"
proof -
  show "within (holds_still c) touch_activity" "within (holds_still c) (cache_grant ctx fp d)"
    unfolding touch_activity_def cache_grant_def
    by (intro stillf.all stillf.upd; simp add: holds_still_def keyview.frame_refl same_lock_def)+
  show "within (holds_still c) (ensure_keys_loaded c)"
    by (auto simp: within_def ensure_eval holds_still_def keyview.frame_refl same_lock_def split: outcome.split)
  have e: "within same_key_dir (do_encrypt c a items)"
    unfolding do_encrypt_def encrypt_item_one_def by (intro frame_intros)
  show "within (holds_still c) (in_world (do_encrypt c a items))" "within (holds_still c) (in_world (aes_encrypt c a bs))"
    by (intro still_in_world key_view_frames(2) frame_intros e)+
qed (intro still_in_world key_view_frames(3) frame_intros)+

lemma still_check [frame_intros]: "within (holds_still c) (check_or_prompt_auth c p fp m d)"
  unfolding check_or_prompt_auth_def by (intro frame_intros)

lemma still_requests:
  "within (holds_still c) (request_identities c)"
  "within (holds_still c) (sign_op c p r)"
  "within (holds_still c) (extension_op c p e)"
  unfolding request_identities_def sign_op_def sign_unlocked_def extension_op_def extension_unlocked_def
    handle_encrypt_def handle_decrypt_def handle_auth_def
  by (intro frame_intros)+

section \<open>One event\<close>

lemma step_atomic: "request_step c p r s = snd (job_atomic c (Handle p r) s)"
  by (cases r) (simp_all add: replies_def io_bind_def split: prod.split outcome.split)

lemma alone_typed:
  "typed_task c K h R t \<Longrightarrow> typed_at c K h s \<Longrightarrow> typed_at c K h (snd (run_alone t s))"
  by (induction t arbitrary: s) simp_all

text \<open>The types and the lock invariant hold after any request; the rest is about the file.\<close>

lemma request_keeps:
  assumes "storage_laws c" and "in_step c b s"
  shows "typed_agent c (request_step c p r s)" "agent_inv (request_step c p r s)"
proof -
  have "typed_at c (ag_passphrase s) (home (ag_world s)) (snd (run_alone (job_task c (Handle p r)) s))"
    by (rule alone_typed [OF job_typed]) (use assms in \<open>simp_all add: storage_laws_def in_step_def typed_at_def\<close>)
  then show "typed_agent c (request_step c p r s)" by (simp add: job_alone step_atomic typed_at_def)
  show "agent_inv (request_step c p r s)"
    using agent_step_inv [of s c 0 "Request p r"] assms(2) by (simp add: in_step_def)
qed

text \<open>After the event the file holds \<open>es\<close>, and the agent is otherwise as configured.\<close>

definition file_now :: "crates \<Rightarrow> ssh_key_entry list \<Rightarrow> agent \<Rightarrow> agent \<Rightarrow> bool" where
  "file_now c es s t \<longleftrightarrow> ag_passphrase t = ag_passphrase s \<and> file_works (ag_world t) \<and> stored_keys c t = Ok es \<and>
     (ag_idle_cleared t \<longrightarrow> ag_idle_cleared s)"

lemma file_now_step:
  assumes "in_step c b s" and "file_now c es s t" and "typed_agent c t" and "agent_inv t"
    and "\<not> ag_locked t \<Longrightarrow> map fst (ag_keys t) = map ke_fingerprint es \<or> ag_keys t = [] \<and> ag_idle_cleared t"
  shows "in_step c b t" and "keyring_of c t = \<lparr>kr_keys = map ke_fingerprint es, kr_lock = ag_lock_passphrase t\<rparr>"
proof -
  have "assumed_keys c t = es" using assms(2) by (simp add: file_now_def assumed_keys_def)
  moreover have "(if ag_locked t then ag_lock_passphrase t else None) = ag_lock_passphrase t"
    using assms(4) by (simp add: agent_inv_def)
  ultimately show "in_step c b t" "keyring_of c t = \<lparr>kr_keys = map ke_fingerprint es, kr_lock = ag_lock_passphrase t\<rparr>"
    using assms by (auto simp: in_step_def file_now_def keyring_of_def)
qed

lemma in_step_keyring:
  "in_step c b s \<Longrightarrow> keyring_of c s = \<lparr>kr_keys = map ke_fingerprint (assumed_keys c s), kr_lock = ag_lock_passphrase s\<rparr>"
  by (auto simp: keyring_of_def in_step_def agent_inv_def)

lemma key_view_works: "key_view w v \<Longrightarrow> file_works v \<longleftrightarrow> file_works w"
  by (auto simp: key_view_def keeps_store_def file_works_def)

lemma still_step:
  assumes "in_step c b s" and "holds_still c s t" and "typed_agent c t" and "agent_inv t"
  shows "in_step c b t" and "keyring_of c t = keyring_of c s"
proof -
  have same: "ag_passphrase t = ag_passphrase s" "key_view (ag_world s) (ag_world t)" "same_lock s t"
    using assms(2) by (simp_all add: holds_still_def)
  then have f: "file_now c (assumed_keys c s) s t"
    using assms(1,2) key_view_load [OF same(2)] key_view_works [OF same(2)]
    by (auto simp: file_now_def in_step_def stored_keys_def holds_still_def)
  have l: "ag_locked t = ag_locked s" "ag_lock_passphrase t = ag_lock_passphrase s" using same(3) by (simp_all add: same_lock_def)
  have k: "map fst (ag_keys t) = map ke_fingerprint (assumed_keys c s) \<or> ag_keys t = [] \<and> ag_idle_cleared t"
    if "\<not> ag_locked t"
    using assms(1,2) that l load_in_step [of c s] by (auto simp: in_step_def holds_still_def)
  show "in_step c b t" "keyring_of c t = keyring_of c s"
    using file_now_step [OF assms(1) f assms(3,4) k] in_step_keyring [OF assms(1)] l by simp_all
qed

lemma saved_file_now:
  assumes "storage_laws c" and "in_step c b s"
    and "save_ssh_keys_to_file c (AesGcmCrypto (ag_passphrase s)) es (ag_world s) = (Ok (), w)"
    and "ag_world t = w" "ag_passphrase t = ag_passphrase s" "ag_idle_cleared t = ag_idle_cleared s"
  shows "file_now c es s t"
proof -
  have "store_ok c s"
    using assms(1,2) by (auto simp: store_ok_def storage_laws_def key_laws_def in_step_def file_works_def keys_readable_def)
  then have "stored_keys c t = Ok es" using saved_keys assms(3-5) by blast
  moreover have "same_env (ag_world s) w" by (rule withinD [OF ssh_store_env(2) assms(3)])
  then have "file_works w" using assms(2) by (simp add: in_step_def file_works_def same_env_def)
  ultimately show ?thesis using assms(4-6) by (simp add: file_now_def)
qed

lemma in_step_save:
  assumes "storage_laws c" and "in_step c b s"
  obtains w where "save_ssh_keys_to_file c (AesGcmCrypto (ag_passphrase s)) es (ag_world s) = (Ok (), w)"
  using assms save_works [of c "ag_world s" "ag_passphrase s" es] by (auto simp: in_step_def)

lemma add_refused:
  assumes "ag_locked s \<or> acceptable c cred = None"
  shows "\<exists>e. add_identity c cred s = (Err e, s)"
proof (cases "ag_locked s")
  case False
  then have "acceptable c cred = None" using assms by simp
  then show ?thesis using False
    by (auto simp: add_identity_def add_identity_unlocked_def acceptable_def ensure_def Let_def
        split: credential.splits sum.splits if_splits)
qed (simp add: add_identity_def)

lemma add_accepted:
  assumes laws: "storage_laws c" and s: "in_step c True s" and ul: "\<not> ag_locked s" and fp: "acceptable c cred = Some fp"
  shows "\<exists>k es t. add_identity c cred s = (Ok (), t) \<and> file_now c es s t \<and> same_lock s t \<and>
    map fst (ag_keys t) = map fst (AList.update fp k (ag_keys s)) \<and>
    map ke_fingerprint es = (let fps = map ke_fingerprint (assumed_keys c s) in if fp \<in> set fps then fps else fps @ [fp])"
proof -
  obtain kd cm k enc where cred: "cred = KeyCredential kd cm" and k: "private_key_new c kd cm = Inr k"
    "supported_key k" "openssh_print c k = Inr enc" and fpk: "fp = fingerprint_str c (public_key_data c k)"
    using fp by (auto simp: acceptable_def split: credential.splits sum.splits if_splits)
  have len: "length (ag_passphrase s) = 32" using s by (simp add: in_step_def)
  let ?E = "assumed_keys c s" and ?e = "entry_of c k cm enc"
  let ?had = "\<exists>e \<in> set ?E. ke_fingerprint e = fp"
  let ?t = "\<lambda>w. s\<lparr>ag_world := w, ag_keys := AList.update fp k (ag_keys s), ag_last_activity := instant w\<rparr>"
  have run: "add_identity c cred s = (Ok (), ?t w)"
    if "io_when (\<not> ?had) (in_world (save_ssh_keys_to_file c (AesGcmCrypto (ag_passphrase s)) (?E @ [?e]))) s =
        (Ok (), s\<lparr>ag_world := w\<rparr>)" for w
    using that lenient_load [of c s] ul
    by (simp add: add_identity_def add_identity_unlocked_def cred k aes_new_32 [OF len] Let_def io_bind_def fpk entry_of_def
        touch_activity_def agent_now_def)
  have e: "ke_fingerprint ?e = fp" by (simp add: entry_of_def fpk)
  show ?thesis
  proof (cases ?had)
    case True
    then have r: "add_identity c cred s = (Ok (), ?t (ag_world s))" by (intro run) simp
    have "file_now c ?E s (?t (ag_world s))" using s by (simp add: file_now_def in_step_def stored_keys_def)
    moreover have "fp \<in> set (map ke_fingerprint ?E)" using True by auto
    ultimately show ?thesis using r
      by (intro exI [of _ k] exI [of _ ?E] exI [of _ "?t (ag_world s)"]) (simp add: same_lock_def)
  next
    case False
    obtain w where w: "save_ssh_keys_to_file c (AesGcmCrypto (ag_passphrase s)) (?E @ [?e]) (ag_world s) = (Ok (), w)"
      by (rule in_step_save [OF laws s])
    then have r: "add_identity c cred s = (Ok (), ?t w)" using False by (intro run) (simp add: in_world_def)
    have f: "file_now c (?E @ [?e]) s (?t w)" by (rule saved_file_now [OF laws s w]) simp_all
    have "fp \<notin> set (map ke_fingerprint ?E)" using False by auto
    then show ?thesis using r f e
      by (intro exI [of _ k] exI [of _ "?E @ [?e]"] exI [of _ "?t w"]) (simp add: same_lock_def)
  qed
qed

text \<open>An agent that may have been cleared has no key added to it; other programs leave the files alone.\<close>

fun ordinary :: "bool \<Rightarrow> agent_event \<Rightarrow> bool" where
  "ordinary awake IdleSweep \<longleftrightarrow> \<not> awake"
| "ordinary awake (FilesChanged fs) \<longleftrightarrow> False"
| "ordinary awake (Request p (ReqAdd cred)) \<longleftrightarrow> awake"
| "ordinary awake _ \<longleftrightarrow> True"

definition refines_at :: "crates \<Rightarrow> bool \<Rightarrow> i32 option \<Rightarrow> request \<Rightarrow> agent \<Rightarrow> bool" where
  "refines_at c b p r s \<longleftrightarrow> in_step c b (request_step c p r s) \<and>
     keyring_of c (request_step c p r s) = keyring_request c r (keyring_of c s)"

lemma refines_file_now:
  assumes "storage_laws c" and "in_step c b s" and "file_now c es s (request_step c p r s)"
    and "\<not> ag_locked (request_step c p r s) \<Longrightarrow> map fst (ag_keys (request_step c p r s)) = map ke_fingerprint es \<or>
      ag_keys (request_step c p r s) = [] \<and> ag_idle_cleared (request_step c p r s)"
    and "keyring_request c r (keyring_of c s) =
      \<lparr>kr_keys = map ke_fingerprint es, kr_lock = ag_lock_passphrase (request_step c p r s)\<rparr>"
  shows "refines_at c b p r s"
  unfolding refines_at_def assms(5)
  using file_now_step [OF assms(2,3) request_keeps [OF assms(1,2)] assms(4)] by blast

lemma refines_still:
  assumes "storage_laws c" and "in_step c b s" and "r = ReqIdentities \<or> r = ReqSign q \<or> r = ReqExtension e"
  shows "refines_at c b p r s"
proof -
  have "holds_still c s (request_step c p r s)"
    using assms(3) withinS [OF still_requests(1)] withinS [OF still_requests(2)] withinS [OF still_requests(3)] by auto
  moreover have "keyring_request c r (keyring_of c s) = keyring_of c s" using assms(3) by auto
  ultimately show ?thesis
    unfolding refines_at_def using still_step [OF assms(2) _ request_keeps [OF assms(1,2)]] by simp
qed

lemma unchanged_file_now: "in_step c b s \<Longrightarrow> ag_world t = ag_world s \<Longrightarrow> ag_passphrase t = ag_passphrase s \<Longrightarrow>
    ag_idle_cleared t = ag_idle_cleared s \<Longrightarrow> file_now c (assumed_keys c s) s t"
  by (simp add: in_step_def file_now_def stored_keys_def)

lemma refines_unchanged:
  "in_step c b s \<Longrightarrow> request_step c p r s = s \<Longrightarrow> keyring_request c r (keyring_of c s) = keyring_of c s \<Longrightarrow> refines_at c b p r s"
  by (simp add: refines_at_def)

lemma refines_add:
  assumes "storage_laws c" and s: "in_step c True s"
  shows "refines_at c True p (ReqAdd cred) s"
proof (cases "ag_locked s \<or> acceptable c cred = None")
  case True
  then obtain e where "add_identity c cred s = (Err e, s)" using add_refused by blast
  moreover have "kr_lock (keyring_of c s) = None \<Longrightarrow> \<not> ag_locked s"
    using s by (auto simp: keyring_of_def in_step_def agent_inv_def)
  ultimately show ?thesis using True s by (intro refines_unchanged) (auto split: option.split)
next
  case False
  then obtain fp where ul: "\<not> ag_locked s" and fp: "acceptable c cred = Some fp" by auto
  obtain k es t where run: "add_identity c cred s = (Ok (), t)" and f: "file_now c es s t" and l: "same_lock s t"
    and ks: "map fst (ag_keys t) = map fst (AList.update fp k (ag_keys s))"
    and es: "map ke_fingerprint es = (let fps = map ke_fingerprint (assumed_keys c s) in if fp \<in> set fps then fps else fps @ [fp])"
    using add_accepted [OF assms ul fp] by blast
  have t: "request_step c p (ReqAdd cred) s = t" using run by simp
  have m: "map fst (ag_keys s) = map ke_fingerprint (assumed_keys c s)" and lp: "ag_lock_passphrase s = None"
    using s ul by (auto simp: in_step_def agent_inv_def)
  have ks': "map fst (ag_keys t) = map ke_fingerprint es"
    unfolding ks es update_fst m by (simp flip: set_map add: m Let_def)
  show ?thesis
  proof (rule refines_file_now [OF assms])
    show "keyring_request c (ReqAdd cred) (keyring_of c s) =
        \<lparr>kr_keys = map ke_fingerprint es, kr_lock = ag_lock_passphrase (request_step c p (ReqAdd cred) s)\<rparr>"
      using l unfolding t by (simp add: fp in_step_keyring [OF s] lp same_lock_def es Let_def)
  qed (simp_all add: t f ks' del: request_step.simps)
qed

lemma refines_remove:
  assumes "storage_laws c" and s: "in_step c b s"
  shows "refines_at c b p (ReqRemove pub) s"
proof -
  let ?fp = "fingerprint_str c pub" and ?t = "request_step c p (ReqRemove pub) s"
  let ?es = "filter (\<lambda>e. ke_fingerprint e \<noteq> ?fp) (assumed_keys c s)"
  have len: "length (ag_passphrase s) = 32" using s by (simp add: in_step_def)
  obtain w where w: "save_ssh_keys_to_file c (AesGcmCrypto (ag_passphrase s)) ?es (ag_world s) = (Ok (), w)"
    by (rule in_step_save [OF assms])
  then have t: "?t = s\<lparr>ag_world := w, ag_keys := AList.delete ?fp (ag_keys s)\<rparr>"
    by (simp add: remove_identity_eval [OF len])
  have es: "map ke_fingerprint ?es = filter (\<lambda>f. f \<noteq> ?fp) (map ke_fingerprint (assumed_keys c s))"
    by (simp add: filter_map o_def)
  have del: "map fst (AList.delete ?fp ks) = filter (\<lambda>f. f \<noteq> ?fp) (map fst ks)" for ks :: "(string \<times> private_key) list"
    by (simp add: AList.delete_eq filter_map o_def case_prod_unfold not_sym eq_commute [of ?fp])
  show ?thesis
  proof (rule refines_file_now [OF assms saved_file_now [OF assms w]])
    show "map fst (ag_keys ?t) = map ke_fingerprint ?es \<or> ag_keys ?t = [] \<and> ag_idle_cleared ?t"
      if "\<not> ag_locked ?t"
      using s that by (auto simp: t in_step_def es del simp del: request_step.simps)
  qed (simp_all add: t in_step_keyring [OF s] es del: request_step.simps)
qed

lemma refines_remove_all:
  assumes "storage_laws c" and s: "in_step c b s"
  shows "refines_at c b p ReqRemoveAll s"
proof -
  have len: "length (ag_passphrase s) = 32" using s by (simp add: in_step_def)
  obtain w where w: "save_ssh_keys_to_file c (AesGcmCrypto (ag_passphrase s)) [] (ag_world s) = (Ok (), w)"
    by (rule in_step_save [OF assms])
  have t: "request_step c p ReqRemoveAll s = s\<lparr>ag_world := w, ag_keys := []\<rparr>"
    using w len by (simp add: remove_all_identities_def aes_new_32 in_world_def io_attempt_def io_bind_def)
  show ?thesis
    by (rule refines_file_now [OF assms saved_file_now [OF assms w]])
      (simp_all add: t in_step_keyring [OF s] del: request_step.simps)
qed

lemma refines_locks:
  assumes "storage_laws c" and s: "in_step c b s"
  shows "refines_at c b p (ReqLock pw) s" "refines_at c b p (ReqUnlock pw) s"
proof -
  have inv: "ag_lock_passphrase s = None \<longleftrightarrow> \<not> ag_locked s" using s by (auto simp: in_step_def agent_inv_def)
  show "refines_at c b p (ReqLock pw) s"
  proof (cases "ag_locked s")
    case True
    then show ?thesis using s inv by (intro refines_unchanged) (auto simp: lock_eval in_step_keyring [OF s])
  next
    case False
    then show ?thesis
      by (intro refines_file_now [OF assms unchanged_file_now [OF s]])
        (use inv in \<open>auto simp: lock_eval in_step_keyring [OF s]\<close>)
  qed
  show "refines_at c b p (ReqUnlock pw) s"
  proof (cases "ag_lock_passphrase s = Some (hash_lock_passphrase c pw)")
    case False
    then have "unlock c pw s = (Err AgentFailure, s)"
      by (cases "ag_locked s") (simp_all add: unlock_eval, simp add: unlock_def)
    with False s show ?thesis by (intro refines_unchanged) (auto simp: in_step_keyring [OF s])
  next
    case True
    with inv have l: "ag_locked s" by auto
    obtain ks where ks: "fst (load_all_keys c (ag_passphrase s) (ag_world s)) = Ok ks"
      "map fst ks = map ke_fingerprint (assumed_keys c s)"
      using load_in_step [of c s] s by (auto simp: in_step_def)
    show ?thesis
      by (intro refines_file_now [OF assms unchanged_file_now [OF s]])
        (use True l ks in \<open>simp_all add: unlock_eval in_step_keyring [OF s]\<close>)
  qed
qed

lemma request_refines:
  assumes "storage_laws c" and "in_step c b s" and "ordinary b (Request p r)"
  shows "refines_at c b p r s"
proof (cases r)
  case (ReqAdd cred)
  with assms show ?thesis by (simp add: refines_add)
qed (use assms(1,2) in \<open>simp_all add: refines_still refines_remove refines_remove_all refines_locks\<close>)

lemma outside_still:
  assumes "e = Wait n \<or> e = ClockReads d ts un \<or> e = CacheSweep \<or> e = ProcsChanged st ex"
  shows "holds_still c s (agent_step c T s e)"
proof -
  have "cache_sweep s = s \<or> (\<exists>d. cache_sweep s = s\<lparr>ag_auth_cache := d\<rparr>)" by (auto simp: cache_sweep_def)
  then show ?thesis
    using assms by (auto simp: holds_still_def same_lock_def key_view_def keeps_store_def same_key_dir_def)
qed

lemma sweep_refines:
  assumes s: "in_step c False s"
  shows "in_step c False (idle_sweep T s) \<and> keyring_of c (idle_sweep T s) = keyring_of c s"
proof -
  let ?t = "s\<lparr>ag_keys := [], ag_idle_cleared := True\<rparr>"
  have inv: "agent_inv ?t" "typed_agent c ?t" using s by (auto simp: in_step_def agent_inv_def typed_agent_def)
  have "stored_keys c ?t = stored_keys c s" by (simp add: stored_keys_def)
  then have "in_step c False ?t \<and> keyring_of c ?t = keyring_of c s"
    using s inv by (auto simp: in_step_def keyring_of_def assumed_keys_def)
  then show ?thesis using s by (auto simp: idle_sweep_def)
qed

lemma event_refines:
  assumes laws: "storage_laws c" and s: "in_step c b s" and e: "ordinary b e"
  shows "in_step c b (agent_step c T s e) \<and> keyring_of c (agent_step c T s e) = keyring_event c (keyring_of c s) e"
proof -
  have keep: "in_step c b t \<and> keyring_of c t = keyring_of c s"
    if "holds_still c s t" "agent_inv t" "ag_keys t = ag_keys s" for t
  proof -
    have "typed_agent c t"
      using s that keeps_store_typed [of "ag_world s" "ag_world t"]
      by (simp add: in_step_def typed_agent_def holds_still_def key_view_def)
    then show ?thesis using still_step [OF s that(1) _ that(2)] by blast
  qed
  have outside: ?thesis if o': "e = Wait n \<or> e = ClockReads d ts un \<or> e = CacheSweep \<or> e = ProcsChanged st ex" for n st ex d ts un
  proof -
    have "agent_inv (agent_step c T s e)" using agent_step_inv s by (simp add: in_step_def)
    moreover have "ag_keys (agent_step c T s e) = ag_keys s" "keyring_event c (keyring_of c s) e = keyring_of c s"
      using o' by (auto simp: cache_sweep_def keyring_event_def)
    ultimately show ?thesis using keep [OF outside_still [OF o']] by simp
  qed
  show ?thesis
  proof (cases e)
    case (Request p r)
    then show ?thesis using request_refines [OF laws s] e by (simp add: refines_at_def keyring_event_def)
  next
    case IdleSweep
    then show ?thesis using e s sweep_refines [of c s T] by (cases b) (simp_all add: keyring_event_def)
  qed (use e outside in auto)
qed

interpretation agent_keyring: refinement "keyring_of c" "\<lambda>s. storage_laws c \<and> in_step c b s" "agent_step c T"
  "keyring_event c" "ordinary b" for c b T
  by unfold_locales (use event_refines in blast)+

section \<open>What the agent answers\<close>

lemma ensured_fingerprints:
  assumes "in_step c b s" and "\<not> ag_locked s"
  obtains u where "ensure_keys_loaded c s = (Ok (), u)" and "map fst (ag_keys u) = map ke_fingerprint (assumed_keys c s)"
proof (cases "ag_keys s = [] \<and> ag_idle_cleared s")
  case True
  obtain ks where "fst (load_all_keys c (ag_passphrase s) (ag_world s)) = Ok ks" "map fst ks = map ke_fingerprint (assumed_keys c s)"
    using load_in_step [of c s] assms(1) by (auto simp: in_step_def)
  with True that [of "s\<lparr>ag_keys := ks, ag_idle_cleared := False\<rparr>"] show thesis by (simp add: ensure_eval)
next
  case False
  with assms that [of s] show thesis by (auto simp: in_step_def ensure_eval)
qed

lemma identities_answer:
  assumes laws: "storage_laws c" and s: "in_step c b s"
  shows "\<exists>ids. fst (request_identities c s) = Ok ids \<and>
    map (\<lambda>i. fingerprint_str c (id_pubkey i)) ids = (if ag_locked s then [] else map ke_fingerprint (assumed_keys c s))"
proof (cases "ag_locked s")
  case False
  obtain u where u: "ensure_keys_loaded c s = (Ok (), u)" "map fst (ag_keys u) = map ke_fingerprint (assumed_keys c s)"
    by (rule ensured_fingerprints [OF s False])
  have r: "request_identities c s = (Ok (map (identity_of c) (ag_keys u)), u)" by (rule request_identities_eval [OF False u(1)])
  then have "typed_agent c u" using request_keeps(1) [OF laws s, of p ReqIdentities] by simp
  then have "map (\<lambda>i. fingerprint_str c (id_pubkey i)) (map (identity_of c) (ag_keys u)) = map fst (ag_keys u)"
    by (auto simp: typed_agent_def typed_keys_def typed_key_def identity_of_def)
  with r u False show ?thesis by simp
qed (simp add: request_identities_def)

lemma sign_needs_key:
  assumes s: "in_step c b s" and run: "sign_op c p r s = (Ok sg, t)"
  shows "keyring_allows c (ReqSign r) (keyring_of c s)"
proof -
  have ul: "\<not> ag_locked s" using run by (auto simp: sign_op_def split: if_splits)
  obtain u where u: "ensure_keys_loaded c s = (Ok (), u)" "map fst (ag_keys u) = map ke_fingerprint (assumed_keys c s)"
    by (rule ensured_fingerprints [OF s ul])
  have "map_of (ag_keys u) (fingerprint_str c (sr_pubkey r)) \<noteq> None"
    using run ul u(1) by (auto simp: sign_op_def sign_unlocked_def io_bind_eq_Ok Let_def touch_activity_def split: option.splits)
  then have "fingerprint_str c (sr_pubkey r) \<in> set (map fst (ag_keys u))" by (auto simp: map_of_eq_None_iff)
  then show ?thesis using ul u(2) s by (auto simp: in_step_keyring [OF s] in_step_def agent_inv_def)
qed

lemma ok_replies: "is_ok (fst (replies f m s)) \<longleftrightarrow> is_ok (fst (m s))"
  by (simp add: replies_def io_bind_def split: prod.split outcome.split)

lemma request_allowed:
  assumes laws: "storage_laws c" and s: "in_step c b s" and r: "ordinary b (Request p r)"
  shows "is_ok (fst (job_atomic c (Handle p r) s)) \<Longrightarrow> keyring_allows c r (keyring_of c s)"
    and "keyring_allows c r (keyring_of c s) \<Longrightarrow> (\<forall>q. r \<noteq> ReqSign q) \<Longrightarrow> (\<forall>e. r \<noteq> ReqExtension e) \<Longrightarrow>
      is_ok (fst (job_atomic c (Handle p r) s))"
proof -
  have lk: "kr_lock (keyring_of c s) = ag_lock_passphrase s" "ag_lock_passphrase s = None \<longleftrightarrow> \<not> ag_locked s"
    using s by (auto simp: in_step_keyring [OF s] in_step_def agent_inv_def)
  have len: "length (ag_passphrase s) = 32" using s by (simp add: in_step_def)
  have rm: "is_ok (fst (remove_identity c pub s))" for pub
    using in_step_save [OF laws s] by (metis (no_types, lifting) fst_conv is_ok.simps(1) outcome.case(1) prod.case remove_identity_eval [OF len])
  have ra: "is_ok (fst (remove_all_identities c s))"
  proof -
    obtain w where "save_ssh_keys_to_file c (AesGcmCrypto (ag_passphrase s)) [] (ag_world s) = (Ok (), w)"
      by (rule in_step_save [OF laws s])
    then show ?thesis using len
      by (simp add: remove_all_identities_def aes_new_32 in_world_def io_attempt_def io_bind_def)
  qed
  have ad: "is_ok (fst (add_identity c cred s)) \<longleftrightarrow> \<not> ag_locked s \<and> acceptable c cred \<noteq> None" if "b" for cred
    using add_refused [of s c cred] add_accepted [OF laws, of s cred] s that by (cases "acceptable c cred") fastforce+
  have un: "is_ok (fst (unlock c pw s)) \<longleftrightarrow> ag_lock_passphrase s = Some (hash_lock_passphrase c pw)" for pw
    using lk(2) by (cases "ag_locked s") (auto simp: unlock_eval, simp add: unlock_def)
  have id: "is_ok (fst (request_identities c s))" using identities_answer [OF laws s] by auto
  have ex: "is_ok (fst (extension_op c p e s)) \<Longrightarrow> \<not> ag_locked s" for e by (auto simp: extension_op_def)
  have si: "is_ok (fst (sign_op c p q s)) \<Longrightarrow> keyring_allows c (ReqSign q) (keyring_of c s)" for q
    using sign_needs_key [OF s] by (metis is_ok_iff prod.collapse)
  note facts = ok_replies rm ra ad un id ex si lk lock_eval
  show "is_ok (fst (job_atomic c (Handle p r) s)) \<Longrightarrow> keyring_allows c r (keyring_of c s)"
    using r by (cases r) (auto simp: facts simp del: keyring_allows.simps(1) split: if_splits)
  show "keyring_allows c r (keyring_of c s) \<Longrightarrow> (\<forall>q. r \<noteq> ReqSign q) \<Longrightarrow> (\<forall>e. r \<noteq> ReqExtension e) \<Longrightarrow>
      is_ok (fst (job_atomic c (Handle p r) s))"
    using r by (cases r) (auto simp: facts)
qed

section \<open>From the start of the agent\<close>

lemma startup_in_step:
  assumes run: "run_ssh_agent_inner c pid pe mode sd dd K token pin w = (Ok s, v)"
    and w: "typed_disk c (AesGcmCrypto K) w" "file_works w"
  shows "\<exists>es. fst (load_ssh_keys_from_file c (AesGcmCrypto K) w) = Ok es \<and> in_step c b s \<and>
    keyring_of c s = \<lparr>kr_keys = map ke_fingerprint es, kr_lock = None\<rparr>"
proof -
  obtain ks h where h: "home w = Some h" and ks: "load_all_keys c K w = (Ok ks, w)"
    and s: "s = agent_new ks mode sd dd K token pin v" and f: "keeps_file (vt_file h ''ssh_keys.enc'') w v"
    using run by (rule startup_keeps_file)
  have view: "key_view w v" using f h by (simp add: key_view_def keeps_file_def keeps_store_def same_key_dir_def)
  have ks': "fst (load_all_keys c K w) = Ok ks" using ks by simp
  then obtain es where len: "length K = 32" and es: "fst (load_ssh_keys_from_file c (AesGcmCrypto K) w) = Ok es"
    by (auto simp: load_all_fst oc_bind_eq_Ok aes_new_eq_Ok)
  have sel: "ag_passphrase s = K" "ag_world s = v" "ag_keys s = ks" "\<not> ag_locked s" "\<not> ag_idle_cleared s"
    by (simp_all add: s agent_new_def)
  have st: "stored_keys c s = Ok es" using es key_view_load [OF view] by (simp add: stored_keys_def sel)
  then have a: "assumed_keys c s = es" by (simp add: assumed_keys_def)
  have t: "typed_agent c s" by (rule startup_typed [OF run w(1)])
  have "fst (load_all_keys c K v) = Ok ks" using ks' key_view_load [OF view] by (simp add: load_all_fst)
  then have "map fst ks = map ke_fingerprint es"
    using load_in_step [of c s] t st len by (simp add: sel a)
  moreover have "agent_inv s" using startup_fresh [OF run] by (rule agent_sys.start_inv)
  moreover have "file_works v" using w(2) key_view_works [OF view] by simp
  ultimately have "in_step c b s" using t st len by (simp add: in_step_def sel a)
  then show ?thesis using es a sel(4) by (auto simp: keyring_of_def)
qed

text \<open>
  C13. The agent is a keyring.  While the key file can be read and written, is not changed by other programs, and holds
  typed entries at the start, an agent run from its start through any requests of any sessions, waits, sweeps and
  changes of processes (idle sweeps only if no key is added in the run) is in step with an ordered set of
  fingerprints and a lock: the file and the lock are what the keyring says, the identities listed are its
  fingerprints, or none while locked, a request succeeds only if the keyring allows it, and always if it
  allows it and the request needs no consent.  Runs with an idle sweep and a key added are left out because there
  it does not hold: a key added while the others are cleared hides them.
\<close>

theorem agent_refines_keyring:
  assumes "storage_laws c" and "typed_disk c (AesGcmCrypto K) w" and "file_works w"
    and "run_ssh_agent_inner c pid pe mode sd dd K token pin w = (Ok s0, v)"
    and "list_all (ordinary awake) evs" and "s = agent_run c T s0 evs"
  shows "\<exists>es q. fst (load_ssh_keys_from_file c (AesGcmCrypto K) w) = Ok es \<and>
    q = foldl (keyring_event c) \<lparr>kr_keys = map ke_fingerprint es, kr_lock = None\<rparr> evs \<and> keyring_of c s = q \<and>
    (\<exists>ids. fst (request_identities c s) = Ok ids \<and>
       map (\<lambda>i. fingerprint_str c (id_pubkey i)) ids = (if kr_lock q = None then kr_keys q else [])) \<and>
    (\<forall>p r. ordinary awake (Request p r) \<longrightarrow>
       (is_ok (fst (job_atomic c (Handle p r) s)) \<longrightarrow> keyring_allows c r q) \<and>
       (keyring_allows c r q \<longrightarrow> (\<forall>sr. r \<noteq> ReqSign sr) \<longrightarrow> (\<forall>e. r \<noteq> ReqExtension e) \<longrightarrow>
          is_ok (fst (job_atomic c (Handle p r) s))))"
proof -
  obtain es where es: "fst (load_ssh_keys_from_file c (AesGcmCrypto K) w) = Ok es" and s0: "in_step c awake s0"
    and q0: "keyring_of c s0 = \<lparr>kr_keys = map ke_fingerprint es, kr_lock = None\<rparr>"
    using startup_in_step [OF assms(4,2,3)] by blast
  have s: "in_step c awake s"
    using agent_keyring.run_inv [OF assms(5)] assms(1) s0 unfolding assms(6) agent_run_def by blast
  have q: "keyring_of c s = foldl (keyring_event c) \<lparr>kr_keys = map ke_fingerprint es, kr_lock = None\<rparr> evs"
    using agent_keyring.run_spec [OF assms(5)] assms(1) s0 unfolding assms(6) agent_run_def q0 [symmetric] by blast
  have "kr_keys (keyring_of c s) = map ke_fingerprint (assumed_keys c s)" "kr_lock (keyring_of c s) = None \<longleftrightarrow> \<not> ag_locked s"
    using s by (auto simp: in_step_keyring [OF s] in_step_def agent_inv_def)
  then have "\<exists>ids. fst (request_identities c s) = Ok ids \<and> map (\<lambda>i. fingerprint_str c (id_pubkey i)) ids =
      (if kr_lock (keyring_of c s) = None then kr_keys (keyring_of c s) else [])"
    using identities_answer [OF assms(1) s] by (cases "ag_locked s") auto
  then show ?thesis using es q request_allowed [OF assms(1) s] by blast
qed

lemma codec_storage: "storage_laws codec_crates"
proof -
  have "seals codec_crates" using demo_laws(1) by (simp add: seals_def codec_crates_def)
  then show ?thesis
    by (simp add: storage_laws_def codec_crates_laws)
      (simp add: codec_crates_def demo_crates_def demo_ssh_keys_def rows_serde_def)
qed

theorem agent_refines_keyring_witness:
  "\<exists>s0 v ids. run_ssh_agent_inner codec_crates ''7'' True PerApp 300 60 (replicate 32 1) (replicate 32 2) ''1234''
       demo_world = (Ok s0, v) \<and>
     fst (request_identities codec_crates (agent_run codec_crates 60 s0
       [Request None (ReqAdd demo_credential), Request None (ReqLock ''pw''), Wait 5, Request None (ReqUnlock ''pw'')])) = Ok ids \<and>
     map (\<lambda>i. fingerprint_str codec_crates (id_pubkey i)) ids = [fingerprint_str codec_crates [7]]"
proof -
  let ?evs = "[Request None (ReqAdd demo_credential), Request None (ReqLock ''pw''), Wait 5, Request None (ReqUnlock ''pw'')]"
  have ld: "fst (load_ssh_keys_from_file codec_crates (AesGcmCrypto (replicate 32 1)) demo_world) = Ok []"
    by (simp add: load_ssh_keys_eval [of demo_world "''/h''"])
  then have "load_all_keys codec_crates (replicate 32 1) demo_world = (Ok [], demo_world)"
    using load_all_keys_state [of codec_crates "replicate 32 1" demo_world]
    by (metis aes_new_32 foldl_Nil length_replicate load_all_fst oc_bind_simps(1) prod.collapse)
  then obtain s0 v where run: "run_ssh_agent_inner codec_crates ''7'' True PerApp 300 60 (replicate 32 1)
      (replicate 32 2) ''1234'' demo_world = (Ok s0, v)"
    by (simp add: run_ssh_agent_inner_def socket_path_def io_eval_defs home_dir_def fs_exists_def create_dir_all_def)
  have w: "typed_disk codec_crates (AesGcmCrypto (replicate 32 1)) demo_world" "file_works demo_world"
    by (simp_all add: typed_disk_def typed_files_def vault_whole_def file_works_def)
  have fp: "acceptable codec_crates demo_credential = Some (fingerprint_str codec_crates [7])"
    by (simp add: acceptable_def demo_credential_def codec_crates_def demo_crates_def supported_key_def fingerprint_str_def)
  have "list_all (ordinary True) ?evs" by simp
  from agent_refines_keyring [OF codec_storage w run this refl, of 60] ld fp run show ?thesis
    by (auto simp: keyring_event_def)
qed

end
