(* ===== verification/Vt_Disk.thy ===== *)
theory Vt_Disk
  imports Vt_Keyring
begin

text \<open>
  What a full disk does to the stored keys.  \<open>save_ssh_keys_to_file\<close> of \<open>yk_backend.rs\<close> writes over the key
  file in place, with \<open>std::fs::write\<close>, which empties it first: when the writing is then cut off, the old
  keys are gone and the new ones are not there.
\<close>

text \<open>
  The disk takes fewer bytes of the key file than a nonce has; reading it and its directory work.
\<close>

definition full_disk :: "string \<Rightarrow> world \<Rightarrow> bool" where
  "full_disk h w \<longleftrightarrow> home w = Some h \<and> mkdir_err w (path_join h ''.vt-yubi'') = None \<and>
     read_err w (vt_file h ''ssh_keys.enc'') = None \<and>
     (\<exists>n e. write_err w (vt_file h ''ssh_keys.enc'') = Some (CutOff n e) \<and> n < 12)"

lemma sealed_longer: "aes_encrypt c a p w = (Ok ct, v) \<Longrightarrow> 12 \<le> length ct"
  by (auto simp: aes_encrypt_def generate_nonce_def fill_bytes_def io_bind_eq_Ok)

lemma save_cut:
  assumes "storage_laws c" and "full_disk h w" and "length K = 32"
  shows "\<exists>v bs. save_ssh_keys_to_file c (AesGcmCrypto K) es w = (Err (Msg ''Failed to write ssh_keys.enc''), v) \<and>
    same_env w v \<and> files v (vt_file h ''ssh_keys.enc'') = Some bs \<and> length bs < 12"
proof -
  let ?p = "vt_file h ''ssh_keys.enc''"
  obtain n e where h: "home w = Some h" "write_err w ?p = Some (CutOff n e)" "n < 12"
    "mkdir_err w (path_join h ''.vt-yubi'') = None" using assms(2) by (auto simp: full_disk_def)
  obtain j where j: "ser (js_ssh_keys c) es = Inr j" using assms(1) by (auto simp: storage_laws_def)
  obtain r u where u: "ensure_dir w = (r, u)" by fastforce
  have r: "r = Ok ()"
    using u h by (auto simp: ensure_dir_def path_defs io_eval_defs home_dir_def fs_exists_def create_dir_all_def split: if_splits)
  have "seals c" using assms(1) by (simp add: storage_laws_def)
  then obtain ct u' where en: "aes_encrypt c (AesGcmCrypto K) j u = (Ok ct, u')"
    using seals_aes assms(3) by blast
  have env: "same_env w u'"
    using withinD [OF same_env_ensure_dir u] withinD [OF aes_frames(1) en] by (rule env.frame_trans)
  then have "home u' = Some h" "write_err u' ?p = Some (CutOff n e)" using h by (simp_all add: same_env_def)
  then have "save_ssh_keys_to_file c (AesGcmCrypto K) es w = (Err (Msg ''Failed to write ssh_keys.enc''),
      u'\<lparr>files := (files u')(?p \<mapsto> take n ct)\<rparr>)"
    using u r j en sealed_longer [OF en] h(3)
    by (simp add: save_ssh_keys_to_file_def io_seq_def io_eval_defs paths_eval fs_write_def)
  moreover have "same_env w (u'\<lparr>files := (files u')(?p \<mapsto> take n ct)\<rparr>)"
    using env by (simp add: same_env_def)
  moreover have "length (take n ct) < 12" using h(3) by simp
  ultimately show ?thesis by (intro exI conjI) (assumption | simp)+
qed

text \<open>A key file that is shorter than a nonce cannot be opened.\<close>

lemma short_file_closed:
  assumes "home w = Some h" and "read_err w (vt_file h ''ssh_keys.enc'') = None"
    and "files w (vt_file h ''ssh_keys.enc'') = Some bs" and "length bs < 12"
  shows "fst (load_ssh_keys_from_file c a w) = Err (Msg ''Data too short, missing nonce'')"
  using assms by (simp add: load_ssh_keys_eval aes_decrypt_def ensure_def)

text \<open>
  C24. A disk that is full while a key is removed costs all keys.  The request reports success and forgets the one key in
  memory, but the key file can no longer be opened: with it no agent starts and no unlock brings the keys back, and
  the next key that is added, once there is space again, is then the only one in the file.
\<close>

theorem full_disk_loses_keys:
  assumes "storage_laws c" and "full_disk h (ag_world s)" and "length (ag_passphrase s) = 32"
  shows "\<exists>t. remove_identity c pub s = (Ok (), t) \<and>
    map_of (ag_keys t) = (map_of (ag_keys s))(fingerprint_str c pub := None) \<and>
    stored_keys c t = Err (Msg ''Data too short, missing nonce'') \<and>
    (\<forall>pid pe mode sd dd token pin.
       \<not> is_ok (fst (run_ssh_agent_inner c pid pe mode sd dd (ag_passphrase s) token pin (ag_world t)))) \<and>
    (\<forall>pw u v. lock c pw t = (Ok (), u) \<longrightarrow> unlock c pw u = (Ok (), v) \<longrightarrow> ag_keys v = []) \<and>
    (\<forall>k cm v. add_identity c (KeyCredential k cm) (t\<lparr>ag_world := (ag_world t)\<lparr>write_err := (\<lambda>p. None)\<rparr>\<rparr>) = (Ok (), v) \<longrightarrow>
       (\<exists>x. stored_keys c v = Ok [x] \<and> ke_comment x = cm))"
proof -
  let ?p = "vt_file h ''ssh_keys.enc''" and ?K = "ag_passphrase s" and ?short = "Err (Msg ''Data too short, missing nonce'')"
  obtain v bs where save: "save_ssh_keys_to_file c (AesGcmCrypto ?K)
      (filter (\<lambda>e. ke_fingerprint e \<noteq> fingerprint_str c pub) (assumed_keys c s)) (ag_world s) =
      (Err (Msg ''Failed to write ssh_keys.enc''), v)"
    and v: "same_env (ag_world s) v" "files v ?p = Some bs" "length bs < 12"
    using save_cut [OF assms] by blast
  obtain t where t_def: "t = s\<lparr>ag_world := v, ag_keys := AList.delete (fingerprint_str c pub) (ag_keys s)\<rparr>" by blast
  have sel: "ag_world t = v" "ag_passphrase t = ?K" by (simp_all add: t_def)
  have run: "remove_identity c pub s = (Ok (), t)"
    unfolding remove_identity_eval [OF assms(3)] save by (simp add: t_def)
  have w: "home v = Some h" "read_err v ?p = None"
    using assms(2) v(1) by (auto simp: full_disk_def same_env_def)
  note closed = short_file_closed [OF w v(2,3), of c]
  have stored: "stored_keys c t = ?short" by (simp add: stored_keys_def sel closed)
  have load: "fst (load_all_keys c ?K v) = ?short"
    by (simp add: load_all_fst aes_new_32 [OF assms(3)] closed)
  then obtain x where stuck: "load_all_keys c ?K v = (?short, x)" by (metis prod.collapse)
  have start: "\<not> is_ok (fst (run_ssh_agent_inner c pid pe mode sd dd ?K token pin (ag_world t)))"
    for pid pe mode sd dd token pin
    by (simp add: run_ssh_agent_inner_def sel io_bind_eval(2) [where m = "load_all_keys c ?K" and s = v, OF stuck])
  have unlocked: "ag_keys y = []" if "lock c pw t = (Ok (), u)" "unlock c pw u = (Ok (), y)" for pw u y
    using that load sel by (auto simp: lock_eval unlock_eval split: if_splits)
  have added: "\<exists>x. stored_keys c y = Ok [x] \<and> ke_comment x = cm"
    if "add_identity c (KeyCredential k cm) (t\<lparr>ag_world := (ag_world t)\<lparr>write_err := (\<lambda>p. None)\<rparr>\<rparr>) = (Ok (), y)" for k cm y
  proof -
    let ?r = "t\<lparr>ag_world := (ag_world t)\<lparr>write_err := (\<lambda>p. None)\<rparr>\<rparr>"
    have "fst (load_ssh_keys_from_file c (AesGcmCrypto ?K) (v\<lparr>write_err := (\<lambda>p. None)\<rparr>)) = ?short"
      using w v(2,3) by (intro short_file_closed) simp_all
    then have a: "assumed_keys c ?r = []" by (simp add: assumed_keys_def stored_keys_def sel)
    have "store_ok c ?r"
      using assms(1) w by (simp add: sel store_ok_def storage_laws_def key_laws_def keys_readable_def)
    then show ?thesis using add_identity_stores [OF _ that] a by (auto simp: entry_of_def)
  qed
  have "map_of (ag_keys t) = (map_of (ag_keys s))(fingerprint_str c pub := None)"
    by (simp add: t_def delete_conv')
  with run stored start unlocked added show ?thesis by blast
qed

theorem full_disk_loses_keys_witness:
  "\<exists>t. remove_identity codec_crates [8] (demo_agent\<lparr>ag_world := demo_world\<lparr>write_err := (\<lambda>p. Some (CutOff 0 ''No space left on device''))\<rparr>\<rparr>)
     = (Ok (), t) \<and> stored_keys codec_crates t = Err (Msg ''Data too short, missing nonce'')"
proof -
  let ?s = "demo_agent\<lparr>ag_world := demo_world\<lparr>write_err := (\<lambda>p. Some (CutOff 0 ''No space left on device''))\<rparr>\<rparr>"
  have "full_disk ''/h'' (ag_world ?s)" by (simp add: full_disk_def)
  from full_disk_loses_keys [OF codec_storage this, of "[8]"] show ?thesis by auto
qed

end
