(* ===== verification/Vt_Index_Race.thy ===== *)
theory Vt_Index_Race
  imports Vt_Commands
begin

text \<open>
  Several \<open>vt-yubi\<close> processes on one \<open>secrets.json\<close>.  \<open>create\<close> and \<open>delete\<close> read the index, change their copy and write
  it back, and nothing keeps two of them apart.
\<close>

section \<open>The two halves of a command\<close>

datatype index_job = AddJob string string secret_type | DeleteJob nat

text \<open>\<open>create\<close> takes an index that it cannot read for an empty one; \<open>delete\<close> does not.\<close>

fun load_part :: "crates \<Rightarrow> index_job \<Rightarrow> secret_entry list wio" where
  "load_part c (AddJob d vt ty) = io_or [] (load_secrets_index c)"
| "load_part c (DeleteJob n) = load_secrets_index c"

fun changed :: "index_job \<Rightarrow> world \<Rightarrow> secret_entry list \<Rightarrow> secret_entry list option" where
  "changed (AddJob d vt ty) w es = Some (es @
     [\<lparr>se_description = d, se_vt = vt, se_secret_type = secret_type_debug ty, se_created_at = local_time w\<rparr>])"
| "changed (DeleteJob n) w es = (if es = [] \<or> n = 0 \<or> n > length es then None else Some (remove_at (n - 1) es))"

lemma halves_make_command:
  "add_to_index c d vt ty = io_bind (load_part c (AddJob d vt ty)) (\<lambda>es. io_bind (io_get (\<lambda>w. changed (AddJob d vt ty) w es))
     (\<lambda>es'. save_secrets_index c (the es')))"
  "delete_secret c n = io_bind (load_part c (DeleteJob n)) (\<lambda>es. io_bind (io_get (\<lambda>w. changed (DeleteJob n) w es)) (\<lambda>es'. case es' of
       Some es' \<Rightarrow> io_seq (save_secrets_index c es')
         (println (''Deleted secret ['' @ show_nat n @ '']: '' @ se_description (es ! (n - 1))))
     | None \<Rightarrow> if es = [] then println ''No secrets stored.'' else io_fail (invalid_number n (length es))))"
  by (auto simp: add_to_index_def delete_secret_def io_bind_def Let_def fun_eq_iff split: outcome.split prod.split)

section \<open>Processes\<close>

text \<open>
  A process has loaded the index, has opened the file for writing (which empties it) with the bytes to write, or is done.
\<close>

datatype phase = Starting | Loaded "secret_entry list" | Writing string bytes | Finished

type_synonym processes = "world \<times> (nat \<Rightarrow> phase)"

definition file_bytes :: "world \<Rightarrow> string \<Rightarrow> bytes" where
  "file_bytes w path = (case files w path of None \<Rightarrow> [] | Some bs \<Rightarrow> bs)"

text \<open>
  With \<open>whole\<close> a save is one step, as elsewhere in this library; without, it is what \<open>std::fs::write\<close> does: the file is
  opened and emptied, and then the bytes are written from its start.
\<close>

inductive process_step :: "crates \<Rightarrow> bool \<Rightarrow> (nat \<Rightarrow> index_job) \<Rightarrow> processes \<Rightarrow> processes \<Rightarrow> bool"
  for c whole jobs where
  loads: "ps p = Starting \<Longrightarrow> load_part c (jobs p) w = (Ok es, v) \<Longrightarrow>
    process_step c whole jobs (w, ps) (v, ps(p := Loaded es))"
| saves: "whole \<Longrightarrow> ps p = Loaded es \<Longrightarrow> changed (jobs p) w es = Some es' \<Longrightarrow> save_secrets_index c es' w = (Ok (), v) \<Longrightarrow>
    process_step c whole jobs (w, ps) (v, ps(p := Finished))"
| empties: "\<not> whole \<Longrightarrow> ps p = Loaded es \<Longrightarrow> changed (jobs p) w es = Some es' \<Longrightarrow> save_secrets_index c es' w = (Ok (), v) \<Longrightarrow>
    secrets_index_path w = (Ok path, w) \<Longrightarrow> files v path = Some data \<Longrightarrow>
    process_step c whole jobs (w, ps) (v\<lparr>files := (files v)(path \<mapsto> [])\<rparr>, ps(p := Writing path data))"
| writes: "ps p = Writing path data \<Longrightarrow>
    process_step c whole jobs (w, ps)
      (w\<lparr>files := (files w)(path \<mapsto> data @ drop (length data) (file_bytes w path))\<rparr>, ps(p := Finished))"

inductive_cases process_stepE: "process_step c whole jobs (w, ps) z"

definition runs_to :: "crates \<Rightarrow> bool \<Rightarrow> (nat \<Rightarrow> index_job) \<Rightarrow> world \<Rightarrow> processes \<Rightarrow> bool" where
  "runs_to c whole jobs w z \<longleftrightarrow> (process_step c whole jobs)\<^sup>*\<^sup>* (w, \<lambda>_. Starting) z"

fun made_by :: "index_job \<Rightarrow> secret_entry \<Rightarrow> bool" where
  "made_by (AddJob d vt ty) e \<longleftrightarrow> se_description e = d \<and> se_vt e = vt \<and> se_secret_type e = secret_type_debug ty"
| "made_by (DeleteJob n) e \<longleftrightarrow> False"

section \<open>What one step does to the index\<close>

lemma load_part_state: "load_part c j w = (r, v) \<Longrightarrow> v = w"
  by (cases j) (auto simp: io_or_def load_index split: outcome.splits)

lemma load_part_add:
  "load_part c (AddJob d vt ty) w = (Ok (index_or_empty c w), w)"
  using load_index_no_panic [of c w]
  by (cases "index_entries c w") (auto simp: io_or_def load_index index_or_empty_def)

lemma saved_index:
  assumes "index_laws c" and "index_readable w" and "save_secrets_index c es w = (Ok (), v)"
  shows "index_entries c v = Ok es" and "index_readable v"
proof -
  have "load_secrets_index c v = (Ok es, v)"
    using assms(1) by (intro secret_index.load_after_save [OF _ assms(2,3)]) (simp add: index_laws_def)
  then show "index_entries c v = Ok es" by (simp add: index_entries_def)
  show "index_readable v" using assms(3) by (rule save_index_OkE) (use assms(2) in \<open>auto simp: index_readable_def\<close>)
qed

text \<open>An index made of the old entries and one for each of some finished processes.\<close>

definition grown :: "(nat \<Rightarrow> index_job) \<Rightarrow> (nat \<Rightarrow> phase) \<Rightarrow> secret_entry list \<Rightarrow> secret_entry list \<Rightarrow> bool" where
  "grown jobs ps es0 es \<longleftrightarrow>
     (\<exists>qs new. es = es0 @ new \<and> list_all2 (\<lambda>q. made_by (jobs q)) qs new \<and> distinct qs \<and> (\<forall>q \<in> set qs. ps q = Finished))"

lemma grown_later: "grown jobs ps es0 es \<Longrightarrow> ps p \<noteq> Finished \<Longrightarrow> grown jobs (ps(p := x)) es0 es"
  unfolding grown_def by (metis fun_upd_other)

lemma grown_more:
  assumes "grown jobs ps es0 es" and "ps p \<noteq> Finished" and "made_by (jobs p) e"
  shows "grown jobs (ps(p := Finished)) es0 (es @ [e])"
proof -
  obtain qs new where q: "es = es0 @ new" "list_all2 (\<lambda>q. made_by (jobs q)) qs new" "distinct qs" "\<forall>q \<in> set qs. ps q = Finished"
    using assms(1) by (auto simp: grown_def)
  show ?thesis
    unfolding grown_def
    by (rule exI [of _ "qs @ [p]"], rule exI [of _ "new @ [e]"])
      (use q assms(2,3) in \<open>auto simp: list_all2_appendI\<close>)
qed

text \<open>The index has grown, and so has every copy of it; nobody is in the middle of a write.\<close>

definition sound :: "crates \<Rightarrow> (nat \<Rightarrow> index_job) \<Rightarrow> secret_entry list \<Rightarrow> processes \<Rightarrow> bool" where
  "sound c jobs es0 z \<longleftrightarrow> (case z of (w, ps) \<Rightarrow>
     index_readable w \<and> (\<exists>es. index_entries c w = Ok es \<and> grown jobs ps es0 es) \<and>
     (\<forall>p es. ps p = Loaded es \<longrightarrow> grown jobs ps es0 es) \<and> (\<forall>p path data. ps p \<noteq> Writing path data))"

lemma soundI:
  "index_readable w \<Longrightarrow> index_entries c w = Ok x \<Longrightarrow> grown jobs ps es0 x \<Longrightarrow>
    (\<And>p es. ps p = Loaded es \<Longrightarrow> grown jobs ps es0 es) \<Longrightarrow> (\<And>p path data. ps p \<noteq> Writing path data) \<Longrightarrow>
    sound c jobs es0 (w, ps)"
  by (auto simp: sound_def)

lemma sound_step:
  assumes "index_laws c" and jobs: "\<forall>p. \<exists>d vt ty. jobs p = AddJob d vt ty"
    and "sound c jobs es0 y" and "process_step c True jobs y z"
  shows "sound c jobs es0 z"
proof -
  obtain w ps where y: "y = (w, ps)" by fastforce
  obtain x where rd: "index_readable w" and now: "index_entries c w = Ok x" "grown jobs ps es0 x"
    and loaded: "\<And>p es. ps p = Loaded es \<Longrightarrow> grown jobs ps es0 es" and quiet: "\<And>p path data. ps p \<noteq> Writing path data"
    using assms(3) by (auto simp: y sound_def)
  from assms(4) [unfolded y] show ?thesis
  proof (rule process_stepE)
    fix p es v
    assume p: "ps p = Starting" and l: "load_part c (jobs p) w = (Ok es, v)" and z: "z = (v, ps(p := Loaded es))"
    have v: "es = index_or_empty c w" "v = w"
      using l jobs load_part_add by (metis fst_conv outcome.inject(1) prod.inject)+
    with now have es: "grown jobs ps es0 es" by (simp add: index_or_empty_def)
    have later: "grown jobs (ps(p := Loaded es)) es0 y" if "grown jobs ps es0 y" for y
      by (rule grown_later [OF that]) (simp add: p)
    show ?thesis
      unfolding z v(2)
    proof (rule soundI [OF rd now(1) later [OF now(2)]])
      fix q y
      assume "(ps(p := Loaded es)) q = Loaded y"
      then have "y = es \<or> ps q = Loaded y" by (cases "q = p") simp_all
      with es loaded later show "grown jobs (ps(p := Loaded es)) es0 y" by blast
    next
      show "(ps(p := Loaded es)) q \<noteq> Writing path data" for q path data using quiet by (cases "q = p") simp_all
    qed
  next
    fix p es es' v
    assume p: "ps p = Loaded es" and ch: "changed (jobs p) w es = Some es'" and sv: "save_secrets_index c es' w = (Ok (), v)"
      and z: "z = (v, ps(p := Finished))"
    obtain e where e: "es' = es @ [e]" "made_by (jobs p) e" using ch jobs [rule_format, of p] by auto
    have g: "grown jobs (ps(p := Finished)) es0 es'"
      unfolding e(1) by (rule grown_more [OF loaded [OF p]]) (simp_all add: p e(2))
    show ?thesis
      unfolding z
    proof (rule soundI [OF saved_index(2,1) [OF assms(1) rd sv] g])
      fix q y
      assume "(ps(p := Finished)) q = Loaded y"
      then have "ps q = Loaded y" by (cases "q = p") simp_all
      then show "grown jobs (ps(p := Finished)) es0 y" by (rule grown_later [OF loaded]) (simp add: p)
    next
      show "(ps(p := Finished)) q \<noteq> Writing path data" for q path data using quiet by (cases "q = p") simp_all
    qed
  qed (use quiet in auto)
qed

text \<open>
  With saves in one step, simultaneous \<open>create\<close> commands never lose an entry that was there: in every state that any
  number of them reaches in any order, the index holds the old entries, in order, and after them entries of commands that
  have finished, one for each.
\<close>

theorem creates_keep_entries:
  assumes "index_laws c" and "index_readable w0" and "index_entries c w0 = Ok es0"
    and "\<forall>p. \<exists>d vt ty. jobs p = AddJob d vt ty" and "runs_to c True jobs w0 (w, ps)"
  shows "\<exists>es. index_entries c w = Ok es \<and> grown jobs ps es0 es"
proof -
  have "sound c jobs es0 z" if "(process_step c True jobs)\<^sup>*\<^sup>* (w0, \<lambda>_. Starting) z" for z
    using that
  proof (induction rule: rtranclp_induct)
    case base
    have "grown jobs (\<lambda>_. Starting) es0 es0" by (simp add: grown_def)
    with assms(2,3) show ?case by (auto intro: soundI)
  next
    case (step y z)
    then show ?case using sound_step [OF assms(1,4)] by blast
  qed
  from this [OF assms(5) [unfolded runs_to_def]] show ?thesis by (simp add: sound_def)
qed

section \<open>What goes wrong\<close>

text \<open>The index can be written, whatever is in it.\<close>

definition index_writable :: "crates \<Rightarrow> world \<Rightarrow> bool" where
  "index_writable c w \<longleftrightarrow> (\<exists>h. home w = Some h \<and> write_err w (vt_file h ''secrets.json'') = None \<and>
     mkdir_err w (path_join h ''.vt-yubi'') = None) \<and> (\<forall>es. \<exists>data. ser (js_secrets c) es = Inr data)"

text \<open>The index file is the only thing in which two worlds differ.\<close>

definition index_only :: "world \<Rightarrow> world \<Rightarrow> bool" where
  "index_only w v \<longleftrightarrow> home v = home w \<and> write_err v = write_err w \<and> mkdir_err v = mkdir_err w \<and> read_err v = read_err w"

lemma writable_cong: "index_only w v \<Longrightarrow> index_writable c v = index_writable c w" "index_only w v \<Longrightarrow> index_readable v = index_readable w"
  by (simp_all add: index_only_def index_writable_def index_readable_def)

lemma save_runs:
  assumes "index_writable c w" and "home w = Some h"
  shows "\<exists>data. ser (js_secrets c) es = Inr data \<and>
    save_secrets_index c es w = (Ok (), w\<lparr>dirs := insert (path_join h ''.vt-yubi'') (dirs w),
      files := (files w)(vt_file h ''secrets.json'' \<mapsto> data)\<rparr>)"
proof -
  obtain data where d: "ser (js_secrets c) es = Inr data" using assms(1) by (auto simp: index_writable_def)
  with assms show ?thesis
    by (auto simp: index_writable_def save_secrets_index_def index_path_eval path_defs home_dir_def io_eval_defs
        create_dir_all_def fs_write_def)
qed

abbreviation index_file :: "string \<Rightarrow> string" where
  "index_file h \<equiv> vt_file h ''secrets.json''"

text \<open>The index file holds these bytes, and the directory is there.\<close>

definition with_index :: "string \<Rightarrow> bytes \<Rightarrow> world \<Rightarrow> world" where
  "with_index h bs w = w\<lparr>dirs := insert (path_join h ''.vt-yubi'') (dirs w), files := (files w)(index_file h \<mapsto> bs)\<rparr>"

lemma with_index_sel [simp]:
  "home (with_index h bs w) = home w" "read_err (with_index h bs w) = read_err w"
  "files (with_index h bs w) (index_file h) = Some bs" "with_index h bs (with_index h cs w) = with_index h bs w"
  "index_writable c (with_index h bs w) = index_writable c w" "index_readable (with_index h bs w) = index_readable w"
  by (simp_all add: with_index_def index_writable_def index_readable_def)

lemma empties_step:
  assumes "index_writable c w" and "home w = Some h" and "ps p = Loaded es" and "changed (jobs p) w es = Some es'"
  shows "\<exists>data. ser (js_secrets c) es' = Inr data \<and>
    process_step c False jobs (w, ps) (with_index h [] w, ps(p := Writing (index_file h) data))"
proof -
  obtain data where d: "ser (js_secrets c) es' = Inr data" "save_secrets_index c es' w = (Ok (), with_index h data w)"
    using save_runs [OF assms(1,2)] by (auto simp: with_index_def)
  have "process_step c False jobs (w, ps) ((with_index h data w)\<lparr>files := (files (with_index h data w))(index_file h \<mapsto> [])\<rparr>,
    ps(p := Writing (index_file h) data))"
    by (rule process_step.empties [where es = es and es' = es' and v = "with_index h data w"])
      (simp_all add: assms(3,4) d(2) index_path_eval [OF assms(2)])
  then show ?thesis using d(1) by (auto simp: with_index_def)
qed

lemma writes_step:
  assumes "ps p = Writing (index_file h) data"
  shows "process_step c whole jobs (with_index h [] w, ps) (with_index h data w, ps(p := Finished))"
  using process_step.writes [of ps p "index_file h" data c whole jobs "with_index h [] w", OF assms]
  by (simp add: file_bytes_def) (simp add: with_index_def)

lemma loads_step:
  assumes "ps p = Starting" and "load_part c (jobs p) w = (Ok es, w)"
  shows "process_step c whole jobs (w, ps) (w, ps(p := Loaded es))"
  by (rule process_step.loads) (rule assms)+

lemma with_index_entries:
  assumes "index_laws c" and "index_readable w" and "home w = Some h" and "ser (js_secrets c) es = Inr data"
  shows "index_entries c (with_index h data w) = Ok es"
proof -
  have "from_utf8 data = Some (of_bytes data)" "de (js_secrets c) data = Inr es"
    using assms(1,4) by (auto simp: index_laws_def index_text_ok_def from_utf8_def dest: serde_okD)
  then show ?thesis
    using assms(2,3) by (simp add: index_entries_def load_index_eval [of "with_index h data w" h] index_readable_def)
qed

lemma empty_index: "home w = Some h \<Longrightarrow> de (js_secrets c) [] = Inl e \<Longrightarrow> index_or_empty c (with_index h [] w) = []"
  by (auto simp: index_or_empty_def index_entries_def load_index_eval [of "with_index h [] w" h] from_utf8_def of_bytes_def as_bytes_def
      split: option.split)

text \<open>
  C23. Two \<open>create\<close> commands at the same time can wipe out the index: if one reads it just when the other has opened it for
  writing, it finds an empty file, takes it for an empty index (\<open>unwrap_or_default\<close>), and writes back its own entry alone.
  Both commands succeed, and every older entry and the one of the other command are gone.
\<close>

theorem creates_can_wipe_index:
  assumes "index_laws c" and "index_readable w0" and "index_writable c w0" and "index_entries c w0 = Ok es0"
    and "de (js_secrets c) [] = Inl err"
    and "p \<noteq> q" and "jobs p = AddJob d1 vt1 ty1" and "jobs q = AddJob d2 vt2 ty2"
  shows "\<exists>w ps e. runs_to c False jobs w0 (w, ps) \<and> ps p = Finished \<and> ps q = Finished \<and> made_by (jobs q) e \<and>
    index_entries c w = Ok [e]"
proof -
  obtain h where h: "home w0 = Some h" using assms(2) by (auto simp: index_readable_def)
  let ?e = "\<lambda>d vt ty. \<lparr>se_description = d, se_vt = vt, se_secret_type = secret_type_debug ty, se_created_at = local_time w0\<rparr>"
  have t: "local_time (with_index h bs w) = local_time w" for bs w by (simp add: with_index_def)
  define ps1 where "ps1 = (\<lambda>_. Starting)(p := Loaded es0)"
  have s1: "process_step c False jobs (w0, \<lambda>_. Starting) (w0, ps1)"
    unfolding ps1_def by (rule loads_step) (use load_part_add [of c] assms(4,7) in \<open>simp_all add: index_or_empty_def\<close>)
  obtain data1 where s2: "process_step c False jobs (w0, ps1) (with_index h [] w0, ps1(p := Writing (index_file h) data1))"
    using empties_step [OF assms(3) h, of ps1 p es0 jobs] by (auto simp: ps1_def assms(7))
  define ps2 where "ps2 = ps1(p := Writing (index_file h) data1)"
  define ps3 where "ps3 = ps2(q := Loaded [])"
  have s3: "process_step c False jobs (with_index h [] w0, ps2) (with_index h [] w0, ps3)"
    unfolding ps3_def
    by (rule loads_step) (use assms(6,8) load_part_add [of c] empty_index [OF h assms(5)] in \<open>simp_all add: ps2_def ps1_def\<close>)
  have s4: "process_step c False jobs (with_index h [] w0, ps3) (with_index h data1 w0, ps3(p := Finished))"
    by (rule writes_step) (use assms(6) in \<open>simp add: ps3_def ps2_def\<close>)
  define ps4 where "ps4 = ps3(p := Finished)"
  obtain data2 where d2: "ser (js_secrets c) [?e d2 vt2 ty2] = Inr data2"
    and s5: "process_step c False jobs (with_index h data1 w0, ps4) (with_index h [] w0, ps4(q := Writing (index_file h) data2))"
    using empties_step [of c "with_index h data1 w0" h ps4 q "[]" jobs] assms(3,6,8) h by (auto simp: ps4_def ps3_def t)
  have s6: "process_step c False jobs (with_index h [] w0, ps4(q := Writing (index_file h) data2))
      (with_index h data2 w0, ps4(q := Finished))"
    using writes_step [of "ps4(q := Writing (index_file h) data2)" q h data2 c False jobs w0] by simp
  have "runs_to c False jobs w0 (with_index h data2 w0, ps4(q := Finished))"
    unfolding runs_to_def using s1 s2 s3 s4 s5 s6 unfolding ps2_def [symmetric] ps4_def [symmetric]
    by (meson converse_rtranclp_into_rtranclp rtranclp.rtrancl_refl)
  moreover have "(ps4(q := Finished)) p = Finished" using assms(6) by (simp add: ps4_def)
  moreover have "index_entries c (with_index h data2 w0) = Ok [?e d2 vt2 ty2]"
    by (rule with_index_entries [OF assms(1,2) h d2])
  moreover have "made_by (jobs q) (?e d2 vt2 ty2)" by (simp add: assms(8))
  ultimately show ?thesis by (intro exI conjI) (assumption | simp)+
qed

text \<open>
  A deletion can be undone in the same way without any failed read: a \<open>create\<close> that has read the index before
  \<open>delete n\<close> is through writes the deleted secret back after \<open>delete\<close> has said that it is gone.
\<close>

theorem create_undoes_delete:
  assumes "index_laws c" and "index_readable w0" and "index_writable c w0" and "index_entries c w0 = Ok es0"
    and "p \<noteq> q" and "jobs p = DeleteJob n" and "1 \<le> n" and "n \<le> length es0" and "jobs q = AddJob d vt ty"
  shows "\<exists>w ps e. runs_to c False jobs w0 (w, ps) \<and> ps p = Finished \<and> ps q = Finished \<and> made_by (jobs q) e \<and>
    index_entries c w = Ok (es0 @ [e])"
proof -
  obtain h where h: "home w0 = Some h" using assms(2) by (auto simp: index_readable_def)
  let ?e = "\<lparr>se_description = d, se_vt = vt, se_secret_type = secret_type_debug ty, se_created_at = local_time w0\<rparr>"
  have t: "local_time (with_index h bs w) = local_time w" for bs w by (simp add: with_index_def)
  have ne: "es0 \<noteq> []" using assms(7,8) by auto
  define ps1 where "ps1 = (\<lambda>_. Starting)(q := Loaded es0)"
  have s1: "process_step c False jobs (w0, \<lambda>_. Starting) (w0, ps1)"
    unfolding ps1_def by (rule loads_step) (use load_part_add [of c] assms(4,9) in \<open>simp_all add: index_or_empty_def\<close>)
  define ps2 where "ps2 = ps1(p := Loaded es0)"
  have s2: "process_step c False jobs (w0, ps1) (w0, ps2)"
    unfolding ps2_def by (rule loads_step) (use assms(4-6) in \<open>simp_all add: ps1_def load_index\<close>)
  obtain data1 where s3: "process_step c False jobs (w0, ps2) (with_index h [] w0, ps2(p := Writing (index_file h) data1))"
    using empties_step [OF assms(3) h, of ps2 p es0 jobs] assms(6-8) ne by (auto simp: ps2_def)
  define ps3 where "ps3 = ps2(p := Finished)"
  have s4: "process_step c False jobs (with_index h [] w0, ps2(p := Writing (index_file h) data1)) (with_index h data1 w0, ps3)"
    using writes_step [of "ps2(p := Writing (index_file h) data1)" p h data1 c False jobs w0] by (simp add: ps3_def)
  obtain data2 where d2: "ser (js_secrets c) (es0 @ [?e]) = Inr data2"
    and s5: "process_step c False jobs (with_index h data1 w0, ps3) (with_index h [] w0, ps3(q := Writing (index_file h) data2))"
    using empties_step [of c "with_index h data1 w0" h ps3 q es0 jobs] assms(3,5,9) h
    by (auto simp: ps3_def ps2_def ps1_def t)
  have s6: "process_step c False jobs (with_index h [] w0, ps3(q := Writing (index_file h) data2))
      (with_index h data2 w0, ps3(q := Finished))"
    using writes_step [of "ps3(q := Writing (index_file h) data2)" q h data2 c False jobs w0] by simp
  have "runs_to c False jobs w0 (with_index h data2 w0, ps3(q := Finished))"
    unfolding runs_to_def using s1 s2 s3 s4 s5 s6 by (meson converse_rtranclp_into_rtranclp rtranclp.rtrancl_refl)
  moreover have "(ps3(q := Finished)) p = Finished" using assms(5) by (simp add: ps3_def)
  moreover have "index_entries c (with_index h data2 w0) = Ok (es0 @ [?e])"
    by (rule with_index_entries [OF assms(1,2) h d2])
  moreover have "made_by (jobs q) ?e" by (simp add: assms(9))
  ultimately show ?thesis by (intro exI conjI) (assumption | simp)+
qed

section \<open>Demonstrations\<close>

definition demo_old_entry :: secret_entry where
  "demo_old_entry = \<lparr>se_description = ''old'', se_vt = ''vt://x'', se_secret_type = ''RAW'', se_created_at = ''t''\<rparr>"

definition demo_indexed :: world where
  "demo_indexed = with_index ''/h'' (the_ser demo_secrets [demo_old_entry]) demo_world"

lemma demo_secrets_total: "ser demo_secrets es = Inr (the_ser demo_secrets es)"
  by (simp add: the_ser_def demo_secrets_def text_serde_def rows_serde_def row_serde_def)

lemma demo_indexed_ok:
  "index_readable demo_indexed" "index_writable demo_crates demo_indexed" "index_entries demo_crates demo_indexed = Ok [demo_old_entry]"
proof -
  have w: "index_readable demo_world" "index_writable demo_crates demo_world" "home demo_world = Some ''/h''"
    using demo_secrets_total by (auto simp: index_readable_def index_writable_def demo_crates_def)
  then show "index_readable demo_indexed" "index_writable demo_crates demo_indexed" by (simp_all add: demo_indexed_def)
  show "index_entries demo_crates demo_indexed = Ok [demo_old_entry]"
    unfolding demo_indexed_def
    by (rule with_index_entries [OF demo_index_laws w(1,3)]) (simp add: demo_crates_def demo_secrets_total)
qed

theorem creates_can_wipe_index_witness:
  "\<exists>w ps e. runs_to demo_crates False (\<lambda>p. AddJob (show_nat p) ''vt'' RAW) demo_indexed (w, ps) \<and>
     index_entries demo_crates demo_indexed = Ok [demo_old_entry] \<and> ps 1 = Finished \<and> ps 2 = Finished \<and>
     se_description e = show_nat 2 \<and> index_entries demo_crates w = Ok [e]"
proof -
  have "de demo_secrets [] = Inl ''expected value''"
    by (simp add: demo_secrets_def text_serde_def rows_serde_def row_serde_def)
  then have "de (js_secrets demo_crates) [] = Inl ''expected value''" by (simp add: demo_crates_def)
  from creates_can_wipe_index [OF demo_index_laws demo_indexed_ok this, of 1 2 "\<lambda>p. AddJob (show_nat p) ''vt'' RAW"]
  show ?thesis using demo_indexed_ok(3) by fastforce
qed

theorem creates_keep_entries_witness:
  "\<exists>w ps e. runs_to demo_crates True (\<lambda>p. AddJob (show_nat p) ''vt'' RAW) demo_indexed (w, ps) \<and> ps 1 = Finished \<and>
     index_entries demo_crates w = Ok (demo_old_entry # e) \<and> grown (\<lambda>p. AddJob (show_nat p) ''vt'' RAW) ps [demo_old_entry] (demo_old_entry # e)"
proof -
  let ?j = "\<lambda>p. AddJob (show_nat p) ''vt'' RAW"
  let ?ps = "(\<lambda>_. Starting)(1 := Loaded [demo_old_entry])"
  have "home demo_indexed = Some ''/h''" by (simp add: demo_indexed_def)
  moreover obtain es' where ch: "changed (?j 1) demo_indexed [demo_old_entry] = Some es'" by simp
  ultimately obtain v where sv: "save_secrets_index demo_crates es' demo_indexed = (Ok (), v)"
    using save_runs [OF demo_indexed_ok(2)] by blast
  have "load_part demo_crates (?j 1) demo_indexed = (Ok [demo_old_entry], demo_indexed)"
    using load_part_add [of demo_crates] demo_indexed_ok(3) by (simp add: index_or_empty_def)
  then have "process_step demo_crates True ?j (demo_indexed, \<lambda>_. Starting) (demo_indexed, ?ps)" by (rule loads_step [OF refl])
  moreover have "process_step demo_crates True ?j (demo_indexed, ?ps) (v, ?ps(1 := Finished))"
    by (rule process_step.saves [where es = "[demo_old_entry]" and es' = es']) (use ch sv in simp_all)
  ultimately have run: "runs_to demo_crates True ?j demo_indexed (v, ?ps(1 := Finished))"
    unfolding runs_to_def by (meson converse_rtranclp_into_rtranclp rtranclp.rtrancl_refl)
  from creates_keep_entries [OF demo_index_laws demo_indexed_ok(1,3) _ run]
  obtain es where es: "index_entries demo_crates v = Ok es" "grown ?j (?ps(1 := Finished)) [demo_old_entry] es" by auto
  then obtain e where "es = demo_old_entry # e" by (auto simp: grown_def)
  with es run show ?thesis by (intro exI [of _ v] exI [of _ "?ps(1 := Finished)"] exI [of _ e]) simp
qed

end
