(* ===== verification/Vt_Lifetime.thy ===== *)
theory Vt_Lifetime
  imports Vt_Keyring
begin

text \<open>
  The agent's socket over the lives of several agent processes on one machine: binding it, and removing it when a
  signal arrives or the listener ends.  Every agent of a user has the same socket path.
\<close>

section \<open>Listening and leaving\<close>

definition bind_listener :: "string \<Rightarrow> unit wio" where
  "bind_listener p = io_bind (fs_exists p) (\<lambda>ex.
     if ex then io_fail (Msg ''Address already in use (os error 98)'') else fs_write p [])"

definition agent_listens ::
  "crates \<Rightarrow> string \<Rightarrow> bool \<Rightarrow> auth_cache_mode \<Rightarrow> u64 \<Rightarrow> u64 \<Rightarrow> bytes \<Rightarrow> bytes \<Rightarrow> string \<Rightarrow> agent wio" where
  "agent_listens c pid print_env mode sign_secs decrypt_secs passphrase auth_token pin =
     io_bind (run_ssh_agent_inner c pid print_env mode sign_secs decrypt_secs passphrase auth_token pin) (\<lambda>agent.
     io_bind socket_path (\<lambda>sock.
     io_seq (bind_listener sock) (io_ret agent)))"

text \<open>What the signal handler does before it exits, and what follows a listener that ends without an error.\<close>

definition remove_socket :: "unit wio" where
  "remove_socket = io_bind socket_path (\<lambda>sock. io_bind (io_attempt (fs_remove sock)) (\<lambda>_. io_ret ()))"

section \<open>A machine\<close>

text \<open>
  The processes are named by their ids; \<open>ho_bound\<close> is the process whose listener the socket file belongs to.
\<close>

record host =
  ho_world :: world
  ho_bound :: "nat option"
  ho_alive :: "nat set"

text \<open>A listener ends with or without an error; a crash is any end that runs no code of the program.\<close>

datatype life_event = Launch nat | Signalled nat | ListenEnds nat bool | Crashed nat

fun life_step :: "(nat \<Rightarrow> agent wio) \<Rightarrow> host \<Rightarrow> life_event \<Rightarrow> host" where
  "life_step start h (Launch p) =
     (if p \<in> ho_alive h then h
      else case start p (ho_world h) of
          (Ok agent, w) \<Rightarrow> h\<lparr>ho_world := w, ho_bound := Some p, ho_alive := insert p (ho_alive h)\<rparr>
        | (_, w) \<Rightarrow> h\<lparr>ho_world := w\<rparr>)"
| "life_step start h (Signalled p) =
     (if p \<in> ho_alive h then h\<lparr>ho_world := snd (remove_socket (ho_world h)), ho_alive := ho_alive h - {p}\<rparr> else h)"
| "life_step start h (ListenEnds p ok) =
     (if p \<in> ho_alive h
      then h\<lparr>ho_world := (if ok then snd (remove_socket (ho_world h)) else ho_world h), ho_alive := ho_alive h - {p}\<rparr>
      else h)"
| "life_step start h (Crashed p) = h\<lparr>ho_alive := ho_alive h - {p}\<rparr>"

text \<open>The process that accepts a connection to the socket path.\<close>

definition reached :: "host \<Rightarrow> nat option" where
  "reached h = (case fst (socket_path (ho_world h)) of
     Ok sock \<Rightarrow>
       if files (ho_world h) sock = None then None
       else (case ho_bound h of Some p \<Rightarrow> if p \<in> ho_alive h then Some p else None | None \<Rightarrow> None)
   | _ \<Rightarrow> None)"

section \<open>Who is reached\<close>

text \<open>The specification knows no files: the last one launched takes over, and any orderly end cuts everybody off.\<close>

fun life_spec :: "nat set \<times> nat option \<Rightarrow> life_event \<Rightarrow> nat set \<times> nat option" where
  "life_spec (A, r) (Launch p) = (if p \<in> A then (A, r) else (insert p A, Some p))"
| "life_spec (A, r) (Signalled p) = (if p \<in> A then (A - {p}, None) else (A, r))"
| "life_spec (A, r) (ListenEnds p ok) =
     (if p \<in> A then (A - {p}, if ok \<or> r = Some p then None else r) else (A, r))"
| "life_spec (A, r) (Crashed p) = (A - {p}, if r = Some p then None else r)"

definition life_abs :: "host \<Rightarrow> nat set \<times> nat option" where
  "life_abs h = (ho_alive h, reached h)"

definition sock_file :: "string \<Rightarrow> string" where
  "sock_file h = path_join (path_join h ''.ssh'') ''vt-yubi.sock''"

text \<open>The key file loads under the passphrase, and the socket path can be written.\<close>

definition startable :: "crates \<Rightarrow> bytes \<Rightarrow> world \<Rightarrow> bool" where
  "startable c K w \<longleftrightarrow> (\<exists>ks. fst (load_all_keys c K w) = Ok ks) \<and>
     (\<exists>h. home w = Some h \<and> write_err w (sock_file h) = None \<and> mkdir_err w (path_join h ''.ssh'') = None \<and>
        sock_file h \<notin> dirs w)"

text \<open>Only the socket and its directory may differ.\<close>

definition socket_only :: "world \<Rightarrow> world \<Rightarrow> bool" where
  "socket_only w v \<longleftrightarrow> home v = home w \<and> read_err v = read_err w \<and> write_err v = write_err w \<and> mkdir_err v = mkdir_err w \<and>
     (\<forall>h. home w = Some h \<longrightarrow>
       (\<forall>p. p \<noteq> sock_file h \<longrightarrow> files v p = files w p) \<and> (\<forall>p. p \<noteq> path_join h ''.ssh'' \<longrightarrow> (p \<in> dirs v \<longleftrightarrow> p \<in> dirs w)))"

lemma sock_paths: "sock_file h \<noteq> path_join h ''.ssh''" "vt_file h' ''ssh_keys.enc'' \<noteq> sock_file h"
  "vt_file h' ''ssh_keys.enc'' \<noteq> path_join h ''.ssh''"
  by (auto simp: sock_file_def path_join_def dest: arg_cong [of _ _ last])

lemma socket_only_startable:
  assumes "socket_only w v" and "startable c K w"
  shows "startable c K v"
proof -
  have "key_view w v"
    using assms sock_paths by (auto simp: socket_only_def startable_def key_view_def keeps_store_def same_key_dir_def)
  then have "fst (load_all_keys c K v) = fst (load_all_keys c K w)"
    using key_view_load [of w v] by (simp add: load_all_fst)
  then show ?thesis using assms sock_paths by (auto simp: startable_def socket_only_def)
qed

lemma socket_path_eval: "home w = Some h \<Longrightarrow> socket_path w = (Ok (sock_file h), w)"
  by (simp add: socket_path_def io_bind_def home_dir_def sock_file_def)

lemma agent_listens_eval:
  assumes "startable c K w" and "home w = Some h"
  shows "\<exists>a v. agent_listens c pid pe mode sd dd K token pin w = (Ok a, v) \<and> socket_only w v \<and> files v (sock_file h) = Some []"
proof -
  obtain ks where ks: "load_all_keys c K w = (Ok ks, w)"
    using assms(1) load_all_keys_state [of c K w] by (metis prod.collapse startable_def)
  have f: "write_err w (sock_file h) = None" "mkdir_err w (path_join h ''.ssh'') = None" "sock_file h \<notin> dirs w"
    using assms by (auto simp: startable_def)
  show ?thesis
    using f ks assms(2) sock_paths(1) [of h]
    by (cases "files w (sock_file h)"; cases pe)
      (simp_all add: agent_listens_def run_ssh_agent_inner_def bind_listener_def io_eval_defs socket_path_eval home_dir_def
        fs_exists_def fs_remove_def create_dir_all_def fs_write_def socket_only_def)
qed

lemma remove_socket_eval:
  assumes "startable c K w" and "home w = Some h"
  shows "socket_only w (snd (remove_socket w)) \<and> files (snd (remove_socket w)) (sock_file h) = None"
  using assms
  by (auto simp: remove_socket_def socket_path_eval io_bind_def io_attempt_def fs_remove_def startable_def socket_only_def)

lemma reached_eval:
  "home (ho_world h) = Some hm \<Longrightarrow> reached h =
    (if files (ho_world h) (sock_file hm) = None then None
     else case ho_bound h of Some p \<Rightarrow> if p \<in> ho_alive h then Some p else None | None \<Rightarrow> None)"
  by (simp add: reached_def socket_path_eval)

lemma alive_reached: "reached h = Some p \<Longrightarrow> p \<in> ho_alive h"
  by (auto simp: reached_def split: outcome.splits if_splits option.splits)

text \<open>The agents of one user: each is started with a text for its process id and the same secrets.\<close>

definition user_agents ::
  "crates \<Rightarrow> (nat \<Rightarrow> string) \<Rightarrow> bool \<Rightarrow> auth_cache_mode \<Rightarrow> u64 \<Rightarrow> u64 \<Rightarrow> bytes \<Rightarrow> bytes \<Rightarrow> string \<Rightarrow> nat \<Rightarrow> agent wio" where
  "user_agents c pids pe mode sd dd K token pin = (\<lambda>p. agent_listens c (pids p) pe mode sd dd K token pin)"

lemma life_refines:
  assumes s: "startable c K (ho_world h)"
  shows "startable c K (ho_world (life_step (user_agents c pids pe mode sd dd K token pin) h e)) \<and>
    life_abs (life_step (user_agents c pids pe mode sd dd K token pin) h e) = life_spec (life_abs h) e"
proof -
  obtain hm where hm: "home (ho_world h) = Some hm" using s by (auto simp: startable_def)
  let ?r = "snd (remove_socket (ho_world h))"
  note rm = remove_socket_eval [OF s hm]
  have hr: "home ?r = Some hm" and sr: "startable c K ?r"
    using rm hm socket_only_startable [OF _ s] by (auto simp: socket_only_def)
  note eval = reached_eval [OF hm] life_abs_def
  show ?thesis
  proof (cases e)
    case (Launch p)
    obtain a v where run: "agent_listens c (pids p) pe mode sd dd K token pin (ho_world h) = (Ok a, v)"
      and v: "socket_only (ho_world h) v" "files v (sock_file hm) = Some []"
      using agent_listens_eval [OF s hm] by blast
    have "home v = Some hm" using v(1) hm by (simp add: socket_only_def)
    then show ?thesis
      using Launch s run v socket_only_startable [OF v(1) s] by (simp add: life_abs_def reached_eval user_agents_def)
  next
    case (Signalled p)
    then show ?thesis using s rm hr sr by (simp add: life_abs_def reached_eval)
  next
    case (ListenEnds p ok)
    then show ?thesis using s rm hr sr by (auto simp: life_abs_def reached_eval hm split: option.split)
  next
    case (Crashed p)
    then show ?thesis using s by (auto simp: eval reached_eval hm split: option.split)
  qed
qed

interpretation lives: refinement life_abs "\<lambda>h. startable c K (ho_world h)"
  "life_step (user_agents c pids pe mode sd dd K token pin)" life_spec "\<lambda>e. True" for c pids pe mode sd dd K token pin
  by unfold_locales (use life_refines in blast)+

text \<open>
  C19. The newest agent is reached.  Whatever agents of a user were started, signalled, crashed or lost their listener
  before, and whatever socket file was left behind: as long as the key file loads and the socket path can be
  written, a new agent starts and accepts the connections.  But nothing checks whose socket is removed: an older agent that
  is signalled while a newer one runs removes the newer one's socket, and the newer one runs on unreached.
\<close>

theorem newest_agent_reached:
  assumes "startable c K w" and "agents = user_agents c pids pe mode sd dd K token pin"
    and "h = foldl (life_step agents) \<lparr>ho_world = w, ho_bound = None, ho_alive = {}\<rparr> evs"
  shows "(ho_alive h, reached h) = foldl life_spec ({}, None) evs \<and>
    (\<forall>p. p \<notin> ho_alive h \<longrightarrow> reached (life_step agents h (Launch p)) = Some p) \<and>
    (\<forall>p q. reached h = Some p \<and> q \<in> ho_alive h \<and> q \<noteq> p \<longrightarrow>
       p \<in> ho_alive (life_step agents h (Signalled q)) \<and> reached (life_step agents h (Signalled q)) = None)"
proof -
  let ?h0 = "\<lparr>ho_world = w, ho_bound = None, ho_alive = {}\<rparr> :: host"
  have ev: "list_all (\<lambda>e. True) evs" by (simp add: list_all_iff)
  have s: "startable c K (ho_world h)"
    using lives.run_inv [OF ev, of c K ?h0] assms(1) unfolding assms(2,3) by simp
  have "life_abs ?h0 = ({}, None)" by (simp add: life_abs_def reached_def split: outcome.split)
  then have "life_abs h = foldl life_spec ({}, None) evs"
    using lives.run_spec [OF ev, of c K ?h0] assms(1) unfolding assms(2,3) by simp
  then have abs: "(ho_alive h, reached h) = foldl life_spec ({}, None) evs" by (simp add: life_abs_def)
  have e: "(ho_alive (life_step agents h e), reached (life_step agents h e)) = life_spec (ho_alive h, reached h) e" for e
    using life_refines [OF s] unfolding assms(2) life_abs_def by blast
  have "reached (life_step agents h (Launch p)) = Some p" if "p \<notin> ho_alive h" for p
    using e [of "Launch p"] that by (simp del: life_step.simps)
  moreover have "p \<in> ho_alive (life_step agents h (Signalled q)) \<and> reached (life_step agents h (Signalled q)) = None"
    if "reached h = Some p" "q \<in> ho_alive h" "q \<noteq> p" for p q
    using e [of "Signalled q"] that alive_reached [OF that(1)] by (simp del: life_step.simps)
  ultimately show ?thesis using abs by blast
qed

theorem newest_agent_reached_witness:
  "let agents = user_agents demo_crates (\<lambda>p. ''7'') True PerApp 300 60 (replicate 32 1) (replicate 32 2) ''1234'';
     h = foldl (life_step agents) \<lparr>ho_world = demo_world, ho_bound = None, ho_alive = {}\<rparr> [Launch 1, Crashed 1, Launch 2, Launch 3]
   in reached h = Some 3 \<and> 3 \<in> ho_alive (life_step agents h (Signalled 2)) \<and> reached (life_step agents h (Signalled 2)) = None"
proof -
  have st: "startable demo_crates (replicate 32 1) demo_world"
    using demo_no_keys by (simp add: startable_def)
  define agents where "agents = user_agents demo_crates (\<lambda>p. ''7'') True PerApp 300 60 (replicate 32 1) (replicate 32 2) ''1234''"
  define h where "h = foldl (life_step agents) \<lparr>ho_world = demo_world, ho_bound = None, ho_alive = {}\<rparr>
    [Launch 1, Crashed 1, Launch 2, Launch 3]"
  note all = newest_agent_reached [OF st agents_def h_def]
  then have "(ho_alive h, reached h) = ({3, 2}, Some 3)" by simp
  with all show ?thesis unfolding Let_def agents_def [symmetric] h_def [symmetric] by auto
qed

end
