(* ===== verification/Vt_Inject.thy ===== *)
theory Vt_Inject
  imports Vt_Commands "HOL-Library.AList"
begin

text \<open>
  \<open>inject\<close> of \<open>src/cli.rs\<close>: decrypting the items in a file, in the arguments of a command and in the
  environment, writing the result, starting the cleanup process and running the command.
\<close>

section \<open>Items in a text\<close>

text \<open>
  The expression \<open>vt://[^/]+/[A-Za-z0-9_-]+\<close> has one match at a position if it has any: the middle
  part ends at the next slash and the last part is as long as it can be.
\<close>

definition word_char :: "char \<Rightarrow> bool" where
  "word_char x \<longleftrightarrow> (let n = of_char x :: nat in
     (48 \<le> n \<and> n \<le> 57) \<or> (65 \<le> n \<and> n \<le> 90) \<or> (97 \<le> n \<and> n \<le> 122) \<or> x = CHR ''_'' \<or> x = CHR ''-'')"

definition vt_match :: "string \<Rightarrow> string option" where
  "vt_match s =
     (if \<not> starts_with s ''vt://'' then None
      else
        let t = drop 5 s;
            host = takeWhile (\<lambda>x. x \<noteq> CHR ''/'') t;
            rest = dropWhile (\<lambda>x. x \<noteq> CHR ''/'') t;
            body = takeWhile word_char (drop 1 rest) in
        if host = [] \<or> rest = [] \<or> body = [] then None else Some (''vt://'' @ host @ ''/'' @ body))"

lemma vt_match_prefix: "vt_match s = Some m \<Longrightarrow> \<exists>u. s = m @ u \<and> m \<noteq> []"
proof -
  assume m: "vt_match s = Some m"
  let ?t = "drop 5 s"
  let ?rest = "dropWhile (\<lambda>x. x \<noteq> CHR ''/'') ?t"
  let ?body = "takeWhile word_char (drop 1 ?rest)"
  from m have s: "starts_with s ''vt://''" and ne: "?rest \<noteq> []"
    and m': "m = ''vt://'' @ takeWhile (\<lambda>x. x \<noteq> CHR ''/'') ?t @ ''/'' @ ?body"
    by (auto simp: vt_match_def Let_def split: if_splits)
  have "hd ?rest = CHR ''/''" using hd_dropWhile [OF ne] by simp
  then have "?rest = ''/'' @ drop 1 ?rest" using ne by (cases ?rest) simp_all
  then have "?rest = ''/'' @ ?body @ dropWhile word_char (drop 1 ?rest)" by simp
  then have "?t = takeWhile (\<lambda>x. x \<noteq> CHR ''/'') ?t @ ''/'' @ ?body @ dropWhile word_char (drop 1 ?rest)"
    by (metis takeWhile_dropWhile_id)
  moreover have "s = ''vt://'' @ ?t" using s by (auto simp: starts_with_iff)
  ultimately show ?thesis unfolding m' by (metis append.assoc append_is_Nil_conv list.distinct(1))
qed

text \<open>A text as the scan of \<open>find_iter\<close> sees it: items, and the characters between them.\<close>

datatype piece = Item string | Plain char

function pieces :: "string \<Rightarrow> piece list" where
  "pieces [] = []"
| "pieces (x # xs) = (case vt_match (x # xs) of
      Some m \<Rightarrow> Item m # pieces (drop (length m) (x # xs))
    | None \<Rightarrow> Plain x # pieces xs)"
  by pat_completeness auto
termination
  by (relation "measure length") (auto dest: vt_match_prefix)

fun piece_items :: "piece list \<Rightarrow> string list" where
  "piece_items [] = []"
| "piece_items (Item m # ps) = m # piece_items ps"
| "piece_items (Plain x # ps) = piece_items ps"

definition find_vt :: "string \<Rightarrow> string list" where
  "find_vt s = piece_items (pieces s)"

fun render :: "(string \<Rightarrow> string) \<Rightarrow> piece list \<Rightarrow> string" where
  "render f [] = []"
| "render f (Item m # ps) = f m @ render f ps"
| "render f (Plain x # ps) = x # render f ps"

definition replace_vt :: "string \<Rightarrow> string \<Rightarrow> string" where
  "replace_vt r s = render (\<lambda>_. r) (pieces s)"

lemma render_id: "render (\<lambda>m. m) (pieces s) = s"
  by (induction s rule: pieces.induct) (auto split: option.splits dest: vt_match_prefix)

section \<open>Decrypting the items of several texts\<close>

text \<open>
  The entries of the \<open>HashMap\<close>: one for each distinct item, with the value inserted last.  \<open>order\<close> is the
  order in which the map iterates, which the standard library leaves open.
\<close>

definition secret_map :: "string list \<Rightarrow> string list \<Rightarrow> (string \<times> string) list" where
  "secret_map encrypted decrypted =
     map (\<lambda>k. (k, the (map_of (rev (zip encrypted decrypted)) k))) (remdups (take (length decrypted) encrypted))"

type_synonym hash_order = "(string \<times> string) list \<Rightarrow> (string \<times> string) list"

definition hash_order_ok :: "hash_order \<Rightarrow> bool" where
  "hash_order_ok order \<longleftrightarrow> (\<forall>m. distinct (map fst m) \<longrightarrow>
     set (order m) = set m \<and> length (order m) = length m)"

definition item_text :: "crypto_res_item \<Rightarrow> string" where
  "item_text r = (if cr_err_message r = [] then cr_result r else cr_err_message r)"

definition substitute_all :: "(string \<times> string) list \<Rightarrow> string \<Rightarrow> string" where
  "substitute_all entries original_str = fold (\<lambda>(k, v) result_str. str_replace result_str k v) entries original_str"

definition decrypt_from_multi_str ::
  "crates \<Rightarrow> hash_order \<Rightarrow> client_lib \<Rightarrow> vt_client \<Rightarrow> string list \<Rightarrow> string \<Rightarrow> string list sio" where
  "decrypt_from_multi_str c order lib client original_str_vec command =
     (let encrypted_vec = concat (map find_vt original_str_vec) in
      io_bind (io_get (\<lambda>s. host_name (sy_client s))) (\<lambda>host.
      io_bind (client_decrypt c lib client
        \<lparr>dr_host = host, dr_command = command, dr_items = encrypted_vec, dr_descriptions = []\<rparr>) (\<lambda>res.
      io_seq (io_of (ensure (length res = length encrypted_vec) (Msg ''Expected same number of items in response''))) (
      let decrypted_vec = map item_text res;
          entries = order (secret_map encrypted_vec decrypted_vec) in
      io_ret (map (substitute_all entries) original_str_vec)))))"

section \<open>The command shown at the prompt\<close>

fun collapse_white :: "bool \<Rightarrow> string list \<Rightarrow> string list" where
  "collapse_white before [] = []"
| "collapse_white before (x # xs) =
     (if is_white x then (if before then [] else ['' '']) @ collapse_white True xs
      else x # collapse_white False xs)"

definition shown_command :: "string list \<Rightarrow> string" where
  "shown_command args =
     (let original_command = join '' '' args in
      if original_command = [] then ''[inject]''
      else
        let normalized = concat (collapse_white False (utf8_chars original_command));
            sanitized = replace_vt ''vt://***'' normalized;
            chars = utf8_chars sanitized;
            truncated = (if length chars > 60 then concat (take 60 chars) @ ''...'' else sanitized) in
        ''[inject] '' @ truncated)"

section \<open>Files, environment, processes\<close>

definition fs_copy :: "string \<Rightarrow> string \<Rightarrow> unit wio" where
  "fs_copy p q = io_bind (fs_read p) (fs_write q)"

definition fs_rename :: "string \<Rightarrow> string \<Rightarrow> unit wio" where
  "fs_rename p q = (\<lambda>w. case write_err w q of
     Some e \<Rightarrow> (Err (Msg (fault_text e)), w)
   | None \<Rightarrow> (case files w p of
       None \<Rightarrow> (Err (Msg ''No such file or directory (os error 2)''), w)
     | Some bs \<Rightarrow> (Ok (), w\<lparr>files := (files w)(p := None, q \<mapsto> bs)\<rparr>)))"

definition nul :: char where
  "nul = CHR 0x00"

definition set_var :: "string \<Rightarrow> string \<Rightarrow> unit wio" where
  "set_var k v = (\<lambda>w.
     if k = [] \<or> CHR ''='' \<in> set k \<or> nul \<in> set k \<or> nul \<in> set v
     then (Panic ''failed to set environment variable'', w)
     else (Ok (), w\<lparr>env_vars := AList.update k v (env_vars w)\<rparr>))"

text \<open>\<open>env::vars\<close> panics on a variable that is not valid Unicode.\<close>

definition env_vt_vars :: "(string \<times> string) list wio" where
  "env_vt_vars = (\<lambda>w.
     if \<exists>(k, v) \<in> set (env_vars w). \<not> rust_str k \<or> \<not> rust_str v
     then (Panic ''called `Result::unwrap()` on an `Err` value'', w)
     else (Ok (filter (\<lambda>(_, v). find_vt v \<noteq> []) (env_vars w)), w))"

fun set_decrypted_vars :: "(string \<times> string) list \<Rightarrow> string list \<Rightarrow> string list wio" where
  "set_decrypted_vars [] decrypted_args = io_ret decrypted_args"
| "set_decrypted_vars ((key, _) # vars) decrypted_args =
     (if decrypted_args = [] then io_of (Panic ''called `Option::unwrap()` on a `None` value'')
      else io_seq (set_var key (last decrypted_args)) (set_decrypted_vars vars (butlast decrypted_args)))"

definition backup_path :: "string \<Rightarrow> string" where
  "backup_path replace_file_path = replace_file_path @ ''.vt''"

text \<open>Failures of the clean-up are printed on the standard error output and otherwise ignored.\<close>

definition restore_backup :: "string option \<Rightarrow> string option \<Rightarrow> unit wio" where
  "restore_backup replace_file_path output_file_path =
     (case replace_file_path of
        Some f \<Rightarrow> io_or () (fs_rename (backup_path f) f)
      | None \<Rightarrow> (case output_file_path of
          Some f \<Rightarrow> io_or () (fs_remove f)
        | None \<Rightarrow> io_ret ()))"

text \<open>How \<open>inject\<close> ends without an error: no command was given, or the process became the command.\<close>

datatype inject_end = Finished | Became string "string list"

text \<open>The forked process, which sleeps and then cleans up: its seconds and its files.\<close>

record cleanup =
  cu_seconds :: u32
  cu_replace :: "string option"
  cu_output :: "string option"

definition cleanup_child :: "cleanup \<Rightarrow> unit wio" where
  "cleanup_child ch = restore_backup (cu_replace ch) (cu_output ch)"

definition fork_cleanup :: "u32 \<Rightarrow> string option \<Rightarrow> string option \<Rightarrow> cleanup option wio" where
  "fork_cleanup timeout replace_file output_file =
     (if timeout > 0 \<and> (output_file \<noteq> None \<or> replace_file \<noteq> None) then
        io_bind (io_get fork_err) (\<lambda>e. case e of
          Some m \<Rightarrow> io_fail (Msg (''Failed to fork cleanup process: '' @ m))
        | None \<Rightarrow> io_ret (Some \<lparr>cu_seconds = timeout, cu_replace = replace_file, cu_output = output_file\<rparr>))
      else io_ret None)"

definition write_output :: "string option \<Rightarrow> string option \<Rightarrow> string \<Rightarrow> unit wio" where
  "write_output replace_file output_file content =
     (case replace_file of
        Some f \<Rightarrow> io_context (''Failed to write to replace file: '' @ f) (fs_write f (as_bytes content))
      | None \<Rightarrow> (case output_file of
          Some f \<Rightarrow> io_context (''Failed to write to output file: '' @ f) (fs_write f (as_bytes content))
        | None \<Rightarrow> print_str content))"

text \<open>
  \<open>exec\<close> does not return when it succeeds; the cleanup process goes on.  When it fails, that process is
  killed and its work is done at once.
\<close>

definition exec_command ::
  "string list \<Rightarrow> cleanup option \<Rightarrow> string option \<Rightarrow> string option \<Rightarrow> (inject_end \<times> cleanup option) wio" where
  "exec_command decrypted_args child replace_file output_file =
     (case decrypted_args of
        [] \<Rightarrow> io_ret (Finished, child)
      | command # args \<Rightarrow>
          io_bind (io_get (\<lambda>w. exec_err w command)) (\<lambda>err. case err of
            None \<Rightarrow> io_ret (Became command args, child)
          | Some e \<Rightarrow> io_seq (restore_backup replace_file output_file)
              (io_fail (Msg (''Failed to execute command: '' @ e)))))"

section \<open>The command\<close>

definition inject_finish ::
  "(string \<times> string) list \<Rightarrow> string option \<Rightarrow> string option \<Rightarrow> u32 \<Rightarrow> string list \<Rightarrow>
     (inject_end \<times> cleanup option) wio" where
  "inject_finish vars replace_file output_file timeout decrypted_args =
     io_bind (set_decrypted_vars (rev vars) decrypted_args) (\<lambda>decrypted_args.
     io_seq (case replace_file of
         Some f \<Rightarrow> io_context (''Failed to backup file to: '' @ backup_path f) (fs_copy f (backup_path f))
       | None \<Rightarrow> io_ret ()) (
     if decrypted_args = [] then io_of (Panic ''called `Option::unwrap()` on a `None` value'')
     else
       io_seq (write_output replace_file output_file (last decrypted_args)) (
       io_bind (fork_cleanup timeout replace_file output_file) (\<lambda>child.
       exec_command (butlast decrypted_args) child replace_file output_file))))"

definition inject ::
  "crates \<Rightarrow> hash_order \<Rightarrow> client_lib \<Rightarrow> vt_client \<Rightarrow> string option \<Rightarrow> string option \<Rightarrow> string option \<Rightarrow> u32 \<Rightarrow>
     string list \<Rightarrow> (inject_end \<times> cleanup option) sio" where
  "inject c order lib client replace_file input_file output_file timeout args =
     (if replace_file \<noteq> None \<and> (input_file \<noteq> None \<or> output_file \<noteq> None) then
        io_fail (Msg ''Cannot specify both replace file and input file or output file'')
      else
        io_bind (in_client (case (case replace_file of Some f \<Rightarrow> Some f | None \<Rightarrow> input_file) of
            Some f \<Rightarrow> io_context (''Failed to read file: '' @ f) (fs_read_to_string f)
          | None \<Rightarrow> io_ret [])) (\<lambda>input_file_content.
        io_bind (in_client env_vt_vars) (\<lambda>vars.
        io_bind (decrypt_from_multi_str c order lib client
            (args @ [input_file_content] @ map snd vars) (shown_command args)) (\<lambda>decrypted_args.
        in_client (inject_finish vars replace_file output_file timeout decrypted_args)))))"


section \<open>Frames\<close>

definition same_disk :: "world \<Rightarrow> world \<Rightarrow> bool" where
  "same_disk w v \<longleftrightarrow> files v = files w \<and> read_err v = read_err w \<and> write_err v = write_err w \<and> fork_err v = fork_err w"

interpretation samedisk: frame_rel same_disk
  by unfold_locales (auto simp: same_disk_def)

lemmas samedisk_frame [frame_intros] = samedisk.all

lemma same_disk_prims [frame_intros]:
  "within same_disk home_dir" "within same_disk (fs_read p)" "within same_disk (aes_encrypt c a x)"
  "within same_disk (set_var k v)" "within same_disk env_vt_vars" "within same_disk (print_str l)"
  by (auto simp: within_def same_disk_def fs_defs aes_encrypt_state set_var_def env_vt_vars_def split: option.splits)

lemma same_disk_text [frame_intros]: "within same_disk (fs_read_to_string p)"
  unfolding fs_read_to_string_def by (intro frame_intros)

interpretation clientdisk: client_quiet same_disk
  by unfold_locales (intro frame_intros)+

lemmas clientdisk_frames [frame_intros] = clientdisk.client.all clientdisk.client_kept

lemma same_disk_multi [frame_intros]:
  "within (client_frame same_disk) (decrypt_from_multi_str c order lib client texts cmd)"
  unfolding decrypt_from_multi_str_def Let_def by (intro frame_intros)

lemma set_vars_kept:
  assumes "frame_rel R" and "\<And>k v. within R (set_var k v)"
  shows "within R (set_decrypted_vars vars ds)"
proof (induction vars ds rule: set_decrypted_vars.induct)
  case (1 ds)
  show ?case unfolding set_decrypted_vars.simps by (rule frame_rel.ret [OF assms(1)])
next
  case (2 k x vars ds)
  then show ?case
    by (cases "ds = []")
      (simp_all add: frame_rel.of_outcome [OF assms(1)] frame_rel.bind [OF assms(1) assms(2)] del: io_prim_simps)
qed

lemma same_disk_vars [frame_intros]: "within same_disk (set_decrypted_vars vars ds)"
  by (rule set_vars_kept) (unfold_locales, intro frame_intros)

section \<open>What is written is cleaned up\<close>

text \<open>The files after a clean-up: no backup, or no output file, and otherwise what was there.\<close>

definition cleaned :: "string option \<Rightarrow> string option \<Rightarrow> (string \<rightharpoonup> bytes) \<Rightarrow> (string \<rightharpoonup> bytes)" where
  "cleaned replace_file output_file fs =
     (case replace_file of
        Some f \<Rightarrow> fs(backup_path f := None)
      | None \<Rightarrow> (case output_file of Some f \<Rightarrow> fs(f := None) | None \<Rightarrow> fs))"

text \<open>After the output was written: the backup is there, and nothing else has changed.\<close>

definition written :: "string option \<Rightarrow> string option \<Rightarrow> bytes \<Rightarrow> (string \<rightharpoonup> bytes) \<Rightarrow> (string \<rightharpoonup> bytes)" where
  "written replace_file output_file bs fs =
     (case replace_file of
        Some f \<Rightarrow> fs(backup_path f := fs f, f \<mapsto> bs)
      | None \<Rightarrow> (case output_file of Some f \<Rightarrow> fs(f \<mapsto> bs) | None \<Rightarrow> fs))"

lemma backup_other: "backup_path f \<noteq> f"
  by (simp add: backup_path_def)

lemma restore_cleans:
  assumes "files w = written r f bs fs" and "\<And>p. write_err w p = None"
    and "\<And>p. r = Some p \<Longrightarrow> fs p \<noteq> None"
  shows "\<exists>v. restore_backup r f w = (Ok (), v) \<and> files v = cleaned r f fs"
proof (cases r)
  case (Some p)
  with assms obtain bs' where "fs p = Some bs'" by fastforce
  with Some assms backup_other [of p] show ?thesis
    by (auto simp: restore_backup_def fs_rename_def io_or_def written_def cleaned_def fun_eq_iff)
next
  case None
  with assms show ?thesis
    by (cases f) (auto simp: restore_backup_def fs_remove_def io_or_def written_def cleaned_def fun_eq_iff)
qed


lemma set_decrypted_vars_result:
  "set_decrypted_vars vars ds w = (Ok rest, v) \<Longrightarrow> length vars \<le> length ds \<Longrightarrow> rest = take (length ds - length vars) ds"
proof (induction vars ds arbitrary: w rule: set_decrypted_vars.induct)
  case (2 k x vars ds)
  then have ne: "ds \<noteq> []" by auto
  with 2(2) obtain u where "set_decrypted_vars vars (butlast ds) u = (Ok rest, v)"
    by (auto simp: io_bind_eq_Ok)
  with 2(1) [OF ne this] 2(3) have "rest = take (length ds - 1 - length vars) (butlast ds)" by simp
  then show ?case by (simp add: butlast_conv_take)
qed simp

lemma set_decrypted_vars_no_err: "fst (set_decrypted_vars vars ds w) \<noteq> Err e"
proof (induction vars ds arbitrary: w rule: set_decrypted_vars.induct)
  case (2 k x vars ds)
  then show ?case
    by (cases "set_var k (last ds) w") (auto simp: set_var_def io_seq_def io_bind_def split: if_splits)
qed simp

text \<open>The four ways the part after the decryption ends, when the file system takes every write.\<close>

definition finish_ends ::
  "string option \<Rightarrow> string option \<Rightarrow> u32 \<Rightarrow> bytes \<Rightarrow> world \<Rightarrow> (inject_end \<times> cleanup option) outcome \<Rightarrow> world \<Rightarrow> bool" where
  "finish_ends r f timeout bs w x v \<longleftrightarrow>
     (let forks = 0 < timeout \<and> (f \<noteq> None \<or> r \<noteq> None) in
      (\<exists>m. x = Panic m \<and> files v = files w) \<or>
      (\<exists>m. forks \<and> fork_err w = Some m \<and> x = Err (Msg (''Failed to fork cleanup process: '' @ m)) \<and>
         files v = written r f bs (files w)) \<or>
      (\<exists>m. x = Err (Msg (''Failed to execute command: '' @ m)) \<and> files v = cleaned r f (files w)) \<or>
      (\<exists>e. x = Ok (e, if forks then Some \<lparr>cu_seconds = timeout, cu_replace = r, cu_output = f\<rparr> else None) \<and>
         files v = written r f bs (files w)))"

definition backed :: "string option \<Rightarrow> world \<Rightarrow> world" where
  "backed r w = (case r of Some p \<Rightarrow> w\<lparr>files := (files w)(backup_path p := files w p)\<rparr> | None \<Rightarrow> w)"

lemma backup_effect:
  assumes "\<And>p. write_err w p = None" and "\<And>p. r = Some p \<Longrightarrow> files w p \<noteq> None \<and> read_err w p = None"
  shows "(case r of Some p \<Rightarrow> io_context (''Failed to backup file to: '' @ backup_path p) (fs_copy p (backup_path p))
       | None \<Rightarrow> io_ret ()) w = (Ok (), backed r w)"
proof (cases r)
  case (Some q)
  with assms obtain bs where "files w q = Some bs" "read_err w q = None" "write_err w (backup_path q) = None" by fastforce
  with Some show ?thesis
    by (simp add: fs_copy_def fs_read_def fs_write_def io_bind_def io_context_def io_map_err_def backed_def)
qed (simp add: backed_def)

lemma write_output_written:
  assumes "\<And>p. write_err w p = None"
  shows "\<exists>v. write_output r f content (backed r w) = (Ok (), v) \<and> files v = written r f (as_bytes content) (files w) \<and>
    write_err v = write_err w \<and> fork_err v = fork_err w"
  using assms
  by (cases r; cases f)
    (auto simp: write_output_def written_def io_context_def io_map_err_def fs_write_def print_str_def backed_def)

lemma exec_ends:
  assumes "files w = written r f bs fs" and "\<And>p. write_err w p = None" and "\<And>p. r = Some p \<Longrightarrow> fs p \<noteq> None"
    and "exec_command ds child r f w = (x, v)"
  shows "(\<exists>m. x = Err (Msg (''Failed to execute command: '' @ m)) \<and> files v = cleaned r f fs) \<or> (\<exists>e. x = Ok (e, child) \<and> files v = written r f bs fs)"
proof (cases ds)
  case Nil
  with assms show ?thesis by (auto simp: exec_command_def)
next
  case (Cons a as)
  obtain u where "restore_backup r f w = (Ok (), u)" "files u = cleaned r f fs"
    using restore_cleans [OF assms(1-3)] by blast
  with Cons assms show ?thesis
    by (auto simp: exec_command_def io_bind_def split: option.splits)
qed

lemma finish_outcomes:
  assumes "inject_finish vars r f timeout ds w = (x, v)" and "\<And>p. write_err w p = None"
    and "\<And>p. r = Some p \<Longrightarrow> files w p \<noteq> None \<and> read_err w p = None" and "length vars < length ds"
  shows "finish_ends r f timeout (as_bytes (ds ! (length ds - Suc (length vars)))) w x v"
proof -
  obtain y w1 where y: "set_decrypted_vars (rev vars) ds w = (y, w1)" by fastforce
  have d: "same_disk w w1" by (rule withinD [OF same_disk_vars y])
  show ?thesis
  proof (cases y)
    case (Err e)
    with y set_decrypted_vars_no_err [of "rev vars" ds w e] show ?thesis by simp
  next
    case (Panic m)
    with y d assms(1) show ?thesis by (auto simp: inject_finish_def io_bind_def finish_ends_def same_disk_def)
  next
    case (Ok rest)
    have rest: "rest = take (length ds - length vars) ds"
      using set_decrypted_vars_result [of "rev vars" ds w rest w1] y Ok assms(4) by simp
    with assms(4) have ne: "rest \<noteq> []" and len: "length rest = length ds - length vars" by auto
    have last: "last rest = ds ! (length ds - Suc (length vars))"
      using assms(4) ne by (simp add: last_conv_nth len) (simp add: rest)
    let ?backup = "case r of Some p \<Rightarrow> io_context (''Failed to backup file to: '' @ backup_path p) (fs_copy p (backup_path p))
       | None \<Rightarrow> io_ret ()"
    have b: "?backup w1 = (Ok (), backed r w1)"
      using assms(2,3) d by (intro backup_effect) (auto simp: same_disk_def)
    obtain w3 where o: "write_output r f (last rest) (backed r w1) = (Ok (), w3)"
      and w3: "files w3 = written r f (as_bytes (last rest)) (files w1)" "write_err w3 = write_err w1"
        "fork_err w3 = fork_err w1"
      using write_output_written [of w1 r f "last rest"] assms(2) d by (auto simp: same_disk_def)
    have x: "io_bind (fork_cleanup timeout r f) (\<lambda>child. exec_command (butlast rest) child r f) w3 = (x, v)"
      using assms(1) y Ok b ne o by (simp add: inject_finish_def io_bind_def io_seq_def)
    have q: "\<And>p. write_err w3 p = None" "\<And>p. r = Some p \<Longrightarrow> files w1 p \<noteq> None"
      "files w1 = files w" "fork_err w1 = fork_err w"
      using d w3 assms(2,3) by (auto simp: same_disk_def)
    obtain z u where z: "fork_cleanup timeout r f w3 = (z, u)" by fastforce
    then have "u = w3" by (auto simp: fork_cleanup_def split: if_splits option.splits)
    show ?thesis
    proof (cases z)
      case (Ok child)
      with x z \<open>u = w3\<close> have "exec_command (butlast rest) child r f w3 = (x, v)" by (simp add: io_bind_def)
      from exec_ends [OF w3(1) q(1) q(2) this] show ?thesis
        using Ok z q(3) last by (auto simp: finish_ends_def fork_cleanup_def Let_def split: if_splits option.splits)
    qed (use x z \<open>u = w3\<close> w3 q last in \<open>auto simp: finish_ends_def fork_cleanup_def Let_def io_bind_def
        split: if_splits option.splits\<close>)
  qed
qed


text \<open>The file that is read, and the two parts of the command.\<close>

definition inject_content :: "string option \<Rightarrow> string option \<Rightarrow> string wio" where
  "inject_content replace_file input_file =
     (case (case replace_file of Some f \<Rightarrow> Some f | None \<Rightarrow> input_file) of
        Some f \<Rightarrow> io_context (''Failed to read file: '' @ f) (fs_read_to_string f)
      | None \<Rightarrow> io_ret [])"

lemma inject_content_state: "inject_content r i w = (x, v) \<Longrightarrow> v = w"
  by (auto simp: inject_content_def io_context_def io_map_err_def fs_read_to_string_def fs_read_def io_bind_def
      split: option.splits)

lemma inject_content_replace:
  "inject_content (Some p) i w = (Ok text, v) \<Longrightarrow> files w p = Some (as_bytes text) \<and> read_err w p = None"
  by (auto simp: inject_content_def io_bind_eq_Ok fs_read_to_string_def fs_read_def dest: from_utf8_rust_str
      split: option.splits)

lemma env_vt_vars_state: "env_vt_vars w = (x, v) \<Longrightarrow> v = w"
  by (auto simp: env_vt_vars_def split: if_splits)

lemma multi_str_OkE:
  assumes "decrypt_from_multi_str c order lib client texts cmd s = (Ok ds, t)"
  obtains out where "client_decrypt c lib client \<lparr>dr_host = host_name (sy_client s), dr_command = cmd,
      dr_items = concat (map find_vt texts), dr_descriptions = []\<rparr> s = (Ok out, t)"
    and "length out = length (concat (map find_vt texts))"
    and "ds = map (substitute_all (order (secret_map (concat (map find_vt texts)) (map item_text out)))) texts"
  using assms
  by (auto simp: decrypt_from_multi_str_def Let_def io_bind_eq_Ok ensure_def split: if_splits)

lemma inject_cases:
  assumes "inject c order lib client r i f timeout args s = (x, t)"
  obtains (early) "\<And>y. x \<noteq> Ok y" and "same_disk (sy_client s) (sy_client t)"
  | (late) content vars ds s1 where "r \<noteq> None \<longrightarrow> i = None \<and> f = None"
      and "inject_content r i (sy_client s) = (Ok content, sy_client s)"
      and "env_vt_vars (sy_client s) = (Ok vars, sy_client s)"
      and "decrypt_from_multi_str c order lib client (args @ [content] @ map snd vars) (shown_command args) s = (Ok ds, s1)"
      and "inject_finish vars r f timeout ds (sy_client s1) = (x, sy_client t)" and "sy_agent t = sy_agent s1"
proof (cases "r \<noteq> None \<and> (i \<noteq> None \<or> f \<noteq> None)")
  case True
  with assms early show thesis by (auto simp: inject_def same_disk_def)
next
  case False
  obtain a w where a: "inject_content r i (sy_client s) = (a, w)" by fastforce
  then have w: "w = sy_client s" by (rule inject_content_state)
  obtain b w2 where b: "env_vt_vars (sy_client s) = (b, w2)" by fastforce
  then have w2: "w2 = sy_client s" by (rule env_vt_vars_state)
  have run: "io_bind (in_client (inject_content r i)) (\<lambda>content.
      io_bind (in_client env_vt_vars) (\<lambda>vars.
      io_bind (decrypt_from_multi_str c order lib client (args @ [content] @ map snd vars) (shown_command args)) (\<lambda>ds.
      in_client (inject_finish vars r f timeout ds)))) s = (x, t)"
    using assms False by (auto simp: inject_def inject_content_def)
  show thesis
  proof (cases a)
    case (Ok content)
    note a_ok = this
    show thesis
    proof (cases b)
      case (Ok vars)
      obtain y s1 where y: "decrypt_from_multi_str c order lib client (args @ [content] @ map snd vars) (shown_command args) s
          = (y, s1)" by fastforce
      have d: "same_disk (sy_client s) (sy_client s1)"
        using withinD [OF same_disk_multi y] by (simp add: client_frame_def)
      show thesis
      proof (cases y)
        case (Ok ds)
        obtain z v where z: "inject_finish vars r f timeout ds (sy_client s1) = (z, v)" by fastforce
        with run a b w w2 a_ok \<open>b = Ok vars\<close> y Ok have "x = z" "t = s1\<lparr>sy_client := v\<rparr>"
          by (auto simp: io_bind_def in_client_def)
        with False a b w w2 a_ok \<open>b = Ok vars\<close> y Ok z show thesis by (intro late) auto
      qed (use run a b w w2 a_ok Ok y d in \<open>auto simp: io_bind_def in_client_def intro: early\<close>)
    qed (use run a b w w2 a_ok in \<open>auto simp: io_bind_def in_client_def same_disk_def intro: early\<close>)
  qed (use run a w in \<open>auto simp: io_bind_def in_client_def same_disk_def intro: early\<close>)
qed

lemma inject_outcomes:
  assumes "inject c order lib client r i f timeout args s = (x, t)" and "\<And>p. write_err (sy_client s) p = None"
  obtains (kept) "files (sy_client t) = files (sy_client s)" and "\<forall>y. x \<noteq> Ok y"
  | (finished) content vars ds s1 w where "inject_content r i (sy_client s) = (Ok content, sy_client s)"
      and "env_vt_vars (sy_client s) = (Ok vars, sy_client s)"
      and "decrypt_from_multi_str c order lib client (args @ [content] @ map snd vars) (shown_command args) s = (Ok ds, s1)"
      and "finish_ends r f timeout (as_bytes (ds ! length args)) w x (sy_client t)" and "same_disk (sy_client s) w"
      and "\<And>p. r = Some p \<Longrightarrow> files (sy_client s) p \<noteq> None"
  using assms(1)
proof (cases rule: inject_cases)
  case early
  then show ?thesis by (intro kept) (simp_all add: same_disk_def)
next
  case (late content vars ds s1)
  have d: "same_disk (sy_client s) (sy_client s1)"
    using withinD [OF same_disk_multi late(4)] by (simp add: client_frame_def)
  have r: "files (sy_client s) p \<noteq> None \<and> read_err (sy_client s) p = None" if "r = Some p" for p
    using inject_content_replace late(2) that by blast
  have "length ds = length (args @ [content] @ map snd vars)"
    using late(4) by (rule multi_str_OkE) (simp only: length_map)
  then have len: "length vars < length ds" "length ds - Suc (length vars) = length args" by simp_all
  have "finish_ends r f timeout (as_bytes (ds ! length args)) (sy_client s1) x (sy_client t)"
    using d r assms(2) by (intro finish_outcomes [OF late(5) _ _ len(1), unfolded len(2)]) (auto simp: same_disk_def)
  then show ?thesis
    by (rule finished [OF late(2-4) _ d]) (use r in blast)
qed

text \<open>
  C17. Decrypted files do not stay: when \<open>inject\<close> has left a cleanup process (it does whenever a file was
  written and the timeout is not zero), then the run of that process, on the files as \<open>inject\<close> left them,
  gives back exactly the files from before: the replaced file has its original bytes and its backup
  is gone, or the output file is gone; whether \<open>inject\<close> ended or became the command.
\<close>

theorem inject_cleans_up:
  assumes "inject c order lib client r i f timeout args s = (Ok (e, child), t)"
    and "\<forall>p. write_err (sy_client s) p = None" and "0 < timeout" and "r \<noteq> None \<or> f \<noteq> None"
    and "files w = files (sy_client t)" and "\<forall>p. write_err w p = None"
  shows "\<exists>ch v. child = Some ch \<and> cu_seconds ch = timeout \<and> cleanup_child ch w = (Ok (), v) \<and>
    files v = cleaned r f (files (sy_client s))"
proof -
  obtain u bs where u: "finish_ends r f timeout bs u (Ok (e, child)) (sy_client t)" "same_disk (sy_client s) u"
    and r: "\<forall>p. r = Some p \<longrightarrow> files (sy_client s) p \<noteq> None"
    by (rule inject_outcomes [OF assms(1) spec [OF assms(2)]]) (simp, blast)
  then have ch: "child = Some \<lparr>cu_seconds = timeout, cu_replace = r, cu_output = f\<rparr>"
    and fs: "files (sy_client t) = written r f bs (files (sy_client s))"
    using assms(3,4) by (auto simp: finish_ends_def same_disk_def Let_def)
  have "\<exists>v. restore_backup r f w = (Ok (), v) \<and> files v = cleaned r f (files (sy_client s))"
    using r fs assms(5,6) by (intro restore_cleans) simp_all
  with ch show ?thesis by (simp add: cleanup_child_def)
qed

text \<open>
  When \<open>inject\<close> fails (a text or the environment cannot be read, consent is denied, the command cannot be
  started), or panics, no decrypted file stays: the files are the ones from before, perhaps
  without an old backup or output file; with one exception, a failing \<open>fork\<close>.
\<close>

theorem inject_failure_cleans:
  assumes "inject c order lib client r i f timeout args s = (x, t)" and "\<forall>y. x \<noteq> Ok y"
    and "\<forall>p. write_err (sy_client s) p = None" and "fork_err (sy_client s) = None"
  shows "files (sy_client t) = files (sy_client s) \<or> files (sy_client t) = cleaned r f (files (sy_client s))"
  by (rule inject_outcomes [OF assms(1) spec [OF assms(3)]])
    (use assms(2,4) in \<open>auto simp: finish_ends_def same_disk_def Let_def\<close>)

text \<open>
  That exception: when the cleanup process cannot be forked, \<open>inject\<close> reports it and returns, and if
  it had got that far the decrypted text stays in the file, the original only in the backup.
\<close>

theorem inject_fork_failure:
  assumes "inject c order lib client (Some p) i f timeout args s = (x, t)"
    and "\<forall>q. write_err (sy_client s) q = None" and "fork_err (sy_client s) = Some m" and "0 < timeout"
    and "x = Err (Msg (''Failed to fork cleanup process: '' @ m))" and "files (sy_client t) \<noteq> files (sy_client s)"
  shows "\<exists>content vars ds s1. inject_content (Some p) i (sy_client s) = (Ok content, sy_client s) \<and>
    env_vt_vars (sy_client s) = (Ok vars, sy_client s) \<and>
    decrypt_from_multi_str c order lib client (args @ [content] @ map snd vars) (shown_command args) s = (Ok ds, s1) \<and>
    files (sy_client t) p = Some (as_bytes (ds ! length args)) \<and>
    files (sy_client t) (backup_path p) = files (sy_client s) p"
proof -
  obtain w content vars ds s1 where 1: "inject_content (Some p) i (sy_client s) = (Ok content, sy_client s)"
    "env_vt_vars (sy_client s) = (Ok vars, sy_client s)"
    "decrypt_from_multi_str c order lib client (args @ [content] @ map snd vars) (shown_command args) s = (Ok ds, s1)"
    and 2: "finish_ends (Some p) f timeout (as_bytes (ds ! length args)) w x (sy_client t)" "same_disk (sy_client s) w"
    by (rule inject_outcomes [OF assms(1) spec [OF assms(2)]]) (use assms(6) in blast, assumption)
  from 2 assms(3-5) have fs: "files (sy_client t) = written (Some p) f (as_bytes (ds ! length args)) (files (sy_client s))"
    by (auto simp: finish_ends_def same_disk_def Let_def)
  have "files (sy_client t) p = Some (as_bytes (ds ! length args))"
    "files (sy_client t) (backup_path p) = files (sy_client s) p"
    unfolding fs by (simp_all add: written_def backup_other)
  with 1 show ?thesis by blast
qed


section \<open>What is asked for, and what is written\<close>

text \<open>A decryption through the agent is one request, which opens under the transport key to what was asked for.\<close>

lemma client_decrypt_request:
  assumes "aead_ok c" and "decode_auth_cipher_from_b64 c (vc_auth_token self) = Ok (ag_auth_token (sy_agent s))"
    and "vc_base_url self = None" and "client_decrypt c lib self req s = (Ok out, t)"
  obtains payload ct resp where "ser (js_decrypt_req c) req = Inr payload"
    and "aes_decrypt c (AesGcmCrypto (ag_auth_token (sy_agent s))) ct = Ok payload"
    and "extension_op c (sy_peer s) \<lparr>ex_name = ''decrypt@vt'', ex_details = ct\<rparr> (sy_agent s) = (Ok (Some resp), sy_agent t)"
proof -
  from assms(3,4) obtain payload plain where pay: "ser (js_decrypt_req c) req = Inr payload"
    and ex: "try_agent_extension c lib (vc_auth_token self) ''decrypt@vt'' payload s = (Ok (Some plain), t)"
    by (auto simp: client_decrypt_def io_bind_eq_Ok no_transport_def split: option.splits)
  from try_agent_OkE [OF ex] obtain ct resp w g where
    ct: "aes_encrypt c (AesGcmCrypto (ag_auth_token (sy_agent s))) payload (sy_client s) = (Ok ct, w)"
    and op: "extension_op c (sy_peer s) \<lparr>ex_name = ''decrypt@vt'', ex_details = ct\<rparr> (sy_agent s) = (Ok (Some resp), g)"
    and t: "t = s\<lparr>sy_client := w, sy_agent := g\<rparr>"
    by (rule exchange_OkE) (simp add: assms(2))
  show thesis using that [OF pay aes_decrypt_encrypt [OF assms(1) ct]] op t by simp
qed

text \<open>Where \<open>inject\<close> leaves the text of the template.\<close>

definition injected :: "string option \<Rightarrow> string option \<Rightarrow> string \<Rightarrow> world \<Rightarrow> bool" where
  "injected replace_file output_file text w \<longleftrightarrow>
     (case replace_file of
        Some p \<Rightarrow> files w p = Some (as_bytes text)
      | None \<Rightarrow> (case output_file of
          Some p \<Rightarrow> files w p = Some (as_bytes text)
        | None \<Rightarrow> stdout w \<noteq> [] \<and> last (stdout w) = text))"

lemma write_output_injected: "write_output r f text w = (Ok (), v) \<Longrightarrow> injected r f text v"
  by (auto simp: write_output_def injected_def fs_write_eq_Ok split: option.splits)

lemma finish_OkE:
  assumes "inject_finish vars r f timeout ds w = (Ok y, v)" and "length vars < length ds"
  shows "injected r f (ds ! (length ds - Suc (length vars))) v \<and>
    fst y = (case take (length ds - Suc (length vars)) ds of [] \<Rightarrow> Finished | command # as \<Rightarrow> Became command as)"
proof -
  from assms(1) obtain rest w1 w2 w3 child w4 where v: "set_decrypted_vars (rev vars) ds w = (Ok rest, w1)"
    and o: "write_output r f (last rest) w2 = (Ok (), w3)" and ne: "rest \<noteq> []"
    and fk: "fork_cleanup timeout r f w3 = (Ok child, w4)" and ex: "exec_command (butlast rest) child r f w4 = (Ok y, v)"
    by (auto simp: inject_finish_def io_seq_def io_bind_eq_Ok split: if_splits)
  have "w4 = w3" using fk by (auto simp: fork_cleanup_def split: if_splits option.splits)
  moreover have "v = w4 \<and> fst y = (case butlast rest of [] \<Rightarrow> Finished | command # as \<Rightarrow> Became command as)"
    using ex by (auto simp: exec_command_def io_bind_eq_Ok split: list.splits option.splits)
  moreover have rest: "rest = take (length ds - length vars) ds"
    using set_decrypted_vars_result [of "rev vars" ds w rest w1] v assms(2) by simp
  then have "last rest = ds ! (length ds - Suc (length vars))" "butlast rest = take (length ds - Suc (length vars)) ds"
    using assms(2) ne by (simp_all add: last_conv_nth butlast_take)
  ultimately show ?thesis using write_output_injected [OF o] by simp
qed

text \<open>
  C27. A successful \<open>inject\<close>, even of texts without any item, had the consent of the agent's user: a live
  grant of the caller or a touch during the request.  It sent the agent one request, which opens under the transport key
  to the items of the arguments, the file and the environment, exactly these and in this order, with the shortened command;
  and what it wrote, and became, are these texts with the items replaced by the decryptions of these items.
\<close>

theorem inject_needs_consent:
  assumes "aead_ok c" and "serde_ok (js_decrypt_req c)" and "serde_ok (js_results c)"
    and "decode_auth_cipher_from_b64 c (vc_auth_token client) = Ok (ag_auth_token (sy_agent s))"
    and "vc_base_url client = None"
    and "inject c order lib client r i f timeout args s = (Ok y, t)"
  shows "(\<exists>content vars texts items payload ct resp out ds.
      inject_content r i (sy_client s) = (Ok content, sy_client s) \<and> env_vt_vars (sy_client s) = (Ok vars, sy_client s) \<and>
      texts = args @ [content] @ map snd vars \<and> items = concat (map find_vt texts) \<and>
      extension_op c (sy_peer s) \<lparr>ex_name = ''decrypt@vt'', ex_details = ct\<rparr> (sy_agent s) = (Ok (Some resp), sy_agent t) \<and>
      aes_decrypt c (AesGcmCrypto (ag_auth_token (sy_agent s))) ct = Ok payload \<and>
      de (js_decrypt_req c) payload = Inr \<lparr>dr_host = host_name (sy_client s), dr_command = shown_command args,
        dr_items = items, dr_descriptions = []\<rparr> \<and>
      do_decrypt c (AesGcmCrypto (ag_passphrase (sy_agent s))) (unix_time (ag_world (sy_agent s))) items = Ok out \<and>
      ds = map (substitute_all (order (secret_map items (map item_text out)))) texts \<and>
      injected r f (ds ! length args) (sy_client t) \<and>
      fst y = (case take (length args) ds of [] \<Rightarrow> Finished | command # as \<Rightarrow> Became command as)) \<and>
    (cached_grant (sy_agent s) (sy_peer s) ''decrypt@vt'' \<or> touched (sy_agent s) (sy_agent t))"
  using assms(6)
proof (cases rule: inject_cases)
  case (late content vars ds s1)
  let ?texts = "args @ [content] @ map snd vars"
  let ?items = "concat (map find_vt ?texts)"
  let ?req = "\<lparr>dr_host = host_name (sy_client s), dr_command = shown_command args, dr_items = ?items, dr_descriptions = []\<rparr>"
  obtain out where out: "client_decrypt c lib client ?req s = (Ok out, s1)"
    and ds: "ds = map (substitute_all (order (secret_map ?items (map item_text out)))) ?texts"
    using late(4) by (rule multi_str_OkE)
  obtain payload ct resp where req: "ser (js_decrypt_req c) ?req = Inr payload"
    "aes_decrypt c (AesGcmCrypto (ag_auth_token (sy_agent s))) ct = Ok payload"
    "extension_op c (sy_peer s) \<lparr>ex_name = ''decrypt@vt'', ex_details = ct\<rparr> (sy_agent s) = (Ok (Some resp), sy_agent s1)"
    by (rule client_decrypt_request [OF assms(1,4,5) out])
  have len: "length vars < length ds" "length ds - Suc (length vars) = length args" by (simp_all add: ds)
  have fin: "injected r f (ds ! length args) (sy_client t)"
    "fst y = (case take (length args) ds of [] \<Rightarrow> Finished | command # as \<Rightarrow> Became command as)"
    using finish_OkE [OF late(5) len(1)] unfolding len(2) by blast+
  have ans: "do_decrypt c (AesGcmCrypto (ag_passphrase (sy_agent s))) (unix_time (ag_world (sy_agent s))) ?items = Ok out"
    and ok: "cached_grant (sy_agent s) (sy_peer s) ''decrypt@vt'' \<or> touched (sy_agent s) (sy_agent t)"
    using client_decrypt_answer [OF assms(1-5) out] late(6) by simp_all
  have op: "extension_op c (sy_peer s) \<lparr>ex_name = ''decrypt@vt'', ex_details = ct\<rparr> (sy_agent s) = (Ok (Some resp), sy_agent t)"
    using req(3) late(6) by simp
  show ?thesis
    using late(2,3) op req(2) serde_okD [OF assms(2) req(1)] ans ds fin ok by blast
qed blast

lemma vt_match_shape:
  assumes "vt_match u = Some m"
  obtains host body where "m = ''vt://'' @ host @ ''/'' @ body" and "CHR ''/'' \<notin> set host" and "host \<noteq> []"
    and "body \<noteq> []" and "\<forall>x \<in> set body. word_char x"
  using assms by (auto simp: vt_match_def Let_def split: if_splits dest: set_takeWhileD)

lemma host_split:
  assumes "CHR ''/'' \<notin> set host"
  shows "takeWhile (\<lambda>x. x \<noteq> CHR ''/'') (host @ CHR ''/'' # z) = host"
    and "dropWhile (\<lambda>x. x \<noteq> CHR ''/'') (host @ CHR ''/'' # z) = CHR ''/'' # z"
  using assms by (induction host) auto

lemma vt_match_extend:
  assumes "vt_match u = Some m" and "starts_with s m"
  shows "vt_match s \<noteq> None"
proof -
  obtain host body where m: "m = ''vt://'' @ host @ ''/'' @ body" and host: "CHR ''/'' \<notin> set host" "host \<noteq> []"
    and body: "body \<noteq> []" "\<forall>x \<in> set body. word_char x"
    using vt_match_shape [OF assms(1)] .
  obtain z where z: "s = m @ z" using assms(2) by (auto simp: starts_with_iff)
  have "takeWhile word_char (body @ z) = body @ takeWhile word_char z"
    using body(2) by (simp add: takeWhile_append)
  moreover have "starts_with s ''vt://''" "drop 5 s = host @ ''/'' @ body @ z"
    by (simp_all add: z m starts_with_def)
  ultimately show ?thesis using host(2) body(1) by (simp add: vt_match_def host_split [OF host(1)])
qed

lemma find_vt_item: "x \<in> set (find_vt s) \<Longrightarrow> \<exists>u. vt_match u = Some x"
  unfolding find_vt_def by (induction s rule: pieces.induct) (auto split: option.splits)

lemma str_replace_item:
  assumes "vt_match u = Some m" and "\<forall>x \<in> set (find_vt s). x = m"
  shows "str_replace s m v = replace_vt v s"
proof -
  have ne: "m \<noteq> []" using vt_match_prefix [OF assms(1)] by blast
  have "str_replace_ne m v s = replace_vt v s"
    using assms(2) unfolding find_vt_def replace_vt_def
  proof (induction s rule: pieces.induct)
    case (2 a as)
    show ?case
    proof (cases "vt_match (a # as)")
      case None
      then have "\<not> starts_with (a # as) m" using vt_match_extend [OF assms(1)] by blast
      with None 2(1) [OF None] 2(3) show ?thesis by simp
    next
      case (Some m')
      then have p: "pieces (a # as) = Item m' # pieces (drop (length m') (a # as))" by simp
      have "m' \<in> set (piece_items (pieces (a # as)))" unfolding p by simp
      with 2(3) have m: "m' = m" by blast
      have "set (piece_items (pieces (drop (length m') (a # as)))) \<subseteq> set (piece_items (pieces (a # as)))"
        unfolding p piece_items.simps list.set by (rule subset_insertI)
      with 2(3) have sub: "\<forall>x \<in> set (piece_items (pieces (drop (length m') (a # as)))). x = m" by blast
      have "starts_with (a # as) m" using vt_match_prefix [OF Some] unfolding m starts_with_iff by blast
      with ne have "str_replace_ne m v (a # as) = v @ str_replace_ne m v (drop (length m) (a # as))"
        by (simp only: str_replace_ne.simps simp_thms if_True)
      moreover have "str_replace_ne m v (drop (length m) (a # as)) = render (\<lambda>_. v) (pieces (drop (length m) (a # as)))"
        using 2(2) [OF Some sub] unfolding m .
      ultimately show ?thesis unfolding p m by (simp only: render.simps)
    qed
  qed simp
  with ne show ?thesis by (simp add: str_replace_def)
qed

lemma remdups_same: "remdups (replicate (Suc n) m) = [m]"
  by (induction n) auto

lemma single_secret:
  assumes "hash_order_ok order" and "\<forall>x \<in> set enc. x = m" and "enc \<noteq> []" and "length dec = length enc"
    and "\<forall>v \<in> set dec. v = d"
  shows "order (secret_map enc dec) = [(m, d)]"
proof -
  obtain n where n: "length enc = Suc n" using assms(3) by (cases enc) auto
  have "enc = replicate (Suc n) m" "dec = replicate (Suc n) d"
    using replicate_length_same [OF assms(2)] replicate_length_same [OF assms(5)] n assms(4) by metis+
  then have "secret_map enc dec = [(m, d)]"
    by (simp add: secret_map_def zip_replicate remdups_same del: replicate_Suc) simp
  moreover from this have "set (order (secret_map enc dec)) = {(m, d)}" "length (order (secret_map enc dec)) = 1"
    using assms(1) by (simp_all add: hash_order_ok_def)
  ultimately show ?thesis by (cases "order (secret_map enc dec)") auto
qed


text \<open>
  Texts with one item, as often as it occurs: each occurrence of the item is replaced by what
  decrypting it gives, its plaintext or, silently, its error message, nothing else is changed, and the
  iteration order of the map does not matter; texts without items come back as they are.
\<close>

theorem single_item_replaced:
  assumes "aead_ok c" and "serde_ok (js_decrypt_req c)" and "serde_ok (js_results c)"
    and "decode_auth_cipher_from_b64 c (vc_auth_token client) = Ok (ag_auth_token (sy_agent s))"
    and "vc_base_url client = None" and "hash_order_ok order"
    and "\<forall>x \<in> set (concat (map find_vt texts)). x = m"
    and "decrypt_from_multi_str c order lib client texts cmd s = (Ok ds, t)"
  shows "(\<forall>text \<in> set texts. find_vt text = []) \<and> ds = texts \<or>
    (\<exists>out. do_decrypt c (AesGcmCrypto (ag_passphrase (sy_agent s))) (unix_time (ag_world (sy_agent s))) [m] = Ok [out] \<and>
       ds = map (replace_vt (item_text out)) texts)"
proof -
  let ?enc = "concat (map find_vt texts)"
  let ?a = "AesGcmCrypto (ag_passphrase (sy_agent s))" and ?now = "unix_time (ag_world (sy_agent s))"
  obtain out where dec: "client_decrypt c lib client \<lparr>dr_host = host_name (sy_client s), dr_command = cmd,
      dr_items = ?enc, dr_descriptions = []\<rparr> s = (Ok out, t)"
    and len: "length out = length ?enc"
    and ds: "ds = map (substitute_all (order (secret_map ?enc (map item_text out)))) texts"
    using assms(8) by (rule multi_str_OkE)
  show ?thesis
  proof (cases "?enc = []")
    case True
    then have "secret_map ?enc (map item_text out) = []" by (simp add: secret_map_def)
    moreover have "set (order []) = set []" using assms(6) unfolding hash_order_ok_def by (metis distinct.simps(1) list.map(1))
    ultimately have "order (secret_map ?enc (map item_text out)) = []" by simp
    moreover have "substitute_all [] = (\<lambda>x. x)" by (simp add: fun_eq_iff substitute_all_def)
    ultimately have "ds = texts" by (simp add: ds)
    with True show ?thesis by simp
  next
    case False
    have "do_decrypt c ?a ?now ?enc = Ok out"
      using client_decrypt_answer [OF assms(1-5) dec] by simp
    then have nth: "to_res_item (decrypt_item c ?a ?now (?enc ! k)) = Ok (out ! k)" if "k < length ?enc" for k
      using that unfolding do_decrypt_nth by blast
    have enc: "?enc ! k = m" if "k < length ?enc" for k using assms(7) nth_mem [OF that] by blast
    obtain o1 where o1: "to_res_item (decrypt_item c ?a ?now m) = Ok o1"
      using nth [of 0] enc [of 0] False by simp
    then have "out ! k = o1" if "k < length ?enc" for k using nth [OF that] enc [OF that] by simp
    then have "\<forall>v \<in> set (map item_text out). v = item_text o1"
      using len by (metis in_set_conv_nth length_map nth_map)
    from single_secret [OF assms(6,7) False _ this] len
    have e: "order (secret_map ?enc (map item_text out)) = [(m, item_text o1)]" by simp
    have "m \<in> set ?enc" using enc [of 0] nth_mem [of 0 ?enc] False by simp
    then obtain u where u: "vt_match u = Some m" using find_vt_item by auto
    have "substitute_all [(m, item_text o1)] x = replace_vt (item_text o1) x" if "x \<in> set texts" for x
      using str_replace_item [OF u] assms(7) that by (auto simp: substitute_all_def)
    then have "ds = map (replace_vt (item_text o1)) texts" by (simp add: ds e)
    moreover have "do_decrypt c ?a ?now [m] = Ok [o1]" using o1 by (simp add: do_decrypt_def)
    ultimately show ?thesis by blast
  qed
qed

text \<open>
  With two items the order of the map can decide what is written: when one item is a prefix of another
  (the same host, and a body that goes on), the order that handles the shorter one first turns the
  longer one into the plaintext of the shorter followed by a rest of the ciphertext.
\<close>

theorem prefix_item_order:
  assumes "vt_match m = Some m" and "vt_match (m @ u) = Some (m @ u)"
    and "\<not> contains v' m" and "\<not> contains (v @ u) (m @ u)"
  shows "substitute_all [(m @ u, v'), (m, v)] (m @ u) = v' \<and>
    substitute_all [(m, v), (m @ u, v')] (m @ u) = v @ u"
proof -
  have ne: "m \<noteq> []" using vt_match_prefix [OF assms(1)] by blast
  obtain host body where m: "m = ''vt://'' @ host @ ''/'' @ body" and host: "CHR ''/'' \<notin> set host"
    using vt_match_shape [OF assms(1)] .
  have colon: "CHR '':'' \<in> set m" by (simp add: m)
  have "takeWhile word_char (body @ u) = body @ u"
    using assms(2) by (simp add: m vt_match_def Let_def starts_with_def host_split [OF host] split: if_splits)
  then have words: "\<forall>x \<in> set u. word_char x"
    by (metis set_takeWhileD UnCI set_append)
  have self: "str_replace_ne p r p = r" if "p \<noteq> []" for p r
    using that by (cases p) (simp_all add: starts_with_def)
  have "\<not> contains u m"
    using colon words by (auto simp: contains_iff dest: bspec [of _ _ "CHR '':''"] simp: word_char_def Let_def)
  then have "str_replace u m v = u" by (rule str_replace_absent [OF ne])
  then have "str_replace (m @ u) m v = v @ u"
    using ne by (cases m) (simp_all add: str_replace_def starts_with_def)
  moreover have "str_replace (m @ u) (m @ u) v' = v'" using ne self by (simp add: str_replace_def)
  moreover have "str_replace v' m v = v'" by (rule str_replace_absent [OF ne assms(3)])
  moreover have "str_replace (v @ u) (m @ u) v' = v @ u" using ne by (intro str_replace_absent assms(4)) simp
  ultimately show ?thesis by (simp add: substitute_all_def)
qed


section \<open>Witnesses\<close>

text \<open>
  A template with the item \<open>vt://mac/9\<close>, whose type is not known, so that its text is the error message.
\<close>

definition demo_template :: "string option \<Rightarrow> (string \<Rightarrow> string option) \<Rightarrow> world" where
  "demo_template fe ee = demo_world\<lparr>files := [''/f'' \<mapsto> as_bytes ''k=vt://mac/9''], fork_err := fe, exec_err := ee\<rparr>"

definition demo_bench :: "string option \<Rightarrow> (string \<Rightarrow> string option) \<Rightarrow> system" where
  "demo_bench fe ee = demo_system\<lparr>sy_client := demo_template fe ee\<rparr>"

lemma demo_bench_sel [simp]:
  "sy_client (demo_bench fe ee) = demo_template fe ee" "sy_agent (demo_bench fe ee) = demo_agent"
  "sy_peer (demo_bench fe ee) = None" "fork_err (demo_template fe ee) = fe"
  "files (demo_template fe ee) = [''/f'' \<mapsto> as_bytes ''k=vt://mac/9'']" "write_err (demo_template fe ee) p = None"
  "exec_err (demo_template fe ee) = ee" "read_err (demo_template fe ee) p = None"
  by (simp_all add: demo_bench_def demo_template_def)

lemma demo_bench_seat: "demo_seat (demo_bench fe ee)"
  by (simp add: demo_seat_def demo_bench_def demo_template_def)

lemma hash_order_id: "hash_order_ok (\<lambda>m. m)"
  by (simp add: hash_order_ok_def)

lemma demo_find:
  "find_vt ''k=vt://mac/9'' = [''vt://mac/9'']" "find_vt ''cmd'' = []"
  "replace_vt ''unknown secret type'' ''k=vt://mac/9'' = ''k=unknown secret type''"
  "replace_vt ''unknown secret type'' ''cmd'' = ''cmd''"
  by code_simp+

lemma demo_nine: "do_decrypt demo_crates (AesGcmCrypto a) now [''vt://mac/9''] =
    Ok [\<lparr>cr_result = [], cr_err_message = ''unknown secret type''\<rparr>]"
  by (simp add: do_decrypt_def decrypt_item_def starts_with_def vt_prefix_def slice_from_def
      slice_to_def is_char_boundary_def is_cont_def tail_byte_def byte_of_def
      secret_type_from_str_def lower_ascii_def lower_char_def)

lemma demo_multi:
  assumes "args = [] \<or> args = [''cmd'']"
  shows "\<exists>t. decrypt_from_multi_str demo_crates (\<lambda>m. m) demo_lib demo_client (args @ [''k=vt://mac/9'']) cmd (demo_bench fe ee) =
    (Ok (args @ [''k=unknown secret type'']), t) \<and> sy_client t = drew_nonce (demo_template fe ee)"
proof -
  let ?texts = "args @ [''k=vt://mac/9'']"
  have enc: "concat (map find_vt ?texts) = [''vt://mac/9'']" using assms demo_find by auto
  let ?req = "\<lparr>dr_host = host_name (demo_template fe ee), dr_command = cmd, dr_items = [''vt://mac/9''], dr_descriptions = []\<rparr>"
  obtain t where t: "client_decrypt demo_crates demo_lib demo_client ?req (demo_bench fe ee) =
      (Ok [\<lparr>cr_result = [], cr_err_message = ''unknown secret type''\<rparr>], t)"
    and d: "sy_client t = drew_nonce (demo_template fe ee)"
    using demo_client_decrypt [OF _ demo_bench_seat, of ?req] demo_nine by fastforce
  have run: "decrypt_from_multi_str demo_crates (\<lambda>m. m) demo_lib demo_client ?texts cmd (demo_bench fe ee) =
      (Ok (map (substitute_all (secret_map [''vt://mac/9''] [''unknown secret type''])) ?texts), t)"
    by (simp only: decrypt_from_multi_str_def Let_def enc) (simp add: io_bind_def t item_text_def)
  have m: "secret_map [''vt://mac/9''] [''unknown secret type''] = [(''vt://mac/9'', ''unknown secret type'')]"
    by code_simp
  have "substitute_all [(''vt://mac/9'', ''unknown secret type'')] ''k=vt://mac/9'' = ''k=unknown secret type''"
    "substitute_all [(''vt://mac/9'', ''unknown secret type'')] ''cmd'' = ''cmd''"
    by code_simp+
  with run m assms d show ?thesis by auto
qed

lemma demo_inject:
  assumes "args = [] \<or> args = [''cmd'']"
  shows "\<exists>s1. inject demo_crates (\<lambda>m. m) demo_lib demo_client (Some ''/f'') None None 2 args (demo_bench fe ee) =
    in_client (inject_finish [] (Some ''/f'') None 2 (args @ [''k=unknown secret type''])) s1 \<and>
    sy_client s1 = drew_nonce (demo_template fe ee)"
proof -
  obtain s1 where s1: "decrypt_from_multi_str demo_crates (\<lambda>m. m) demo_lib demo_client (args @ [''k=vt://mac/9''])
      (shown_command args) (demo_bench fe ee) = (Ok (args @ [''k=unknown secret type'']), s1)"
    "sy_client s1 = drew_nonce (demo_template fe ee)"
    using demo_multi [OF assms] by blast
  have "from_utf8 (as_bytes ''k=vt://mac/9'') = Some ''k=vt://mac/9''" by code_simp
  then have rd: "in_client (io_context (''Failed to read file: '' @ ''/f'') (fs_read_to_string ''/f'')) (demo_bench fe ee) =
      (Ok ''k=vt://mac/9'', demo_bench fe ee)"
    by (simp add: in_client_def io_context_def io_map_err_def fs_read_to_string_def fs_read_def io_bind_def)
  have env: "in_client env_vt_vars (demo_bench fe ee) = (Ok [], demo_bench fe ee)"
    by (simp add: in_client_def env_vt_vars_def) (simp add: demo_bench_def demo_template_def)
  have "inject demo_crates (\<lambda>m. m) demo_lib demo_client (Some ''/f'') None None 2 args (demo_bench fe ee) =
      in_client (inject_finish [] (Some ''/f'') None 2 (args @ [''k=unknown secret type''])) s1"
    using s1(1) by (simp add: inject_def io_bind_def rd [simplified] env)
  with s1(2) show ?thesis by blast
qed


lemma demo_finish:
  assumes "w = drew_nonce (demo_template fe ee)"
  shows "\<exists>x v. inject_finish [] (Some ''/f'') None 2 (args @ [''k=unknown secret type'']) w = (x, v) \<and>
    (case fe of
       Some m \<Rightarrow> x = Err (Msg (''Failed to fork cleanup process: '' @ m)) \<and>
         files v = [''/f'' \<mapsto> as_bytes ''k=unknown secret type'', ''/f.vt'' \<mapsto> as_bytes ''k=vt://mac/9'']
     | None \<Rightarrow>
         (args = [] \<longrightarrow> (\<exists>ch. x = Ok (Finished, Some ch)) \<and>
            files v = [''/f'' \<mapsto> as_bytes ''k=unknown secret type'', ''/f.vt'' \<mapsto> as_bytes ''k=vt://mac/9'']) \<and>
         (\<forall>e. args = [''cmd''] \<and> ee ''cmd'' = Some e \<longrightarrow> x = Err (Msg (''Failed to execute command: '' @ e))))"
  by (cases fe)
    (auto simp: assms drew_nonce_def inject_finish_def fs_copy_def fs_read_def fs_write_def io_bind_def io_context_def
      io_map_err_def backup_path_def write_output_def fork_cleanup_def exec_command_def io_or_def restore_backup_def
      fs_rename_def fun_upd_twist split: list.splits option.splits)

theorem inject_cleans_up_witness:
  "\<exists>ch t v. inject demo_crates (\<lambda>m. m) demo_lib demo_client (Some ''/f'') None None 2 [] (demo_bench None (\<lambda>p. None)) =
       (Ok (Finished, Some ch), t) \<and>
     files (sy_client t) ''/f'' = Some (as_bytes ''k=unknown secret type'') \<and>
     cleanup_child ch (demo_world\<lparr>files := files (sy_client t)\<rparr>) = (Ok (), v) \<and>
     files v ''/f'' = Some (as_bytes ''k=vt://mac/9'') \<and> files v ''/f.vt'' = None"
proof -
  let ?s = "demo_bench None (\<lambda>p. None)"
  obtain s1 where s1: "inject demo_crates (\<lambda>m. m) demo_lib demo_client (Some ''/f'') None None 2 [] ?s =
      in_client (inject_finish [] (Some ''/f'') None 2 ([] @ [''k=unknown secret type''])) s1"
    "sy_client s1 = drew_nonce (demo_template None (\<lambda>p. None))"
    using demo_inject [of "[]"] by blast
  obtain ch w where fin: "inject_finish [] (Some ''/f'') None 2 ([] @ [''k=unknown secret type'']) (sy_client s1) = (Ok (Finished, Some ch), w)"
    and w: "files w = [''/f'' \<mapsto> as_bytes ''k=unknown secret type'', ''/f.vt'' \<mapsto> as_bytes ''k=vt://mac/9'']"
    using demo_finish [OF s1(2), of "[]"] by auto
  let ?t = "s1\<lparr>sy_client := w\<rparr>"
  have run: "inject demo_crates (\<lambda>m. m) demo_lib demo_client (Some ''/f'') None None 2 [] ?s = (Ok (Finished, Some ch), ?t)"
    using s1(1) fin by (simp add: in_client_def)
  obtain v where "cleanup_child ch (demo_world\<lparr>files := files (sy_client ?t)\<rparr>) = (Ok (), v)"
    "files v = cleaned (Some ''/f'') None (files (sy_client ?s))"
    using inject_cleans_up [OF run, of "demo_world\<lparr>files := files (sy_client ?t)\<rparr>"] by auto
  with run w show ?thesis by (intro exI conjI) (auto simp: cleaned_def backup_path_def)
qed

theorem inject_failure_cleans_witness:
  "\<exists>t. inject demo_crates (\<lambda>m. m) demo_lib demo_client (Some ''/f'') None None 2 [''cmd'']
       (demo_bench None (\<lambda>p. Some ''not found'')) = (Err (Msg ''Failed to execute command: not found''), t) \<and>
     files (sy_client t) = [''/f'' \<mapsto> as_bytes ''k=vt://mac/9'']"
proof -
  let ?s = "demo_bench None (\<lambda>p. Some ''not found'')"
  obtain s1 where s1: "inject demo_crates (\<lambda>m. m) demo_lib demo_client (Some ''/f'') None None 2 [''cmd''] ?s =
      in_client (inject_finish [] (Some ''/f'') None 2 ([''cmd''] @ [''k=unknown secret type''])) s1"
    "sy_client s1 = drew_nonce (demo_template None (\<lambda>p. Some ''not found''))"
    using demo_inject [of "[''cmd'']"] by blast
  obtain w where fin: "inject_finish [] (Some ''/f'') None 2 ([''cmd''] @ [''k=unknown secret type'']) (sy_client s1) =
      (Err (Msg ''Failed to execute command: not found''), w)"
    using demo_finish [OF s1(2), of "[''cmd'']"] by auto
  have run: "inject demo_crates (\<lambda>m. m) demo_lib demo_client (Some ''/f'') None None 2 [''cmd''] ?s =
      (Err (Msg ''Failed to execute command: not found''), s1\<lparr>sy_client := w\<rparr>)"
    using s1(1) fin by (simp add: in_client_def)
  from inject_failure_cleans [OF run]
  have "files (sy_client (s1\<lparr>sy_client := w\<rparr>)) = [''/f'' \<mapsto> as_bytes ''k=vt://mac/9'']"
    by (auto simp: cleaned_def backup_path_def fun_upd_idem)
  with run show ?thesis by blast
qed

theorem inject_fork_failure_witness:
  "\<exists>t. inject demo_crates (\<lambda>m. m) demo_lib demo_client (Some ''/f'') None None 2 [] (demo_bench (Some ''EAGAIN'') (\<lambda>p. None)) =
       (Err (Msg ''Failed to fork cleanup process: EAGAIN''), t) \<and>
     files (sy_client t) ''/f'' = Some (as_bytes ''k=unknown secret type'') \<and>
     files (sy_client t) ''/f.vt'' = Some (as_bytes ''k=vt://mac/9'')"
proof -
  let ?s = "demo_bench (Some ''EAGAIN'') (\<lambda>p. None)"
  obtain s1 where s1: "inject demo_crates (\<lambda>m. m) demo_lib demo_client (Some ''/f'') None None 2 [] ?s =
      in_client (inject_finish [] (Some ''/f'') None 2 ([] @ [''k=unknown secret type''])) s1"
    "sy_client s1 = drew_nonce (demo_template (Some ''EAGAIN'') (\<lambda>p. None))"
    using demo_inject [of "[]"] by blast
  obtain w where fin: "inject_finish [] (Some ''/f'') None 2 ([] @ [''k=unknown secret type'']) (sy_client s1) =
      (Err (Msg ''Failed to fork cleanup process: EAGAIN''), w)"
    and w: "files w = [''/f'' \<mapsto> as_bytes ''k=unknown secret type'', ''/f.vt'' \<mapsto> as_bytes ''k=vt://mac/9'']"
    using demo_finish [OF s1(2), of "[]"] by auto
  let ?t = "s1\<lparr>sy_client := w\<rparr>"
  have run: "inject demo_crates (\<lambda>m. m) demo_lib demo_client (Some ''/f'') None None 2 [] ?s =
      (Err (Msg (''Failed to fork cleanup process: '' @ ''EAGAIN'')), ?t)"
    using s1(1) fin by (simp add: in_client_def)
  have "\<forall>q. write_err (sy_client ?s) q = None" "fork_err (sy_client ?s) = Some ''EAGAIN''" "0 < (2 :: u32)"
    "files (sy_client ?t) \<noteq> files (sy_client ?s)"
    by (simp_all add: w fun_eq_iff) (metis)
  from inject_fork_failure [OF run this(1-3) refl this(4)] w
  have "files (sy_client ?t) ''/f.vt'' = Some (as_bytes ''k=vt://mac/9'')"
    "files (sy_client ?t) ''/f'' = Some (as_bytes ''k=unknown secret type'')"
    by (auto simp: backup_path_def)
  with run show ?thesis by auto
qed


theorem inject_needs_consent_witness:
  "\<exists>y t. inject demo_crates (\<lambda>m. m) demo_lib demo_client (Some ''/f'') None None 2 [] (demo_bench None (\<lambda>p. None)) =
       (Ok y, t) \<and> touched demo_agent (sy_agent t)"
proof -
  let ?s = "demo_bench None (\<lambda>p. None)"
  obtain s1 where s1: "inject demo_crates (\<lambda>m. m) demo_lib demo_client (Some ''/f'') None None 2 [] ?s =
      in_client (inject_finish [] (Some ''/f'') None 2 ([] @ [''k=unknown secret type''])) s1"
    "sy_client s1 = drew_nonce (demo_template None (\<lambda>p. None))"
    using demo_inject [of "[]"] by blast
  obtain y w where "inject_finish [] (Some ''/f'') None 2 ([] @ [''k=unknown secret type'']) (sy_client s1) = (Ok y, w)"
    using demo_finish [OF s1(2), of "[]"] by auto
  then have run: "inject demo_crates (\<lambda>m. m) demo_lib demo_client (Some ''/f'') None None 2 [] ?s =
      (Ok y, s1\<lparr>sy_client := w\<rparr>)"
    using s1(1) by (simp add: in_client_def)
  have laws: "serde_ok (js_decrypt_req demo_crates)" "serde_ok (js_results demo_crates)"
    "decode_auth_cipher_from_b64 demo_crates (vc_auth_token demo_client) = Ok (ag_auth_token (sy_agent ?s))"
    by (simp_all add: demo_serde_ok demo_token)
  from inject_needs_consent [OF demo_aead_ok laws _ run]
  have "touched (sy_agent ?s) (sy_agent (s1\<lparr>sy_client := w\<rparr>))"
    by (auto simp: cached_grant_def context_id_def)
  then have "touched demo_agent (sy_agent (s1\<lparr>sy_client := w\<rparr>))" by simp
  with run show ?thesis by blast
qed

theorem single_item_replaced_witness:
  "\<exists>t. decrypt_from_multi_str demo_crates (\<lambda>m. m) demo_lib demo_client [''cmd'', ''k=vt://mac/9''] ''[inject] cmd''
     (demo_bench None (\<lambda>p. None)) = (Ok [''cmd'', ''k=unknown secret type''], t)"
proof -
  let ?s = "demo_bench None (\<lambda>p. None)"
  obtain ds t where run: "decrypt_from_multi_str demo_crates (\<lambda>m. m) demo_lib demo_client [''cmd'', ''k=vt://mac/9'']
      ''[inject] cmd'' ?s = (Ok ds, t)"
    using demo_multi [of "[''cmd'']"] by fastforce
  have laws: "serde_ok (js_decrypt_req demo_crates)" "serde_ok (js_results demo_crates)"
    "decode_auth_cipher_from_b64 demo_crates (vc_auth_token demo_client) = Ok (ag_auth_token (sy_agent ?s))"
    "vc_base_url demo_client = None"
    by (simp_all add: demo_serde_ok demo_token)
  have one: "\<forall>x \<in> set (concat (map find_vt [''cmd'', ''k=vt://mac/9''])). x = ''vt://mac/9''"
    by (simp add: demo_find)
  from single_item_replaced [OF demo_aead_ok laws hash_order_id one run]
  have "ds = [''cmd'', ''k=unknown secret type'']"
    by (simp add: demo_find demo_nine item_text_def)
  with run show ?thesis by blast
qed

theorem prefix_item_order_witness:
  "substitute_all [(''vt://mac/0ab'', ''second''), (''vt://mac/0a'', ''first'')] ''vt://mac/0ab'' = ''second'' \<and>
   substitute_all [(''vt://mac/0a'', ''first''), (''vt://mac/0ab'', ''second'')] ''vt://mac/0ab'' = ''firstb''"
proof -
  have "vt_match ''vt://mac/0a'' = Some ''vt://mac/0a''" "vt_match (''vt://mac/0a'' @ ''b'') = Some (''vt://mac/0a'' @ ''b'')"
    "\<not> contains ''second'' ''vt://mac/0a''" "\<not> contains (''first'' @ ''b'') (''vt://mac/0a'' @ ''b'')"
    by code_simp+
  from prefix_item_order [OF this] show ?thesis by simp
qed

end
