(* ===== verification/Vt_Transfer.thy ===== *)
theory Vt_Transfer
  imports Vt_Commands Vt_Ssh_Cli
begin

text \<open>
  Moving the master secret between machines: \<open>init\<close>, \<open>export_secret\<close> and \<open>import_secret\<close> of
  \<open>src/cli.rs\<close>.  The master passphrase leaves the machine sealed under a key derived from a typed
  passphrase, and is stored again for the key of another device.
\<close>

section \<open>Operations\<close>

definition print_token :: "string \<Rightarrow> string \<Rightarrow> unit wio" where
  "print_token done vt_auth =
     io_seq (println ([CHR 0x0A] @ done)) (
     io_seq (println ''Export this token to use vt-yubi:'') (
     println (''  export VT_AUTH='' @ vt_auth)))"

definition init :: "crates \<Rightarrow> string option \<Rightarrow> unit wio" where
  "init c pubkey =
     io_bind (case pubkey of
         Some path \<Rightarrow> yubikey_init_with_pubkey c path
       | None \<Rightarrow> yubikey_init c) (\<lambda>vt_auth.
     print_token ''Initialization complete!'' vt_auth)"

text \<open>The cipher of the typed passphrase: two rounds of SHA-256.\<close>

definition master_cipher :: "crates \<Rightarrow> aes_gcm_crypto wio" where
  "master_cipher c =
     io_bind (prompt_input_password ''Enter master secret passphrase: '' ''Master secret passphrase entered: '')
       (\<lambda>master_secret_passphrase.
     let hash = sha256 c (sha256 c (as_bytes master_secret_passphrase));
         key = take 32 hash in
     io_context ''Failed to create AES-GCM cipher for master secret'' (io_of (aes_new key)))"

definition export_secret :: "crates \<Rightarrow> unit wio" where
  "export_secret c =
     io_bind (open_and_verify_pin c) (\<lambda>pin.
     io_bind (load_passphrase c) (\<lambda>passphrase.
     io_bind (master_cipher c) (\<lambda>export_cipher.
     io_bind (io_context ''Failed to encrypt master secret'' (aes_encrypt c export_cipher passphrase)) (\<lambda>encrypted.
     println (''Encrypted master secret (base64): '' @ b64url_encode c encrypted)))))"

definition import_passphrase :: "crates \<Rightarrow> bytes wio" where
  "import_passphrase c =
     io_bind (prompt_input_password ''Enter master secret: '' ''Master secret entered: '') (\<lambda>master_secret.
     io_bind (io_of (of_sum Msg (b64url_decode c (as_bytes master_secret)))) (\<lambda>encrypted_passphrase_bytes.
     io_bind (master_cipher c) (\<lambda>import_cipher.
     io_bind (io_of (aes_decrypt c import_cipher encrypted_passphrase_bytes)) (\<lambda>passphrase_bytes.
     io_seq (io_of (ensure (length passphrase_bytes = 32)
              (Msg ''Decrypted passphrase must be exactly 32 bytes''))) (
     io_ret passphrase_bytes)))))"

definition import_secret :: "crates \<Rightarrow> unit wio" where
  "import_secret c =
     io_bind (io_attempt (load_config c)) (\<lambda>config. case config of
       Inr _ \<Rightarrow> io_fail (Msg ''Already initialized. Delete ~/.vt-yubi to re-initialize.'')
     | Inl _ \<Rightarrow>
         io_bind (import_passphrase c) (\<lambda>passphrase.
         io_seq (println ''Now initializing YubiKey PIV key for this device...'') (
         io_bind (yubikey_init c) (\<lambda>vt_auth.
         io_seq (reencrypt_passphrase c passphrase)
           (print_token ''Import complete!'' vt_auth)))))"


section \<open>What is typed, and what is kept\<close>

definition same_typed :: "world \<Rightarrow> world \<Rightarrow> bool" where
  "same_typed w v \<longleftrightarrow> typed v = typed w"

interpretation sametyped: frame_rel same_typed
  by unfold_locales (auto simp: same_typed_def)

lemmas sametyped_frame [frame_intros] = sametyped.all

lemma same_typed_prims [frame_intros]:
  "within same_typed home_dir" "within same_typed (fs_exists p)" "within same_typed (fs_read p)"
  "within same_typed (dev_call ev f)" "within same_typed (notify_touch m)" "within same_typed (println l)"
  by (auto simp: within_def same_typed_def fs_defs notify_touch_def dev_call_def Let_def
      split: option.splits sum.splits prod.splits)

lemma same_typed_text [frame_intros]: "within same_typed (fs_read_to_string p)"
  unfolding fs_read_to_string_def by (intro frame_intros)

lemma same_typed_backend [frame_intros]:
  "within same_typed (load_passphrase c)" "within same_typed (load_config c)" "within same_typed yk_open"
  "within same_typed (yk_verify_pin pin)"
  unfolding load_passphrase_def load_config_def path_defs read_ecies_file_def ecies_decrypt_def yk_prim_defs
  by (intro frame_intros)+

lemma typed_prompt:
  assumes "typed w = Inr a # ts" and "prompt_input_password x y w = (Ok s, v)"
  shows "s = trim a \<and> typed v = ts"
  using assms
  by (auto simp: prompt_input_password_def prompt_password_def io_eval_defs Let_def slice_to_def slice_from_def
      split: if_splits)

lemma typed_pin:
  assumes "typed w = Inr a # ts" and "open_and_verify_pin c w = (Ok pin, v)"
  shows "typed v = ts"
proof -
  from assms(2) obtain cfg w1 w2 raw w3 where "load_config c w = (Ok cfg, w1)" and "yk_open w1 = (Ok (), w2)"
    and p: "prompt_password ''YubiKey PIN: '' w2 = (Ok raw, w3)" and "yk_verify_pin (as_bytes (trim raw)) w3 = (Ok (), v)"
    by (auto simp: open_and_verify_pin_def io_bind_eq_Ok Let_def)
  then have "typed w2 = typed w" and "typed v = typed w3"
    using withinD [OF same_typed_backend(2)] withinD [OF same_typed_backend(3)] withinD [OF same_typed_backend(4)]
    by (force simp: same_typed_def)+
  with assms(1) p show ?thesis by (auto simp: prompt_password_def)
qed

definition typed_cipher :: "crates \<Rightarrow> string \<Rightarrow> aes_gcm_crypto" where
  "typed_cipher c text = AesGcmCrypto (take 32 (sha256 c (sha256 c (as_bytes (trim text)))))"

lemma master_cipher_typed:
  assumes "typed w = Inr a # ts" and "master_cipher c w = (Ok k, v)"
  shows "k = typed_cipher c a"
  using assms(2) typed_prompt [OF assms(1)]
  by (auto simp: master_cipher_def io_bind_eq_Ok Let_def aes_new_eq_Ok typed_cipher_def)

lemma export_OkE:
  assumes "export_secret c w = (Ok (), v)" and "typed w = Inr pin # Inr pw # ts"
  obtains q w1 p w2 ct w3 w4 where "open_and_verify_pin c w = (Ok q, w1)" and "load_passphrase c w1 = (Ok p, w2)"
    and "aes_encrypt c (typed_cipher c pw) p w3 = (Ok ct, w4)"
    and "v = w4\<lparr>stdout := stdout w4 @ [''Encrypted master secret (base64): '' @ b64url_encode c ct @ [CHR 0x0A]]\<rparr>"
proof -
  from assms(1) obtain q w1 p w2 k w3 ct w4 where 1: "open_and_verify_pin c w = (Ok q, w1)"
    and 2: "load_passphrase c w1 = (Ok p, w2)" and 3: "master_cipher c w2 = (Ok k, w3)"
    and 4: "aes_encrypt c k p w3 = (Ok ct, w4)"
    and 5: "v = w4\<lparr>stdout := stdout w4 @ [''Encrypted master secret (base64): '' @ b64url_encode c ct @ [CHR 0x0A]]\<rparr>"
    by (auto simp: export_secret_def io_bind_eq_Ok)
  have "typed w2 = Inr pw # ts"
    using typed_pin [OF assms(2) 1] withinD [OF same_typed_backend(1) 2] by (simp add: same_typed_def)
  from master_cipher_typed [OF this 3] 4 have "aes_encrypt c (typed_cipher c pw) p w3 = (Ok ct, w4)" by simp
  from that [OF 1 2 this 5] show thesis .
qed

lemma import_passphrase_OkE:
  assumes "import_passphrase c w = (Ok p, v)" and "typed w = Inr x # Inr pw # ts"
  obtains bs where "b64url_decode c (as_bytes (trim x)) = Inr bs"
    and "aes_decrypt c (typed_cipher c pw) bs = Ok p" and "length p = 32"
proof -
  from assms(1) obtain s w1 bs k where 1: "prompt_input_password ''Enter master secret: '' ''Master secret entered: '' w = (Ok s, w1)"
    and 2: "b64url_decode c (as_bytes s) = Inr bs" and 3: "master_cipher c w1 = (Ok k, v)"
    and 4: "aes_decrypt c k bs = Ok p" "length p = 32"
    by (auto simp: import_passphrase_def io_bind_eq_Ok ensure_def split: if_splits)
  note t = typed_prompt [OF assms(2) 1]
  from that [of bs] 2 4 t master_cipher_typed [OF conjunct2 [OF t] 3] show thesis by simp
qed

text \<open>Re-encryption stores the given passphrase for the configured public key.\<close>

lemma load_config_OkE:
  assumes "load_config c w = (Ok cfg, u)" and "home w = Some h"
  obtains bs where "files w (vt_file h ''config.toml'') = Some bs" and "de (toml_config c) bs = Inr cfg" and "u = w"
proof -
  from assms have "\<exists>bs. files w (vt_file h ''config.toml'') = Some bs \<and> de (toml_config c) bs = Inr cfg \<and> u = w"
    by (auto simp: load_config_def io_bind_eq_Ok paths_Ok fs_read_to_string_def fs_read_def
        dest: from_utf8_rust_str split: option.splits)
  with that show thesis by blast
qed

lemma reencrypt_stored:
  assumes "aead_ok c" and "serde_ok (js_ecies c)" and "reencrypt_passphrase c p w = (Ok (), v)" and "home w = Some h"
    and "files w (vt_file h ''config.toml'') = Some data" and "de (toml_config c) data = Inr cfg"
    and "parse_piv_public_key c (cfg_piv_public_key_der cfg) = Ok pub"
  shows "stored c (files v) (vt_file h ''passphrase.enc'') pub p"
proof -
  from assms(3) obtain cfg' w1 pub' ct w2 pp w3 where 1: "load_config c w = (Ok cfg', w1)"
    and 2: "parse_piv_public_key c (cfg_piv_public_key_der cfg') = Ok pub'"
    and 3: "ecies_encrypt c pub' p w1 = (Ok ct, w2)" and 4: "passphrase_path w2 = (Ok pp, w3)"
    and 5: "write_ecies_file c pp ct w3 = (Ok (), v)"
    by (auto simp: reencrypt_passphrase_def io_bind_eq_Ok)
  have "w1 = w" "cfg' = cfg"
    using load_config_OkE [OF 1 assms(4)] assms(5,6) by auto
  moreover from this have "home w2 = Some h"
    using withinD [OF same_env_ecies(1) 3] assms(4) by (simp add: same_env_def)
  ultimately show ?thesis
    using 2 4 write_ecies_stored [OF assms(2) ecies_encrypt_sound [OF assms(1) 3] 5] assms(7)
    by (auto simp: paths_Ok)
qed


lemma init_env_frames [frame_intros]:
  "within same_env (write_fresh_secrets c pub cfg)" "within same_env (print_token d a)"
  "within same_files (print_token d a)"
  unfolding write_fresh_secrets_def print_token_def generate_key_def Let_def
  by (intro frame_intros)+

lemma import_passphrase_frames [frame_intros]:
  "within same_files (import_passphrase c)" "within same_env (import_passphrase c)"
  "within same_device (import_passphrase c)"
  unfolding import_passphrase_def master_cipher_def prompt_input_password_def Let_def
  by (intro frame_intros)+

lemma write_fresh_config:
  assumes "write_fresh_secrets c pub cfg w = (Ok a, v)" and "home w = Some h"
  shows "\<exists>data. ser (toml_config c) cfg = Inr data \<and> files v (vt_file h ''config.toml'') = Some data"
proof -
  from assms(1) obtain u where u: "save_config c cfg u = (Ok (), v)"
    unfolding write_fresh_secrets_def Let_def io_seq_def by (auto elim!: io_bind_OkE)
  have "within same_env (save_config c cfg)" by (intro frame_intros)
  from withinD [OF this u] have "home u = Some h"
    using withinD [OF init_env_frames(1) assms(1)] assms(2) by (simp add: same_env_def)
  from save_config_files [OF u this] show ?thesis by auto
qed

lemma import_OkE:
  assumes "import_secret c w = (Ok (), v)" and "home w = Some h"
    and "aead_ok c" and "serde_ok (js_ecies c)" and "serde_ok (toml_config c)"
  obtains w1 p w2 info t der pub where "import_passphrase c w1 = (Ok p, w2)" and "same_typed w w1"
    and "dev_generate (dev w) t = Inr info" and "spki_to_der c info = Inr der" and "parse_piv_public_key c der = Ok pub"
    and "stored c (files v) (vt_file h ''passphrase.enc'') pub p"
proof -
  let ?rest = "io_bind (import_passphrase c) (\<lambda>passphrase.
         io_seq (println ''Now initializing YubiKey PIV key for this device...'') (
         io_bind (yubikey_init c) (\<lambda>vt_auth.
         io_seq (reencrypt_passphrase c passphrase)
           (print_token ''Import complete!'' vt_auth))))"
  obtain b w1 where 0: "io_attempt (load_config c) w = (Ok b, w1)"
    and r: "(case b of Inr _ \<Rightarrow> io_fail (Msg ''Already initialized. Delete ~/.vt-yubi to re-initialize.'')
      | Inl _ \<Rightarrow> ?rest) w1 = (Ok (), v)"
    using assms(1) unfolding import_secret_def by (rule io_bind_OkE)
  obtain e where "b = Inl e" using r by (cases b) auto
  with 0 r have 1: "io_attempt (load_config c) w = (Ok (Inl e), w1)" and r1: "?rest w1 = (Ok (), v)" by simp_all
  from r1 obtain p w2 a w4 w5 where 2: "import_passphrase c w1 = (Ok p, w2)"
    and 4: "yubikey_init c (w2\<lparr>stdout := stdout w2 @ [''Now initializing YubiKey PIV key for this device...'' @ [CHR 0x0A]]\<rparr>)
      = (Ok a, w4)"
    and 5: "reencrypt_passphrase c p w4 = (Ok (), w5)" and 6: "print_token ''Import complete!'' a w5 = (Ok (), v)"
    by (auto simp: io_bind_eq_Ok)
  let ?w3 = "w2\<lparr>stdout := stdout w2 @ [''Now initializing YubiKey PIV key for this device...'' @ [CHR 0x0A]]\<rparr>"
  have "within same_env (io_attempt (load_config c))" "within same_typed (io_attempt (load_config c))"
    by (intro frame_intros)+
  note l = this [THEN withinD, OF 1]
  have "same_env w ?w3"
    using l(1) withinD [OF import_passphrase_frames(2) 2] by (simp add: same_env_def)
  moreover obtain u info der pub cfg where g: "dev_generate (dev ?w3) (Suc (Suc (dev_tick ?w3))) = Inr info"
    "spki_to_der c info = Inr der" "parse_piv_public_key c der = Ok pub" and u: "same_env ?w3 u"
    and f: "write_fresh_secrets c pub cfg u = (Ok a, w4)" and der: "cfg_piv_public_key_der cfg = der"
    using 4 by (rule yubikey_init_OkE)
  moreover have h: "home u = Some h" "home w4 = Some h"
    using \<open>same_env w ?w3\<close> u withinD [OF init_env_frames(1) f] assms(2) by (simp_all add: same_env_def)
  obtain data where "ser (toml_config c) cfg = Inr data" and data: "files w4 (vt_file h ''config.toml'') = Some data"
    using write_fresh_config [OF f h(1)] by blast
  then have "de (toml_config c) data = Inr cfg" using serde_okD [OF assms(5)] by blast
  from reencrypt_stored [OF assms(3,4) 5 h(2) data this] g(3) der
  have "stored c (files w5) (vt_file h ''passphrase.enc'') pub p" by simp
  moreover have "files v = files w5" using withinD [OF init_env_frames(3) 6] by (simp add: same_files_def)
  ultimately show thesis using that [OF 2 l(2), of _ info der pub] by (simp add: same_env_def)
qed

lemma same_device_text [frame_intros]: "within same_device (fs_read_to_string p)"
  unfolding fs_read_to_string_def by (intro frame_intros)

section \<open>The master secret moves\<close>

text \<open>
  C16. Backup and restore: the text \<open>secret export\<close> printed on one machine, given to \<open>secret import\<close> on
  another with the same passphrase (up to surrounding white space), makes the new device recover, with a
  touch, the very master passphrase of the old one; so every item encrypted there decrypts here.
\<close>

theorem export_then_import:
  assumes "aead_ok c" and "base64_ok c" and "serde_ok (js_ecies c)" and "serde_ok (toml_config c)"
    and "typed w = Inr pin # Inr pw # ts" and "export_secret c w = (Ok (), v)"
    and "typed u = Inr x # Inr pw' # ts'" and "trim pw' = trim pw"
    and "last (stdout v) = ''Encrypted master secret (base64): '' @ trim x @ [CHR 0x0A]"
    and "import_secret c u = (Ok (), u')"
    and "home u = Some h" and "home z = Some h" and "files z = files u'" and "\<forall>p. read_err z p = None"
    and "\<forall>t info der pub. dev_generate (dev u) t = Inr info \<longrightarrow> spki_to_der c info = Inr der \<longrightarrow>
           parse_piv_public_key c der = Ok pub \<longrightarrow> piv_matches c (dev z) pub"
    and "touch_at (dev z) (dev_tick z)"
  shows "\<exists>p. (\<exists>q w1 w2. open_and_verify_pin c w = (Ok q, w1) \<and> load_passphrase c w1 = (Ok p, w2)) \<and>
    (\<exists>z'. load_passphrase c z = (Ok p, z'))"
proof -
  obtain q w1 p w2 ct w3 w4 where old: "open_and_verify_pin c w = (Ok q, w1)" "load_passphrase c w1 = (Ok p, w2)"
    and enc: "aes_encrypt c (typed_cipher c pw) p w3 = (Ok ct, w4)"
    and v: "v = w4\<lparr>stdout := stdout w4 @ [''Encrypted master secret (base64): '' @ b64url_encode c ct @ [CHR 0x0A]]\<rparr>"
    using assms(6,5) by (rule export_OkE)
  have x: "trim x = b64url_encode c ct" using assms(9) by (simp add: v)
  obtain u1 p' u2 info t der pub where imp: "import_passphrase c u1 = (Ok p', u2)" and ty: "same_typed u u1"
    and g: "dev_generate (dev u) t = Inr info" "spki_to_der c info = Inr der" "parse_piv_public_key c der = Ok pub"
    and st: "stored c (files u') (vt_file h ''passphrase.enc'') pub p'"
    using assms(10,11,1,3,4) by (rule import_OkE)
  obtain bs where bs: "b64url_decode c (as_bytes (trim x)) = Inr bs" "aes_decrypt c (typed_cipher c pw') bs = Ok p'"
    and len: "length p' = 32"
    using ty assms(7) by (auto simp: same_typed_def elim!: import_passphrase_OkE [OF imp])
  have "bs = ct" using bs(1) assms(2) by (simp add: x base64_ok_def)
  moreover have "typed_cipher c pw' = typed_cipher c pw" by (simp add: typed_cipher_def assms(8))
  ultimately have "p' = p" using bs(2) aes_decrypt_encrypt [OF assms(1) enc] by simp
  moreover have "piv_matches c (dev z) pub" using assms(15) g by blast
  ultimately have "\<exists>z'. load_passphrase c z = (Ok p, z')"
    using st len assms(12-14,16) by (intro load_passphrase_stored [where h = h and pub = pub]) simp_all
  with old show ?thesis by blast
qed

text \<open>
  \<open>secret import\<close> is careful: unless the pasted text opens, under the passphrase typed with it, to 32
  bytes, and the directory has no readable configuration, it fails with no file written and the device
  not used; in particular a wrong passphrase never costs a PIV key, and an initialised directory is kept.
\<close>

theorem import_writes_only_verified:
  assumes "typed w = Inr x # Inr pw # ts" and "import_secret c w = (r, v)"
    and "files v \<noteq> files w \<or> yk_log v \<noteq> yk_log w"
  shows "(\<forall>cfg. fst (load_config c w) \<noteq> Ok cfg) \<and>
    (\<exists>bs p. b64url_decode c (as_bytes (trim x)) = Inr bs \<and>
       aes_decrypt c (AesGcmCrypto (take 32 (sha256 c (sha256 c (as_bytes (trim pw)))))) bs = Ok p \<and> length p = 32)"
proof -
  obtain a w1 where a: "io_attempt (load_config c) w = (a, w1)" by fastforce
  have "within same_files (io_attempt (load_config c))" "within same_typed (io_attempt (load_config c))"
    "within same_device (io_attempt (load_config c))"
    unfolding load_config_def path_defs by (intro frame_intros)+
  note l = this [THEN withinD, OF a]
  have "\<exists>e. a = Ok (Inl e)"
  proof (rule ccontr)
    assume no: "\<nexists>e. a = Ok (Inl e)"
    have "v = w1"
    proof (cases a)
      case (Ok y)
      with no a assms(2) show ?thesis by (cases y) (auto simp: import_secret_def io_bind_def)
    qed (use a assms(2) in \<open>auto simp: import_secret_def io_bind_def\<close>)
    with l assms(3) show False by (simp add: same_files_def same_device_def)
  qed
  then obtain e where e: "a = Ok (Inl e)" by blast
  obtain b w2 where b: "import_passphrase c w1 = (b, w2)" by fastforce
  have "\<exists>p. b = Ok p"
  proof (rule ccontr)
    assume "\<nexists>p. b = Ok p"
    with a e b assms(2) have "v = w2" by (cases b) (auto simp: import_secret_def io_bind_def)
    with l assms(3) withinD [OF import_passphrase_frames(1) b] withinD [OF import_passphrase_frames(3) b]
    show False by (simp add: same_files_def same_device_def)
  qed
  then obtain p where "import_passphrase c w1 = (Ok p, w2)" using b by blast
  then obtain bs where "b64url_decode c (as_bytes (trim x)) = Inr bs" "aes_decrypt c (typed_cipher c pw) bs = Ok p"
    "length p = 32"
    using l(2) assms(1) by (auto simp: same_typed_def elim!: import_passphrase_OkE)
  moreover have "fst (load_config c w) \<noteq> Ok cfg" for cfg
    using a e by (cases "load_config c w") (auto simp: io_attempt_def split: outcome.splits)
  ultimately show ?thesis unfolding typed_cipher_def by blast
qed


section \<open>Witnesses\<close>

lemma demo_letter_black: "n < 16 \<Longrightarrow> \<not> is_white [demo_letter n]"
  by (auto simp: is_white_def white_chars_def demo_letter_def)

lemma demo_b64_black: "list_all (\<lambda>x. \<not> is_white [x]) (demo_b64 bs)"
  by (induction bs) (simp_all add: demo_letter_black nibbles)

lemma length_demo_b64: "length (demo_b64 bs) = 2 * length bs"
  by (induction bs) simp_all

lemma trim_black:
  assumes "list_all ascii_char s" and "list_all (\<lambda>x. \<not> is_white [x]) s"
  shows "trim s = s"
proof -
  have keep: "dropWhile is_white (map (\<lambda>x. [x]) xs) = map (\<lambda>x. [x]) xs"
    if "list_all (\<lambda>x. \<not> is_white [x]) xs" for xs
    using that by (cases xs) simp_all
  have "dropWhile is_white (rev (map (\<lambda>x. [x]) s)) = rev (map (\<lambda>x. [x]) s)"
    using keep [of "rev s"] assms(2) by (simp add: rev_map)
  then show ?thesis
    using keep [OF assms(2)] by (simp add: trim_def utf8_chars_ascii [OF assms(1)])
qed

lemma ascii_boundary: "list_all ascii_char s \<Longrightarrow> i \<le> length s \<Longrightarrow> is_char_boundary s i"
  by (auto simp: is_char_boundary_def list_all_length ascii_not_cont)

lemma prompt_runs:
  assumes "typed w = Inr s # ts" and "list_all ascii_char s" and "list_all (\<lambda>x. \<not> is_white [x]) s" and "2 \<le> length s"
  shows "\<exists>l. prompt_input_password a b w = (Ok s, w\<lparr>typed := ts, stdout := l\<rparr>)"
  using assms
  by (auto simp: prompt_input_password_def prompt_password_def io_eval_defs trim_black slice_to_def slice_from_def
      ascii_boundary Let_def)

lemma master_text: "list_all ascii_char ''master''" "list_all (\<lambda>x. \<not> is_white [x]) ''master''" "trim ''master'' = ''master''"
proof -
  show 1: "list_all ascii_char ''master''" by (simp add: ascii_char_def byte_of_def)
  show 2: "list_all (\<lambda>x. \<not> is_white [x]) ''master''" by (simp add: is_white_def white_chars_def)
  show "trim ''master'' = ''master''" by (rule trim_black [OF 1 2])
qed

lemma demo_master_cipher:
  assumes "typed w = Inr ''master'' # ts"
  shows "\<exists>l. master_cipher demo_crates w = (Ok (typed_cipher demo_crates ''master''), w\<lparr>typed := ts, stdout := l\<rparr>)"
proof -
  have "2 \<le> length ''master''" by simp
  from prompt_runs [OF assms master_text(1,2) this] obtain l where
    "prompt_input_password ''Enter master secret passphrase: '' ''Master secret passphrase entered: '' w =
      (Ok ''master'', w\<lparr>typed := ts, stdout := l\<rparr>)" by blast
  then show ?thesis
    by (intro exI [of _ l]) (simp add: master_cipher_def io_bind_def aes_new_def Let_def typed_cipher_def master_text
        demo_sha_def io_context_def io_map_err_def)
qed

definition demo_exporter :: world where
  "demo_exporter = (demo_vault [])\<lparr>typed := [Inr ''123456'', Inr ''master'']\<rparr>"

lemma demo_export:
  "\<exists>v ct w3 w4. export_secret demo_crates demo_exporter = (Ok (), v) \<and>
     aes_encrypt demo_crates (typed_cipher demo_crates ''master'') vault_pass w3 = (Ok ct, w4) \<and>
     last (stdout v) = ''Encrypted master secret (base64): '' @ demo_b64 ct @ [CHR 0x0A]"
proof -
  have ty: "typed demo_exporter = Inr ''123456'' # [Inr ''master'']" by (simp add: demo_exporter_def)
  have vault: "in_vault demo_exporter" unfolding demo_exporter_def by (rule in_vault_demo)
  obtain q w1 where pin: "open_and_verify_pin demo_crates demo_exporter = (Ok q, w1)" and "in_vault w1"
    using vault_pin [OF vault ty] by blast
  obtain w2 where pass: "load_passphrase demo_crates w1 = (Ok vault_pass, w2)"
    using vault_passphrase [OF \<open>in_vault w1\<close>] by blast
  have "typed w2 = [Inr ''master'']"
    using typed_pin [OF ty pin] withinD [OF same_typed_backend(1) pass] by (simp add: same_typed_def)
  from demo_master_cipher [OF this] obtain w3 where
    k: "master_cipher demo_crates w2 = (Ok (typed_cipher demo_crates ''master''), w3)" by blast
  obtain ct w4 where ct: "aes_encrypt demo_crates (typed_cipher demo_crates ''master'') vault_pass w3 = (Ok ct, w4)"
    using demo_aes_encrypt by blast
  have "export_secret demo_crates demo_exporter =
      println (''Encrypted master secret (base64): '' @ demo_b64 ct) w4"
    by (simp add: export_secret_def pin pass k ct io_bind_def io_context_def io_map_err_def del: println_eval)
  then have run: "export_secret demo_crates demo_exporter =
      (Ok (), w4\<lparr>stdout := stdout w4 @ [''Encrypted master secret (base64): '' @ demo_b64 ct @ [CHR 0x0A]]\<rparr>)"
    by (simp only: println_eval append.assoc)
  have "last (stdout (w4\<lparr>stdout := stdout w4 @ [l]\<rparr>)) = l" for l by simp
  with run ct show ?thesis by blast
qed

lemma demo_init_at:
  assumes "home w = Some ''/h''" "write_err w = (\<lambda>p. None)" "mkdir_err w = (\<lambda>p. None)" "read_err w = (\<lambda>p. None)"
    "dev w = demo_device" "files w = Map.empty" "dirs w = {}"
  shows "\<exists>a v. yubikey_init demo_crates w = (Ok a, v) \<and> home v = Some ''/h'' \<and> read_err v = (\<lambda>p. None) \<and>
    write_err v = (\<lambda>p. None) \<and> files v ''/h/.vt-yubi/config.toml'' =
      Some (the_ser demo_config \<lparr>cfg_yubikey_serial = 7, cfg_piv_public_key_der = [42]\<rparr>)"
  using assms
  by (simp add: backend_eval path_join_def demo_seal_def demo_ecies_def demo_config_def the_ser_def)

lemma demo_import:
  assumes "aes_encrypt demo_crates (typed_cipher demo_crates ''master'') vault_pass w3 = (Ok ct, w4)"
  shows "\<exists>v. import_secret demo_crates (demo_world\<lparr>typed := [Inr (demo_b64 ct), Inr ''master'']\<rparr>) = (Ok (), v)"
proof -
  let ?u = "demo_world\<lparr>typed := [Inr (demo_b64 ct), Inr ''master'']\<rparr>"
  have no: "io_attempt (load_config demo_crates) ?u = (Ok (Inl (Msg ''Failed to read ~/.vt-yubi/config.toml'')), ?u)"
    by (simp add: load_config_def path_defs fs_defs io_eval_defs io_attempt_def)
  have ty: "typed ?u = Inr (demo_b64 ct) # [Inr ''master'']" by simp
  have "2 \<le> length (demo_b64 ct)"
    using assms by (auto simp: aes_encrypt_eq_Ok demo_seal_def length_demo_b64)
  from prompt_runs [OF ty demo_b64_ascii demo_b64_black this] obtain l where
    p1: "prompt_input_password ''Enter master secret: '' ''Master secret entered: '' ?u =
      (Ok (demo_b64 ct), ?u\<lparr>typed := [Inr ''master''], stdout := l\<rparr>)" by blast
  obtain l2 where k: "master_cipher demo_crates (demo_world\<lparr>typed := [Inr ''master''], stdout := l\<rparr>) =
      (Ok (typed_cipher demo_crates ''master''), demo_world\<lparr>typed := [], stdout := l2\<rparr>)"
    using demo_master_cipher [of "demo_world\<lparr>typed := [Inr ''master''], stdout := l\<rparr>" "[]"] by auto
  have ip: "import_passphrase demo_crates ?u = (Ok vault_pass, demo_world\<lparr>typed := [], stdout := l2\<rparr>)"
    using aes_decrypt_encrypt [OF demo_aead_ok assms]
    by (simp add: import_passphrase_def io_bind_def p1 k demo_b64_inverse vault_pass_def)
  let ?w3 = "demo_world\<lparr>typed := [], stdout := l2 @ [''Now initializing YubiKey PIV key for this device...'' @ [CHR 0x0A]]\<rparr>"
  have "home ?w3 = Some ''/h''" "write_err ?w3 = (\<lambda>p. None)" "mkdir_err ?w3 = (\<lambda>p. None)" "read_err ?w3 = (\<lambda>p. None)"
    "dev ?w3 = demo_device" "files ?w3 = Map.empty" "dirs ?w3 = {}"
    by (simp_all add: demo_world_def)
  from demo_init_at [OF this] obtain a v where init: "yubikey_init demo_crates ?w3 = (Ok a, v)"
    and v: "home v = Some ''/h''" "read_err v = (\<lambda>p. None)" "write_err v = (\<lambda>p. None)"
      "files v ''/h/.vt-yubi/config.toml'' = Some (the_ser demo_config \<lparr>cfg_yubikey_serial = 7, cfg_piv_public_key_der = [42]\<rparr>)"
    by blast
  have utf8: "utf8_valid (the_ser demo_config \<lparr>cfg_yubikey_serial = 7, cfg_piv_public_key_der = [42]\<rparr>)"
    by (simp add: the_ser_def demo_config_def show_nat.simps digit_char_def as_bytes_def byte_of_def
      utf8_valid_ascii_Cons del: utf8_valid.simps(2))
  have "\<exists>x. reencrypt_passphrase demo_crates vault_pass v = (Ok (), x)"
    using v utf8
    by (simp add: reencrypt_passphrase_def load_config_def backend_eval path_join_def from_utf8_def demo_seal_def
        demo_ecies_def)
  then obtain x where "reencrypt_passphrase demo_crates vault_pass v = (Ok (), x)" ..
  with no ip init show ?thesis
    by (simp add: import_secret_def io_bind_def print_token_def)
qed

theorem export_then_import_witness:
  "\<exists>v x u'. export_secret demo_crates demo_exporter = (Ok (), v) \<and>
     import_secret demo_crates (demo_world\<lparr>typed := [Inr x, Inr ''master'']\<rparr>) = (Ok (), u') \<and>
     (\<exists>z'. load_passphrase demo_crates (demo_world\<lparr>files := files u'\<rparr>) = (Ok vault_pass, z'))"
proof -
  obtain v ct w3 w4 where ex: "export_secret demo_crates demo_exporter = (Ok (), v)"
    and ct: "aes_encrypt demo_crates (typed_cipher demo_crates ''master'') vault_pass w3 = (Ok ct, w4)"
    and out: "last (stdout v) = ''Encrypted master secret (base64): '' @ demo_b64 ct @ [CHR 0x0A]"
    using demo_export by blast
  let ?u = "demo_world\<lparr>typed := [Inr (demo_b64 ct), Inr ''master'']\<rparr>"
  obtain u' where im: "import_secret demo_crates ?u = (Ok (), u')" using demo_import [OF ct] by blast
  let ?z = "demo_world\<lparr>files := files u'\<rparr>"
  have ty: "typed demo_exporter = Inr ''123456'' # Inr ''master'' # []" "typed ?u = Inr (demo_b64 ct) # Inr ''master'' # []"
    by (simp_all add: demo_exporter_def)
  have x: "last (stdout v) = ''Encrypted master secret (base64): '' @ trim (demo_b64 ct) @ [CHR 0x0A]"
    using out by (simp add: trim_black demo_b64_ascii demo_b64_black)
  have j: "serde_ok (js_ecies demo_crates)" "serde_ok (toml_config demo_crates)" by (simp_all add: demo_serde_ok)
  have "\<exists>p. (\<exists>q w1 w2. open_and_verify_pin demo_crates demo_exporter = (Ok q, w1) \<and>
      load_passphrase demo_crates w1 = (Ok p, w2)) \<and> (\<exists>z'. load_passphrase demo_crates ?z = (Ok p, z'))"
    by (rule export_then_import [OF demo_aead_ok demo_base64_ok j ty(1) ex ty(2) refl x im, of "''/h''"])
      (auto simp: parse_piv_public_key_def demo_piv_matches)
  moreover have "p = vault_pass" if "open_and_verify_pin demo_crates demo_exporter = (Ok q, w1)"
    and "load_passphrase demo_crates w1 = (Ok p, w2)" for p q w1 w2
  proof -
    have "in_vault demo_exporter" unfolding demo_exporter_def by (rule in_vault_demo)
    from vault_pin [OF this ty(1)] that(1) have "in_vault w1" by auto
    from vault_passphrase [OF this] that(2) show ?thesis by auto
  qed
  ultimately have "\<exists>z'. load_passphrase demo_crates ?z = (Ok vault_pass, z')" by blast
  with ex im show ?thesis by blast
qed

theorem import_writes_only_verified_witness:
  "\<exists>x v. import_secret demo_crates (demo_world\<lparr>typed := [Inr x, Inr ''master'']\<rparr>) = (Ok (), v) \<and>
     files v \<noteq> Map.empty \<and>
     (\<exists>bs p. demo_unb64 (as_bytes (trim x)) = Inr bs \<and>
       aes_decrypt demo_crates (typed_cipher demo_crates ''master'') bs = Ok p \<and> length p = 32)"
proof -
  obtain ct w3 w4 where ct: "aes_encrypt demo_crates (typed_cipher demo_crates ''master'') vault_pass w3 = (Ok ct, w4)"
    using demo_export by blast
  let ?u = "demo_world\<lparr>typed := [Inr (demo_b64 ct), Inr ''master'']\<rparr>"
  obtain v where im: "import_secret demo_crates ?u = (Ok (), v)" using demo_import [OF ct] by blast
  have ty: "typed ?u = Inr (demo_b64 ct) # Inr ''master'' # []" and h: "home ?u = Some ''/h''" by simp_all
  have j: "serde_ok (js_ecies demo_crates)" "serde_ok (toml_config demo_crates)" by (simp_all add: demo_serde_ok)
  obtain p pub where "stored demo_crates (files v) (vt_file ''/h'' ''passphrase.enc'') pub p"
    by (rule import_OkE [OF im h demo_aead_ok j])
  then have new: "files v \<noteq> Map.empty" by (auto simp: stored_def)
  then have "files v \<noteq> files ?u \<or> yk_log v \<noteq> yk_log ?u" by simp
  from import_writes_only_verified [OF ty im this] im new show ?thesis unfolding typed_cipher_def by auto
qed

end
