(* ===== verification/Vt_Main.thy ===== *)
theory Vt_Main
  imports Vt_Inject Vt_Transfer Vt_Serve
begin

text \<open>
  \<open>src/main.rs\<close>: the commands and their dispatch.  Parsing the arguments is the work of \<open>clap\<close>; its
  result, with \<open>VT_ADDR\<close> and \<open>VT_AUTH\<close> already filled in, is the argument here.  The commands for the
  server run on the machine of the client record.
\<close>

section \<open>Commands\<close>

datatype secret_commands = Export | Import

datatype ssh_commands = SshAgent u64 auth_cache_mode u64 u64 | SshKey ssh_command

datatype commands =
    Version
  | Create "string option" "string option"
  | ListSecrets "string option"
  | Delete u64
  | Read string bool
  | Inject "string option" "string option" "string option" u32 "string list"
  | Auth "string option"
  | Serve bool u64 auth_cache_mode u64 u64
  | Init "string option"
  | Secret secret_commands
  | Ssh ssh_commands

record cli =
  cli_addr :: "string option"
  cli_auth :: "string option"
  cli_command :: commands

text \<open>What the program finds around it: the libraries, and the id of its own process.\<close>

record platform =
  pf_crates :: crates
  pf_client :: client_lib
  pf_axum :: axum
  pf_order :: hash_order
  pf_lower :: "string \<Rightarrow> string"
  pf_pid :: string

text \<open>
  A command that ends, the agent or the server that goes on running (with the idle time after which its
  keys are cleared), and the end of \<open>inject\<close>.
\<close>

datatype run_end =
    Done
  | Agent_Runs u64 agent
  | Server_Runs u64 server
  | Injected inject_end "cleanup option"

section \<open>Dispatch\<close>

definition pkg_version :: string where
  "pkg_version = ''0.1.0''"

definition require_auth :: "string option \<Rightarrow> string outcome" where
  "require_auth auth = (case auth of
     Some a \<Rightarrow> Ok a
   | None \<Rightarrow> Err (Msg (''VT_AUTH not set '' @ [CHR 0xE2, CHR 0x80, CHR 0x94] @ '' run `vt-yubi init` and export the token'')))"

definition with_client :: "cli \<Rightarrow> (vt_client \<Rightarrow> 'a sio) \<Rightarrow> 'a sio" where
  "with_client c f = io_bind (io_of (require_auth (cli_auth c))) (\<lambda>auth.
     f \<lparr>vc_base_url = cli_addr c, vc_auth_token = auth\<rparr>)"

definition ends :: "unit sio \<Rightarrow> run_end sio" where
  "ends m = io_seq m (io_ret Done)"

definition run_secret :: "crates \<Rightarrow> secret_commands \<Rightarrow> unit wio" where
  "run_secret c secret_command = (case secret_command of Export \<Rightarrow> export_secret c | Import \<Rightarrow> import_secret c)"

definition run_ssh_command :: "platform \<Rightarrow> ssh_commands \<Rightarrow> run_end wio" where
  "run_ssh_command pf ssh_command = (case ssh_command of
     SshAgent timeout mode cache_duration decrypt_cache_duration \<Rightarrow>
       io_bind (start_ssh_agent (pf_crates pf) (pf_pid pf) mode cache_duration decrypt_cache_duration)
         (\<lambda>agent. io_ret (Agent_Runs timeout agent))
   | SshKey command \<Rightarrow> io_seq (run_ssh (pf_crates pf) command) (io_ret Done))"

definition run :: "platform \<Rightarrow> cli \<Rightarrow> run_end sio" where
  "run pf c = (case cli_command c of
     Version \<Rightarrow> ends (in_client (println (''vt-yubi '' @ pkg_version)))
   | Serve enable_http ssh_idle_timeout mode cache_duration decrypt_cache_duration \<Rightarrow>
       io_bind (in_client (serve (pf_crates pf) (pf_axum pf) (pf_pid pf)
           (case cli_addr c of Some a \<Rightarrow> a | None \<Rightarrow> ''127.0.0.1:5757'') enable_http mode
           cache_duration decrypt_cache_duration))
         (\<lambda>server. io_ret (Server_Runs ssh_idle_timeout server))
   | Init pubkey \<Rightarrow> ends (in_client (init (pf_crates pf) pubkey))
   | Secret secret_command \<Rightarrow> ends (in_client (run_secret (pf_crates pf) secret_command))
   | Ssh ssh_command \<Rightarrow> in_client (run_ssh_command pf ssh_command)
   | Create description file \<Rightarrow>
       ends (with_client c (\<lambda>vt_client. create (pf_crates pf) (pf_client pf) vt_client description file))
   | ListSecrets search \<Rightarrow> ends (in_client (list_secrets (pf_crates pf) (pf_lower pf) search))
   | Delete number \<Rightarrow> ends (in_client (delete_secret (pf_crates pf) (unat number)))
   | Read vt copy \<Rightarrow> ends (with_client c (\<lambda>vt_client. read_secret (pf_crates pf) (pf_client pf) vt_client vt copy))
   | Auth reason \<Rightarrow> ends (with_client c (\<lambda>vt_client. client_auth (pf_crates pf) (pf_client pf) vt_client
         (case reason of Some r \<Rightarrow> r | None \<Rightarrow> ''bio auth requested'')))
   | Inject replace_file input_file output_file timeout args \<Rightarrow>
       io_bind (with_client c (\<lambda>vt_client. inject (pf_crates pf) (pf_order pf) (pf_client pf) vt_client
           replace_file input_file output_file timeout args))
         (\<lambda>(e, child). io_ret (Injected e child)))"

section \<open>The process\<close>

text \<open>
  The level of the program's own log: \<open>RUST_LOG\<close>, else that of the build; \<open>parse\<close> is the \<open>FromStr\<close> of the
  \<open>tracing\<close> crate.
\<close>

datatype level = Trace | Debug | Info | Warn | Error

definition log_level :: "(string \<Rightarrow> level option) \<Rightarrow> bool \<Rightarrow> world \<Rightarrow> level" where
  "log_level parse debug_assertions w =
     (let text' = (case map_of (env_vars w) ''RUST_LOG'' of
            Some v \<Rightarrow> if rust_str v then v else if debug_assertions then ''debug'' else ''info''
          | None \<Rightarrow> if debug_assertions then ''debug'' else ''info'')
      in case parse text' of Some l \<Rightarrow> l | None \<Rightarrow> Info)"

text \<open>The exit code of \<open>main\<close>; a panic ends the process with 101.\<close>

definition exit_code :: "'a outcome \<Rightarrow> nat" where
  "exit_code r = (case r of Ok _ \<Rightarrow> 0 | Err _ \<Rightarrow> 1 | Panic _ \<Rightarrow> 101)"

text \<open>
  \<open>Cli::parse\<close> of \<open>clap\<close> is an argument: from the arguments and the environment it gives the command, or the exit code
  and the text of a usage error or of \<open>--help\<close>.
\<close>

type_synonym clap = "string list \<Rightarrow> (string \<times> string) list \<Rightarrow> nat \<times> string list + cli"

definition main_program :: "platform \<Rightarrow> clap \<Rightarrow> string list \<Rightarrow> system \<Rightarrow> nat \<times> system" where
  "main_program pf parse args s =
     (case parse args (env_vars (sy_client s)) of
        Inl (code, lines) \<Rightarrow> (code, s\<lparr>sy_client := (sy_client s)\<lparr>stdout := stdout (sy_client s) @ lines\<rparr>\<rparr>)
      | Inr c \<Rightarrow> (case run pf c s of (r, t) \<Rightarrow> (exit_code r, t)))"

section \<open>The device of the machine\<close>

text \<open>The commands that the source lists as needing no YubiKey.\<close>

fun client_command :: "commands \<Rightarrow> bool" where
  "client_command (Create d f) = True"
| "client_command (ListSecrets s) = True"
| "client_command (Delete n) = True"
| "client_command (Read vt cp) = True"
| "client_command (Auth r) = True"
| "client_command (Inject r i f t as) = True"
| "client_command Version = True"
| "client_command _ = False"

interpretation clientdevice: client_quiet same_device
  by unfold_locales (intro frame_intros)+

lemmas clientdevice_frames [frame_intros] = clientdevice.client.all clientdevice.client_kept

lemma device_prims [frame_intros]:
  "within same_device (pbcopy l)" "within same_device (set_var k v)"
  "within same_device env_vt_vars" "within same_device (fs_rename p q)"
  by (auto simp: within_def same_device_def pbcopy_def set_var_def env_vt_vars_def fs_rename_def split: option.splits)

lemma device_index [frame_intros]:
  "within same_device (load_secrets_index c)" "within same_device (save_secrets_index c es)"
  unfolding load_secrets_index_def save_secrets_index_def secrets_index_path_def vt_yubi_dir_def
  by (intro frame_intros)+

lemma device_create [frame_intros]: "within (client_frame same_device) (create c lib client d f)"
proof -
  have "within same_device (create_input f)" "within same_device (create_description d f)"
    "\<And>d vt ty. within same_device (add_to_index c d vt ty)"
    unfolding create_input_def create_description_def prompt_input_password_def add_to_index_def Let_def
    by (intro frame_intros)+
  then show ?thesis unfolding create_def by (intro frame_intros within_in_client)
qed

lemma device_read [frame_intros]: "within (client_frame same_device) (read_secret c lib client vt cp)"
proof -
  have "within same_device (resolve_read_target c vt)"
    unfolding resolve_read_target_def by (intro frame_intros)
  then show ?thesis unfolding read_secret_def Let_def by (intro frame_intros within_in_client)
qed

lemma device_index_commands [frame_intros]:
  "within same_device (list_secrets c lower search)" "within same_device (delete_secret c n)"
  unfolding list_secrets_def delete_secret_def print_entry_def Let_def
  by (intro frame_intros)+

lemma device_vars [frame_intros]: "within same_device (set_decrypted_vars vars ds)"
  by (rule set_vars_kept) (unfold_locales, intro frame_intros)

lemma device_inject [frame_intros]:
  "within (client_frame same_device) (inject c order lib client r i f timeout args)"
proof -
  have "within same_device (inject_finish vars r f timeout ds)" for vars ds
    unfolding inject_finish_def write_output_def fork_cleanup_def exec_command_def restore_backup_def fs_copy_def
    by (intro frame_intros)
  then show ?thesis unfolding inject_def decrypt_from_multi_str_def Let_def by (intro frame_intros within_in_client)
qed

section \<open>What a command can reach\<close>

text \<open>The commands that talk to the agent, for which \<open>VT_AUTH\<close> is needed.\<close>

fun needs_token :: "commands \<Rightarrow> bool" where
  "needs_token (Create d f) = True"
| "needs_token (Read vt cp) = True"
| "needs_token (Auth r) = True"
| "needs_token (Inject r i f t as) = True"
| "needs_token _ = False"

definition local_side :: "system \<Rightarrow> system \<Rightarrow> bool" where
  "local_side s t \<longleftrightarrow> sy_agent t = sy_agent s \<and> sy_server t = sy_server s"

interpretation localside: frame_rel local_side
  by unfold_locales (auto simp: local_side_def)

lemma local_side_in_client: "within local_side (in_client m)"
  by (simp add: within_def local_side_def in_client_def split: prod.split)

lemma with_client_frame: "frame_rel R \<Longrightarrow> (\<And>cl. within R (f cl)) \<Longrightarrow> within R (with_client c f)"
  unfolding with_client_def by (intro frame_rel.bind frame_rel.of_outcome)

lemma ends_frame: "frame_rel R \<Longrightarrow> within R m \<Longrightarrow> within R (ends m)"
  unfolding ends_def by (intro frame_rel.seq frame_rel.ret)

lemma run_client_device:
  assumes "client_command (cli_command c)"
  shows "within (client_frame same_device) (run pf c)"
proof -
  note f = clientdevice.client.frame_rel_axioms
  show ?thesis
    using assms
    by (cases "cli_command c")
      (simp_all add: run_def case_prod_unfold, (intro ends_frame [OF f] with_client_frame [OF f] frame_intros within_in_client)+)
qed

lemma run_server_local:
  assumes "\<not> client_command (cli_command c)"
  shows "within local_side (run pf c)"
  using assms
  by (cases "cli_command c")
    (simp_all add: run_def ends_def, (intro localside.all local_side_in_client)+)

text \<open>
  C29. What a run of the program can reach: a command that the source lists as needing no YubiKey never uses the device
  of its own machine (only, through the agent, the agent's); a command of the server never talks to
  a running agent or server; a command that needs the token fails without \<open>VT_AUTH\<close>, with
  exit code 1, before it has read or changed anything; and a usage error changes nothing at all.
\<close>

theorem run_reach:
  assumes "main_program pf parse args s = (code, t)"
  shows "case parse args (env_vars (sy_client s)) of
      Inl (usage, lines) \<Rightarrow> code = usage \<and> t = s\<lparr>sy_client := (sy_client s)\<lparr>stdout := stdout (sy_client s) @ lines\<rparr>\<rparr>
    | Inr c \<Rightarrow>
        (client_command (cli_command c) \<longrightarrow>
          yk_log (sy_client t) = yk_log (sy_client s) \<and> dev_tick (sy_client t) = dev_tick (sy_client s)) \<and>
        (\<not> client_command (cli_command c) \<longrightarrow> sy_agent t = sy_agent s \<and> sy_server t = sy_server s) \<and>
        (needs_token (cli_command c) \<and> cli_auth c = None \<longrightarrow> code = 1 \<and> t = s)"
proof (cases "parse args (env_vars (sy_client s))")
  case (Inr c)
  then obtain r where run: "run pf c s = (r, t)" and code: "code = exit_code r"
    using assms by (auto simp: main_program_def split: prod.splits)
  have "yk_log (sy_client t) = yk_log (sy_client s) \<and> dev_tick (sy_client t) = dev_tick (sy_client s)"
    if "client_command (cli_command c)"
    using withinD [OF run_client_device [OF that] run] by (simp add: client_frame_def same_device_def)
  moreover have "sy_agent t = sy_agent s \<and> sy_server t = sy_server s" if "\<not> client_command (cli_command c)"
    using withinD [OF run_server_local [OF that] run] by (simp add: local_side_def)
  moreover have "code = 1 \<and> t = s" if "needs_token (cli_command c) \<and> cli_auth c = None"
  proof -
    have "\<exists>e. run pf c s = (Err e, s)"
      using that by (cases "cli_command c") (auto simp: run_def ends_def with_client_def require_auth_def io_bind_def io_seq_def)
    with run code show ?thesis by (auto simp: exit_code_def)
  qed
  ultimately show ?thesis by (simp add: Inr)
qed (use assms in \<open>auto simp: main_program_def\<close>)

theorem run_reach_witness:
  "\<exists>t. main_program \<lparr>pf_crates = demo_crates, pf_client = demo_lib, pf_axum = demo_axum, pf_order = (\<lambda>m. m),
       pf_lower = (\<lambda>x. x), pf_pid = ''1''\<rparr>
     (\<lambda>args env. Inr \<lparr>cli_addr = None, cli_auth = map_of env ''VT_AUTH'', cli_command = Read (hd args) False\<rparr>) [''1''] demo_system
       = (1, t) \<and> t = demo_system \<and> yk_log (sy_client t) = []"
proof -
  let ?pf = "\<lparr>pf_crates = demo_crates, pf_client = demo_lib, pf_axum = demo_axum, pf_order = (\<lambda>m. m),
       pf_lower = (\<lambda>x. x), pf_pid = ''1''\<rparr>"
  let ?parse = "\<lambda>args env. Inr \<lparr>cli_addr = None, cli_auth = map_of env ''VT_AUTH'', cli_command = Read (hd args) False\<rparr> :: nat \<times> string list + cli"
  obtain code t where run: "main_program ?pf ?parse [''1''] demo_system = (code, t)" by fastforce
  from run_reach [OF run] run show ?thesis by simp
qed

end
