(* ===== verification/Vt_Platform.thy ===== *)
theory Vt_Platform
  imports Vt_Session
begin

text \<open>
  The macOS variants of what \<open>ssh_agent.rs\<close> and \<open>yk_backend.rs\<close> ask of the system: the process table, read
  through a C structure that the source lays out by hand, the peer of a socket, and the programs that display a
  notification.  A macOS process table is shown to be indistinguishable from a \<open>/proc\<close> with the same
  content, so what is proved of the agent holds there as well.
\<close>

section \<open>The layout of a C structure\<close>

text \<open>\<open>repr(C)\<close>: each field at the next offset its alignment allows, the size rounded up to the largest alignment.\<close>

definition align_up :: "nat \<Rightarrow> nat \<Rightarrow> nat" where
  "align_up a n = (n + a - 1) div a * a"

fun field_offsets :: "nat \<Rightarrow> (nat \<times> nat) list \<Rightarrow> nat list" where
  "field_offsets off [] = []"
| "field_offsets off ((sz, al) # fs) =
     (let at = align_up al off in at # field_offsets (at + sz) fs)"

definition struct_size :: "(nat \<times> nat) list \<Rightarrow> nat" where
  "struct_size fs =
     (let end_of_fields = foldl (\<lambda>off (sz, al). align_up al off + sz) 0 fs
      in align_up (foldr (\<lambda>(_, al). max al) fs 1) end_of_fields)"

text \<open>Little-endian integers, as on the processors macOS runs on.\<close>

primrec le_bytes :: "nat \<Rightarrow> nat \<Rightarrow> bytes" where
  "le_bytes 0 n = []"
| "le_bytes (Suc k) n = word_of_nat n # le_bytes k (n div 256)"

primrec le_nat :: "bytes \<Rightarrow> nat" where
  "le_nat [] = 0"
| "le_nat (b # bs) = unat b + 256 * le_nat bs"

lemma length_le_bytes [simp]: "length (le_bytes k n) = k"
  by (induction k arbitrary: n) simp_all

lemma le_nat_bytes: "le_nat (le_bytes k n) = n mod 256 ^ k"
proof (induction k arbitrary: n)
  case (Suc k)
  have "unat (word_of_nat n :: u8) = n mod 256" by (simp add: unat_of_nat)
  then show ?case using Suc by (simp add: mod_mult2_eq [of n 256 "256 ^ k"])
qed simp

lemma le_word_back: "LENGTH('a) = 8 * k \<Longrightarrow> word_of_nat (le_nat (le_bytes k (unat (w :: 'a::len word)))) = w"
proof -
  assume k: "LENGTH('a) = 8 * k"
  have "unat w < 2 ^ LENGTH('a)" by (rule unsigned_less)
  also have "(2 :: nat) ^ LENGTH('a) = 256 ^ k" by (simp add: k power_mult)
  finally show ?thesis by (simp add: le_nat_bytes)
qed

section \<open>Process information\<close>

record proc_bsd_info =
  pbi_flags :: u32
  pbi_status :: u32
  pbi_xstatus :: u32
  pbi_pid :: u32
  pbi_ppid :: u32
  pbi_uid :: u32
  pbi_gid :: u32
  pbi_ruid :: u32
  pbi_rgid :: u32
  pbi_svuid :: u32
  pbi_svgid :: u32
  rfu_1 :: u32
  pbi_comm :: bytes
  pbi_name :: bytes
  pbi_nfiles :: u32
  pbi_pgid :: u32
  pbi_pjobc :: u32
  e_tdev :: u32
  e_tpgid :: u32
  pbi_nice :: i32
  pbi_start_tvsec :: u64
  pbi_start_tvusec :: u64

definition maxcomlen :: nat where
  "maxcomlen = 16"

text \<open>The sizes and alignments of the fields, in the order of the record.\<close>

definition bsd_layout :: "(nat \<times> nat) list" where
  "bsd_layout =
     [(4, 4), (4, 4), (4, 4), (4, 4), (4, 4), (4, 4), (4, 4), (4, 4), (4, 4), (4, 4), (4, 4), (4, 4),
      (maxcomlen, 1), (2 * maxcomlen, 1),
      (4, 4), (4, 4), (4, 4), (4, 4), (4, 4), (4, 4), (8, 8), (8, 8)]"

definition field_at :: "bytes \<Rightarrow> nat \<Rightarrow> bytes" where
  "field_at bs i = take (fst (bsd_layout ! i)) (drop (field_offsets 0 bsd_layout ! i) bs)"

definition word_at :: "bytes \<Rightarrow> nat \<Rightarrow> 'a::len word" where
  "word_at bs i = word_of_nat (le_nat (field_at bs i))"

text \<open>The structure that the bytes of the buffer are.\<close>

definition bsd_info_of :: "bytes \<Rightarrow> proc_bsd_info" where
  "bsd_info_of bs =
     \<lparr>pbi_flags = word_at bs 0, pbi_status = word_at bs 1, pbi_xstatus = word_at bs 2, pbi_pid = word_at bs 3,
      pbi_ppid = word_at bs 4, pbi_uid = word_at bs 5, pbi_gid = word_at bs 6, pbi_ruid = word_at bs 7,
      pbi_rgid = word_at bs 8, pbi_svuid = word_at bs 9, pbi_svgid = word_at bs 10, rfu_1 = word_at bs 11,
      pbi_comm = field_at bs 12, pbi_name = field_at bs 13, pbi_nfiles = word_at bs 14, pbi_pgid = word_at bs 15,
      pbi_pjobc = word_at bs 16, e_tdev = word_at bs 17, e_tpgid = word_at bs 18, pbi_nice = word_at bs 19,
      pbi_start_tvsec = word_at bs 20, pbi_start_tvusec = word_at bs 21\<rparr>"

text \<open>What the kernel was asked for a process, and answered: a return value and the bytes it wrote.\<close>

record mac_procs =
  mp_pidinfo :: "i32 \<Rightarrow> nat \<Rightarrow> nat \<Rightarrow> i32 \<times> bytes"
  mp_pidpath :: "i32 \<Rightarrow> nat \<Rightarrow> i32 \<times> bytes"

definition overwrite :: "bytes \<Rightarrow> bytes \<Rightarrow> bytes" where
  "overwrite buf written = take (length buf) (written @ drop (length written) buf)"

definition proc_pidtbsdinfo :: nat where
  "proc_pidtbsdinfo = 3"

definition maxpathlen :: nat where
  "maxpathlen = 1024"

definition mac_proc_bsdinfo :: "mac_procs \<Rightarrow> i32 \<Rightarrow> (u32 \<times> u32) option" where
  "mac_proc_bsdinfo m pid =
     (let sz = struct_size bsd_layout;
          (ret, written) = mp_pidinfo m pid proc_pidtbsdinfo sz;
          info = bsd_info_of (overwrite (replicate sz 0) written)
      in if ret = word_of_nat sz then Some (pbi_ppid info, e_tdev info) else None)"

definition mac_proc_path :: "mac_procs \<Rightarrow> i32 \<Rightarrow> string option" where
  "mac_proc_path m pid =
     (let (ret, written) = mp_pidpath m pid maxpathlen;
          buf = overwrite (replicate maxpathlen 0) written
      in if 0 <s ret then from_utf8 (take (nat (sint ret)) buf) else None)"

lemma bsd_offsets:
  "field_offsets 0 bsd_layout = [0, 4, 8, 12, 16, 20, 24, 28, 32, 36, 40, 44, 48, 64, 96, 100, 104, 108, 112, 116, 120, 128]"
  "struct_size bsd_layout = 136"
  by (simp_all add: bsd_layout_def maxcomlen_def struct_size_def align_up_def)

section \<open>What the kernel writes\<close>

definition bsd_info_bytes :: "proc_bsd_info \<Rightarrow> bytes" where
  "bsd_info_bytes r = concat
     [le_bytes 4 (unat (pbi_flags r)), le_bytes 4 (unat (pbi_status r)), le_bytes 4 (unat (pbi_xstatus r)),
      le_bytes 4 (unat (pbi_pid r)), le_bytes 4 (unat (pbi_ppid r)), le_bytes 4 (unat (pbi_uid r)),
      le_bytes 4 (unat (pbi_gid r)), le_bytes 4 (unat (pbi_ruid r)), le_bytes 4 (unat (pbi_rgid r)),
      le_bytes 4 (unat (pbi_svuid r)), le_bytes 4 (unat (pbi_svgid r)), le_bytes 4 (unat (rfu_1 r)),
      pbi_comm r, pbi_name r,
      le_bytes 4 (unat (pbi_nfiles r)), le_bytes 4 (unat (pbi_pgid r)), le_bytes 4 (unat (pbi_pjobc r)),
      le_bytes 4 (unat (e_tdev r)), le_bytes 4 (unat (e_tpgid r)), le_bytes 4 (unat (pbi_nice r)),
      le_bytes 8 (unat (pbi_start_tvsec r)), le_bytes 8 (unat (pbi_start_tvusec r))]"

lemma word_back:
  "word_of_nat (le_nat (le_bytes 4 (unat (w :: u32)))) = w"
  "word_of_nat (le_nat (le_bytes 8 (unat (x :: u64)))) = x"
  by (rule le_word_back, simp)+

text \<open>A field is where the fields before it end.\<close>

lemma field_at_concat:
  assumes "bs = concat xss" and "map length xss = map fst bsd_layout" and "i < length bsd_layout"
    and "field_offsets 0 bsd_layout ! i = sum_list (map fst (take i bsd_layout))"
  shows "field_at bs i = xss ! i"
proof -
  have i: "i < length xss" using assms(2,3) by (metis length_map)
  have "sum_list (map length (take i xss)) = sum_list (map fst (take i bsd_layout))"
    using assms(2) by (metis take_map)
  then have "field_offsets 0 bsd_layout ! i = length (concat (take i xss))"
    using assms(4) by (simp add: length_concat)
  moreover have "length (xss ! i) = fst (bsd_layout ! i)" using assms(2,3) i by (metis nth_map)
  moreover have "concat xss = concat (take i xss) @ xss ! i @ concat (drop (Suc i) xss)"
    using i by (metis concat.simps(2) concat_append id_take_nth_drop)
  ultimately show ?thesis by (simp add: field_at_def assms(1))
qed

fun ends_of :: "nat \<Rightarrow> nat list \<Rightarrow> nat list" where
  "ends_of off [] = []"
| "ends_of off (sz # szs) = off # ends_of (off + sz) szs"

lemma ends_of_nth: "i < length szs \<Longrightarrow> ends_of off szs ! i = off + sum_list (take i szs)"
  by (induction off szs arbitrary: i rule: ends_of.induct) (auto simp: nth_Cons take_Cons split: nat.split)

text \<open>Every field of this structure is aligned where the one before it ends: there is no padding.\<close>

lemma bsd_offsets_sum:
  assumes "i < length bsd_layout"
  shows "field_offsets 0 bsd_layout ! i = sum_list (map fst (take i bsd_layout))"
proof -
  have "field_offsets 0 bsd_layout = ends_of 0 (map fst bsd_layout)"
    by (simp add: bsd_offsets(1)) (simp add: bsd_layout_def maxcomlen_def)
  then show ?thesis using ends_of_nth [of i "map fst bsd_layout" 0] assms by (simp add: take_map)
qed

lemma bsd_info_back:
  assumes "length (pbi_comm r) = maxcomlen" and "length (pbi_name r) = 2 * maxcomlen"
  shows "bsd_info_of (bsd_info_bytes r) = r" and "length (bsd_info_bytes r) = struct_size bsd_layout"
proof -
  note fields = field_at_concat [OF bsd_info_bytes_def _ _ bsd_offsets_sum]
  show "bsd_info_of (bsd_info_bytes r) = r"
    using assms unfolding bsd_info_of_def word_at_def
    by (simp add: fields bsd_layout_def word_back maxcomlen_def)
  show "length (bsd_info_bytes r) = struct_size bsd_layout"
    using assms by (simp add: bsd_info_bytes_def bsd_offsets(2) maxcomlen_def)
qed

section \<open>A macOS process table as a \<open>/proc\<close>\<close>

text \<open>
  \<open>get_tty_dev\<close>, \<open>find_app_pid\<close>, \<open>get_process_name\<close> and \<open>describe_caller\<close> are the same source on both
  systems, over the two functions above.  The world in which \<open>/proc\<close> shows what macOS answers:
\<close>

definition stat_line :: "i32 \<Rightarrow> u32 \<Rightarrow> u32 \<Rightarrow> string" where
  "stat_line pid ppid tdev =
     show_i32 pid @ '' '' @ ''('' @ ''p'' @ '') '' @
       join '' '' [''S'', show_nat (unat ppid), ''0'', ''0'', show_nat (unat tdev), ''0'']"

definition procfs_of :: "mac_procs \<Rightarrow> world \<Rightarrow> world" where
  "procfs_of m w = w\<lparr>
     proc_stat := (\<lambda>p. map_option (\<lambda>(ppid, tdev). stat_line (word_of_int p) ppid tdev) (mac_proc_bsdinfo m (word_of_int p))),
     proc_exe := (\<lambda>p. mac_proc_path m (word_of_int p))\<rparr>"

lemma procfs_bsdinfo: "get_proc_bsdinfo (procfs_of m w) pid = mac_proc_bsdinfo m pid"
proof (cases "mac_proc_bsdinfo m pid")
  case None
  then show ?thesis by (simp add: get_proc_bsdinfo_def procfs_of_def)
next
  case (Some r)
  obtain ppid tdev where r: "r = (ppid, tdev)" by (cases r)
  have field: "stat_field ''S''" "stat_field ''0''"
    by (simp_all add: stat_field_def ascii_char_def byte_of_def is_white_def white_chars_def)
  have small: "unat (x :: u32) \<le> 4294967295" for x
  proof -
    have "unat x < 2 ^ 32" using unsigned_less [of x] by simp
    then show ?thesis by simp
  qed
  have "get_proc_bsdinfo (procfs_of m w) pid = Some (word_of_nat (unat ppid), word_of_nat (unat tdev))"
    by (rule stat_line_parsed [where before = "show_i32 pid @ '' ''" and comm = "''p''" and state = "''S''"
          and pgrp = "''0''" and session = "''0''" and others = "[''0'']"])
      (simp_all add: procfs_of_def Some r stat_line_def small field)
  then show ?thesis by (simp add: Some r)
qed

lemma procfs_path: "get_proc_path (procfs_of m w) pid = mac_proc_path m pid"
  by (simp add: get_proc_path_def procfs_of_def)

text \<open>
  C38. The process table of macOS is read right: from a kernel that fills the structure for the processes there are, the
  parent and the terminal are those of the structure, whatever else it holds, and a process that is gone has
  none; and there is a \<open>/proc\<close> on which the agent, which reads processes only through these
  functions, cannot tell the difference.
\<close>

theorem macos_process_table:
  assumes "\<And>q r. procs q = Some r \<Longrightarrow> length (pbi_comm r) = maxcomlen \<and> length (pbi_name r) = 2 * maxcomlen"
    and "\<And>q. mp_pidinfo m q proc_pidtbsdinfo (struct_size bsd_layout) =
      (case procs q of Some r \<Rightarrow> (word_of_nat (struct_size bsd_layout), bsd_info_bytes r) | None \<Rightarrow> (0, []))"
  shows "mac_proc_bsdinfo m pid = map_option (\<lambda>r. (pbi_ppid r, e_tdev r)) (procs pid) \<and>
    get_proc_bsdinfo (procfs_of m w) pid = mac_proc_bsdinfo m pid \<and>
    get_proc_path (procfs_of m w) pid = mac_proc_path m pid \<and>
    get_tty_dev (procfs_of m w) pid = (case procs pid of Some r \<Rightarrow> ucast (e_tdev r) | None \<Rightarrow> 0)"
proof -
  have "mac_proc_bsdinfo m pid = map_option (\<lambda>r. (pbi_ppid r, e_tdev r)) (procs pid)"
  proof (cases "procs pid")
    case None
    then have "mp_pidinfo m pid proc_pidtbsdinfo (struct_size bsd_layout) = (0, [])" by (simp add: assms(2))
    moreover have "(0 :: i32) \<noteq> word_of_nat (struct_size bsd_layout)" by (simp add: bsd_offsets(2))
    ultimately show ?thesis using None by (simp add: mac_proc_bsdinfo_def)
  next
    case (Some r)
    note b = bsd_info_back [OF conjunct1 conjunct2, OF assms(1) assms(1), OF Some Some]
    have "overwrite (replicate (struct_size bsd_layout) 0) (bsd_info_bytes r) = bsd_info_bytes r"
      by (simp add: overwrite_def b(2))
    with Some b(1) show ?thesis by (simp add: mac_proc_bsdinfo_def assms(2))
  qed
  then show ?thesis by (simp add: procfs_bsdinfo procfs_path get_tty_dev_def split: option.split)
qed

definition demo_bsd_info :: proc_bsd_info where
  "demo_bsd_info = (bsd_info_of (replicate 136 0))\<lparr>pbi_pid := 7, pbi_ppid := 42, e_tdev := 0x10000001,
     pbi_comm := replicate maxcomlen 0x78, pbi_name := replicate (2 * maxcomlen) 0x79\<rparr>"

definition demo_mac :: mac_procs where
  "demo_mac = \<lparr>mp_pidinfo = (\<lambda>q flavor n. if q = 7 then (136, bsd_info_bytes demo_bsd_info) else (0, [])),
     mp_pidpath = (\<lambda>q n. (0, []))\<rparr>"

theorem macos_process_table_witness:
  "mac_proc_bsdinfo demo_mac 7 = Some (42, 0x10000001) \<and> mac_proc_bsdinfo demo_mac 8 = None \<and>
   get_tty_dev (procfs_of demo_mac demo_world) 7 = 0x10000001"
proof -
  let ?procs = "\<lambda>q. if q = 7 then Some demo_bsd_info else None"
  have l: "?procs q = Some r \<Longrightarrow> length (pbi_comm r) = maxcomlen \<and> length (pbi_name r) = 2 * maxcomlen" for q :: i32 and r
    by (auto simp: demo_bsd_info_def split: if_splits)
  have k: "mp_pidinfo demo_mac q proc_pidtbsdinfo (struct_size bsd_layout) =
      (case ?procs q of Some r \<Rightarrow> (word_of_nat (struct_size bsd_layout), bsd_info_bytes r) | None \<Rightarrow> (0, []))" for q
    by (simp add: demo_mac_def bsd_offsets(2))
  have d: "pbi_ppid demo_bsd_info = 42" "e_tdev demo_bsd_info = 0x10000001" by (simp_all add: demo_bsd_info_def)
  show ?thesis
    using macos_process_table [of ?procs demo_mac 7 demo_world, OF l k]
      macos_process_table [of ?procs demo_mac 8 demo_world, OF l k] d by simp
qed

section \<open>The peer of a socket and the notification\<close>

text \<open>What \<open>getsockopt\<close> with \<open>LOCAL_PEERPID\<close> answered, in the place of \<open>SO_PEERCRED\<close>.\<close>

definition mac_get_peer_pid :: "peer_cred \<Rightarrow> i32 option" where
  "mac_get_peer_pid cred = (if pc_ret cred = 0 \<and> 0 <s pc_pid cred then Some (pc_pid cred) else None)"

lemma mac_peer: "mac_get_peer_pid = get_peer_pid"
  by (rule ext) (simp add: mac_get_peer_pid_def get_peer_pid_def)

text \<open>The programs that \<open>notify_touch\<close> spawns, with their arguments; whether they start is not looked at.\<close>

definition mac_notify_commands :: "string \<Rightarrow> string list list" where
  "mac_notify_commands reason =
     [[''afplay'', ''/System/Library/Sounds/Ping.aiff''], [''osascript'', ''-e'', notify_script reason]]"

definition linux_notify_commands :: "string \<Rightarrow> string list list" where
  "linux_notify_commands reason =
     [[''notify-send'', ''--urgency=critical'', ''--expire-time=15000'', ''vt-yubi: Touch YubiKey'', reason]]"

end
