(* ===== verification/Vt_Races.thy ===== *)
theory Vt_Races
  imports Vt_Overlap Vt_Progress
begin

text \<open>
  What the locks do not protect.  The key file is read and written in two steps, so of two keys added at once
  one is lost from it; a decryption that has passed its check of the lock goes on after the lock, and leaves
  a grant in the cache that \<open>lock\<close> has just cleared; and so does a signature that finds the keys cleared for
  idleness, which loads them again into the memory of the locked agent.
\<close>

section \<open>Part of a task\<close>

definition with_task :: "nat \<Rightarrow> task \<Rightarrow> pool \<Rightarrow> pool" where
  "with_task i t P = P\<lparr>po_tasks := (po_tasks P)[i := t]\<rparr>"

lemma with_task_simps [simp]:
  "po_agent (with_task i t P) = po_agent P"
  "length (po_tasks (with_task i t P)) = length (po_tasks P)"
  "po_answers (with_task i t P) = po_answers P"
  "i < length (po_tasks P) \<Longrightarrow> po_tasks (with_task i t P) ! i = t"
  "j \<noteq> i \<Longrightarrow> po_tasks (with_task i t P) ! j = po_tasks P ! j"
  "locks_free (with_task i t P) = locks_free P"
  "with_task i t (with_task i u P) = with_task i t P"
  by (simp_all add: with_task_def locks_free_def)

lemma step_act:
  assumes "i < length (po_tasks P)" and "po_answers P i = None" and "po_tasks P ! i = act m k"
    and "m (po_agent P) = (Ok x, po_agent P)"
  shows "nudge P i = with_task i (k x) P"
  using assms by (simp add: nudge_def move_def act_def with_task_def)

text \<open>A task that only computes, seen from outside: it goes on with \<open>t\<close> when the agent is as in \<open>P\<close>.\<close>

definition gets_to :: "nat \<Rightarrow> pool \<Rightarrow> task \<Rightarrow> bool" where
  "gets_to i P t \<longleftrightarrow> (\<exists>sched. pool_run P sched = with_task i t P)"

lemma gets_to_start: "po_tasks P ! i = t \<Longrightarrow> gets_to i P t"
  unfolding gets_to_def with_task_def by (rule exI [of _ "[]"]) (simp, metis list_update_id pool.surjective pool.update_convs(2))

lemma gets_to_act:
  assumes "gets_to i P (act m k)" and "i < length (po_tasks P)" and "po_answers P i = None"
    and "m (po_agent P) = (Ok x, po_agent P)"
  shows "gets_to i P (k x)"
proof -
  obtain sched where "pool_run P sched = with_task i (act m k) P" using assms(1) by (auto simp: gets_to_def)
  moreover have "nudge (with_task i (act m k) P) i = with_task i (k x) P"
    using step_act [of i "with_task i (act m k) P" m k x] assms(2-4) by simp
  ultimately show ?thesis unfolding gets_to_def by (intro exI [of _ "sched @ [i]"]) simp
qed

lemma gets_past_lock:
  assumes "po_tasks P ! i = unless_locked j k" and "i < length (po_tasks P)" and "po_answers P i = None"
    and "locks_free P" and "\<not> ag_locked (po_agent P)"
  shows "gets_to i P k"
proof -
  let ?get = "act (io_get ag_locked) (\<lambda>locked. if locked then j else Release LockedLock k)"
  have free: "po_queue P l = []" "po_held P l = []" for l using assms(4) by (simp_all add: locks_free_def)
  let ?A = "P\<lparr>po_queue := (po_queue P)(LockedLock := [(i, ReadLock)])\<rparr>"
  let ?B = "P\<lparr>po_held := (po_held P)(LockedLock := [(i, ReadLock)]), po_tasks := (po_tasks P)[i := ?get]\<rparr>"
  let ?C = "P\<lparr>po_held := (po_held P)(LockedLock := [(i, ReadLock)]), po_tasks := (po_tasks P)[i := Release LockedLock k]\<rparr>"
  have q: "(po_queue P)(LockedLock := []) = po_queue P" "(po_held P)(LockedLock := []) = po_held P"
    using free by (simp_all add: fun_upd_idem)
  have "nudge P i = ?A"
    using assms(1-3) free(1) [of LockedLock] by (simp add: nudge_def move_def unless_locked_def)
  moreover have "nudge ?A i = ?B"
    using assms(1-3) free(2) [of LockedLock] by (simp add: nudge_def move_def unless_locked_def free_for_def q)
  moreover have "nudge ?B i = ?C"
    using assms(2,3,5) by (simp add: nudge_def move_def act_def)
  moreover have "nudge ?C i = with_task i k P"
    using assms(2,3) by (simp add: nudge_def move_def with_task_def drop_guard_def q)
  ultimately have "pool_run P [i, i, i, i] = with_task i k P" by simp
  then show ?thesis unfolding gets_to_def by blast
qed

section \<open>Two keys added at once\<close>

lemma add_gets_to_store:
  assumes "po_tasks P ! i = add_task c (KeyCredential kd cm)" and "i < length (po_tasks P)" and "po_answers P i = None"
    and "locks_free P" and "\<not> ag_locked (po_agent P)" and "length (ag_passphrase (po_agent P)) = 32"
    and "private_key_new c kd cm = Inr k" and "supported_key k" and "openssh_print c k = Inr enc"
  shows "gets_to i P (add_store_task c (fingerprint_str c (public_key_data c k)) (entry_of c k cm enc) k
    (AesGcmCrypto (ag_passphrase (po_agent P))))"
proof -
  note start = gets_past_lock [OF assms(1) [unfolded add_task_def credential.case] assms(2-5)]
  note go = gets_to_act [OF _ assms(2,3)]
  show ?thesis
    unfolding entry_of_def
    using start assms(6-9)
    by - (drule go, simp, drule go, simp, simp only: Let_def, drule go, simp, drule go, simp, drule go, simp add: aes_new_32, simp)
qed

text \<open>The rest of \<open>add_identity\<close> once it has read the key file.\<close>

definition store_rest :: "crates \<Rightarrow> string \<Rightarrow> ssh_key_entry \<Rightarrow> private_key \<Rightarrow> aes_gcm_crypto \<Rightarrow> ssh_key_entry list \<Rightarrow> task" where
  "store_rest c fp_str entry private_key cipher entries =
     act (io_when (\<not> (\<exists>e \<in> set entries. ke_fingerprint e = fp_str))
           (in_world (save_ssh_keys_to_file c cipher (entries @ [entry])))) (\<lambda>_.
     Acquire KeysLock WriteLock (
     act (io_upd (\<lambda>s. s\<lparr>ag_keys := AList.update fp_str private_key (ag_keys s)\<rparr>)) (\<lambda>_.
     touch_task (answer UnitReply))))"

lemma store_reads: "add_store_task c fp e k a = act (in_world (io_or [] (load_ssh_keys_from_file c a))) (store_rest c fp e k a)"
  unfolding add_store_task_def store_rest_def [abs_def] by (rule refl)

lemma store_rest_order: "in_lock_order {} (store_rest c fp e k a es)"
  unfolding store_rest_def by (intro order_intros; simp)+

lemma store_rest_alone:
  assumes "\<not> (\<exists>e' \<in> set es. ke_fingerprint e' = fp)"
    and "save_ssh_keys_to_file c a (es @ [e]) (ag_world s) = (Ok (), w)"
  shows "run_alone (store_rest c fp e k a es) s =
    (Ok UnitReply, s\<lparr>ag_world := w, ag_keys := AList.update fp k (ag_keys s), ag_last_activity := instant w\<rparr>)"
  using assms
  by (simp add: store_rest_def touch_task_def run_act io_bind_def in_world_def touch_activity_def agent_now_def)

lemma gets_to_with:
  assumes "gets_to i P t" and "gets_to i (with_task i t P) u"
  shows "gets_to i P u"
  using assms unfolding gets_to_def by (metis pool_run_append with_task_simps(7))

text \<open>From a pool where nobody holds a guard, a task that has got somewhere may be run to its end.\<close>

lemma run_to_end:
  assumes "locks_free P" and "i < length (po_tasks P)" and "po_answers P i = None" and "in_lock_order {} (po_tasks P ! i)"
  shows "\<exists>sched. pool_run P sched = finished i (run_alone (po_tasks P ! i) (po_agent P)) P"
proof -
  have "to_itself i P" "holds P i = {}" using assms(1-3) by (simp_all add: to_itself_def locks_free_def holds_def)
  with solo_run [of i P "po_tasks P ! i"] assms(4) show ?thesis by auto
qed

lemma same_env_save: "within same_env (save_ssh_keys_to_file c a es)"
  unfolding save_ssh_keys_to_file_def by (intro frame_intros)

lemma keys_readable_saved: "save_ssh_keys_to_file c a es w = (r, v) \<Longrightarrow> keys_readable v = keys_readable w"
  using withinD [OF same_env_save] by (fastforce simp: same_env_def keys_readable_def)

text \<open>
  C22. Of two keys added at once, the key file keeps one.  For two requests with different new keys there is a
  schedule in which both are answered with success and both keys are in memory, but the file holds only the
  second: the first is gone when the memory is next loaded from the file.
\<close>

theorem simultaneous_adds_lose_a_key:
  assumes "store_ok c s" and "\<not> ag_locked s" and "length (ag_passphrase s) = 32"
    and new1: "private_key_new c kd1 cm1 = Inr k1" "supported_key k1" "openssh_print c k1 = Inr enc1"
    and new2: "private_key_new c kd2 cm2 = Inr k2" "supported_key k2" "openssh_print c k2 = Inr enc2"
    and "fp1 = fingerprint_str c (public_key_data c k1)" and "fp2 = fingerprint_str c (public_key_data c k2)"
    and "fp1 \<noteq> fp2" and "\<forall>e \<in> set (assumed_keys c s). ke_fingerprint e \<notin> {fp1, fp2}"
    and save1: "save_ssh_keys_to_file c (AesGcmCrypto (ag_passphrase s))
      (assumed_keys c s @ [entry_of c k1 cm1 enc1]) (ag_world s) = (Ok (), w1)"
    and save2: "save_ssh_keys_to_file c (AesGcmCrypto (ag_passphrase s))
      (assumed_keys c s @ [entry_of c k2 cm2 enc2]) w1 = (Ok (), w2)"
  shows "\<exists>sched. let P = pool_run (job_pool c s
      [Handle p (ReqAdd (KeyCredential kd1 cm1)), Handle q (ReqAdd (KeyCredential kd2 cm2))]) sched in
    po_answers P 0 = Some (Ok UnitReply) \<and> po_answers P 1 = Some (Ok UnitReply) \<and>
    map_of (ag_keys (po_agent P)) fp1 = Some k1 \<and> map_of (ag_keys (po_agent P)) fp2 = Some k2 \<and>
    stored_keys c (po_agent P) = Ok (assumed_keys c s @ [entry_of c k2 cm2 enc2])"
proof -
  let ?P = "job_pool c s [Handle p (ReqAdd (KeyCredential kd1 cm1)), Handle q (ReqAdd (KeyCredential kd2 cm2))]"
  let ?a = "AesGcmCrypto (ag_passphrase s)" and ?es = "assumed_keys c s"
  let ?e1 = "entry_of c k1 cm1 enc1" and ?e2 = "entry_of c k2 cm2 enc2"
  let ?r1 = "store_rest c fp1 ?e1 k1 ?a ?es" and ?r2 = "store_rest c fp2 ?e2 k2 ?a ?es"
  have read: "gets_to i Q (store_rest c fp e k ?a ?es)"
    if "gets_to i Q (add_store_task c fp e k ?a)" "i < length (po_tasks Q)" "po_answers Q i = None" "po_agent Q = s"
    for i Q fp e k
    using gets_to_act [OF that(1) [unfolded store_reads] that(2,3), of ?es] lenient_load [of c s] that(4) by simp
  have "gets_to 0 ?P ?r1"
    using add_gets_to_store [of ?P 0 c kd1 cm1 k1 enc1] assms(2,3,10) new1 by (intro read) simp_all
  then obtain s1 where s1: "pool_run ?P s1 = with_task 0 ?r1 ?P" by (auto simp: gets_to_def)
  let ?Q = "with_task 0 ?r1 ?P"
  have "gets_to 1 ?Q ?r2"
    using add_gets_to_store [of ?Q 1 c kd2 cm2 k2 enc2] assms(2,3,11) new2 by (intro read) simp_all
  then obtain s2 where s2: "pool_run ?Q s2 = with_task 1 ?r2 ?Q" by (auto simp: gets_to_def)
  let ?R = "with_task 1 ?r2 ?Q"
  let ?t1 = "s\<lparr>ag_world := w1, ag_keys := AList.update fp1 k1 (ag_keys s), ag_last_activity := instant w1\<rparr>"
  let ?t2 = "?t1\<lparr>ag_world := w2, ag_keys := AList.update fp2 k2 (ag_keys ?t1), ag_last_activity := instant w2\<rparr>"
  have a1: "run_alone ?r1 s = (Ok UnitReply, ?t1)"
    using assms(13) save1 by (intro store_rest_alone) auto
  have a2: "run_alone ?r2 ?t1 = (Ok UnitReply, ?t2)"
    using store_rest_alone [of ?es fp2 c ?a ?e2 ?t1 w2 k2] assms(13) save2 by auto
  obtain s3 where s3: "pool_run ?R s3 = finished 0 (Ok UnitReply, ?t1) ?R"
    using run_to_end [of ?R 0] store_rest_order a1 by auto
  let ?S = "finished 0 (Ok UnitReply, ?t1) ?R"
  obtain s4 where s4: "pool_run ?S s4 = finished 1 (Ok UnitReply, ?t2) ?S"
    using run_to_end [of ?S 1] store_rest_order a2 by auto
  have "pool_run ?P (s1 @ s2 @ s3 @ s4) = finished 1 (Ok UnitReply, ?t2) ?S"
    by (simp only: pool_run_append s1 s2 s3 s4)
  moreover have "stored_keys c ?t2 = Ok (?es @ [?e2])"
    using saved_keys [of c ?t1 "?es @ [?e2]" w2 ?t2] assms(1) save2 keys_readable_saved [OF save1]
    by (simp add: store_ok_def)
  ultimately show ?thesis
    using assms(12) by (intro exI [of _ "s1 @ s2 @ s3 @ s4"]) (simp add: Let_def update_conv')
qed

lemma demo_save_again:
  assumes "same_env demo_world w"
  shows "\<exists>v. save_ssh_keys_to_file demo_crates a es w = (Ok (), v)"
  using assms
  by (simp add: save_ssh_keys_to_file_def aes_encrypt_def generate_nonce_def backend_eval same_env_def
      demo_ssh_keys_def rows_serde_def demo_seal_def)

theorem simultaneous_adds_lose_a_key_witness:
  "\<exists>sched. let P = pool_run (job_pool demo_crates demo_agent
      [Handle None (ReqAdd (KeyCredential (Ecdsa NistP256 [1] [7]) ''k'')),
       Handle None (ReqAdd (KeyCredential (Ecdsa NistP256 [2] [8]) ''l''))]) sched in
    po_answers P 0 = Some (Ok UnitReply) \<and> po_answers P 1 = Some (Ok UnitReply) \<and>
    (\<exists>e. stored_keys demo_crates (po_agent P) = Ok [e] \<and> ke_fingerprint e = ''SHA256:'' @ of_bytes [8])"
proof -
  let ?k1 = "\<lparr>pk_key_data = Ecdsa NistP256 [1] [7], pk_comment = ''k''\<rparr>"
  let ?k2 = "\<lparr>pk_key_data = Ecdsa NistP256 [2] [8], pk_comment = ''l''\<rparr>"
  let ?e1 = "entry_of demo_crates ?k1 ''k'' (of_bytes [1])"
  let ?e2 = "entry_of demo_crates ?k2 ''l'' (of_bytes [2])"
  obtain w1 where w1: "save_ssh_keys_to_file demo_crates (AesGcmCrypto (ag_passphrase demo_agent))
      (assumed_keys demo_crates demo_agent @ [?e1]) (ag_world demo_agent) = (Ok (), w1)"
    using demo_save by (auto simp: demo_agent_def agent_new_def)
  then have "same_env demo_world w1"
    using withinD [OF same_env_save w1] by (simp add: demo_agent_def agent_new_def)
  then obtain w2 where w2: "save_ssh_keys_to_file demo_crates (AesGcmCrypto (ag_passphrase demo_agent))
      (assumed_keys demo_crates demo_agent @ [?e2]) w1 = (Ok (), w2)"
    using demo_save_again by blast
  have ok: "store_ok demo_crates demo_agent" by (rule demo_store_ok) simp
  have a: "\<not> ag_locked demo_agent" "length (ag_passphrase demo_agent) = 32"
    by (simp_all add: demo_agent_def agent_new_def)
  have k: "private_key_new demo_crates (Ecdsa NistP256 [1] [7]) ''k'' = Inr ?k1" "supported_key ?k1"
    "openssh_print demo_crates ?k1 = Inr (of_bytes [1])"
    "private_key_new demo_crates (Ecdsa NistP256 [2] [8]) ''l'' = Inr ?k2" "supported_key ?k2"
    "openssh_print demo_crates ?k2 = Inr (of_bytes [2])"
    by (simp_all add: supported_key_def demo_crates_def)
  have f: "fingerprint_str demo_crates (public_key_data demo_crates ?k1) \<noteq> fingerprint_str demo_crates (public_key_data demo_crates ?k2)"
    unfolding fingerprint_str_def demo_crates_def by (simp add: of_bytes_def char_of_byte_def)
  have fp2: "ke_fingerprint ?e2 = ''SHA256:'' @ of_bytes [8]"
    unfolding entry_of_def fingerprint_str_def demo_crates_def by simp
  from simultaneous_adds_lose_a_key [OF ok a k refl refl f _ w1 w2, of None None] show ?thesis
    using fp2 by (simp only: demo_assumed list.set ball_empty append_Nil True_implies_equals Let_def) blast
qed

section \<open>A decryption across a lock\<close>

lemma unlocked_same_lock: "within same_lock (extension_unlocked c p e)"
  unfolding extension_unlocked_def by (intro frame_intros)

lemma unlocked_grants:
  "ex_name e = ''decrypt@vt'' \<Longrightarrow> within (grants p ''decrypt@vt'' True) (extension_unlocked c p e)"
  unfolding extension_unlocked_def io_seq_def
  by (simp cong: if_cong,
      intro grants_pre [OF quietI] grants_if grants_post [OF decrypt_grants] quietI frame_intros grants_quiet)

lemma prompted_grant:
  assumes "check_or_prompt_auth c p fp m d s = (Ok True, t)" and "caller_context p s = Some ctx"
    and "\<not> is_authorized (agent_now s) (ag_auth_cache s) ctx fp"
  shows "ac_entries (ag_auth_cache t) (ctx, fp) \<noteq> None"
  using assms
  by (auto simp: check_or_prompt_auth_def caller_context_def cache_grant_def io_bind_eq_Ok grant_eq_Ok split: if_splits)

lemma unlocked_decrypt_grants:
  assumes "extension_unlocked c p ext u = (Ok (Some x), t)" and "ex_name ext = ''decrypt@vt''"
    and "ac_entries (ag_auth_cache u) = Map.empty" and "caller_context p u = Some ctx"
  shows "ac_entries (ag_auth_cache t) (ctx, ''decrypt@vt'') \<noteq> None"
proof -
  let ?u = "u\<lparr>ag_last_activity := agent_now u\<rparr>"
  obtain plain req v w and y :: "bytes wio" where chk: "check_or_prompt_auth c p ''decrypt@vt''
      (format_decrypt_prompt req (peer_caller p (ag_world u))) True ?u = (Ok True, v)"
    and log: "in_world (log_decrypt c p (peer_caller p (ag_world u)) req True) v = (Ok (), w)"
    and enc: "in_world y w = (Ok plain, t)"
    using assms(1,2)
    by (auto simp: extension_unlocked_def handle_decrypt_def touch_activity_def io_bind_eq_Ok split: if_splits)
  have "caller_context p ?u = Some ctx" using assms(4) by (simp add: caller_context_def)
  moreover have "\<not> is_authorized (agent_now ?u) (ag_auth_cache ?u) ctx ''decrypt@vt''"
    using assms(3) by (simp add: is_authorized_def)
  ultimately have "ac_entries (ag_auth_cache v) (ctx, ''decrypt@vt'') \<noteq> None" by (rule prompted_grant [OF chk])
  then show ?thesis using log enc by (auto simp: in_world_eq)
qed

text \<open>A caller with a live grant is served without the device.\<close>

definition served_quietly :: "i32 option \<Rightarrow> string \<Rightarrow> agent \<Rightarrow> agent \<Rightarrow> bool" where
  "served_quietly p fp s t \<longleftrightarrow> (cached_grant s p fp \<longrightarrow> quiet s t)"

lemma quiet_trans: "quiet s t \<Longrightarrow> quiet t u \<Longrightarrow> quiet s u"
  by (auto simp: quiet_def intro: noconsent.frame_trans config.frame_trans)

lemma quiet_cached: "quiet s t \<Longrightarrow> cached_grant t p fp = cached_grant s p fp"
  by (simp add: quiet_def cached_grant_cong)

interpretation servedf: frame_rel "served_quietly p fp" for p fp
  by unfold_locales (auto simp: served_quietly_def quiet_refl quiet_cached intro: quiet_trans)

lemma served_quiet: "within no_consent m \<Longrightarrow> within same_config m \<Longrightarrow> within (served_quietly p fp) m"
  by (simp add: within_def served_quietly_def quiet_def)

lemma served_check: "within (served_quietly p fp) (check_or_prompt_auth c p fp m b)"
  by (auto simp: within_def served_quietly_def cached_grant_def check_or_prompt_auth_def quiet_refl)

lemma served_decrypt:
  assumes "ex_name e = ''decrypt@vt''"
  shows "within (served_quietly p ''decrypt@vt'') (extension_op c p e)"
  using assms unfolding extension_op_def extension_unlocked_def handle_decrypt_def
  by (simp cong: if_cong,
      intro servedf.all served_check served_quiet frame_intros)

text \<open>
  C20. A lock does not stop a decryption in progress.  When a decryption request has passed its check of the lock and a
  lock is then taken and answered, the request still prompts, is answered with the plaintexts by the locked agent, and
  leaves a grant in the cache the lock had cleared.  After an unlock with the passphrase of that lock, \<open>n\<close> later within
  the duration, the grant serves: the agent is unlocked, the caller has a live grant, and no further \<open>decrypt@vt\<close>
  of that caller, whatever it asks for, uses the device.
\<close>

theorem decryption_outlives_lock:
  assumes "\<not> ag_locked s" and "lock c pw s = (Ok (), u)" and "ex_name ext = ''decrypt@vt''"
    and "extension_unlocked c p ext u = (Ok (Some x), t)" and "caller_context p u = Some ctx"
  shows "\<exists>before after. let P = job_pool c s [Handle p (ReqExtension ext), Handle q (ReqLock pw)];
      mid = pool_run P before; end_pool = pool_run P (before @ after); t = po_agent end_pool in
    po_answers mid 1 = Some (Ok UnitReply) \<and> po_answers mid 0 = None \<and>
    po_agent mid = u \<and> ac_entries (ag_auth_cache u) = Map.empty \<and>
    po_answers end_pool 0 = Some (Ok (ExtensionReply (Some x))) \<and> touched u t \<and> ag_locked t \<and>
    (\<forall>n < cache_ttl (ag_auth_cache s) True.
       let v = snd (unlock c pw (agent_step c T t (Wait n))) in
       unlock c pw (agent_step c T t (Wait n)) = (Ok (), v) \<and> \<not> ag_locked v \<and> cached_grant v p ''decrypt@vt'' \<and>
       (\<forall>e r w. ex_name e = ''decrypt@vt'' \<longrightarrow> extension_op c p e v = (r, w) \<longrightarrow> yk_log (ag_world w) = yk_log (ag_world v)))"
proof -
  let ?P = "job_pool c s [Handle p (ReqExtension ext), Handle q (ReqLock pw)]"
  let ?body = "extension_body c p ext"
  have "gets_to 0 ?P ?body"
    using assms(1) by (intro gets_past_lock [where j = refuse]) (simp_all add: extension_task_def)
  then obtain s1 where s1: "pool_run ?P s1 = with_task 0 ?body ?P" by (auto simp: gets_to_def)
  let ?Q = "with_task 0 ?body ?P"
  have lock_alone: "run_alone (lock_task c pw) s = (Ok UnitReply, u)"
    using assms(2) by (simp add: lock_alone replies_def io_bind_eval)
  obtain s2 where s2: "pool_run ?Q s2 = finished 1 (Ok UnitReply, u) ?Q"
    using run_to_end [of ?Q 1] lock_unlock_order(1) lock_alone by auto
  let ?M = "finished 1 (Ok UnitReply, u) ?Q"
  have body_alone: "run_alone ?body u = (Ok (ExtensionReply (Some x)), t)"
    using assms(4) by (simp add: extension_body_alone replies_def io_bind_eval)
  obtain s3 where s3: "pool_run ?M s3 = finished 0 (Ok (ExtensionReply (Some x)), t) ?M"
    using run_to_end [of ?M 0] extension_order(1) body_alone by auto
  have u: "ac_entries (ag_auth_cache u) = Map.empty" "ag_locked u" "cache_ttl (ag_auth_cache u) = cache_ttl (ag_auth_cache s)"
    "ag_lock_passphrase u = Some (hash_lock_passphrase c pw)"
    using assms(2) by (auto simp: lock_eval cache_clear_def split: if_splits)
  have lk: "ag_locked t" "ag_lock_passphrase t = Some (hash_lock_passphrase c pw)"
    using withinD [OF unlocked_same_lock assms(4)] u by (simp_all add: same_lock_def)
  have cfg: "same_config u t"
  proof -
    have "within same_config (extension_unlocked c p ext)" unfolding extension_unlocked_def by (intro frame_intros)
    then show ?thesis using assms(4) by (rule withinD)
  qed
  have "ag_auth_cache t \<noteq> ag_auth_cache u"
    using unlocked_decrypt_grants [OF assms(4,3) u(1) assms(5)] u(1) by auto
  then have g: "touch_grant p ''decrypt@vt'' True u t"
    using withinD [OF unlocked_grants [OF assms(3)] assms(4)] by (auto simp: grants_def)
  then have e: "ac_entries (ag_auth_cache t) (ctx, ''decrypt@vt'') = Some (agent_now t + cache_ttl (ag_auth_cache s) True)"
    using assms(5) u by (auto simp: touch_grant_def caller_context_def)
  have later: "let v = snd (unlock c pw (agent_step c T t (Wait n))) in
       unlock c pw (agent_step c T t (Wait n)) = (Ok (), v) \<and> \<not> ag_locked v \<and> cached_grant v p ''decrypt@vt'' \<and>
       (\<forall>e r w. ex_name e = ''decrypt@vt'' \<longrightarrow> extension_op c p e v = (r, w) \<longrightarrow> yk_log (ag_world w) = yk_log (ag_world v))"
    if n: "n < cache_ttl (ag_auth_cache s) True" for n
  proof -
    let ?t = "agent_step c T t (Wait n)"
    obtain v where v: "unlock c pw ?t = (Ok (), v)" "\<not> ag_locked v" "ag_auth_cache v = ag_auth_cache t"
      "ag_world v = ag_world ?t" "ag_cache_mode v = ag_cache_mode t"
      using lk by (simp add: unlock_eval)
    have "context_id (ag_cache_mode v) p (ag_world v) = context_id (ag_cache_mode t) p (ag_world t)"
      using v(4,5) context_id_cong [of t ?t] by (simp add: same_config_def same_env_def)
    also have "\<dots> = Some ctx"
      using context_id_cong [OF cfg] cfg assms(5) by (simp add: caller_context_def same_config_def)
    finally have "cached_grant v p ''decrypt@vt''"
      using v(3,4) e n by (simp add: cached_grant_def is_authorized_def agent_now_def)
    moreover have "yk_log (ag_world w) = yk_log (ag_world v)"
      if "ex_name e = ''decrypt@vt''" "extension_op c p e v = (r, w)" for e r w
      using withinD [OF served_decrypt [OF that(1)] that(2)] calculation
      by (simp add: served_quietly_def quiet_def no_consent_def same_device_def)
    ultimately show ?thesis using v(1,2) by (simp add: Let_def)
  qed
  have "touched u t" using g by (simp add: touch_grant_def)
  moreover have mid: "pool_run ?P (s1 @ s2) = ?M" by (simp only: pool_run_append s1 s2)
  moreover have "pool_run ?P ((s1 @ s2) @ s3) = finished 0 (Ok (ExtensionReply (Some x)), t) ?M"
    by (simp only: pool_run_append s1 s2 s3)
  ultimately show ?thesis
    using u(1) lk(1) later by (intro exI [of _ "s1 @ s2"] exI [of _ s3]) (simp add: Let_def)
qed

theorem decryption_outlives_lock_witness:
  "\<exists>before after x. let P = job_pool demo_crates (demo_agent\<lparr>ag_cache_mode := PerSession\<rparr>)
      [Handle (Some 7) (ReqExtension demo_decrypt_ext), Handle None (ReqLock ''a'')];
      end_pool = pool_run P (before @ after) in
    po_answers (pool_run P before) 1 = Some (Ok UnitReply) \<and> ag_locked (po_agent end_pool) \<and>
    po_answers end_pool 0 = Some (Ok (ExtensionReply (Some x))) \<and>
    cached_grant (snd (unlock demo_crates ''a'' (agent_step demo_crates 60 (po_agent end_pool) (Wait 1)))) (Some 7) ''decrypt@vt''"
proof -
  let ?s = "demo_agent\<lparr>ag_cache_mode := PerSession\<rparr>"
  let ?plain = "the_ser demo_decrypt_req demo_request"
  have unlocked: "\<not> ag_locked ?s" by (simp add: demo_agent_def agent_new_def)
  obtain u where u: "lock demo_crates ''a'' ?s = (Ok (), u)" using unlocked by (simp add: lock_eval)
  with unlocked have w: "ag_world u = demo_world" "ag_passphrase u = replicate 32 1" "ag_auth_token u = replicate 32 2"
    "ag_cache_mode u = PerSession" "ag_pin u = ag_pin demo_agent" "ag_auth_cache u = cache_clear (ag_auth_cache demo_agent)"
    by (auto simp: lock_eval)
  have out: "do_decrypt demo_crates (AesGcmCrypto (ag_passphrase u)) (unix_time (ag_world u)) (dr_items demo_request) =
      Ok [\<lparr>cr_result = [], cr_err_message = ''not a vt item''\<rparr>]"
    by (simp add: demo_request_def do_decrypt_def decrypt_item_def starts_with_def vt_prefix_def)
  have fits: "responds u" "grant_fits u"
    using demo_at_agent(2,3) w by (simp_all add: responds_def grant_fits_def touch_time_def Let_def cache_clear_def)
  have plain: "aes_decrypt demo_crates (AesGcmCrypto (ag_auth_token u)) (demo_box (replicate 32 2) ?plain) = Ok ?plain"
    using w(3) by simp
  obtain x t where run: "extension_unlocked demo_crates (Some 7) demo_decrypt_ext u = (Ok (Some x), t)"
    using extension_unlocked_answers [OF _ _ demo_laws(1) fits plain _ out, of _ "Some 7"] w demo_de_the_ser(1) demo_ser_results
    unfolding demo_decrypt_ext_def by fastforce
  have name: "ex_name demo_decrypt_ext = ''decrypt@vt''" by (simp add: demo_decrypt_ext_def)
  obtain ctx where "caller_context (Some 7) u = Some ctx" using w(4) by (simp add: caller_context_def context_id_def)
  moreover have "1 < cache_ttl (ag_auth_cache ?s) True" by (simp add: cache_ttl_def demo_agent_def agent_new_def auth_cache_new_def)
  ultimately show ?thesis
    using decryption_outlives_lock [OF unlocked u name run, of ctx None 60]
    unfolding Let_def by blast
qed

section \<open>A reload across a lock\<close>

text \<open>A signature after its lock check, as a task.\<close>

definition sign_rest :: "crates \<Rightarrow> i32 option \<Rightarrow> sign_request \<Rightarrow> task" where
  "sign_rest c p req = ensure_task c (touch_task (find_key c p req))"

lemma sign_task_rest: "sign_task c p req = unless_locked refuse (sign_rest c p req)"
  by (simp add: sign_rest_def sign_task_find)

lemma sign_rest_order: "in_lock_order {} (sign_rest c p req)"
  unfolding sign_rest_def find_key_def sign_found_def Let_def by (intro order_intros; simp)+

lemma sign_rest_alone: "run_alone (sign_rest c p req) = replies SignReply (sign_unlocked c p req)"
  by (simp add: sign_rest_def find_key_def sign_found_def sign_unlocked_def replies_def Let_def alone_eval io_ret_of
      io_fail_of cong: if_cong option.case_cong del: io_prim_simps)

lemma sign_same_lock: "within same_lock (sign_unlocked c p req)"
  unfolding sign_unlocked_def Let_def by (intro frame_intros)

lemma signed_same_keys:
  assumes "ensure_keys_loaded c u = (Ok (), v)" and "sign_unlocked c p req u = (Ok sg, t)"
  shows "ag_keys t = ag_keys v" and "map_of (ag_keys v) (fingerprint_str c (sr_pubkey req)) \<noteq> None"
proof -
  let ?fp = "fingerprint_str c (sr_pubkey req)" and ?v = "v\<lparr>ag_last_activity := agent_now v\<rparr>"
  obtain k label m x y where found: "map_of (ag_keys v) ?fp = Some k"
    and chk: "check_or_prompt_auth c p ?fp m False ?v = (Ok True, x)"
    and log: "in_world (log_sign c p (peer_name p (ag_world v)) (peer_caller p (ag_world v)) label ?fp True) x = (Ok (), y)"
    and t: "t = y"
    using assms
    by (auto simp: sign_unlocked_def touch_activity_def io_seq_def io_bind_eq_Ok Let_def split: option.splits if_splits)
  have "ag_keys x = ag_keys v" using withinD [OF check_frames(3) chk] by (simp add: same_keys_def)
  with log t show "ag_keys t = ag_keys v" by (auto simp: in_world_eq)
  show "map_of (ag_keys v) ?fp \<noteq> None" using found by simp
qed

text \<open>
  C21. What the barrier of the lock does not cover: keys cleared for idleness.  \<open>lock\<close> does not take back the mark of
  the idle sweeper, and \<open>ensure_keys_loaded\<close> does not look at the lock again.  When a signature request has passed its
  check of the lock and a lock is then taken and answered, the request still loads all stored keys from the file, signs,
  and is answered by the locked agent, which is left with those keys in its memory.
\<close>

theorem reload_outlives_lock:
  assumes "\<not> ag_locked s" and "ag_keys s = []" and "ag_idle_cleared s"
    and "lock c pw s = (Ok (), u)" and "sign_unlocked c p req u = (Ok sg, t)"
  shows "\<exists>before after. let P = job_pool c s [Handle p (ReqSign req), Handle q (ReqLock pw)];
      mid = pool_run P before; end_pool = pool_run P (before @ after); t = po_agent end_pool in
    po_answers mid 1 = Some (Ok UnitReply) \<and> po_answers mid 0 = None \<and>
    ag_locked (po_agent mid) \<and> ag_keys (po_agent mid) = [] \<and>
    po_answers end_pool 0 = Some (Ok (SignReply sg)) \<and> ag_locked t \<and>
    load_all_keys c (ag_passphrase s) (ag_world s) = (Ok (ag_keys t), ag_world s) \<and>
    map_of (ag_keys t) (fingerprint_str c (sr_pubkey req)) \<noteq> None"
proof -
  let ?P = "job_pool c s [Handle p (ReqSign req), Handle q (ReqLock pw)]"
  let ?rest = "sign_rest c p req"
  have "gets_to 0 ?P ?rest"
    using assms(1) by (intro gets_past_lock [where j = refuse]) (simp_all add: sign_task_rest)
  then obtain s1 where s1: "pool_run ?P s1 = with_task 0 ?rest ?P" by (auto simp: gets_to_def)
  let ?Q = "with_task 0 ?rest ?P"
  have lock_alone: "run_alone (lock_task c pw) s = (Ok UnitReply, u)"
    using assms(4) by (simp add: lock_alone replies_def io_bind_eval)
  obtain s2 where s2: "pool_run ?Q s2 = finished 1 (Ok UnitReply, u) ?Q"
    using run_to_end [of ?Q 1] lock_unlock_order(1) lock_alone by auto
  let ?M = "finished 1 (Ok UnitReply, u) ?Q"
  have rest_alone: "run_alone ?rest u = (Ok (SignReply sg), t)"
    using assms(5) by (simp add: sign_rest_alone replies_def io_bind_eval)
  obtain s3 where s3: "pool_run ?M s3 = finished 0 (Ok (SignReply sg), t) ?M"
    using run_to_end [of ?M 0] sign_rest_order rest_alone by auto
  have u: "ag_locked u" "ag_keys u = []" "ag_idle_cleared u" "ag_passphrase u = ag_passphrase s" "ag_world u = ag_world s"
    using assms(1,3,4) by (auto simp: lock_eval)
  obtain x where "ensure_keys_loaded c u = (Ok (), x)"
    using assms(5) by (auto simp: sign_unlocked_def io_seq_def io_bind_eq_Ok Let_def simp del: io_bind_assoc)
  then obtain ks w where load: "load_all_keys c (ag_passphrase s) (ag_world s) = (Ok ks, w)"
    and v: "ensure_keys_loaded c u = (Ok (), u\<lparr>ag_keys := ks, ag_idle_cleared := False\<rparr>)"
    using u by (cases "load_all_keys c (ag_passphrase s) (ag_world s)") (auto simp: ensure_eval split: outcome.splits)
  have "w = ag_world s" using load by (rule load_all_keys_state)
  have lk: "ag_locked t"
    using withinD [OF sign_same_lock assms(5)] u(1) by (simp add: same_lock_def)
  have mid: "pool_run ?P (s1 @ s2) = ?M" by (simp only: pool_run_append s1 s2)
  moreover have "pool_run ?P ((s1 @ s2) @ s3) = finished 0 (Ok (SignReply sg), t) ?M"
    by (simp only: pool_run_append s1 s2 s3)
  ultimately show ?thesis
    using u(1,2) lk load \<open>w = ag_world s\<close> signed_same_keys [OF v assms(5)]
    by (intro exI [of _ "s1 @ s2"] exI [of _ s3]) (simp add: Let_def)
qed

theorem reload_outlives_lock_witness:
  "\<exists>s before after sg. let P = job_pool demo_crates s [Handle None (ReqSign demo_sign_request), Handle None (ReqLock ''a'')];
      end_pool = pool_run P (before @ after) in
    po_answers (pool_run P before) 1 = Some (Ok UnitReply) \<and> po_answers end_pool 0 = Some (Ok (SignReply sg)) \<and>
    ag_locked (po_agent end_pool) \<and> ag_keys (po_agent end_pool) \<noteq> []"
proof -
  let ?e = "entry_of demo_crates demo_key ''k'' (of_bytes [1])"
  let ?k = "\<lparr>pk_key_data = Ecdsa NistP256 [1] [1], pk_comment = ''demo''\<rparr>"
  let ?fp = "fingerprint_str demo_crates [7]"
  obtain w where w: "save_ssh_keys_to_file demo_crates (AesGcmCrypto (replicate 32 1)) [?e] demo_world = (Ok (), w)"
    using demo_save by blast
  have d: "dev w = demo_device"
    using withinD [OF same_env_save w] by (simp add: same_env_def)
  have "load_ssh_keys_from_file demo_crates (AesGcmCrypto (replicate 32 1)) w = (Ok [?e], w)"
    using ssh_keys_load_after_save [OF demo_aead_ok _ demo_keys_readable w] by (simp add: demo_serde_ok)
  then have load: "load_all_keys demo_crates (replicate 32 1) w = (Ok [(?fp, ?k)], w)"
    by (simp add: load_all_keys_def aes_new_32 insert_entry_def entry_of_def demo_public io_bind_def)
  let ?s = "demo_agent\<lparr>ag_world := w, ag_keys := [], ag_idle_cleared := True\<rparr>"
  obtain u where u: "lock demo_crates ''a'' ?s = (Ok (), u)" by (simp add: lock_eval)
  let ?v = "u\<lparr>ag_keys := [(?fp, ?k)], ag_idle_cleared := False\<rparr>"
  let ?x = "?v\<lparr>ag_last_activity := agent_now ?v\<rparr>"
  have sel: "ag_world u = w" "ag_cache_mode u = CacheNone" "ag_passphrase u = replicate 32 1" "ag_keys u = []" "ag_idle_cleared u"
    using u by (auto simp: lock_eval)
  with load have v: "ensure_keys_loaded demo_crates u = (Ok (), ?v)" by (simp add: ensure_eval)
  obtain y where y: "check_or_prompt_auth demo_crates None ?fp (sign_message ''demo'' []) False ?x = (Ok True, y)"
    using demo_check [of ?x] d sel by fastforce
  obtain z where z: "in_world (log_sign demo_crates None [] [] ''demo'' ?fp True) y = (Ok (), y\<lparr>ag_world := z\<rparr>)"
    using log_run(1) by blast
  obtain sg where "sign_unlocked demo_crates None demo_sign_request u = (Ok sg, y\<lparr>ag_world := z\<rparr>)"
    using v y z
    by (simp add: sign_unlocked_def touch_activity_def io_bind_def demo_sign_request_def peer_name_def peer_caller_def
        unwrap_or_empty_def sign_with_key_def Let_def)
  from reload_outlives_lock [OF _ _ _ u this, of None] show ?thesis
    unfolding Let_def by (intro exI [of _ ?s]) (fastforce simp: demo_agent_sel)
qed

end
