(* ===== verification/Vt_Torn.thy ===== *)
theory Vt_Torn
  imports Vt_Trail
begin

text \<open>
  Two sessions that log at the same time.  \<open>writeln!(f, "{}", line)\<close> on an unbuffered \<open>File\<close> makes one write for the
  text of the argument and one for the line feed; with \<open>O_APPEND\<close> each of the two is atomic, the pair is not.
\<close>

section \<open>Two texts on one line\<close>

lemma tokens_text: "tokens (json_text ms @ cs) = map_option (\<lambda>ts. TOpen # member_tokens ms @ TClose # ts) (tokens cs)"
  by (cases "tokens cs") (simp_all add: json_text_def tokens_members)

lemma read_members_rest: "r \<noteq> [] \<Longrightarrow> read_members (member_tokens ms @ TClose # r) = None"
proof (induction ms rule: member_tokens.induct)
  case 1
  then show ?case by (simp add: read_members.simps split: list.split)
next
  case (2 k v)
  then show ?case by (subst read_members.simps) (simp add: read_value_back split: list.split)
next
  case (3 k v m ms)
  then show ?case by (subst read_members.simps) (simp add: read_value_back)
qed

lemma two_texts_unreadable: "json_read (json_text a @ json_text b) = None"
  using tokens_text [of a "json_text b"] tokens_text [of b "[]"] by (simp add: json_read_def read_members_rest)

lemma empty_line_unreadable: "json_read [] = None"
  by (simp add: json_read_def)

section \<open>Interleaved writes\<close>

text \<open>The writes of one call of \<open>write_event\<close>, each with the bytes it appends.\<close>

definition event_writes :: "crates \<Rightarrow> audit_event \<Rightarrow> bytes list" where
  "event_writes c e = (case js_audit c e of Inl _ \<Rightarrow> [] | Inr line \<Rightarrow> [as_bytes line, [0x0A]])"

text \<open>The file after some writes, and what a reader finds in it.\<close>

definition appended_writes :: "bytes \<Rightarrow> bytes list \<Rightarrow> bytes" where
  "appended_writes old ws = old @ concat ws"

definition read_log :: "(string \<Rightarrow> json_object option) \<Rightarrow> bytes \<Rightarrow> audit_event option list" where
  "read_log rd bs = map (\<lambda>l. Option.bind (rd l) json_event) (log_lines (of_bytes bs))"

lemma read_log_append: "whole_lines xs \<Longrightarrow> read_log rd (xs @ ys) = read_log rd xs @ read_log rd ys"
  by (simp add: read_log_def log_lines_append)

text \<open>The texts are those of compact JSON.\<close>

definition compact_json :: "crates \<Rightarrow> bool" where
  "compact_json c \<longleftrightarrow> (\<forall>e. js_audit c e = Inr (json_text (event_json e)))"

lemma read_line: "read_log json_read (as_bytes (json_text (event_json e)) @ [0x0A]) = [Some e]"
  by (simp add: read_log_def log_lines_one json_text_line json_read_back)

lemma read_torn:
  "read_log json_read (as_bytes (json_text (event_json a)) @ as_bytes (json_text (event_json b)) @ [0x0A, 0x0A]) = [None, None]"
proof -
  let ?l = "json_text (event_json a) @ json_text (event_json b)"
  have "as_bytes (json_text (event_json a)) @ as_bytes (json_text (event_json b)) @ [0x0A, 0x0A] = (as_bytes ?l @ [0x0A]) @ (as_bytes [] @ [0x0A])"
    by (simp add: as_bytes_def)
  moreover have "log_lines (of_bytes (as_bytes ?l @ [0x0A])) = [?l]" by (rule log_lines_one) (simp add: json_text_line)
  then have "read_log json_read (as_bytes ?l @ [0x0A]) = [None]"
    unfolding read_log_def by (simp add: two_texts_unreadable del: as_bytes_append)
  moreover have "read_log json_read (as_bytes [] @ [0x0A]) = [None]"
    by (simp add: read_log_def log_lines_one empty_line_unreadable)
  ultimately show ?thesis
    using read_log_append [of "as_bytes ?l @ [0x0A]" json_read "as_bytes [] @ [0x0A]"] by (simp add: whole_lines_def)
qed

text \<open>
  C25. The audit log can lose entries: two calls of \<open>write_event\<close> whose writes interleave, by two sessions of the agent or by
  the agent and \<open>serve\<close>, leave either both entries in one of the two orders, or a line with both texts and an
  empty line, from which a reader gets neither; the second does happen.
\<close>

theorem torn_audit_lines:
  assumes "compact_json c" and "whole_lines old"
  shows "(\<lambda>ws. read_log json_read (appended_writes old ws)) ` shuffles (event_writes c a) (event_writes c b) =
    {read_log json_read old @ [Some a, Some b], read_log json_read old @ [Some b, Some a], read_log json_read old @ [None, None]}"
proof -
  let ?t = "\<lambda>e. as_bytes (json_text (event_json e))"
  have w: "event_writes c e = [?t e, [0x0A]]" for e using assms(1) by (simp add: event_writes_def compact_json_def)
  have l: "whole_lines (?t x @ [0x0A])" for x by (simp add: whole_lines_def)
  have two: "read_log json_read (appended_writes old [?t x, [0x0A], ?t y, [0x0A]]) = read_log json_read old @ [Some x, Some y]" for x y
    using read_log_append [OF assms(2)] read_log_append [OF l, of json_read x "?t y @ [0x0A]"] read_line
    by (simp add: appended_writes_def)
  have torn: "read_log json_read (appended_writes old [?t x, ?t y, [0x0A], [0x0A]]) = read_log json_read old @ [None, None]" for x y
    using read_log_append [OF assms(2)] read_torn by (simp add: appended_writes_def)
  have "shuffles [?t a, [0x0A]] [?t b, [0x0A]] =
    {[?t a, [0x0A], ?t b, [0x0A]], [?t b, [0x0A], ?t a, [0x0A]], [?t a, ?t b, [0x0A], [0x0A]], [?t b, ?t a, [0x0A], [0x0A]]}"
    by auto
  then show ?thesis unfolding w by (simp only: image_insert image_empty two torn insert_absorb2)
qed

text \<open>One write with the line feed in it would do: then the lines of two calls never mix.\<close>

theorem single_writes_keep_lines:
  assumes "compact_json c" and "whole_lines old"
  shows "(\<lambda>ws. read_log json_read (appended_writes old ws)) ` shuffles [concat (event_writes c a)] [concat (event_writes c b)] =
    {read_log json_read old @ [Some a, Some b], read_log json_read old @ [Some b, Some a]}"
proof -
  have w: "concat (event_writes c e) = as_bytes (json_text (event_json e)) @ [0x0A]" for e
    using assms(1) by (simp add: event_writes_def compact_json_def)
  have two: "read_log json_read (old @ concat (event_writes c x) @ concat (event_writes c y)) = read_log json_read old @ [Some x, Some y]" for x y
  proof -
    have l: "whole_lines (concat (event_writes c x))" by (simp add: w whole_lines_def)
    have "read_log json_read (concat (event_writes c z)) = [Some z]" for z by (simp only: w read_line)
    then show ?thesis by (simp only: read_log_append [OF assms(2)] read_log_append [OF l] append_Cons append_Nil)
  qed
  have "shuffles [x] [y] = {[x, y], [y, x]}" for x y :: bytes by auto
  then show ?thesis by (simp only: image_insert image_empty appended_writes_def concat.simps append_Nil2 two)
qed

lemma demo_compact: "compact_json demo_crates"
  by (simp add: compact_json_def)

theorem torn_audit_lines_witness:
  "(\<lambda>ws. read_log json_read (appended_writes [] ws)) `
     shuffles (event_writes demo_crates (encrypt_entry None demo_world 1)) (event_writes demo_crates (encrypt_entry None demo_world 2)) =
   {[Some (encrypt_entry None demo_world 1), Some (encrypt_entry None demo_world 2)],
    [Some (encrypt_entry None demo_world 2), Some (encrypt_entry None demo_world 1)], [None, None]}"
  using torn_audit_lines [OF demo_compact, of "[]"]
  by (simp add: whole_lines_def read_log_def log_lines_def of_bytes_def)

end
