(* ===== verification/Vt_Whole.thy ===== *)
theory Vt_Whole
  imports Vt_Transfer Vt_Progress
begin

text \<open>
  The programs put together: a directory initialised once, agents started on it at any later times, and clients
  that hold the token that \<open>init\<close> printed.
\<close>

section \<open>What a stored secret loads as\<close>

lemma ecies_decrypt_stored:
  assumes "ecies_of c pub p ct" and "piv_matches c (dev w) pub" and "ecies_decrypt c ct w = (Ok q, v)"
  shows "q = p"
proof -
  from assms(1) obtain k where k: "ec_ephemeral_pubkey ct = p256_public c k"
    "gcm_open c (sha256 c (p256_dh c k pub)) (ec_nonce ct) (ec_ciphertext ct) = Inr p"
    by (auto simp: ecies_of_def)
  from assms(3) obtain s where "dev_ecdh (dev w) (dev_tick w) (p256_public c k) = Inr s"
    and q: "gcm_open c (sha256 c s) (ec_nonce ct) (ec_ciphertext ct) = Inr q"
    by (cases "dev_ecdh (dev w) (dev_tick w) (p256_public c k)")
      (auto simp: ecies_decrypt_def notify_touch_def yk_ecdh_def io_bind_eq_Ok k(1) dev_call_def aes_init_def ensure_def Let_def
        split: if_splits)
  with assms(2) have "s = p256_dh c k pub" by (auto simp: piv_matches_def)
  with k q show ?thesis by simp
qed

lemma loads_stored:
  assumes "home w = Some h" and "piv_matches c (dev w) pub"
  shows "stored c (files w) (vt_file h ''passphrase.enc'') pub p \<Longrightarrow> load_passphrase c w = (Ok q, v) \<Longrightarrow> q = p"
    and "stored c (files w) (vt_file h ''auth_token.enc'') pub p \<Longrightarrow> load_auth_token c w = (Ok q, v) \<Longrightarrow> q = p"
proof -
  have rd: "q = p" if st: "stored c (files w) path pub p" and r: "read_ecies_file c path w = (Ok ct, u)"
    and e: "ecies_decrypt c ct u = (Ok q, x)" for path ct u x
  proof -
    have "u = w" "ecies_of c pub p ct"
      using st r by (auto simp: stored_def read_ecies_file_def fs_read_def io_bind_eq_Ok split: option.splits)
    with e assms(2) ecies_decrypt_stored show ?thesis by blast
  qed
  show "stored c (files w) (vt_file h ''passphrase.enc'') pub p \<Longrightarrow> load_passphrase c w = (Ok q, v) \<Longrightarrow> q = p"
    and "stored c (files w) (vt_file h ''auth_token.enc'') pub p \<Longrightarrow> load_auth_token c w = (Ok q, v) \<Longrightarrow> q = p"
    using assms(1) rd
    by (auto simp: load_passphrase_def load_auth_token_def io_bind_eq_Ok paths_eval ensure_def split: if_splits)
qed

section \<open>The secrets of an agent\<close>

text \<open>The home directory and the two secret files are as they were.\<close>

definition same_vault :: "string \<Rightarrow> world \<Rightarrow> world \<Rightarrow> bool" where
  "same_vault h w v \<longleftrightarrow> home v = home w \<and>
     files v (vt_file h ''passphrase.enc'') = files w (vt_file h ''passphrase.enc'') \<and>
     files v (vt_file h ''auth_token.enc'') = files w (vt_file h ''auth_token.enc'')"

lemma agent_secrets:
  assumes run: "run_ssh_agent c pid pe mode sd dd w = (Ok g, v)"
    and h: "home w = Some h" and piv: "piv_matches c (dev w) pub"
    and st: "stored c (files w) (vt_file h ''passphrase.enc'') pub p" "stored c (files w) (vt_file h ''auth_token.enc'') pub tok"
  shows "ag_passphrase g = p \<and> ag_auth_token g = tok"
proof -
  obtain pin w1 t w2 q w3 where 1: "open_and_verify_pin c w = (Ok pin, w1)" and 2: "load_auth_token c w1 = (Ok t, w2)"
    and 3: "load_passphrase c w2 = (Ok q, w3)"
    and 4: "run_ssh_agent_inner c pid pe mode sd dd q t pin w3 = (Ok g, v)"
    using run by (auto simp: run_ssh_agent_def io_bind_eq_Ok)
  have e: "same_env w w1" "same_files w w1" "same_env w1 w2" "same_files w1 w2"
    using withinD [OF same_env_loads(3) 1] withinD [OF same_files_loads(3) 1]
      withinD [OF same_env_loads(2) 2] withinD [OF same_files_loads(2) 2] by simp_all
  have w1: "home w1 = Some h" "piv_matches c (dev w1) pub" and w2: "home w2 = Some h" "piv_matches c (dev w2) pub"
    using e h piv by (simp_all add: same_env_def)
  have "t = tok" using loads_stored(2) [OF w1 _ 2] st(2) e(2) by (simp add: same_files_def)
  moreover have "q = p" using loads_stored(1) [OF w2 _ 3] st(1) e(2,4) by (simp add: same_files_def)
  moreover have "ag_passphrase g = q" "ag_auth_token g = t"
    using 4 by (auto simp: run_ssh_agent_inner_def io_bind_eq_Ok agent_new_def)
  ultimately show ?thesis by simp
qed

lemma requests_config:
  "within same_config (request_identities c)" "within same_config (sign_op c p r)" "within same_config (extension_op c p e)"
  "within same_config (add_identity c cred)" "within same_config (remove_identity c pub)"
  "within same_config (remove_all_identities c)" "within same_config (lock c pw)" "within same_config (unlock c pw)"
  unfolding request_identities_def sign_op_def sign_unlocked_def extension_op_def extension_unlocked_def add_identity_def
    add_identity_unlocked_def remove_identity_def remove_all_identities_def lock_def unlock_def
  by (intro frame_intros outcome_case_frame credential_case_frame)+

lemma run_secrets:
  "ag_passphrase (agent_run c T s evs) = ag_passphrase s \<and> ag_auth_token (agent_run c T s evs) = ag_auth_token s"
proof (induction evs rule: rev_induct)
  case (snoc e evs)
  have rq: "ag_passphrase (request_step c p r t) = ag_passphrase t \<and> ag_auth_token (request_step c p r t) = ag_auth_token t" for p r t
    by (cases r) (use requests_config withinS in \<open>fastforce simp: same_config_def\<close>)+
  then show ?case
    using snoc by (cases e) (simp_all add: idle_sweep_def cache_sweep_def)
qed simp

section \<open>What \<open>init\<close> leaves\<close>

text \<open>The public keys that the secrets may be encrypted to: one the device generated, or the one in the given file.\<close>

definition init_keys :: "crates \<Rightarrow> string option \<Rightarrow> world \<Rightarrow> bytes set" where
  "init_keys c pubkey w = (case pubkey of
     None \<Rightarrow> {pub. \<exists>t info der. dev_generate (dev w) t = Inr info \<and> spki_to_der c info = Inr der \<and>
                 parse_piv_public_key c der = Ok pub}
   | Some path \<Rightarrow> {pub. \<exists>der. read_pubkey_as_der c path w = (Ok der, w) \<and> parse_piv_public_key c der = Ok pub})"

definition token_line :: "string \<Rightarrow> string" where
  "token_line vt_auth = (''  export VT_AUTH='' @ vt_auth) @ [CHR 0x0A]"

lemma init_leaves:
  assumes laws: "aead_ok c" "sha256_ok c" "base64_ok c" "serde_ok (js_ecies c)"
    and run: "init c pubkey w = (Ok (), v)" and h: "home w = Some h"
  obtains pub p tok vt_auth where "pub \<in> init_keys c pubkey w" and "home v = Some h"
    and "stored c (files v) (vt_file h ''passphrase.enc'') pub p"
    and "stored c (files v) (vt_file h ''auth_token.enc'') pub tok" and "length p = 32" and "length tok = 32"
    and "decode_auth_cipher_from_b64 c vt_auth = Ok tok" and "last (stdout v) = token_line vt_auth"
proof -
  obtain vt_auth u where 1: "(case pubkey of Some path \<Rightarrow> yubikey_init_with_pubkey c path | None \<Rightarrow> yubikey_init c) w = (Ok vt_auth, u)"
    and 2: "print_token ''Initialization complete!'' vt_auth u = (Ok (), v)"
    using run by (auto simp: init_def io_bind_eq_Ok)
  have v: "files v = files u" "home v = home u" "last (stdout v) = token_line vt_auth"
    using 2 by (auto simp: print_token_def println_def print_str_def io_bind_def token_line_def)
  obtain pub cfg s where pub: "pub \<in> init_keys c pubkey w" and s: "home s = home w"
    and f: "write_fresh_secrets c pub cfg s = (Ok vt_auth, u)"
  proof (cases pubkey)
    case None
    then have "yubikey_init c w = (Ok vt_auth, u)" using 1 by simp
    then obtain s info der pub cfg where g: "dev_generate (dev w) (Suc (Suc (dev_tick w))) = Inr info"
      "spki_to_der c info = Inr der" "parse_piv_public_key c der = Ok pub" and s: "same_env w s"
      "write_fresh_secrets c pub cfg s = (Ok vt_auth, u)"
      by (rule yubikey_init_OkE)
    then have "pub \<in> init_keys c pubkey w" using None by (auto simp: init_keys_def)
    with s show thesis by (intro that) (simp_all add: same_env_def)
  next
    case (Some path)
    then have "yubikey_init_with_pubkey c path w = (Ok vt_auth, u)" using 1 by simp
    then show thesis
      by (rule init_with_pubkey_OkE) (use that Some in \<open>auto simp: init_keys_def\<close>)
  qed
  have "within same_env (write_fresh_secrets c pub cfg)"
    unfolding write_fresh_secrets_def generate_key_def Let_def by (intro frame_intros)
  from withinD [OF this f] have "home u = Some h" using s h by (simp add: same_env_def)
  with write_fresh_secrets_stored [OF laws f] pub v s h that show thesis by auto
qed

text \<open>An agent started on such a directory, after any run, with the device that holds the key.\<close>

definition agent_on :: "crates \<Rightarrow> string \<Rightarrow> bytes set \<Rightarrow> world \<Rightarrow> agent \<Rightarrow> bool" where
  "agent_on c h pubs w a \<longleftrightarrow>
     (\<exists>pid pe mode sd dd u g x T evs. same_vault h w u \<and> (\<forall>pub \<in> pubs. piv_matches c (dev u) pub) \<and>
        run_ssh_agent c pid pe mode sd dd u = (Ok g, x) \<and> a = agent_run c T g evs)"

lemma agent_on_secrets:
  assumes "agent_on c h pubs w a" and "home w = Some h" and "pub \<in> pubs"
    and "stored c (files w) (vt_file h ''passphrase.enc'') pub p" and "stored c (files w) (vt_file h ''auth_token.enc'') pub tok"
  shows "ag_passphrase a = p" and "ag_auth_token a = tok"
proof -
  obtain pid pe mode sd dd u g x T evs where u: "same_vault h w u" "piv_matches c (dev u) pub"
    and g: "run_ssh_agent c pid pe mode sd dd u = (Ok g, x)" and a: "a = agent_run c T g evs"
    using assms(1,3) by (auto simp: agent_on_def)
  have "ag_passphrase g = p \<and> ag_auth_token g = tok"
    by (rule agent_secrets [OF g _ u(2)]) (use u(1) assms(2,4,5) in \<open>auto simp: same_vault_def stored_def\<close>)
  then show "ag_passphrase a = p" "ag_auth_token a = tok" by (simp_all add: a run_secrets)
qed

text \<open>
  C5. A secret survives: once \<open>init\<close> has succeeded, with a generated or a given key, a client that holds
  the token it printed and keeps a secret with \<open>create -d\<close> through one agent reads exactly this secret (for a TOTP secret
  its current code) by its number through any other agent, started at any other time by any of the YubiKeys that hold
  the key and after any run of requests, and only with a live grant or a touch.
\<close>

theorem secret_survives_restarts:
  assumes "aead_ok c" and "sha256_ok c" and "base64_ok c" and "serde_ok (js_ecies c)" and "serde_ok (js_encrypt_items c)"
    and "serde_ok (js_decrypt_req c)" and "serde_ok (js_results c)" and "index_laws c"
    and init: "init c pubkey w0 = (Ok (), w1)" "home w0 = Some h"
    and client: "last (stdout w1) = token_line (vc_auth_token client)" "vc_base_url client = None"
    and agents: "agent_on c h (init_keys c pubkey w0) w1 (sy_agent s)" "agent_on c h (init_keys c pubkey w0) w1 (sy_agent s2)"
    and create: "index_readable (sy_client s)" "d \<noteq> []" "rust_str secret"
      "create_input file (sy_client s) = (Ok (ty, secret), w)" "create c lib client (Some d) file s = (Ok (), t)"
    and read: "same_index (sy_client t) (sy_client s2)" "n = Suc (length (index_or_empty c (sy_client s)))" "n \<le> usize_max"
      "read_secret c lib client (show_nat n) False s2 = (Ok (), t2)"
  shows "\<exists>p. reveal c (unix_time (ag_world (sy_agent s2))) \<lparr>ei_plaintext = secret, ei_t = ty\<rparr> = Ok p \<and>
    stdout (sy_client t2) = stdout (sy_client s2) @ [p] \<and>
    (cached_grant (sy_agent s2) (sy_peer s2) ''decrypt@vt'' \<or> touched (sy_agent s2) (sy_agent t2))"
proof -
  obtain pub p tok vt_auth where pub: "pub \<in> init_keys c pubkey w0" and w1: "home w1 = Some h"
    and st: "stored c (files w1) (vt_file h ''passphrase.enc'') pub p" "stored c (files w1) (vt_file h ''auth_token.enc'') pub tok"
    and vt: "decode_auth_cipher_from_b64 c vt_auth = Ok tok" "last (stdout w1) = token_line vt_auth"
    using init_leaves [OF assms(1-4) init] by metis
  note one = agent_on_secrets [OF agents(1) w1 pub st] and two = agent_on_secrets [OF agents(2) w1 pub st]
  have "vt_auth = vc_auth_token client" using client(1) vt(2) by (simp add: token_line_def)
  then have "decode_auth_cipher_from_b64 c (vc_auth_token client) = Ok (ag_auth_token (sy_agent s))"
    using vt(1) one by simp
  from create_then_read [OF assms(1,3,5-8) client(2) this create read(1) _ _ read(2-4)] one two show ?thesis by simp
qed

text \<open>A directory initialised on the demonstration device, and an agent started on it twice.\<close>

definition demo_fresh :: world where
  "demo_fresh = demo_world\<lparr>osrng := (\<lambda>n. if n < 76 then 1 else 2)\<rparr>"

definition demo_ecies_box :: "u8 \<Rightarrow> u8 \<Rightarrow> bytes \<Rightarrow> ecies_ciphertext" where
  "demo_ecies_box k n p = \<lparr>ec_ephemeral_pubkey = [k], ec_nonce = replicate 12 n,
     ec_ciphertext = p @ demo_tag (demo_sha [k, 42]) (replicate 12 n)\<rparr>"

text \<open>What it leaves on the disk.\<close>

definition demo_dir :: "world \<Rightarrow> bool" where
  "demo_dir w \<longleftrightarrow> home w = Some ''/h'' \<and>
     files w ''/h/.vt-yubi/config.toml'' = Some (the_ser demo_config \<lparr>cfg_yubikey_serial = 7, cfg_piv_public_key_der = [42]\<rparr>) \<and>
     files w ''/h/.vt-yubi/passphrase.enc'' = Some (the_ser demo_ecies (demo_ecies_box 32 1 (replicate 32 1))) \<and>
     files w ''/h/.vt-yubi/auth_token.enc'' = Some (the_ser demo_ecies (demo_ecies_box 108 2 (replicate 32 2))) \<and>
     files w ''/h/.vt-yubi/ssh_keys.enc'' = None \<and> files w ''/h/.ssh/vt-yubi.sock'' = None"

lemma demo_draws:
  assumes "osrng w = osrng demo_fresh"
  shows "rng_pos w = 0 \<Longrightarrow> fill_bytes 32 w = (Ok (replicate 32 1), w\<lparr>rng_pos := 32\<rparr>)"
    and "rng_pos w = 64 \<Longrightarrow> fill_bytes 12 w = (Ok (replicate 12 1), w\<lparr>rng_pos := 76\<rparr>)"
    and "rng_pos w = 76 \<Longrightarrow> fill_bytes 32 w = (Ok (replicate 32 2), w\<lparr>rng_pos := 108\<rparr>)"
    and "rng_pos w = 140 \<Longrightarrow> fill_bytes 12 w = (Ok (replicate 12 2), w\<lparr>rng_pos := 152\<rparr>)"
  using assms by (simp_all add: fill_bytes_def demo_fresh_def numeral_eq_Suc upt_rec)

lemma demo_seals:
  assumes "osrng w = osrng demo_fresh"
  shows "rng_pos w = 32 \<Longrightarrow> ecies_encrypt demo_crates [42] p w = (Ok (demo_ecies_box 32 1 p), w\<lparr>rng_pos := 76\<rparr>)"
    and "rng_pos w = 108 \<Longrightarrow> ecies_encrypt demo_crates [42] p w = (Ok (demo_ecies_box 108 2 p), w\<lparr>rng_pos := 152\<rparr>)"
  using assms
  by (simp_all add: ecies_encrypt_def ephemeral_secret_def io_eval_defs Let_def aes_init_def demo_draws demo_ecies_box_def demo_seal_def
      del: fill_bytes_eval fill_bytes_def)

lemma demo_fresh_keys:
  "\<exists>u. yubikey_init demo_crates demo_fresh = (Ok (demo_b64 (replicate 32 2)), u) \<and> demo_dir u"
proof -
  have sha: "demo_sha (replicate 32 2) = replicate 32 2" by (simp add: demo_sha_def)
  have w: "home demo_fresh = Some ''/h''" "files demo_fresh = Map.empty" "dirs demo_fresh = {}" "rng_pos demo_fresh = 0"
    "dev demo_fresh = demo_device" "write_err demo_fresh = (\<lambda>p. None)" "mkdir_err demo_fresh = (\<lambda>p. None)"
    by (simp_all add: demo_fresh_def demo_world_def)
  have ser: "ser demo_ecies x = Inr (the_ser demo_ecies x)" "ser demo_config y = Inr (the_ser demo_config y)" for x y
    by (simp_all add: demo_ecies_def demo_config_def the_ser_def)
  show ?thesis
    by (simp add: io_eval_defs path_defs fs_defs ensure_dir_def save_config_def write_ecies_file_def parse_piv_public_key_def
        write_fresh_secrets_def yubikey_init_def yk_prim_defs dev_call_def generate_key_def Let_def demo_draws demo_seals
        w ser sha path_join_def demo_dir_def del: fill_bytes_eval fill_bytes_def)
qed

lemma demo_fresh_init:
  "\<exists>v. init demo_crates None demo_fresh = (Ok (), v) \<and> last (stdout v) = token_line (vc_auth_token demo_client) \<and> demo_dir v"
  using demo_fresh_keys
  by (auto simp: init_def io_bind_def print_token_def println_def print_str_def token_line_def demo_client_def demo_dir_def)

lemma demo_dir_starts:
  assumes "demo_dir w"
  defines "u \<equiv> demo_world\<lparr>files := files w, typed := [Inr ''123456'']\<rparr>"
  shows "\<exists>g x. run_ssh_agent demo_crates ''1'' False CacheNone 300 60 u = (Ok g, x) \<and> demo_like g"
proof -
  have w: "home u = Some ''/h''" "files u = files w" "dev u = demo_device" "typed u = [Inr ''123456'']" "dirs u = {}"
    "read_err u = (\<lambda>p. None)" "write_err u = (\<lambda>p. None)" "mkdir_err u = (\<lambda>p. None)"
    by (simp_all add: u_def demo_world_def)
  have utf: "utf8_valid (the_ser demo_config \<lparr>cfg_yubikey_serial = 7, cfg_piv_public_key_der = [42]\<rparr>)"
    by (simp add: the_ser_def demo_config_def show_nat.simps digit_char_def as_bytes_def byte_of_def
        utf8_valid_ascii_Cons del: utf8_valid.simps(2))
  have cfg: "load_config demo_crates s = (Ok \<lparr>cfg_yubikey_serial = 7, cfg_piv_public_key_der = [42]\<rparr>, s)"
    if "home s = Some ''/h''" "files s = files w" "read_err s = (\<lambda>p. None)" for s
    using that assms(1)
    by (simp add: load_config_def path_defs fs_defs io_eval_defs path_join_def from_utf8_def utf demo_dir_def)
  let ?s = "u\<lparr>typed := [], dev_tick := Suc (Suc (dev_tick u)), instant := 10 + instant u,
    yk_log := yk_log u @ [YkOpen True, YkPin True]\<rparr>"
  obtain p where pin: "open_and_verify_pin demo_crates u = (Ok p, ?s)"
    using w
    by (auto simp: open_and_verify_pin_def cfg io_eval_defs Let_def yk_prim_defs dev_call_def prompt_password_def)
  show ?thesis
    using assms(1) w
    by (simp add: run_ssh_agent_def pin run_ssh_agent_inner_def load_auth_token_def load_passphrase_def path_defs fs_defs io_eval_defs
        path_join_def read_ecies_file_def ecies_decrypt_def yk_ecdh_def dev_call_def notify_touch_def Let_def demo_dir_def
        demo_ecies_box_def aes_init_def load_all_keys_def aes_new_32 load_ssh_keys_from_file_def socket_path_def home_dir_def 
        create_dir_all_def agent_new_def demo_like_def io_seq_def io_when_def)
qed

lemma demo_dir_agent:
  assumes "demo_dir w" and "pubs \<subseteq> {[42]}"
  shows "\<exists>g. agent_on demo_crates ''/h'' pubs w g \<and> demo_like g"
proof -
  let ?u = "demo_world\<lparr>files := files w, typed := [Inr ''123456'']\<rparr>"
  obtain g x where g: "run_ssh_agent demo_crates ''1'' False CacheNone 300 60 ?u = (Ok g, x)" "demo_like g"
    using demo_dir_starts [OF assms(1)] by blast
  have "same_vault ''/h'' w ?u" "\<forall>pub \<in> pubs. piv_matches demo_crates (dev ?u) pub"
    using assms demo_piv_matches(1) by (auto simp: same_vault_def demo_dir_def)
  then have "agent_on demo_crates ''/h'' pubs w (agent_run demo_crates T g [])" for T
    unfolding agent_on_def using g(1) by blast
  with g(2) show ?thesis by (metis agent_run_simps(1))
qed

theorem secret_survives_restarts_witness:
  "\<exists>w1 s t s2 t2. init demo_crates None demo_fresh = (Ok (), w1) \<and>
     agent_on demo_crates ''/h'' (init_keys demo_crates None demo_fresh) w1 (sy_agent s) \<and>
     agent_on demo_crates ''/h'' (init_keys demo_crates None demo_fresh) w1 (sy_agent s2) \<and>
     create demo_crates demo_lib demo_client (Some ''note'') (Some ''-'') s = (Ok (), t) \<and>
     read_secret demo_crates demo_lib demo_client (show_nat 1) False s2 = (Ok (), t2) \<and>
     stdout (sy_client t2) = stdout (sy_client s2) @ [''pw''] \<and> touched (sy_agent s2) (sy_agent t2)"
proof -
  obtain w1 where init: "init demo_crates None demo_fresh = (Ok (), w1)" and line: "last (stdout w1) = token_line (vc_auth_token demo_client)"
    and dir: "demo_dir w1"
    using demo_fresh_init by blast
  have keys: "init_keys demo_crates None demo_fresh \<subseteq> {[42]}"
    by (auto simp: init_keys_def demo_fresh_def parse_piv_public_key_def)
  obtain g where g: "agent_on demo_crates ''/h'' (init_keys demo_crates None demo_fresh) w1 g" "demo_like g"
    using demo_dir_agent [OF dir keys] by blast
  obtain s t s2 t2 where s: "sy_agent s = g" "sy_agent s2 = g" "sy_peer s2 = None"
    and rd: "index_readable (sy_client s)" and none: "index_or_empty demo_crates (sy_client s) = []"
    and inp: "create_input (Some ''-'') (sy_client s) = (Ok (RAW, ''pw''), demo_piped\<lparr>stdin_data := Inr []\<rparr>)"
    and run: "create demo_crates demo_lib demo_client (Some ''note'') (Some ''-'') s = (Ok (), t)"
    and ix: "same_index (sy_client t) (sy_client s2)"
    and rrun: "read_secret demo_crates demo_lib demo_client (show_nat 1) False s2 = (Ok (), t2)"
    using demo_round_trip [OF g(2) g(2)] by metis
  have laws: "serde_ok (js_ecies demo_crates)" "serde_ok (js_encrypt_items demo_crates)" "serde_ok (js_decrypt_req demo_crates)"
    "serde_ok (js_results demo_crates)"
    by (simp_all add: demo_serde_ok)
  have pw: "rust_str ''pw''" using demo_raw_str by (simp add: demo_raw_def)
  have h: "home demo_fresh = Some ''/h''" by (simp add: demo_fresh_def)
  from secret_survives_restarts [OF demo_aead_ok demo_sha256_ok demo_base64_ok laws demo_index_laws init h line _ _ _ rd _ pw inp run ix _ _ rrun]
  have "stdout (sy_client t2) = stdout (sy_client s2) @ [''pw''] \<and> touched (sy_agent s2) (sy_agent t2)"
    using none g s by (simp add: usize_max_def reveal_def cached_grant_def context_id_def demo_like_def)
  with init run rrun g(1) s(1,2) show ?thesis by (intro exI conjI) auto
qed

end
