(* ===== verification/Spec2Isabelle.thy ===== *)
theory Spec2Isabelle
  imports Vt_Blind Vt_Caller Vt_Disk Vt_Index_Race Vt_Lifetime Vt_Main Vt_Platform Vt_Races Vt_Torn Vt_Unit_Tests Vt_Whole
begin

text \<open>
  vt-yubi keeps secrets and SSH keys encrypted under keys that only a YubiKey can release, and asks
  for a touch of the key before it signs or decrypts.  This library models the Rust sources under
  \<open>src/src\<close> as executable HOL definitions and proves what makes them correct.

  How the program is put together.  The agent (\<open>ssh_agent.rs\<close>) listens on a Unix socket, keeps the
  SSH keys in memory and answers signing, key management and the extensions \<open>encrypt@vt\<close>,
  \<open>decrypt@vt\<close> and \<open>auth@vt\<close>, whose contents are sealed with AES-GCM under a transport key that is
  stored encrypted to the YubiKey (\<open>security.rs\<close>, \<open>yk_backend.rs\<close>) and that clients derive from
  \<open>VT_AUTH\<close>.  An optional HTTP server (\<open>serve.rs\<close>) offers encryption and decryption in the same
  sealed form.  Both run \<open>core.rs\<close> on each item.  Every prompt names the host, the caller and the
  items; a cache of grants spares repeated touches; every operation is written to the audit log
  (\<open>audit.rs\<close>).  The client (\<open>cli.rs\<close>) creates, lists, reads, deletes and injects secrets through the
  agent or the server, and moves the master secret between machines; \<open>ssh_cli.rs\<close> manages the
  stored SSH keys on the machine with the YubiKey; \<open>main.rs\<close> dispatches the commands.

  Which theory models what.
    \<^item> \<open>Vt_Prelude\<close>: machine integers, panics and errors as values (\<open>outcome\<close>), the state-and-error
      monad of the handlers (\<open>io\<close>), and the interfaces the components share: frames
      (\<open>frame_rel\<close>: what an operation leaves alone), transition systems and codecs.
    \<^item> \<open>Vt_Strings\<close>: UTF-8, integer parsing and printing, splitting, case folding, as Rust's
      standard library defines them.
    \<^item> \<open>Vt_World\<close>: the third-party crates as a record of functions with their documented laws, the
      YubiKey, the file system, clock, terminal, environment and process table.  \<open>Vt_Json\<close>: the shape of an
      audit event as JSON, and its compact text with a reader.  \<open>Vt_Instance\<close>: one
      concrete choice of all of them, proved to satisfy the laws, for the witnesses.
    \<^item> \<open>Vt_Security\<close>: \<open>security.rs\<close>.  \<open>Vt_Core\<close>: \<open>core.rs\<close>.
    \<^item> \<open>Vt_Backend\<close>, \<open>Vt_Custody\<close>, \<open>Vt_Key_Store\<close>: \<open>yk_backend.rs\<close>; the operations, what
      initialisation leaves behind, and the file of SSH keys.
    \<^item> \<open>Vt_Wire\<close>: signature blobs of \<open>ssh_agent.rs\<close>.  \<open>Vt_Auth_Cache\<close>: \<open>AuthCache\<close>.
      \<open>Vt_Proc_Info\<close>: \<open>/proc\<close> parsing and the walk to the calling application.
      \<open>Vt_Prompt\<close>: the texts of the prompts; \<open>Vt_Caller\<close>: what they show of the process that asks.
      \<open>Vt_Audit\<close>: \<open>audit.rs\<close>.
    \<^item> \<open>Vt_Agent\<close>: every handler of the agent's session.  \<open>Vt_Consent\<close>: one request at a time.
      \<open>Vt_Agent_Run\<close>: start-up, the two sweepers and runs of arbitrary requests.
      \<open>Vt_Agent_Keys\<close>: the keys the agent holds, idle clearing and locking.  \<open>Vt_Session\<close>: the session
      of a connection with its peer, and the idle sweeper turn by turn.
      \<open>Vt_Trail\<close>: the audit log read back after any run.  \<open>Vt_Torn\<close>: two calls that log at the same time.
      \<open>Vt_Blind\<close>: what requests leave behind does not depend on secrets.
    \<^item> \<open>Vt_Tasks\<close>: the handlers and the sweepers again, as tasks that take and drop the guards of the
      six locks of \<open>VtSshAgentFactory\<close> in the order of the source (a task that nobody
      interrupts does what its handler does: \<open>job_alone\<close>).
      \<open>Vt_Interleave\<close>: the tasks under an arbitrary scheduler, with locks that serve in order of arrival;
      no deadlock, no endless run.  \<open>Vt_Barrier\<close>: a lock waits for signatures.  \<open>Vt_Overlap\<close>: consent
      when requests overlap.  \<open>Vt_Races\<close>: what does go wrong between two requests.
      \<open>Vt_Key_Types\<close>: the types the keys keep, in memory and in the key file.
      \<open>Vt_Keyring\<close>: an abstract keyring that the agent refines.  \<open>Vt_Lifetime\<close>: the socket over the lives of
      several agents, from \<open>bind\<close> to the signal handler.  \<open>Vt_Disk\<close>: the key file on a full disk.
    \<^item> \<open>Vt_Platform\<close>: the macOS variants of the process table, the peer of a socket and the notification.
    \<^item> \<open>Vt_No_Panic\<close>: which operations never panic, and frames of operations without a trace.
      \<open>Vt_Ssh_Cli\<close>: every command of \<open>ssh_cli.rs\<close>.  \<open>Vt_Serve\<close>: the handlers, the two middlewares
      and the start of \<open>serve.rs\<close>, with the extractors of axum as a parameter.
    \<^item> \<open>Vt_Client\<close>: \<open>VTClient\<close> of \<open>cli.rs\<close> in the whole system of client, agent and server.
      \<open>Vt_Secrets\<close>: \<open>create\<close>, \<open>list\<close>, \<open>delete\<close>, \<open>read\<close> and the index \<open>secrets.json\<close>; \<open>Vt_Commands\<close>:
      what these commands promise; \<open>Vt_Index_Race\<close>: several of them at the same time.  \<open>Vt_Inject\<close>: \<open>inject\<close>.  \<open>Vt_Transfer\<close>: \<open>init\<close>,
      \<open>export_secret\<close>, \<open>import_secret\<close>.  \<open>Vt_Main\<close>: the commands and \<open>run\<close> of \<open>main.rs\<close>.
      \<open>Vt_Progress\<close>: when a request succeeds.  \<open>Vt_Unit_Tests\<close>: the tests of the sources, run on the model.
      \<open>Vt_Whole\<close>: \<open>init\<close>, several agents and the client commands put together.

  Locales and their interpretations.  \<open>frame_rel\<close> is interpreted for each thing an operation
  leaves alone, and extended by \<open>client_quiet\<close> (a frame that the transports of the client keep), which
  is interpreted for the index, the output, the disk and the device; \<open>sealed_box\<close> for AES-GCM;
  \<open>codec\<close> for the encodings; \<open>key_store\<close> for the file of SSH keys and for the index of secrets;
  \<open>grant_store\<close> for the cache; \<open>transition_system\<close> for the agent, whose runs are lists of events from
  any client in any order; \<open>lock_order\<close>, the contract between the scheduler and the code that runs
  under it (guards are taken in increasing order; \<open>lock_id\<close> is an instance of \<open>linorder\<close>), for the tasks of the agent; \<open>refinement\<close>, an abstraction
  that every step carries over, for the agent and its keyring, and for the agents of a user and who is reached.

  What the lemmas show.  A signature or a decryption happens only under a touch or a live grant
  (for one request, for every run, and end to end from the client, the HTTP server and \<open>inject\<close>); the
  lock is left only with the right passphrase; what initialisation stores can be read back with
  the same device, and what one machine exports another imports; encryption and decryption of
  items round-trip, also from \<open>create\<close> through one agent on an initialised directory to \<open>read\<close> through another; signature blobs read back; the key file and the index
  hold what was saved; the commands on keys and secrets change exactly the entry they name;
  \<open>inject\<close> cleans up what it wrote, with the one exception of a failing \<open>fork\<close>; the only control characters of
  a prompt are those of the name of the caller's executable; client commands
  never use the device of their own machine; idle keys leave the memory in time.  When handlers interleave at their
  locks, every request is answered, and signatures and decryptions are still covered by a touch.  A lock waits for the
  signatures in progress and refuses the others, when the requests at hand bring no key into the memory and the keys were not
  cleared for idleness (\<open>lock_waits_for_signatures\<close>); with keys cleared, a signature past its lock check outlives the lock and
  fills the memory of the locked agent again (\<open>reload_outlives_lock\<close>); a decryption always can, and leaves a grant
  (\<open>decryption_outlives_lock\<close>); and two keys added at the same time can lose one of them in the key file.  Keys
  stay well typed in any schedule on a disk that does not cut writes off; a write of the key file that is cut off before
  the end of its nonce, as on a full disk, loses all keys, and the request reports success (\<open>full_disk_loses_keys\<close>).  Every use is in the audit log, in the file of its day,
  and every line of the log is true, as long as the log can be written (the code goes on without it when it cannot) and calls that
  log do not overlap; if they do, both lines can be lost (\<open>torn_audit_lines\<close>).
  Outside its sealed answer an extension request leaves nothing that depends on a secret.  Simultaneous \<open>create\<close>s can
  empty the index (\<open>creates_can_wipe_index\<close>) and undo a \<open>delete\<close>.  One request at a time, with a key file that works, the agent is in step with a set
  of fingerprints and a lock; it is not if a key is added after an idle sweep (\<open>idle_add_hides_stored_keys\<close>).
  A new agent always gets the socket; an older one that is signalled takes it away again.

  Bounds and fuel.  The runs of tasks need no fuel: they end because each move takes a task to a part of
  itself or from waiting to holding, a multiset that goes down.  The walks over the process table stop after 64 processes (\<open>find_app_pid\<close>) and 8
  ancestors in the code as well: their fuel is the code's own counter.  Everything else is
  structurally recursive, a fold, or recursive on the rest of a text with its length as measure.
  Machine integers keep their width where they can wrap.

  The world.  Files are written over in place: \<open>fs_write\<close>, for \<open>std::fs::write\<close>, can fail before the file is opened
  (\<open>NotOpened\<close>) or after some bytes (\<open>CutOff\<close>), when the old contents are gone; which fault a path has is an oracle.  A failure
  clause of a theorem therefore has the exception of a write that was cut off, where the code has it.  An append, a rename
  and a removal are done as a whole or not at all (but see \<open>Vt_Torn\<close> for appends).  There are no symbolic links: what the code does
  with one is not shown (for \<open>inject -r\<close> on a link, copying and writing follow the link, and the rename of the cleanup
  replaces it, so the file behind it keeps the plaintext).  The monotonic clock moves with \<open>Wait\<close> and with each touch; the date and the
  wall clock move with \<open>ClockReads\<close> between two requests of a run, backwards as well, and stand still within a request.

  What is not modelled.  The bytes on the sockets, the listen loop of \<open>ssh_agent_lib\<close>, and when a signal arrives.  Outside \<open>Vt_Tasks\<close> and what builds on it a handler runs to
  its end before the next one starts; there the code between two awaits is one step or several, and
  no task moves while another waits for a touch, which is one step that takes as long as the wait.  The processes that display a
  notification, the inside of clap (its result is an argument of \<open>main_program\<close>), log lines other than those with bodies, messages on standard error.  Connecting, \<open>fork\<close>, \<open>exec\<close>, the clipboard program and
  the iteration order of a \<open>HashMap\<close> are oracles of the model.
\<close>

end
